(* ===== verification/Prelude.thy ===== *)
theory Prelude
  imports Complex_Main "HOL-Library.Word" "HOL-Library.Char_ord" "HOL-Library.List_Lexorder"
    "HOL-Library.Product_Lexorder"
begin

text \<open>
  Shared vocabulary of the development: the machine integers of the Rust sources, the
  fallible results, the collections of rewrite rules, and the generic lemmas on lists and
  ordered data that more than one component uses.

  Integers. Unsigned machine integers are words (\<open>u32\<close>, \<open>u64\<close>). Signed 64-bit integers are
  kept as \<^typ>\<open>int\<close> together with the explicit two's complement reduction \<open>i64_wrap\<close>; every
  arithmetic operator of the sources on an \<open>i64\<close> is one of \<open>i64_add\<close> and \<open>i64_sub\<close>, which
  wrap the way an optimised build of the workspace does (its manifest sets no
  \<^verbatim>\<open>overflow-checks\<close>). Inside the range they agree with the mathematical operation
  (\<open>i64_add_exact\<close>, \<open>i64_sub_exact\<close>), and there a build with overflow checks computes the
  same values.

  Strings are byte lists, as a Rust \<^verbatim>\<open>str\<close> is a byte sequence; the order on them is the
  lexicographic byte order of \<^verbatim>\<open>Ord for String\<close>.
\<close>

section \<open>Machine integers\<close>

type_synonym u8 = "8 word"
type_synonym u16 = "16 word"
type_synonym u32 = "32 word"
type_synonym u64 = "64 word"
type_synonym i64 = int

named_theorems i64_simps "wrap-around arithmetic on signed 64-bit integers"

definition i64_range :: "int \<Rightarrow> bool" where
  "i64_range x \<longleftrightarrow> - (2 ^ 63) \<le> x \<and> x < 2 ^ 63"

definition i64_wrap :: "int \<Rightarrow> i64" where
  "i64_wrap x = (x + 2 ^ 63) mod 2 ^ 64 - 2 ^ 63"

definition i64_add :: "i64 \<Rightarrow> i64 \<Rightarrow> i64" where
  "i64_add a b = i64_wrap (a + b)"

definition i64_sub :: "i64 \<Rightarrow> i64 \<Rightarrow> i64" where
  "i64_sub a b = i64_wrap (a - b)"

lemma i64_wrap_range [simp, intro]: "i64_range (i64_wrap x)"
proof -
  have "0 \<le> (x + 2 ^ 63) mod 2 ^ 64" and "(x + 2 ^ 63) mod 2 ^ 64 < (2 :: int) ^ 64"
    by simp_all
  then show ?thesis by (simp add: i64_range_def i64_wrap_def)
qed

lemma i64_wrap_exact [simp]: "i64_range x \<Longrightarrow> i64_wrap x = x"
  by (simp add: i64_range_def i64_wrap_def)

lemma i64_wrap_eq_iff: "i64_wrap x = i64_wrap y \<longleftrightarrow> x mod 2 ^ 64 = y mod 2 ^ 64"
proof
  assume "i64_wrap x = i64_wrap y"
  then have "(x + 2 ^ 63) mod 2 ^ 64 = (y + 2 ^ 63) mod 2 ^ 64"
    by (simp add: i64_wrap_def)
  then have "((x + 2 ^ 63) - 2 ^ 63) mod 2 ^ 64 = ((y + 2 ^ 63) - 2 ^ 63) mod 2 ^ 64"
    by (rule mod_diff_cong) simp
  then show "x mod 2 ^ 64 = y mod 2 ^ 64" by simp
next
  assume "x mod 2 ^ 64 = y mod 2 ^ 64"
  then have "(x + 2 ^ 63) mod 2 ^ 64 = (y + 2 ^ 63) mod 2 ^ 64"
    by (rule mod_add_cong) simp
  then show "i64_wrap x = i64_wrap y" by (simp add: i64_wrap_def)
qed

lemma i64_wrap_mod: "i64_wrap x mod 2 ^ 64 = x mod 2 ^ 64"
proof -
  have "i64_wrap x mod 2 ^ 64 = (x + 2 ^ 63 - 2 ^ 63) mod 2 ^ 64"
    unfolding i64_wrap_def by (rule mod_diff_left_eq)
  then show ?thesis by simp
qed

lemma i64_wrap_add_left [i64_simps]: "i64_wrap (i64_wrap a + b) = i64_wrap (a + b)"
  unfolding i64_wrap_eq_iff by (rule mod_add_cong [OF i64_wrap_mod refl])

lemma i64_wrap_add_right [i64_simps]: "i64_wrap (a + i64_wrap b) = i64_wrap (a + b)"
  using i64_wrap_add_left [of b a] by (simp add: add.commute)

lemma i64_wrap_diff_left [i64_simps]: "i64_wrap (i64_wrap a - b) = i64_wrap (a - b)"
  using i64_wrap_add_left [of a "- b"] by simp

lemma i64_wrap_diff_right [i64_simps]: "i64_wrap (a - i64_wrap b) = i64_wrap (a - b)"
  unfolding i64_wrap_eq_iff by (rule mod_diff_cong [OF refl i64_wrap_mod])

lemma i64_add_exact: "i64_range (a + b) \<Longrightarrow> i64_add a b = a + b"
  by (simp add: i64_add_def)

lemma i64_sub_exact: "i64_range (a - b) \<Longrightarrow> i64_sub a b = a - b"
  by (simp add: i64_sub_def)

lemma i64_add_range [simp, intro]: "i64_range (i64_add a b)"
  by (simp add: i64_add_def)

lemma i64_sub_range [simp, intro]: "i64_range (i64_sub a b)"
  by (simp add: i64_sub_def)

lemma i64_range_0 [simp, intro]: "i64_range 0"
  by (simp add: i64_range_def)

lemma i64_range_diff: "0 \<le> a \<Longrightarrow> a \<le> b \<Longrightarrow> i64_range b \<Longrightarrow> i64_range (b - a)"
  by (simp add: i64_range_def)

text \<open>The cast \<^verbatim>\<open>as i64\<close> of an unsigned 64-bit value reinterprets the bits.\<close>

definition u64_as_i64 :: "u64 \<Rightarrow> i64" where
  "u64_as_i64 q = i64_wrap (uint q)"

lemma u64_as_i64_range [simp, intro]: "i64_range (u64_as_i64 q)"
  by (simp add: u64_as_i64_def)

lemma u64_as_i64_small:
  assumes "uint q < 2 ^ 63"
  shows "u64_as_i64 q = uint q"
proof -
  have "i64_range (uint q)"
    using assms by (auto simp: i64_range_def intro: order_trans [OF _ uint_ge_0])
  then show ?thesis by (simp add: u64_as_i64_def)
qed

lemma uint_u64_lt: "uint (q :: u64) < 2 ^ 64"
  using uint_lt2p [of q] by simp

lemma u64_as_i64_neg_iff: "u64_as_i64 q < 0 \<longleftrightarrow> 2 ^ 63 \<le> uint q"
proof (cases "uint q < 2 ^ 63")
  case True
  then show ?thesis by (simp add: u64_as_i64_small)
next
  case False
  have "(uint q + 2 ^ 63) mod 2 ^ 64 = (uint q + 2 ^ 63 - 2 ^ 64) mod 2 ^ 64"
    by (rule minus_mod_self2 [symmetric])
  also have "\<dots> = uint q + 2 ^ 63 - 2 ^ 64"
    using False uint_u64_lt [of q] by (intro mod_pos_pos_trivial) simp_all
  finally show ?thesis
    using False uint_u64_lt [of q] by (simp add: u64_as_i64_def i64_wrap_def)
qed

text \<open>\<^verbatim>\<open>Option\<close> combinators of the standard library in the order the sources use them.\<close>

definition opt_or :: "'a option \<Rightarrow> 'a option \<Rightarrow> 'a option" where
  "opt_or a b = (case a of Some x \<Rightarrow> Some x | None \<Rightarrow> b)"

lemma opt_or_simps [simp]: "opt_or None b = b" "opt_or (Some x) b = Some x"
  by (simp_all add: opt_or_def)

section \<open>Generic lemmas\<close>

lemma sorted_key_append:
  "sorted_wrt (\<lambda>a b. f a \<le> (f b :: 'k :: linorder)) (xs @ [y]) \<longleftrightarrow>
     sorted_wrt (\<lambda>a b. f a \<le> f b) xs \<and> (\<forall>x \<in> set xs. f x \<le> f y)"
  by (auto simp: sorted_wrt_append)

lemma find_Some_set: "find P xs = Some x \<Longrightarrow> x \<in> set xs \<and> P x"
  by (induction xs) (auto split: if_splits)

lemma find_None_iff_all: "find P xs = None \<longleftrightarrow> (\<forall>x \<in> set xs. \<not> P x)"
  by (induction xs) auto

section \<open>Results and floating-point columns\<close>

text \<open>The \<^verbatim>\<open>?\<close> operator.\<close>

fun and_then :: "'e + 'a \<Rightarrow> ('a \<Rightarrow> 'e + 'b) \<Rightarrow> 'e + 'b" where
  "and_then (Inl e) f = Inl e"
| "and_then (Inr x) f = f x"

lemma and_then_Inr_iff: "and_then r f = Inr y \<longleftrightarrow> (\<exists>x. r = Inr x \<and> f x = Inr y)"
  by (cases r) auto

lemma and_then_Inl_iff: "and_then r f = Inl e \<longleftrightarrow> r = Inl e \<or> (\<exists>x. r = Inr x \<and> f x = Inl e)"
  by (cases r) auto

text \<open>
  The only floating-point values of the modelled code are quotients of two integers that are
  stored and never read back: \<open>FDiv a b\<close> stands for \<^verbatim>\<open>(a as f64) / (b as f64)\<close>.
\<close>

datatype f64 = FDiv i64 i64

section \<open>Texts\<close>

text \<open>\<^verbatim>\<open>join\<close> of a list of texts.\<close>

fun join_with :: "string \<Rightarrow> string list \<Rightarrow> string" where
  "join_with sep [] = []"
| "join_with sep [s] = s"
| "join_with sep (s # ss) = s @ sep @ join_with sep ss"

end
