(* ===== verification/Ordered_Map.thy ===== *)
theory Ordered_Map
  imports Prelude
begin

text \<open>
  The ordered map \<^verbatim>\<open>BTreeMap\<close> of the Rust standard library, as the sources use it: insertion
  that returns the displaced value, removal, lookup, iteration in ascending key order and
  \<^verbatim>\<open>next_back\<close>. A map is the list of its entries in ascending key order, so iterating is
  reading the list and \<open>om_last\<close> is the entry with the greatest key.

  The interface \<open>level_map\<close> is what the order book relies on: lookup after an update, the
  well-formedness every operation keeps, and how the sum of all values moves. It is
  interpreted on the operations below for maps into \<^typ>\<open>int\<close> (\<open>lvl\<close>).
\<close>

type_synonym ('k, 'v) omap = "('k \<times> 'v) list"

fun om_insert :: "'k :: linorder \<Rightarrow> 'v \<Rightarrow> ('k, 'v) omap \<Rightarrow> ('k, 'v) omap" where
  "om_insert k v [] = [(k, v)]"
| "om_insert k v (e # m) =
     (if fst e < k then e # om_insert k v m
      else if fst e = k then (k, v) # m
      else (k, v) # e # m)"

definition om_remove :: "'k \<Rightarrow> ('k, 'v) omap \<Rightarrow> ('k, 'v) omap" where
  "om_remove k m = filter (\<lambda>e. fst e \<noteq> k) m"

definition om_get :: "('k, 'v) omap \<Rightarrow> 'k \<Rightarrow> 'v option" where
  "om_get m k = map_of m k"

definition om_last :: "('k, 'v) omap \<Rightarrow> ('k \<times> 'v) option" where
  "om_last m = (if m = [] then None else Some (last m))"

definition om_sum :: "('k, int) omap \<Rightarrow> int" where
  "om_sum m = sum_list (map snd m)"

definition om_wf :: "('k :: linorder, 'v) omap \<Rightarrow> bool" where
  "om_wf m \<longleftrightarrow> sorted_wrt (<) (map fst m)"

lemma om_wf_Nil [simp]: "om_wf []"
  by (simp add: om_wf_def)

lemma om_wf_Cons: "om_wf (e # m) \<longleftrightarrow> (\<forall>k \<in> fst ` set m. fst e < k) \<and> om_wf m"
  by (auto simp: om_wf_def)

lemma om_wf_distinct: "om_wf m \<Longrightarrow> distinct (map fst m)"
  by (simp add: om_wf_def strict_sorted_iff)

lemma fst_set_om_insert: "fst ` set (om_insert k v m) = insert k (fst ` set m)"
  by (induction m) auto

lemma om_wf_insert [simp, intro]: "om_wf m \<Longrightarrow> om_wf (om_insert k v m)"
  by (induction m) (auto simp: om_wf_Cons fst_set_om_insert)

lemma om_wf_remove [simp, intro]: "om_wf m \<Longrightarrow> om_wf (om_remove k m)"
  by (auto simp: om_wf_def om_remove_def sorted_wrt_map intro: sorted_wrt_filter)

lemma om_get_Nil [simp]: "om_get [] k = None"
  by (simp add: om_get_def)

lemma om_get_Cons: "om_get (e # m) k = (if fst e = k then Some (snd e) else om_get m k)"
  by (cases e) (simp add: om_get_def)

lemma dom_om_get: "dom (om_get m) = fst ` set m"
proof -
  have "om_get m = map_of m" by (rule ext) (simp add: om_get_def)
  then show ?thesis by (simp add: dom_map_of_conv_image_fst)
qed

lemma om_get_insert: "om_wf m \<Longrightarrow> om_get (om_insert k v m) k' = (if k' = k then Some v else om_get m k')"
  by (induction m) (auto simp: om_get_def om_wf_Cons)

lemma om_get_remove: "om_get (om_remove k m) k' = (if k' = k then None else om_get m k')"
  by (induction m) (auto simp: om_get_def om_remove_def)

lemma om_get_Some_iff: "om_wf m \<Longrightarrow> om_get m k = Some v \<longleftrightarrow> (k, v) \<in> set m"
  by (simp add: om_get_def om_wf_distinct)

lemma om_sum_insert:
  "om_wf m \<Longrightarrow> om_sum (om_insert k v m) =
     om_sum m + v - (case om_get m k of None \<Rightarrow> 0 | Some old \<Rightarrow> old)"
proof (induction m)
  case Nil
  then show ?case by (simp add: om_sum_def)
next
  case (Cons e m)
  have "om_get m k = None" if "k \<le> fst e"
  proof -
    from Cons.prems that have "k \<notin> fst ` set m"
      by (auto simp: om_wf_Cons)
    then show ?thesis by (simp add: om_get_def map_of_eq_None_iff)
  qed
  with Cons show ?case
    by (cases e) (auto simp: om_sum_def om_get_def om_wf_Cons)
qed

lemma om_sum_remove:
  "om_wf m \<Longrightarrow> om_sum (om_remove k m) =
     om_sum m - (case om_get m k of None \<Rightarrow> 0 | Some old \<Rightarrow> old)"
proof (induction m)
  case Nil
  then show ?case by (simp add: om_sum_def om_remove_def)
next
  case (Cons e m)
  have notin: "k \<notin> fst ` set m" if "fst e = k"
    using Cons.prems that by (auto simp: om_wf_Cons)
  have "filter (\<lambda>e. fst e \<noteq> k) m = m" if "fst e = k"
    using notin [OF that] by (intro filter_True) auto
  with Cons show ?case
    by (cases e) (auto simp: om_sum_def om_get_def om_wf_Cons om_remove_def)
qed

lemma om_last_Some: "om_last m = Some e \<longleftrightarrow> (\<exists>m'. m = m' @ [e])"
  by (cases m rule: rev_cases) (auto simp: om_last_def)

lemma om_wf_snoc: "om_wf (m @ [e]) \<longleftrightarrow> om_wf m \<and> (\<forall>k \<in> fst ` set m. k < fst e)"
  by (auto simp: om_wf_def sorted_wrt_append)

lemma om_last_max:
  assumes "om_wf m" and "om_last m = Some (k, v)"
  shows "om_get m k = Some v" and "k' \<in> fst ` set m \<Longrightarrow> k' \<le> k"
proof -
  from assms(2) obtain m' where m: "m = m' @ [(k, v)]"
    by (auto simp: om_last_Some)
  show "om_get m k = Some v"
    using assms(1) m by (simp add: om_get_Some_iff)
  show "k' \<in> fst ` set m \<Longrightarrow> k' \<le> k"
    using assms(1) m by (auto simp: om_wf_snoc less_imp_le)
qed

text \<open>Two well-formed maps with the same lookups are the same list of entries.\<close>

lemma om_ext:
  assumes "om_wf a" and "om_wf b" and "\<And>k. om_get a k = om_get b k"
  shows "a = b"
proof -
  have ab: "set a = set b"
    using assms by (auto simp flip: om_get_Some_iff)
  have "sorted_wrt (\<lambda>x y. fst x < fst y) a" and "sorted_wrt (\<lambda>x y. fst x < fst y) b"
    using assms(1,2) by (simp_all add: om_wf_def sorted_wrt_map)
  moreover have "asymp (\<lambda>x y :: 'a \<times> 'b. fst x < fst y)"
    by (auto intro: asympI)
  ultimately show ?thesis
    using ab assms(1,2)
  proof (induction a arbitrary: b)
    case Nil
    then show ?case by simp
  next
    case (Cons x a)
    from Cons.prems obtain y b' where b: "b = y # b'"
      by (cases b) auto
    have xy: "x = y"
    proof (rule ccontr)
      assume "x \<noteq> y"
      have "x \<in> set b" and "y \<in> set (x # a)"
        using Cons.prems(4) b by (metis list.set_intros(1))+
      with \<open>x \<noteq> y\<close> b have "x \<in> set b'" and "y \<in> set a"
        by auto
      with Cons.prems(1,2) b have "fst y < fst x" and "fst x < fst y"
        by auto
      then show False by simp
    qed
    moreover have "x \<notin> set a" and "y \<notin> set b'"
      using Cons.prems(1,2) b by auto
    ultimately have "set a = set b'"
      using Cons.prems(4) b by auto
    with Cons b xy show ?case by (simp add: om_wf_Cons)
  qed
qed

section \<open>The interface the order book relies on\<close>

locale level_map =
  fixes insert_key :: "'k \<Rightarrow> int \<Rightarrow> 'm \<Rightarrow> 'm"
    and remove_key :: "'k \<Rightarrow> 'm \<Rightarrow> 'm"
    and get :: "'m \<Rightarrow> 'k \<Rightarrow> int option"
    and total :: "'m \<Rightarrow> int"
    and invar :: "'m \<Rightarrow> bool"
  assumes get_insert: "invar m \<Longrightarrow> get (insert_key k v m) = (get m)(k := Some v)"
    and get_remove: "invar m \<Longrightarrow> get (remove_key k m) = (get m)(k := None)"
    and invar_insert: "invar m \<Longrightarrow> invar (insert_key k v m)"
    and invar_remove: "invar m \<Longrightarrow> invar (remove_key k m)"
    and total_insert: "invar m \<Longrightarrow> total (insert_key k v m) =
          total m + v - (case get m k of None \<Rightarrow> 0 | Some old \<Rightarrow> old)"
    and total_remove: "invar m \<Longrightarrow> total (remove_key k m) =
          total m - (case get m k of None \<Rightarrow> 0 | Some old \<Rightarrow> old)"
begin

text \<open>Insert-then-prune, the shape of every delta: the level and the total move together.\<close>

lemma get_insert_remove: "invar m \<Longrightarrow> get (remove_key k (insert_key k v m)) = (get m)(k := None)"
  by (simp add: get_insert get_remove invar_insert)

lemma total_insert_remove:
  "invar m \<Longrightarrow> total (remove_key k (insert_key k v m)) =
     total m - (case get m k of None \<Rightarrow> 0 | Some old \<Rightarrow> old)"
  by (simp add: total_insert total_remove get_insert invar_insert)

lemma invar_insert_remove: "invar m \<Longrightarrow> invar (remove_key k (insert_key k v m))"
  by (simp add: invar_insert invar_remove)

text \<open>Loading a list of entries one by one keeps the invariant and sets exactly those keys.\<close>

lemma invar_fold: "invar m \<Longrightarrow> invar (fold (\<lambda>(k, v). insert_key k v) es m)"
  by (induction es arbitrary: m) (auto simp: invar_insert)

lemma get_fold:
  "invar m \<Longrightarrow> get (fold (\<lambda>(k, v). insert_key k v) es m) = get m ++ map_of (rev es)"
  by (induction es arbitrary: m) (auto simp: invar_insert get_insert map_add_upd_left fun_eq_iff
      map_add_def split: option.splits)

end

interpretation lvl: level_map om_insert om_remove om_get om_sum "om_wf :: ('k :: linorder, int) omap \<Rightarrow> bool"
proof unfold_locales
  fix m :: "('k, int) omap" and k v
  assume wf: "om_wf m"
  show "om_get (om_insert k v m) = (om_get m)(k := Some v)"
    using wf by (auto simp: om_get_insert)
  show "om_get (om_remove k m) = (om_get m)(k := None)"
    by (auto simp: om_get_remove)
  show "om_wf (om_insert k v m)" and "om_wf (om_remove k m)"
    using wf by auto
  show "om_sum (om_insert k v m) = om_sum m + v - (case om_get m k of None \<Rightarrow> 0 | Some old \<Rightarrow> old)"
    by (rule om_sum_insert [OF wf])
  show "om_sum (om_remove k m) = om_sum m - (case om_get m k of None \<Rightarrow> 0 | Some old \<Rightarrow> old)"
    by (rule om_sum_remove [OF wf])
qed

end
