(* ===== verification/Units.thy ===== *)
theory Units
  imports Prelude
begin

text \<open>
  Lossless scaled-integer money and size units (\<^verbatim>\<open>crates/kdp-core/src/units.rs\<close>): the
  fixed-point decimal parser \<open>parse_scaled\<close> and the three units built on it, and the two
  decimal printers of \<^verbatim>\<open>crates/kdp-process/src/verify.rs\<close>, which are their inverses.

  The specification is \<open>decimal_literal\<close>, the shape of an accepted literal, with
  \<open>scaled_value\<close>, the integer it denotes at a scale. The lemmas show that a parse succeeds
  exactly on the literals whose exact scaled value fits the unit, that the result is that
  value, and that printing a value and parsing it back is the identity.
\<close>

section \<open>Decimal digits of the standard library\<close>

definition is_ascii_digit :: "char \<Rightarrow> bool" where
  "is_ascii_digit c \<longleftrightarrow> 48 \<le> (of_char c :: nat) \<and> (of_char c :: nat) \<le> 57"

definition digit_val :: "char \<Rightarrow> nat" where
  "digit_val c = of_char c - 48"

definition digit_char :: "nat \<Rightarrow> char" where
  "digit_char d = char_of (48 + d)"

text \<open>The value of an all-digit string, most significant digit first.\<close>

definition digits_value :: "string \<Rightarrow> nat" where
  "digits_value s = foldl (\<lambda>a c. 10 * a + digit_val c) 0 s"

text \<open>\<^verbatim>\<open>str::parse::<i128>\<close> on a non-empty all-digit string: an error exactly on overflow.\<close>

definition i128_max :: int where
  "i128_max = 2 ^ 127 - 1"

definition parse_i128 :: "string \<Rightarrow> int option" where
  "parse_i128 s = (let v = int (digits_value s) in if v \<le> i128_max then Some v else None)"

text \<open>\<^verbatim>\<open>checked_mul\<close> and \<^verbatim>\<open>checked_add\<close> on non-negative operands.\<close>

definition checked_i128 :: "int \<Rightarrow> int option" where
  "checked_i128 v = (if - (2 ^ 127) \<le> v \<and> v \<le> i128_max then Some v else None)"

text \<open>\<^verbatim>\<open>str::split_once\<close> at the first occurrence of a character.\<close>

fun split_once :: "char \<Rightarrow> string \<Rightarrow> (string \<times> string) option" where
  "split_once c [] = None"
| "split_once c (x # xs) =
     (if x = c then Some ([], xs)
      else map_option (\<lambda>(a, b). (x # a, b)) (split_once c xs))"

section \<open>The parser\<close>

datatype FixedPointError =
    Empty
  | NotNumeric string
  | TooManyDecimals nat string
  | Overflow string
  | Negative string

definition minus_sign :: char where
  "minus_sign = CHR ''-''"

definition strip_minus :: "string \<Rightarrow> bool \<times> string" where
  "strip_minus input =
     (case input of
        [] \<Rightarrow> (False, input)
      | c # rest \<Rightarrow> if c = minus_sign then (True, rest) else (False, input))"

definition split_body :: "string \<Rightarrow> string \<times> string \<times> bool" where
  "split_body body =
     (case split_once (CHR ''.'') body of
        Some (i, f) \<Rightarrow> (i, f, True)
      | None \<Rightarrow> (body, [], False))"

definition scaled_magnitude :: "string \<Rightarrow> nat \<Rightarrow> string \<Rightarrow> string \<Rightarrow> FixedPointError + int" where
  "scaled_magnitude input scale int_part frac_part =
     (case parse_i128 int_part of
        None \<Rightarrow> Inl (Overflow input)
      | Some int_value \<Rightarrow>
          (case (if frac_part = [] then Some 0
                 else (case parse_i128 frac_part of
                         None \<Rightarrow> None
                       | Some frac_value \<Rightarrow>
                           checked_i128 (frac_value * 10 ^ (scale - length frac_part)))) of
             None \<Rightarrow> Inl (Overflow input)
           | Some frac_contribution \<Rightarrow>
               (case checked_i128 (int_value * 10 ^ scale) of
                  None \<Rightarrow> Inl (Overflow input)
                | Some scaled \<Rightarrow>
                    (case checked_i128 (scaled + frac_contribution) of
                       None \<Rightarrow> Inl (Overflow input)
                     | Some magnitude \<Rightarrow> Inr magnitude))))"

definition parse_scaled :: "string \<Rightarrow> nat \<Rightarrow> FixedPointError + (bool \<times> int)" where
  "parse_scaled input scale =
     (if input = [] then Inl Empty
      else let (negative, body) = strip_minus input in
        if body = [] then Inl (NotNumeric input)
        else let (int_part, frac_part, had_point) = split_body body in
          if int_part = [] \<or> \<not> list_all is_ascii_digit int_part then Inl (NotNumeric input)
          else if had_point \<and> frac_part = [] then Inl (NotNumeric input)
          else if \<not> list_all is_ascii_digit frac_part then Inl (NotNumeric input)
          else if length frac_part > scale then Inl (TooManyDecimals scale input)
          else map_sum id (Pair negative) (scaled_magnitude input scale int_part frac_part))"

section \<open>The units\<close>

definition MicroDollars_SCALE :: nat where
  "MicroDollars_SCALE = 6"

definition MicroDollars_parse :: "string \<Rightarrow> FixedPointError + u32" where
  "MicroDollars_parse input =
     (case parse_scaled input MicroDollars_SCALE of
        Inl e \<Rightarrow> Inl e
      | Inr (negative, magnitude) \<Rightarrow>
          if negative then Inl (Negative input)
          else if 0 \<le> magnitude \<and> magnitude < 2 ^ 32 then Inr (word_of_int magnitude)
          else Inl (Overflow input))"

definition RestingQty_SCALE :: nat where
  "RestingQty_SCALE = 2"

definition RestingQty_parse :: "string \<Rightarrow> FixedPointError + u64" where
  "RestingQty_parse input =
     (case parse_scaled input RestingQty_SCALE of
        Inl e \<Rightarrow> Inl e
      | Inr (negative, magnitude) \<Rightarrow>
          if negative then Inl (Negative input)
          else if 0 \<le> magnitude \<and> magnitude < 2 ^ 64 then Inr (word_of_int magnitude)
          else Inl (Overflow input))"

definition QtyDelta_SCALE :: nat where
  "QtyDelta_SCALE = 2"

definition QtyDelta_parse :: "string \<Rightarrow> FixedPointError + i64" where
  "QtyDelta_parse input =
     (case parse_scaled input QtyDelta_SCALE of
        Inl e \<Rightarrow> Inl e
      | Inr (negative, magnitude) \<Rightarrow>
          let signed = (if negative then - magnitude else magnitude) in
          if i64_range signed then Inr signed else Inl (Overflow input))"

section \<open>The printers\<close>

text \<open>\<^verbatim>\<open>Display\<close> of an unsigned integer and its zero-padded form \<^verbatim>\<open>{:0w}\<close>.\<close>

fun show_nat :: "nat \<Rightarrow> string" where
  "show_nat n = (if n < 10 then [digit_char n] else show_nat (n div 10) @ [digit_char (n mod 10)])"

declare show_nat.simps [simp del]

definition zero_pad :: "nat \<Rightarrow> string \<Rightarrow> string" where
  "zero_pad w s = replicate (w - length s) (CHR ''0'') @ s"

definition fmt_price_micro :: "u32 \<Rightarrow> string" where
  "fmt_price_micro price_micro =
     show_nat (unat price_micro div 1000000) @ ''.'' @
     zero_pad 6 (show_nat (unat price_micro mod 1000000))"

definition fmt_qty_centi :: "i64 \<Rightarrow> string" where
  "fmt_qty_centi qty_centi =
     (if qty_centi < 0
      then let abs = nat (- qty_centi) in
        ''-'' @ show_nat (abs div 100) @ ''.'' @ zero_pad 2 (show_nat (abs mod 100))
      else show_nat (nat qty_centi div 100) @ ''.'' @ zero_pad 2 (show_nat (nat qty_centi mod 100)))"

section \<open>Specification: which literals there are and what they denote\<close>

definition all_digits :: "string \<Rightarrow> bool" where
  "all_digits s \<longleftrightarrow> s \<noteq> [] \<and> list_all is_ascii_digit s"

text \<open>An unsigned literal: digits, or digits, a point, and digits.\<close>

definition decimal_literal :: "string \<Rightarrow> string \<Rightarrow> string \<Rightarrow> bool" where
  "decimal_literal s ip fp \<longleftrightarrow>
     all_digits ip \<and> (fp = [] \<and> s = ip \<or> all_digits fp \<and> s = ip @ ''.'' @ fp)"

definition literal_value :: "string \<Rightarrow> string \<Rightarrow> rat" where
  "literal_value ip fp = of_nat (digits_value ip) + of_nat (digits_value fp) / 10 ^ length fp"

definition scaled_value :: "nat \<Rightarrow> string \<Rightarrow> string \<Rightarrow> nat" where
  "scaled_value scale ip fp =
     digits_value ip * 10 ^ scale + digits_value fp * 10 ^ (scale - length fp)"

lemma scaled_value_exact:
  assumes "length fp \<le> scale"
  shows "of_nat (scaled_value scale ip fp) / 10 ^ scale = literal_value ip fp"
proof -
  have "(10 :: rat) ^ scale = 10 ^ (scale - length fp) * 10 ^ length fp"
    using assms by (simp flip: power_add)
  then show ?thesis
    by (simp add: scaled_value_def literal_value_def add_divide_distrib)
qed

section \<open>Digits, splitting and printing\<close>

lemma digit_char_props [simp]:
  assumes "d < 10"
  shows "digit_val (digit_char d) = d" and "is_ascii_digit (digit_char d)"
  using assms by (simp_all add: digit_char_def digit_val_def is_ascii_digit_def)

lemma not_digit_point [simp]: "\<not> is_ascii_digit (CHR ''.'')"
  by (simp add: is_ascii_digit_def)

lemma digit_zero [simp]: "is_ascii_digit (CHR ''0'')"
  by (simp add: is_ascii_digit_def)

lemma not_digit_minus [simp]: "\<not> is_ascii_digit minus_sign"
  by (simp add: is_ascii_digit_def minus_sign_def)

lemma zero_char: "CHR ''0'' = digit_char 0"
proof -
  have "char_of (of_char (CHR ''0'') :: nat) = CHR ''0''"
    by (rule char_of_char)
  then show ?thesis by (simp add: digit_char_def)
qed

lemma digits_value_Nil [simp]: "digits_value [] = 0"
  by (simp add: digits_value_def)

lemma digits_value_snoc [simp]: "digits_value (s @ [c]) = 10 * digits_value s + digit_val c"
  by (simp add: digits_value_def)

lemma digits_value_zeros [simp]: "digits_value (replicate n (CHR ''0'') @ s) = digits_value s"
  by (induction n) (simp_all add: digits_value_def zero_char)

lemma digits_show_nat: "all_digits (show_nat n) \<and> digits_value (show_nat n) = n"
proof (induction n rule: show_nat.induct)
  case (1 n)
  show ?case
  proof (cases "n < 10")
    case True
    then show ?thesis
      by (subst (1 2) show_nat.simps) (simp add: all_digits_def digits_value_def)
  next
    case False
    then show ?thesis
      using "1.IH" by (subst (1 2) show_nat.simps) (simp add: all_digits_def)
  qed
qed

lemma length_show_nat: "n < 10 ^ Suc w \<Longrightarrow> length (show_nat n) \<le> Suc w"
proof (induction w arbitrary: n)
  case 0
  then show ?case by (simp add: show_nat.simps [of n])
next
  case (Suc w)
  then have "length (show_nat (n div 10)) \<le> Suc w"
    by (intro Suc.IH) (simp add: less_mult_imp_div_less mult.commute)
  then show ?case by (subst show_nat.simps) simp
qed

lemma length_zero_pad: "n < 10 ^ w \<Longrightarrow> 0 < w \<Longrightarrow> length (zero_pad w (show_nat n)) = w"
  using length_show_nat [of n "w - 1"] by (simp add: zero_pad_def)

lemma digits_zero_pad:
  "all_digits (zero_pad w (show_nat n)) \<and> digits_value (zero_pad w (show_nat n)) = n"
  using digits_show_nat [of n]
  by (auto simp: zero_pad_def all_digits_def list_all_iff)

lemma split_once_append: "c \<notin> set a \<Longrightarrow> split_once c (a @ c # b) = Some (a, b)"
  by (induction a) auto

lemma split_once_Some: "split_once c s = Some (a, b) \<Longrightarrow> s = a @ c # b"
  by (induction s arbitrary: a b) (auto split: if_splits)

lemma split_once_None: "split_once c s = None \<longleftrightarrow> c \<notin> set s"
  by (induction s) auto

lemma all_digits_no_point: "list_all is_ascii_digit s \<Longrightarrow> CHR ''.'' \<notin> set s"
  by (auto simp: list_all_iff dest: not_digit_point [THEN notE])

lemma all_digits_hd: "all_digits s \<Longrightarrow> hd (s @ t) \<noteq> minus_sign"
  by (cases s) (auto simp: all_digits_def)

section \<open>The parser meets its specification\<close>

lemma checked_i128_nonneg: "0 \<le> v \<Longrightarrow> checked_i128 v = (if v \<le> i128_max then Some v else None)"
  by (simp add: checked_i128_def order_trans [of "- (2 ^ 127)" 0])

lemma mult_pow10_ge: "0 \<le> (v :: int) \<Longrightarrow> v \<le> v * 10 ^ k"
  by (simp add: mult_le_cancel_left1)

lemma scaled_magnitude_eq:
  "scaled_magnitude input scale ip fp =
     (if int (scaled_value scale ip fp) \<le> i128_max
      then Inr (int (scaled_value scale ip fp)) else Inl (Overflow input))"
proof -
  define I where "I = int (digits_value ip)"
  define F where "F = int (digits_value fp)"
  define k where "k = scale - length fp"
  have nonneg: "0 \<le> I" "0 \<le> F" "0 \<le> I * 10 ^ scale" "0 \<le> F * 10 ^ k"
    by (simp_all add: I_def F_def)
  have sv: "int (scaled_value scale ip fp) = I * 10 ^ scale + F * 10 ^ k"
    by (simp add: scaled_value_def I_def F_def k_def)
  have F0: "F = 0" if "fp = []" using that by (simp add: F_def)
  have ge: "I \<le> I * 10 ^ scale" "F \<le> F * 10 ^ k"
    using nonneg by (simp_all add: mult_pow10_ge)
  show ?thesis
    unfolding scaled_magnitude_def parse_i128_def Let_def sv
      I_def [symmetric] F_def [symmetric] k_def [symmetric]
    using nonneg ge F0 by (auto simp: checked_i128_nonneg)
qed

lemma parse_scaled_literal:
  assumes lit: "decimal_literal body ip fp" and len: "length fp \<le> scale"
    and s: "s = (if neg then minus_sign # body else body)"
  shows "parse_scaled s scale = map_sum id (Pair neg) (scaled_magnitude s scale ip fp)"
proof -
  from lit have ip: "all_digits ip"
    by (simp add: decimal_literal_def)
  then have ne: "ip \<noteq> []" and dig: "list_all is_ascii_digit ip"
    by (simp_all add: all_digits_def)
  from lit ne have body: "body \<noteq> []"
    by (auto simp: decimal_literal_def)
  have "hd body \<noteq> minus_sign"
    using lit all_digits_hd [OF ip, of "[]"] all_digits_hd [OF ip, of "''.'' @ fp"]
    by (auto simp: decimal_literal_def)
  with s body have strip: "strip_minus s = (neg, body)"
    by (auto simp: strip_minus_def split: list.splits)
  have split: "split_body body = (ip, fp, fp \<noteq> [])"
    unfolding split_body_def
    using lit all_digits_no_point [OF dig] split_once_append [of "CHR ''.''" ip fp]
    by (auto simp: decimal_literal_def all_digits_def split_once_None [THEN iffD2])
  have "list_all is_ascii_digit fp"
    using lit by (auto simp: decimal_literal_def all_digits_def)
  moreover have "s \<noteq> []"
    using s body by (simp split: if_splits)
  ultimately show ?thesis
    using body ne dig len by (simp add: parse_scaled_def strip split)
qed

lemma parse_scaled_InrD:
  assumes "parse_scaled s scale = Inr (neg, m)"
  obtains body ip fp where "s = (if neg then minus_sign # body else body)"
    and "decimal_literal body ip fp" and "length fp \<le> scale"
    and "m = int (scaled_value scale ip fp)"
proof -
  obtain n body where strip: "strip_minus s = (n, body)" by fastforce
  obtain ip fp pt where split: "split_body body = (ip, fp, pt)" by (metis prod_cases3)
  have s: "s = (if n then minus_sign # body else body)"
    using strip by (auto simp: strip_minus_def split: list.splits if_splits)
  have c: "ip \<noteq> []" "list_all is_ascii_digit ip" "pt \<longrightarrow> fp \<noteq> []" "list_all is_ascii_digit fp"
    "length fp \<le> scale" "map_sum id (Pair n) (scaled_magnitude s scale ip fp) = Inr (neg, m)"
    using assms by (auto simp: parse_scaled_def strip split split: if_splits)
  have lit: "decimal_literal body ip fp"
    using split c(1-4) split_once_Some
    by (fastforce simp: split_body_def decimal_literal_def all_digits_def split: option.splits)
  from c(6) have "neg = n" and "m = int (scaled_value scale ip fp)"
    by (auto simp: scaled_magnitude_eq split: if_splits)
  with s lit c(5) that show ?thesis by blast
qed

text \<open>A literal read at a scale and its exact rational value determine each other.\<close>

lemma scaled_value_eq_iff:
  "length fp \<le> scale \<Longrightarrow>
     scaled_value scale ip fp = n \<longleftrightarrow> (of_nat n / 10 ^ scale :: rat) = literal_value ip fp"
  by (auto simp flip: scaled_value_exact)

lemma uint_word_of_int_lt: "0 \<le> m \<Longrightarrow> m < 2 ^ LENGTH('a) \<Longrightarrow> uint (word_of_int m :: 'a :: len word) = m"
  by (simp add: uint_word_of_int)

lemma decimal_literal_not_minus: "decimal_literal s ip fp \<Longrightarrow> s \<noteq> minus_sign # t"
  by (cases ip) (auto simp: decimal_literal_def all_digits_def)

lemma parse_scaled_value:
  assumes "decimal_literal body ip fp" and "length fp \<le> scale"
    and "s = (if neg then minus_sign # body else body)"
    and "int (scaled_value scale ip fp) \<le> i128_max"
  shows "parse_scaled s scale = Inr (neg, int (scaled_value scale ip fp))"
  using parse_scaled_literal [OF assms(1-3)] assms(4) by (simp add: scaled_magnitude_eq)

lemma small_le_i128_max: "v < 2 ^ 64 \<Longrightarrow> v \<le> i128_max"
  by (simp add: i128_max_def)

lemma MicroDollars_parseI:
  assumes "decimal_literal s ip fp" and "length fp \<le> 6" and "scaled_value 6 ip fp = unat v"
  shows "MicroDollars_parse s = Inr v"
proof -
  have sv: "int (scaled_value 6 ip fp) = uint v"
    using assms(3) by simp
  have lt: "uint v < 2 ^ 32" using uint_lt2p [of v] by simp
  have "parse_scaled s 6 = Inr (False, uint v)"
    using parse_scaled_value [of s ip fp 6 s False] assms lt by (simp add: sv small_le_i128_max)
  with lt show ?thesis
    by (simp add: MicroDollars_parse_def MicroDollars_SCALE_def)
qed

lemma MicroDollars_parseE:
  assumes "MicroDollars_parse s = Inr v"
  obtains ip fp where "decimal_literal s ip fp" "length fp \<le> 6" "scaled_value 6 ip fp = unat v"
proof -
  from assms obtain m where p: "parse_scaled s 6 = Inr (False, m)" and m: "0 \<le> m" "m < 2 ^ 32"
    and v: "v = word_of_int m"
    by (auto simp: MicroDollars_parse_def MicroDollars_SCALE_def split: sum.splits prod.splits if_splits)
  from p obtain ip fp where lit: "decimal_literal s ip fp" "length fp \<le> 6"
    and "m = int (scaled_value 6 ip fp)"
    by (rule parse_scaled_InrD [of s _ False m]) (simp_all only: if_False)
  moreover have "uint v = m"
    using m v by (simp add: uint_word_of_int_lt)
  then have "int (unat v) = m" by simp
  ultimately have "scaled_value 6 ip fp = unat v"
    by (metis of_nat_eq_iff)
  with lit that show ?thesis by blast
qed

lemma RestingQty_parseI:
  assumes "decimal_literal s ip fp" and "length fp \<le> 2" and "scaled_value 2 ip fp = unat v"
  shows "RestingQty_parse s = Inr v"
proof -
  have sv: "int (scaled_value 2 ip fp) = uint v"
    using assms(3) by simp
  have lt: "uint v < 2 ^ 64" by (rule uint_u64_lt)
  have "parse_scaled s 2 = Inr (False, uint v)"
    using parse_scaled_value [of s ip fp 2 s False] assms lt by (simp add: sv small_le_i128_max)
  with lt show ?thesis
    by (simp add: RestingQty_parse_def RestingQty_SCALE_def)
qed

lemma RestingQty_parseE:
  assumes "RestingQty_parse s = Inr v"
  obtains ip fp where "decimal_literal s ip fp" "length fp \<le> 2" "scaled_value 2 ip fp = unat v"
proof -
  from assms obtain m where p: "parse_scaled s 2 = Inr (False, m)" and m: "0 \<le> m" "m < 2 ^ 64"
    and v: "v = word_of_int m"
    by (auto simp: RestingQty_parse_def RestingQty_SCALE_def split: sum.splits prod.splits if_splits)
  from p obtain ip fp where lit: "decimal_literal s ip fp" "length fp \<le> 2"
    and "m = int (scaled_value 2 ip fp)"
    by (rule parse_scaled_InrD [of s _ False m]) (simp_all only: if_False)
  moreover have "uint v = m"
    using m v by (simp add: uint_word_of_int_lt)
  then have "int (unat v) = m" by simp
  ultimately have "scaled_value 2 ip fp = unat v"
    by (metis of_nat_eq_iff)
  with lit that show ?thesis by blast
qed

lemma QtyDelta_parseI:
  assumes "decimal_literal body ip fp" and "length fp \<le> 2"
    and "s = (if neg then minus_sign # body else body)" and "i64_range v"
    and "v = (if neg then - int (scaled_value 2 ip fp) else int (scaled_value 2 ip fp))"
  shows "QtyDelta_parse s = Inr v"
proof -
  have "int (scaled_value 2 ip fp) \<le> i128_max"
    using assms(4,5) by (simp add: i64_range_def i128_max_def split: if_splits)
  then have "parse_scaled s 2 = Inr (neg, int (scaled_value 2 ip fp))"
    by (rule parse_scaled_value [OF assms(1-3)])
  with assms(4,5) show ?thesis
    by (auto simp: QtyDelta_parse_def QtyDelta_SCALE_def Let_def)
qed

lemma QtyDelta_parseE:
  assumes "QtyDelta_parse s = Inr v"
  obtains neg body ip fp where "s = (if neg then minus_sign # body else body)"
    "decimal_literal body ip fp" "length fp \<le> 2" "i64_range v"
    "v = (if neg then - int (scaled_value 2 ip fp) else int (scaled_value 2 ip fp))"
proof -
  from assms obtain neg m where p: "parse_scaled s 2 = Inr (neg, m)" and r: "i64_range v"
    and v: "v = (if neg then - m else m)"
    by (auto simp: QtyDelta_parse_def QtyDelta_SCALE_def Let_def split: sum.splits prod.splits if_splits)
  from p obtain body ip fp where "s = (if neg then minus_sign # body else body)"
    "decimal_literal body ip fp" "length fp \<le> 2" "m = int (scaled_value 2 ip fp)"
    by (elim parse_scaled_InrD) blast
  with r v that show ?thesis by blast
qed

lemma signed_scaled_value:
  assumes "length fp \<le> scale"
  shows "(of_int v / 10 ^ scale :: rat) = (if neg then - literal_value ip fp else literal_value ip fp)
     \<longleftrightarrow> v = (if neg then - int (scaled_value scale ip fp) else int (scaled_value scale ip fp))"
proof -
  let ?w = "if neg then - int (scaled_value scale ip fp) else int (scaled_value scale ip fp)"
  have "(if neg then - literal_value ip fp else literal_value ip fp) = (of_int ?w / 10 ^ scale :: rat)"
    by (simp flip: scaled_value_exact [OF assms])
  then show ?thesis by (simp del: of_int_minus of_int_of_nat_eq)
qed

lemma MicroDollars_parse_iff:
  "MicroDollars_parse s = Inr v \<longleftrightarrow>
     (\<exists>ip fp. decimal_literal s ip fp \<and> length fp \<le> 6 \<and>
        of_nat (unat v) / 10 ^ 6 = literal_value ip fp)"
proof (intro iffI; (elim exE conjE)?)
  assume "MicroDollars_parse s = Inr v"
  then show "\<exists>ip fp. decimal_literal s ip fp \<and> length fp \<le> 6 \<and>
      of_nat (unat v) / 10 ^ 6 = literal_value ip fp"
    by (elim MicroDollars_parseE) (blast dest: scaled_value_eq_iff [THEN iffD1])
next
  fix ip fp
  assume lit: "decimal_literal s ip fp" "length fp \<le> 6"
    and v: "of_nat (unat v) / 10 ^ 6 = literal_value ip fp"
  show "MicroDollars_parse s = Inr v"
    by (rule MicroDollars_parseI [OF lit scaled_value_eq_iff [OF lit(2), THEN iffD2, OF v]])
qed

lemma RestingQty_parse_iff:
  "RestingQty_parse s = Inr v \<longleftrightarrow>
     (\<exists>ip fp. decimal_literal s ip fp \<and> length fp \<le> 2 \<and>
        of_nat (unat v) / 10 ^ 2 = literal_value ip fp)"
proof (intro iffI; (elim exE conjE)?)
  assume "RestingQty_parse s = Inr v"
  then show "\<exists>ip fp. decimal_literal s ip fp \<and> length fp \<le> 2 \<and>
      of_nat (unat v) / 10 ^ 2 = literal_value ip fp"
    by (elim RestingQty_parseE) (blast dest: scaled_value_eq_iff [THEN iffD1])
next
  fix ip fp
  assume lit: "decimal_literal s ip fp" "length fp \<le> 2"
    and v: "of_nat (unat v) / 10 ^ 2 = literal_value ip fp"
  show "RestingQty_parse s = Inr v"
    by (rule RestingQty_parseI [OF lit scaled_value_eq_iff [OF lit(2), THEN iffD2, OF v]])
qed

lemma QtyDelta_parse_iff:
  "QtyDelta_parse s = Inr v \<longleftrightarrow>
     (\<exists>neg body ip fp. s = (if neg then minus_sign # body else body) \<and>
        decimal_literal body ip fp \<and> length fp \<le> 2 \<and> i64_range v \<and>
        of_int v / 10 ^ 2 = (if neg then - literal_value ip fp else literal_value ip fp))"
  (is "?l \<longleftrightarrow> ?r")
proof
  assume ?l
  then show ?r
    by (elim QtyDelta_parseE) (blast dest: signed_scaled_value [THEN iffD2])
next
  assume ?r
  then obtain neg body ip fp where lit: "s = (if neg then minus_sign # body else body)"
    "decimal_literal body ip fp" "length fp \<le> 2" "i64_range v"
    and v: "of_int v / 10 ^ 2 = (if neg then - literal_value ip fp else literal_value ip fp)"
    by blast
  have "v = (if neg then - int (scaled_value 2 ip fp) else int (scaled_value 2 ip fp))"
    using v unfolding signed_scaled_value [OF lit(3)] .
  with lit show ?l by (intro QtyDelta_parseI)
qed

section \<open>Properties\<close>

text \<open>
  C40. Prices are lossless: \<open>MicroDollars_parse\<close> accepts exactly the unsigned decimal literals with
  at most six fractional digits whose value fits, and the micro-dollar integer it returns,
  divided by a million, is the literal's exact rational value. Nothing else is accepted, and
  nothing is rounded or defaulted.
\<close>

theorem MicroDollars_parse_exact:
  "MicroDollars_parse s = Inr v \<longleftrightarrow>
     (\<exists>ip fp. decimal_literal s ip fp \<and> length fp \<le> 6 \<and>
        of_nat (unat v) / 10 ^ 6 = literal_value ip fp)"
  by (rule MicroDollars_parse_iff)

text \<open>
  Signed size changes are lossless: \<open>QtyDelta_parse\<close> accepts exactly the decimal literals,
  with an optional leading minus, of at most two fractional digits whose hundredfold fits an
  \<open>i64\<close> (the minimum included), and returns exactly that hundredfold.
\<close>

theorem QtyDelta_parse_exact:
  "QtyDelta_parse s = Inr v \<longleftrightarrow>
     (\<exists>neg body ip fp. s = (if neg then minus_sign # body else body) \<and>
        decimal_literal body ip fp \<and> length fp \<le> 2 \<and> i64_range v \<and>
        of_int v / 10 ^ 2 = (if neg then - literal_value ip fp else literal_value ip fp))"
  by (rule QtyDelta_parse_iff)

text \<open>
  Printing and parsing a price are inverse: the dollar text \<open>fmt_price_micro\<close> puts into
  mismatch reports parses back to the very price it came from, for every \<open>u32\<close>.
\<close>

theorem fmt_price_micro_roundtrip: "MicroDollars_parse (fmt_price_micro p) = Inr p"
proof (rule MicroDollars_parseI)
  let ?i = "show_nat (unat p div 1000000)" and ?f = "zero_pad 6 (show_nat (unat p mod 1000000))"
  show "decimal_literal (fmt_price_micro p) ?i ?f"
    using digits_show_nat digits_zero_pad by (simp add: decimal_literal_def fmt_price_micro_def)
  have len: "length ?f = 6" by (intro length_zero_pad) simp_all
  then show "length ?f \<le> 6" by simp
  show "scaled_value 6 ?i ?f = unat p"
    using digits_show_nat digits_zero_pad by (simp add: scaled_value_def len)
qed

lemma qty_literal:
  assumes "a = n div 100" and "b = n mod 100"
  shows "decimal_literal (show_nat a @ ''.'' @ zero_pad 2 (show_nat b)) (show_nat a) (zero_pad 2 (show_nat b))"
    and "length (zero_pad 2 (show_nat b)) = 2"
    and "scaled_value 2 (show_nat a) (zero_pad 2 (show_nat b)) = n"
proof -
  show "decimal_literal (show_nat a @ ''.'' @ zero_pad 2 (show_nat b)) (show_nat a) (zero_pad 2 (show_nat b))"
    using digits_show_nat digits_zero_pad by (simp add: decimal_literal_def)
  show len: "length (zero_pad 2 (show_nat b)) = 2"
    using assms by (intro length_zero_pad) simp_all
  show "scaled_value 2 (show_nat a) (zero_pad 2 (show_nat b)) = n"
    using digits_show_nat digits_zero_pad by (simp add: scaled_value_def len) (simp add: assms)
qed

text \<open>
  Printing and parsing a size are inverse for every \<open>i64\<close>, negative sizes and the minimum
  included: \<open>fmt_qty_centi\<close> output parses back through \<open>QtyDelta_parse\<close> to the same value.
\<close>

theorem fmt_qty_centi_roundtrip:
  assumes "i64_range q"
  shows "QtyDelta_parse (fmt_qty_centi q) = Inr q"
proof -
  define n where "n = nat (if q < 0 then - q else q)"
  note lit = qty_literal [OF refl refl, of n]
  have s: "fmt_qty_centi q = (if q < 0 then minus_sign # (show_nat (n div 100) @ ''.'' @ zero_pad 2 (show_nat (n mod 100)))
       else show_nat (n div 100) @ ''.'' @ zero_pad 2 (show_nat (n mod 100)))"
    by (simp add: fmt_qty_centi_def n_def minus_sign_def Let_def)
  show ?thesis
    by (rule QtyDelta_parseI [OF lit(1) _ s assms]) (simp_all only: lit(2,3), simp_all add: n_def)
qed

theorem fmt_qty_centi_roundtrip_witness:
  "QtyDelta_parse (fmt_qty_centi (- (2 ^ 63))) = Inr (- (2 ^ 63))"
  by (rule fmt_qty_centi_roundtrip) (simp add: i64_range_def)

end
