(* ===== verification/Records.thy ===== *)
theory Records
  imports Units
begin

text \<open>
  The domain types of \<^verbatim>\<open>crates/kdp-core\<close>: identifiers (\<^verbatim>\<open>ids.rs\<close>), market-data records
  (\<^verbatim>\<open>records.rs\<close>) and the stored envelope (\<^verbatim>\<open>envelope.rs\<close>) with its version check. A record
  field carries the initials of its struct, so that equal field names of different structs stay
  apart.

  A \<open>Timestamp\<close> is the instant in nanoseconds since the epoch, the resolution of
  \<^verbatim>\<open>chrono::DateTime<Utc>\<close>; \<open>timestamp_micros\<close> rounds down, as chrono does. JSON values are
  \<open>json\<close>: an integer literal that fits \<open>i64\<close> or \<open>u64\<close> is \<open>JInt\<close>, any other number keeps its text
  in \<open>JFloat\<close>. A decoding failure is the datatype \<open>err_msg\<close>: one constructor for each format string
  of the decoder, applied to the values it interpolates; the text stored is a rendering of it.
\<close>

section \<open>Identifiers\<close>

type_synonym Ticker = string

type_synonym Timestamp = int

definition timestamp_micros :: "Timestamp \<Rightarrow> i64" where
  "timestamp_micros ts = ts div 1000"

text \<open>The instants \<^verbatim>\<open>chrono\<close> represents, in microseconds, and its two checked constructors.\<close>

definition micros_ok :: "i64 \<Rightarrow> bool" where
  "micros_ok t \<longleftrightarrow> - 8334601228800000000 \<le> t \<and> t \<le> 8210266876799999999"

definition from_timestamp_micros :: "i64 \<Rightarrow> Timestamp option" where
  "from_timestamp_micros us = (if micros_ok us then Some (us * 1000) else None)"

definition from_timestamp_millis :: "i64 \<Rightarrow> Timestamp option" where
  "from_timestamp_millis ms = (if micros_ok (ms * 1000) then Some (ms * 1000000) else None)"

lemma timestamp_micros_mono: "a \<le> b \<Longrightarrow> timestamp_micros a \<le> timestamp_micros b"
  by (simp add: timestamp_micros_def zdiv_mono1)

datatype Side = Yes | No

datatype BookSide = Bid | Ask

section \<open>Records\<close>

record PriceLevel =
  pl_price :: u32
  pl_quantity :: u64

record OrderbookSnapshot =
  os_ticker :: Ticker
  os_ts :: Timestamp
  os_yes :: "PriceLevel list"
  os_no :: "PriceLevel list"

record OrderbookDelta =
  od_ticker :: Ticker
  od_ts :: Timestamp
  od_side :: Side
  od_price :: u32
  od_delta :: i64

record Trade =
  t_ticker :: Ticker
  t_ts :: Timestamp
  t_price :: u32
  t_count :: u64
  t_taker_side :: Side
  t_taker_book_side :: "BookSide option"
  t_trade_id :: "string option"

section \<open>JSON values and error texts\<close>

datatype json =
    JNull
  | JBool bool
  | JInt int
  | JFloat string
  | JString string
  | JArray "json list"
  | JObject "(string \<times> json) list"

datatype err_msg =
    EInvalidJson string
  | EUnknownFrameType string
  | EMissingType
  | EMissingMsg
  | EMissingStringField string
  | EInvalidSide "string option"
  | EField string string FixedPointError
  | EUnknownTakerBookSide json
  | ENonArrayLevels
  | ELevelNotArray
  | ELevelPriceNotString
  | ELevelSizeNotString
  | ELevelPrice string FixedPointError
  | ELevelSize string FixedPointError

section \<open>The envelope\<close>

datatype GapReason = SeqJump | Reconnect | Resubscribe | VerifyMismatch

record GapMarker =
  gm_reason :: GapReason
  gm_ticker :: Ticker
  gm_channel :: string
  gm_last_seq :: "u64 option"
  gm_observed_seq :: "u64 option"
  gm_detail :: string

record RawFallback =
  rf_raw_type :: "string option"
  rf_ticker :: "Ticker option"
  rf_error :: string
  rf_payload :: json

datatype RecordKind =
    Snapshot OrderbookSnapshot
  | Delta OrderbookDelta
  | TradeRec Trade
  | Gap GapMarker
  | Raw RawFallback
  | Verify OrderbookSnapshot

definition ENVELOPE_VERSION :: u16 where
  "ENVELOPE_VERSION = 2"

record Envelope =
  e_v :: u16
  e_recv_ts :: Timestamp
  e_seq :: "u64 option"
  e_sid :: "i64 option"
  e_kind :: RecordKind

datatype EnvelopeError = UnsupportedVersion u16 u16

definition Envelope_new :: "Timestamp \<Rightarrow> u64 option \<Rightarrow> i64 option \<Rightarrow> RecordKind \<Rightarrow> Envelope" where
  "Envelope_new recv_ts seq sid kind =
     \<lparr>e_v = ENVELOPE_VERSION, e_recv_ts = recv_ts, e_seq = seq, e_sid = sid, e_kind = kind\<rparr>"

definition validate :: "Envelope \<Rightarrow> EnvelopeError + unit" where
  "validate env =
     (if e_v env > ENVELOPE_VERSION then Inl (UnsupportedVersion (e_v env) ENVELOPE_VERSION)
      else Inr ())"

lemma Envelope_new_sel [simp]:
  "e_v (Envelope_new r q s k) = ENVELOPE_VERSION"
  "e_recv_ts (Envelope_new r q s k) = r"
  "e_seq (Envelope_new r q s k) = q"
  "e_sid (Envelope_new r q s k) = s"
  "e_kind (Envelope_new r q s k) = k"
  by (simp_all add: Envelope_new_def)

lemma validate_new [simp]: "validate (Envelope_new r q s k) = Inr ()"
  by (simp add: validate_def)

lemma validate_ok_iff: "validate env = Inr () \<longleftrightarrow> e_v env \<le> ENVELOPE_VERSION"
  by (auto simp: validate_def)

end
