(* ===== verification/Book.thy ===== *)
theory Book
  imports Ordered_Map Records
begin

text \<open>
  The order book of \<^verbatim>\<open>crates/kdp-core/src/book.rs\<close>: the one home of the snapshot/delta
  reconstruction rule, used by the offline processor, the verify engine and the replay
  library. \<open>Book\<close> keeps both sides as ordered maps from price to resting size, their running
  totals, and the count of underflows.

  The abstract specification is a pair of partial maps from price to size with
  \<open>spec_snapshot\<close> and \<open>spec_change\<close>; \<open>book_abs\<close> forgets the totals. The contract its clients
  rely on is the locale \<open>book_rule\<close>: a snapshot re-anchors the book, a change moves one
  level, and every operation keeps the invariant. It is interpreted on the operations below.
\<close>

section \<open>State and operations\<close>

type_synonym levels = "(u32, i64) omap"

definition ONE_DOLLAR_MICRO :: u32 where
  "ONE_DOLLAR_MICRO = 1000000"

record Book =
  b_yes :: levels
  b_no :: levels
  b_yes_total :: i64
  b_no_total :: i64
  b_underflows :: u64

definition Book_default :: Book where
  "Book_default = \<lparr>b_yes = [], b_no = [], b_yes_total = 0, b_no_total = 0, b_underflows = 0\<rparr>"

fun load_levels :: "levels \<Rightarrow> i64 \<Rightarrow> PriceLevel list \<Rightarrow> levels \<times> i64" where
  "load_levels side tot [] = (side, tot)"
| "load_levels side tot (level # levels) =
     (let q = u64_as_i64 (pl_quantity level);
          tot' = (case om_get side (pl_price level) of
                      Some old \<Rightarrow> i64_add tot (i64_sub q old)
                    | None \<Rightarrow> i64_add tot q)
      in load_levels (om_insert (pl_price level) q side) tot' levels)"

definition apply_snapshot_levels :: "PriceLevel list \<Rightarrow> PriceLevel list \<Rightarrow> Book \<Rightarrow> Book" where
  "apply_snapshot_levels yes no b =
     (let (ym, yt) = load_levels [] 0 yes; (nm, nt) = load_levels [] 0 no
      in b\<lparr>b_yes := ym, b_no := nm, b_yes_total := yt, b_no_total := nt\<rparr>)"

definition apply_snapshot :: "OrderbookSnapshot \<Rightarrow> Book \<Rightarrow> Book" where
  "apply_snapshot snap b = apply_snapshot_levels (os_yes snap) (os_no snap) b"

text \<open>
  The body of \<^verbatim>\<open>apply_change\<close> on the selected side: the new map, the new total, and whether the
  level went below zero.
\<close>

definition change_side :: "u32 \<Rightarrow> i64 \<Rightarrow> levels \<Rightarrow> i64 \<Rightarrow> levels \<times> i64 \<times> bool" where
  "change_side price_micro delta_centi side tot =
     (let entry = (case om_get side price_micro of Some q \<Rightarrow> q | None \<Rightarrow> 0);
          new = i64_add entry delta_centi;
          side1 = om_insert price_micro new side;
          tot1 = i64_add tot delta_centi;
          underflowed = new < 0
      in if new \<le> 0 then (om_remove price_micro side1, i64_sub tot1 new, underflowed)
         else (side1, tot1, underflowed))"

definition apply_change :: "Side \<Rightarrow> u32 \<Rightarrow> i64 \<Rightarrow> Book \<Rightarrow> Book" where
  "apply_change side price_micro delta_centi b =
     (case side of
        Yes \<Rightarrow>
          let (m, t, u) = change_side price_micro delta_centi (b_yes b) (b_yes_total b)
          in b\<lparr>b_yes := m, b_yes_total := t, b_underflows := b_underflows b + (if u then 1 else 0)\<rparr>
      | No \<Rightarrow>
          let (m, t, u) = change_side price_micro delta_centi (b_no b) (b_no_total b)
          in b\<lparr>b_no := m, b_no_total := t, b_underflows := b_underflows b + (if u then 1 else 0)\<rparr>)"

definition apply_delta :: "OrderbookDelta \<Rightarrow> Book \<Rightarrow> Book" where
  "apply_delta delta b = apply_change (od_side delta) (od_price delta) (od_delta delta) b"

record Top =
  top_yes_bid_micro :: "u32 option"
  top_yes_bid_sz_centi :: i64
  top_yes_ask_micro :: "u32 option"
  top_yes_ask_sz_centi :: i64
  top_yes_levels :: i64
  top_no_levels :: i64
  top_yes_total_centi :: i64
  top_no_total_centi :: i64

definition saturating_sub_u32 :: "u32 \<Rightarrow> u32 \<Rightarrow> u32" where
  "saturating_sub_u32 a b = (if a < b then 0 else a - b)"

definition Book_top :: "Book \<Rightarrow> Top" where
  "Book_top b =
     (let yes_bid = om_last (b_yes b); no_bid = om_last (b_no b)
      in \<lparr>top_yes_bid_micro = map_option fst yes_bid,
          top_yes_bid_sz_centi = (case yes_bid of Some (_, q) \<Rightarrow> q | None \<Rightarrow> 0),
          top_yes_ask_micro = map_option (\<lambda>(p, _). saturating_sub_u32 ONE_DOLLAR_MICRO p) no_bid,
          top_yes_ask_sz_centi = (case no_bid of Some (_, q) \<Rightarrow> q | None \<Rightarrow> 0),
          top_yes_levels = int (length (b_yes b)),
          top_no_levels = int (length (b_no b)),
          top_yes_total_centi = b_yes_total b,
          top_no_total_centi = b_no_total b\<rparr>)"

definition mid_micro :: "Top \<Rightarrow> u32 option" where
  "mid_micro t =
     (case (top_yes_bid_micro t, top_yes_ask_micro t) of
        (Some b, Some a) \<Rightarrow> Some ((b + a) div 2)
      | _ \<Rightarrow> None)"

definition spread_micro :: "Top \<Rightarrow> i64 option" where
  "spread_micro t =
     (case (top_yes_bid_micro t, top_yes_ask_micro t) of
        (Some b, Some a) \<Rightarrow> Some (i64_sub (uint a) (uint b))
      | _ \<Rightarrow> None)"

definition imbalance :: "Top \<Rightarrow> f64 option" where
  "imbalance t =
     (let tot = i64_add (top_yes_total_centi t) (top_no_total_centi t)
      in if tot = 0 then None
         else Some (FDiv (i64_sub (top_yes_total_centi t) (top_no_total_centi t)) tot))"

section \<open>Specification\<close>

type_synonym abook = "Side \<Rightarrow> u32 \<rightharpoonup> i64"

definition side_of_book :: "Side \<Rightarrow> Book \<Rightarrow> levels" where
  "side_of_book sd b = (case sd of Yes \<Rightarrow> b_yes b | No \<Rightarrow> b_no b)"

definition total_of_book :: "Side \<Rightarrow> Book \<Rightarrow> i64" where
  "total_of_book sd b = (case sd of Yes \<Rightarrow> b_yes_total b | No \<Rightarrow> b_no_total b)"

definition book_abs :: "Book \<Rightarrow> abook" where
  "book_abs b = (\<lambda>sd. om_get (side_of_book sd b))"

definition level_entry :: "PriceLevel \<Rightarrow> u32 \<times> i64" where
  "level_entry l = (pl_price l, u64_as_i64 (pl_quantity l))"

text \<open>A later level of the same price wins.\<close>

definition spec_levels :: "PriceLevel list \<Rightarrow> u32 \<rightharpoonup> i64" where
  "spec_levels ls = map_of (rev (map level_entry ls))"

definition spec_snapshot :: "PriceLevel list \<Rightarrow> PriceLevel list \<Rightarrow> abook" where
  "spec_snapshot yes no = (\<lambda>sd. case sd of Yes \<Rightarrow> spec_levels yes | No \<Rightarrow> spec_levels no)"

definition spec_change :: "Side \<Rightarrow> u32 \<Rightarrow> i64 \<Rightarrow> abook \<Rightarrow> abook" where
  "spec_change sd p d a =
     (let new = i64_add (case a sd p of Some q \<Rightarrow> q | None \<Rightarrow> 0) d
      in a(sd := (a sd)(p := (if new \<le> 0 then None else Some new))))"

definition side_inv :: "levels \<Rightarrow> i64 \<Rightarrow> bool" where
  "side_inv m t \<longleftrightarrow> om_wf m \<and> t = i64_wrap (om_sum m) \<and> (\<forall>q \<in> snd ` set m. i64_range q)"

definition book_inv :: "Book \<Rightarrow> bool" where
  "book_inv b \<longleftrightarrow> (\<forall>sd. side_inv (side_of_book sd b) (total_of_book sd b))"

definition book_positive :: "Book \<Rightarrow> bool" where
  "book_positive b \<longleftrightarrow> (\<forall>sd p q. book_abs b sd p = Some q \<longrightarrow> 0 < q)"

section \<open>One side\<close>

lemma side_inv_Nil [simp]: "side_inv [] 0"
  by (simp add: side_inv_def om_sum_def)

lemma set_om_insert_subset: "set (om_insert k v m) \<subseteq> insert (k, v) (set m)"
  by (induction m) auto

lemma set_om_remove_subset: "set (om_remove k m) \<subseteq> set m"
  by (auto simp: om_remove_def)

lemma side_inv_insert:
  assumes "side_inv m t" and "i64_range q"
    and "t' = i64_wrap (t + q - (case om_get m p of None \<Rightarrow> 0 | Some old \<Rightarrow> old))"
  shows "side_inv (om_insert p q m) t'"
proof -
  from assms(1) have wf: "om_wf m" and t: "t = i64_wrap (om_sum m)"
    and r: "\<forall>q \<in> snd ` set m. i64_range q" by (auto simp: side_inv_def)
  have "t' = i64_wrap (om_sum m + (q - (case om_get m p of None \<Rightarrow> 0 | Some old \<Rightarrow> old)))"
    unfolding assms(3) t by (simp add: i64_wrap_add_left flip: add_diff_eq)
  then have "t' = i64_wrap (om_sum (om_insert p q m))"
    by (simp add: om_sum_insert [OF wf] add_diff_eq)
  moreover have "\<forall>q \<in> snd ` set (om_insert p q m). i64_range q"
    using r assms(2) set_om_insert_subset [of p q m] by fastforce
  ultimately show ?thesis using wf by (simp add: side_inv_def)
qed

lemma side_inv_remove:
  assumes "side_inv m t"
    and "t' = i64_wrap (t - (case om_get m p of None \<Rightarrow> 0 | Some old \<Rightarrow> old))"
  shows "side_inv (om_remove p m) t'"
proof -
  from assms(1) have wf: "om_wf m" and t: "t = i64_wrap (om_sum m)"
    and r: "\<forall>q \<in> snd ` set m. i64_range q" by (auto simp: side_inv_def)
  have "t' = i64_wrap (om_sum (om_remove p m))"
    unfolding assms(2) t by (simp add: i64_wrap_diff_left om_sum_remove [OF wf])
  moreover have "\<forall>q \<in> snd ` set (om_remove p m). i64_range q"
    using r set_om_remove_subset [of p m] by fastforce
  ultimately show ?thesis using wf by (simp add: side_inv_def)
qed

lemma load_levels_inv:
  "side_inv m t \<Longrightarrow> load_levels m t ls = (m', t') \<Longrightarrow> side_inv m' t'"
proof (induction ls arbitrary: m t)
  case Nil
  then show ?case by simp
next
  case (Cons l ls)
  let ?p = "pl_price l" and ?q = "u64_as_i64 (pl_quantity l)"
  let ?t = "case om_get m ?p of Some old \<Rightarrow> i64_add t (i64_sub ?q old) | None \<Rightarrow> i64_add t ?q"
  have "side_inv (om_insert ?p ?q m) ?t"
    using Cons.prems(1)
    by (rule side_inv_insert) (auto simp: i64_add_def i64_sub_def i64_simps add_diff_eq split: option.splits)
  then show ?case
    using Cons.prems(2) by (simp add: Cons.IH Let_def)
qed

lemma load_levels_fold:
  "load_levels m t ls = (m', t') \<Longrightarrow> m' = fold (\<lambda>(k, v). om_insert k v) (map level_entry ls) m"
  by (induction ls arbitrary: m t) (auto simp: Let_def level_entry_def)

lemma load_levels_abs:
  assumes "load_levels [] 0 ls = (m', t')"
  shows "om_get m' = spec_levels ls"
  unfolding load_levels_fold [OF assms] spec_levels_def
  by (subst lvl.get_fold) (simp_all add: fun_eq_iff map_add_def split: option.splits)

lemma change_side_inv:
  assumes "side_inv m t" and "change_side p d m t = (m', t', u)"
  shows "side_inv m' t'"
proof -
  define entry where "entry = (case om_get m p of Some q \<Rightarrow> q | None \<Rightarrow> 0)"
  define new where "new = i64_add entry d"
  have wf: "om_wf m" using assms(1) by (simp add: side_inv_def)
  have ins: "side_inv (om_insert p new m) (i64_add t d)"
    using assms(1)
  proof (rule side_inv_insert)
    show "i64_range new" by (simp add: new_def)
    have "i64_wrap (t + new - entry) = i64_wrap (t + (entry + d) - entry)"
      unfolding new_def i64_add_def
      using i64_wrap_add_right [of "t - entry" "entry + d"] by (simp add: algebra_simps)
    then show "i64_add t d = i64_wrap (t + new - (case om_get m p of None \<Rightarrow> 0 | Some old \<Rightarrow> old))"
      by (simp add: i64_add_def entry_def option.case_eq_if)
  qed
  have rem: "side_inv (om_remove p (om_insert p new m)) (i64_sub (i64_add t d) new)"
    using ins by (rule side_inv_remove) (simp add: i64_sub_def om_get_insert [OF wf])
  show ?thesis
    using assms(2) ins rem unfolding change_side_def Let_def entry_def [symmetric] new_def [symmetric]
    by (auto split: if_splits)
qed

lemma change_side_abs:
  assumes "om_wf m" and "change_side p d m t = (m', t', u)"
  shows "om_get m' = (om_get m)(p := (let new = i64_add (case om_get m p of Some q \<Rightarrow> q | None \<Rightarrow> 0) d
           in if new \<le> 0 then None else Some new))"
  using assms(2) lvl.get_insert [OF assms(1)] lvl.get_insert_remove [OF assms(1)]
  by (auto simp: change_side_def Let_def split: if_splits)

section \<open>The whole book\<close>

lemma side_all_iff: "(\<forall>sd. P sd) \<longleftrightarrow> P Yes \<and> P No"
  by (metis Side.exhaust)

lemma book_inv_iff:
  "book_inv b \<longleftrightarrow> side_inv (b_yes b) (b_yes_total b) \<and> side_inv (b_no b) (b_no_total b)"
  by (simp add: book_inv_def side_all_iff side_of_book_def total_of_book_def)

lemma book_inv_wf: "book_inv b \<Longrightarrow> om_wf (side_of_book sd b)"
  by (simp add: book_inv_def side_inv_def)

lemma book_inv_default [simp]: "book_inv Book_default"
  by (simp add: book_inv_iff Book_default_def)

lemma book_inv_snapshot [simp]: "book_inv (apply_snapshot_levels y n b)"
  by (auto simp: book_inv_iff apply_snapshot_levels_def split: prod.splits
      intro: load_levels_inv [OF side_inv_Nil])

lemma book_inv_change: "book_inv b \<Longrightarrow> book_inv (apply_change sd p d b)"
  by (auto simp: book_inv_iff apply_change_def split: prod.splits Side.splits
      intro: change_side_inv)

lemma book_abs_default [simp]: "book_abs Book_default sd p = None"
  by (cases sd) (simp_all add: book_abs_def Book_default_def side_of_book_def)

lemma book_abs_snapshot: "book_abs (apply_snapshot_levels y n b) = spec_snapshot y n"
  by (auto simp: book_abs_def apply_snapshot_levels_def spec_snapshot_def side_of_book_def fun_eq_iff
      split: prod.splits Side.splits dest: load_levels_abs)

lemma book_abs_change:
  assumes "book_inv b"
  shows "book_abs (apply_change sd p d b) = spec_change sd p d (book_abs b)"
proof -
  have "om_wf (b_yes b)" and "om_wf (b_no b)"
    using assms by (simp_all add: book_inv_iff side_inv_def)
  then show ?thesis
    by (auto simp: book_abs_def apply_change_def spec_change_def side_of_book_def fun_eq_iff
        change_side_abs Let_def split: prod.splits Side.splits)
qed

section \<open>The contract of the book, and what it gives its clients\<close>

text \<open>
  A client drives the book by a sequence of snapshots and changes. \<open>run_ops\<close> is that loop, for
  any implementation of the two operations.
\<close>

datatype book_op = OpSnapshot "PriceLevel list" "PriceLevel list" | OpChange Side u32 i64

fun run_op :: "(PriceLevel list \<Rightarrow> PriceLevel list \<Rightarrow> 'b \<Rightarrow> 'b) \<Rightarrow> (Side \<Rightarrow> u32 \<Rightarrow> i64 \<Rightarrow> 'b \<Rightarrow> 'b) \<Rightarrow>
    book_op \<Rightarrow> 'b \<Rightarrow> 'b" where
  "run_op snapshot change (OpSnapshot y n) b = snapshot y n b"
| "run_op snapshot change (OpChange sd p d) b = change sd p d b"

definition run_ops :: "(PriceLevel list \<Rightarrow> PriceLevel list \<Rightarrow> 'b \<Rightarrow> 'b) \<Rightarrow> (Side \<Rightarrow> u32 \<Rightarrow> i64 \<Rightarrow> 'b \<Rightarrow> 'b) \<Rightarrow>
    book_op list \<Rightarrow> 'b \<Rightarrow> 'b" where
  "run_ops snapshot change ops b = fold (run_op snapshot change) ops b"

definition spec_run :: "book_op list \<Rightarrow> abook \<Rightarrow> abook" where
  "spec_run = run_ops (\<lambda>y n _. spec_snapshot y n) spec_change"

lemma run_ops_simps [simp]:
  "run_ops f g [] b = b"
  "run_ops f g (op # ops) b = run_ops f g ops (run_op f g op b)"
  "run_ops f g (ops @ ops') b = run_ops f g ops' (run_ops f g ops b)"
  by (simp_all add: run_ops_def)

lemma spec_run_simps [simp]:
  "spec_run [] a = a"
  "spec_run (OpSnapshot y n # ops) a = spec_run ops (spec_snapshot y n)"
  "spec_run (OpChange sd p d # ops) a = spec_run ops (spec_change sd p d a)"
  by (simp_all add: spec_run_def)

locale book_rule =
  fixes snapshot :: "PriceLevel list \<Rightarrow> PriceLevel list \<Rightarrow> 'b \<Rightarrow> 'b"
    and change :: "Side \<Rightarrow> u32 \<Rightarrow> i64 \<Rightarrow> 'b \<Rightarrow> 'b"
    and abs :: "'b \<Rightarrow> abook"
    and invar :: "'b \<Rightarrow> bool"
  assumes abs_snapshot: "abs (snapshot y n b) = spec_snapshot y n"
    and abs_change: "invar b \<Longrightarrow> abs (change sd p d b) = spec_change sd p d (abs b)"
    and invar_snapshot: "invar (snapshot y n b)"
    and invar_change: "invar b \<Longrightarrow> invar (change sd p d b)"
begin

lemma invar_run: "invar b \<Longrightarrow> invar (run_ops snapshot change ops b)"
proof (induction ops arbitrary: b)
  case Nil
  then show ?case by simp
next
  case (Cons op ops)
  then show ?case by (cases op) (simp_all add: invar_snapshot invar_change)
qed

lemma abs_run: "invar b \<Longrightarrow> abs (run_ops snapshot change ops b) = spec_run ops (abs b)"
proof (induction ops arbitrary: b)
  case Nil
  then show ?case by simp
next
  case (Cons op ops)
  then show ?case
    by (cases op) (simp_all add: abs_snapshot abs_change invar_snapshot invar_change)
qed

text \<open>A snapshot re-anchors: what came before it no longer shows.\<close>

lemma re_anchor:
  "abs (run_ops snapshot change (OpSnapshot y n # ops) b) =
   abs (run_ops snapshot change (OpSnapshot y n # ops) b')"
  by (simp add: abs_run invar_snapshot abs_snapshot)

end

interpretation bk: book_rule apply_snapshot_levels apply_change book_abs book_inv
  by unfold_locales (simp_all add: book_abs_snapshot book_abs_change book_inv_change)

definition replay :: "book_op list \<Rightarrow> Book \<Rightarrow> Book" where
  "replay = run_ops apply_snapshot_levels apply_change"

lemma replay_simps [simp]:
  "replay [] b = b"
  "replay (OpSnapshot y n # ops) b = replay ops (apply_snapshot_levels y n b)"
  "replay (OpChange sd p d # ops) b = replay ops (apply_change sd p d b)"
  "replay (ops @ ops') b = replay ops' (replay ops b)"
  by (simp_all add: replay_def)

lemma replay_inv: "book_inv b \<Longrightarrow> book_inv (replay ops b)"
  unfolding replay_def by (rule bk.invar_run)

lemma book_eqI:
  assumes "book_inv b" and "book_inv b'" and "book_abs b = book_abs b'"
    and "b_underflows b = b_underflows b'"
  shows "b = b'"
proof -
  have side: "side_of_book sd b = side_of_book sd b'" for sd
    using assms(3) by (intro om_ext book_inv_wf assms) (simp add: book_abs_def fun_eq_iff)
  have "b_yes b = b_yes b'" and "b_no b = b_no b'"
    using side [of Yes] side [of No] by (simp_all add: side_of_book_def)
  moreover have "b_yes_total b = b_yes_total b'" and "b_no_total b = b_no_total b'"
    using assms(1,2) calculation by (simp_all add: book_inv_iff side_inv_def)
  ultimately show ?thesis using assms(4) by simp
qed

lemma book_inv_underflows [simp]: "book_inv (b\<lparr>b_underflows := u\<rparr>) = book_inv b"
  by (simp add: book_inv_iff)

lemma book_abs_underflows [simp]: "book_abs (b\<lparr>b_underflows := u\<rparr>) = book_abs b"
  by (simp add: book_abs_def side_of_book_def fun_eq_iff split: Side.splits)

lemma replay_abs_default: "book_abs (replay ops Book_default) = spec_run ops (\<lambda>_ _. None)"
proof -
  have "book_abs (replay ops Book_default) = spec_run ops (book_abs Book_default)"
    unfolding replay_def by (rule bk.abs_run) simp
  moreover have "book_abs Book_default = (\<lambda>_ _. None)"
    by (simp add: fun_eq_iff)
  ultimately show ?thesis by simp
qed

section \<open>Properties\<close>

text \<open>
  C14. The running totals that make \<open>Book_top\<close> constant-time never drift: after any sequence of
  snapshots and deltas, each total is the sum of the sizes on its side, reduced to an \<open>i64\<close>.
\<close>

theorem totals_track_levels:
  "total_of_book sd (replay ops Book_default) =
     i64_wrap (om_sum (side_of_book sd (replay ops Book_default)))"
proof -
  have "book_inv (replay ops Book_default)"
    by (rule replay_inv) simp
  then show ?thesis by (simp add: book_inv_def side_inv_def)
qed

text \<open>
  C39. The book refines its specification: replaying any sequence of snapshots and deltas from the
  default book leaves exactly the levels the abstract rule gives, where a snapshot replaces
  both sides and a change adds to one level and drops it at zero or below.
\<close>

theorem replay_refines_spec:
  "book_abs (replay ops Book_default) = spec_run ops (\<lambda>_ _. None)"
  by (rule replay_abs_default)

text \<open>
  A snapshot re-anchors the book completely: two replays that share a snapshot and what
  follows it end in the same levels and the same totals, whatever books they started from;
  only the session-wide underflow counter remembers the past.
\<close>

theorem snapshot_re_anchors:
  "(replay (OpSnapshot y n # ops) b)\<lparr>b_underflows := 0\<rparr> =
   (replay (OpSnapshot y n # ops) b')\<lparr>b_underflows := 0\<rparr>"
proof (rule book_eqI)
  have inv: "book_inv (replay (OpSnapshot y n # ops) c)" for c
    using replay_inv [of "apply_snapshot_levels y n c"] by simp
  then show "book_inv ((replay (OpSnapshot y n # ops) b)\<lparr>b_underflows := 0\<rparr>)"
    and "book_inv ((replay (OpSnapshot y n # ops) b')\<lparr>b_underflows := 0\<rparr>)"
    by simp_all
  show "book_abs ((replay (OpSnapshot y n # ops) b)\<lparr>b_underflows := 0\<rparr>) =
      book_abs ((replay (OpSnapshot y n # ops) b')\<lparr>b_underflows := 0\<rparr>)"
    using bk.re_anchor [of y n ops b b'] by (simp add: replay_def)
qed simp

text \<open>
  The top of the book. With the invariant, \<open>om_last\<close> of a side is its best bid.
\<close>

lemma best_bid_iff:
  assumes "book_inv b"
  shows "om_last (side_of_book sd b) = Some (p, q) \<longleftrightarrow>
     book_abs b sd p = Some q \<and> (\<forall>p' \<in> dom (book_abs b sd). p' \<le> p)"
proof
  let ?m = "side_of_book sd b"
  have wf: "om_wf ?m" using assms by (rule book_inv_wf)
  have dom: "dom (book_abs b sd) = fst ` set ?m"
    by (simp add: book_abs_def dom_om_get)
  {
    assume l: "om_last ?m = Some (p, q)"
    then show "book_abs b sd p = Some q \<and> (\<forall>p' \<in> dom (book_abs b sd). p' \<le> p)"
      using om_last_max [OF wf l] unfolding dom by (simp add: book_abs_def)
  next
    assume r: "book_abs b sd p = Some q \<and> (\<forall>p' \<in> dom (book_abs b sd). p' \<le> p)"
    then have "?m \<noteq> []" by (auto simp: book_abs_def)
    then obtain p' q' where l: "om_last ?m = Some (p', q')"
      by (cases "last ?m") (simp add: om_last_def)
    note max = om_last_max [OF wf l]
    have "p \<in> fst ` set ?m" and "p' \<in> fst ` set ?m"
      using r max(1) dom by (auto simp: book_abs_def)
    then have "p' = p" using r max(2) dom by (auto intro: antisym)
    then show "om_last ?m = Some (p, q)"
      using r max(1) l by (simp add: book_abs_def)
  }
qed

text \<open>
  The top of the book is right: after any replay, the reported best YES bid is the highest
  price that rests on the YES side with the size resting there, and there is none exactly
  when that side is empty.
\<close>

theorem top_is_best_bid:
  "b = replay ops Book_default \<Longrightarrow>
     top_yes_bid_micro (Book_top b) = Some p \<and> top_yes_bid_sz_centi (Book_top b) = q \<longleftrightarrow>
     book_abs b Yes p = Some q \<and> (\<forall>p' \<in> dom (book_abs b Yes). p' \<le> p)"
proof -
  assume b: "b = replay ops Book_default"
  then have inv: "book_inv b" by (simp add: replay_inv)
  have "top_yes_bid_micro (Book_top b) = Some p \<and> top_yes_bid_sz_centi (Book_top b) = q \<longleftrightarrow>
      om_last (side_of_book Yes b) = Some (p, q)"
    by (auto simp: Book_top_def side_of_book_def Let_def)
  then show ?thesis by (simp add: best_bid_iff [OF inv])
qed

definition sample_level :: "nat \<Rightarrow> nat \<Rightarrow> PriceLevel" where
  "sample_level p q = \<lparr>pl_price = of_nat p, pl_quantity = of_nat q\<rparr>"

theorem top_is_best_bid_witness:
  "top_yes_bid_micro (Book_top (replay [OpSnapshot [sample_level 440000 100, sample_level 450000 7] []]
       Book_default)) = Some 450000 \<and>
   top_yes_bid_sz_centi (Book_top (replay [OpSnapshot [sample_level 440000 100, sample_level 450000 7] []]
       Book_default)) = 7"
  unfolding top_is_best_bid [OF refl]
  by (simp add: sample_level_def book_abs_def side_of_book_def apply_snapshot_levels_def
      Book_default_def u64_as_i64_def i64_add_def i64_range_def dom_om_get om_get_Cons Let_def)

lemma ask_le_dollar: "top_yes_ask_micro (Book_top b) = Some a \<Longrightarrow> a \<le> ONE_DOLLAR_MICRO"
  by (auto simp: Book_top_def Let_def saturating_sub_u32_def not_less intro: word_sub_le)

text \<open>
  The quotes around an uncrossed top: when both sides are present and the bid does not exceed
  the ask, the mid price lies between them and the spread is their exact, non-negative
  difference; no \<open>u32\<close> or \<open>i64\<close> operation wraps on the way.
\<close>

theorem mid_and_spread:
  assumes "top_yes_bid_micro (Book_top b) = Some bid" and "top_yes_ask_micro (Book_top b) = Some ask"
    and "bid \<le> ask"
  shows "\<exists>m. mid_micro (Book_top b) = Some m \<and> bid \<le> m \<and> m \<le> ask \<and>
     spread_micro (Book_top b) = Some (uint ask - uint bid) \<and> 0 \<le> uint ask - uint bid"
proof -
  have a: "unat ask \<le> 1000000"
    using ask_le_dollar [OF assms(2)] by (simp add: word_le_nat_alt ONE_DOLLAR_MICRO_def)
  have le: "unat bid \<le> unat ask" using assms(3) by (simp add: word_le_nat_alt)
  have sum: "unat (bid + ask) = unat bid + unat ask"
    using a le by (intro unat_add_lem [THEN iffD1]) simp
  have "unat ((bid + ask) div 2) = (unat bid + unat ask) div 2"
    using sum by (simp add: unat_div)
  then have mid: "bid \<le> (bid + ask) div 2" "(bid + ask) div 2 \<le> ask"
    using le by (simp_all add: word_le_nat_alt)
  have "uint bid \<le> uint ask" and "uint ask \<le> 1000000"
    using assms(3) ask_le_dollar [OF assms(2)]
    by (simp_all add: word_le_def ONE_DOLLAR_MICRO_def)
  then have "i64_range (uint ask - uint bid)"
    by (intro i64_range_diff uint_ge_0) (auto simp: i64_range_def intro: order_trans [OF _ uint_ge_0])
  with assms mid \<open>uint bid \<le> uint ask\<close> show ?thesis
    by (simp add: mid_micro_def spread_micro_def i64_sub_exact)
qed

theorem mid_and_spread_witness:
  "\<exists>m. mid_micro (Book_top (replay [OpSnapshot [sample_level 450000 1] [sample_level 540000 1]] Book_default)) = Some m \<and>
     450000 \<le> m \<and> m \<le> 460000 \<and>
     spread_micro (Book_top (replay [OpSnapshot [sample_level 450000 1] [sample_level 540000 1]] Book_default)) =
       Some (uint (460000 :: u32) - uint (450000 :: u32)) \<and> 0 \<le> uint (460000 :: u32) - uint (450000 :: u32)"
  by (rule mid_and_spread)
    (simp_all add: sample_level_def apply_snapshot_levels_def Book_default_def Book_top_def om_last_def
      saturating_sub_u32_def ONE_DOLLAR_MICRO_def Let_def)

section \<open>Levels stay positive\<close>

definition positive_levels :: "PriceLevel list \<Rightarrow> bool" where
  "positive_levels ls \<longleftrightarrow> list_all (\<lambda>l. 0 < uint (pl_quantity l) \<and> uint (pl_quantity l) < 2 ^ 63) ls"

fun positive_op :: "book_op \<Rightarrow> bool" where
  "positive_op (OpSnapshot y n) \<longleftrightarrow> positive_levels y \<and> positive_levels n"
| "positive_op (OpChange sd p d) \<longleftrightarrow> True"

definition abs_positive :: "abook \<Rightarrow> bool" where
  "abs_positive a \<longleftrightarrow> (\<forall>sd p q. a sd p = Some q \<longrightarrow> 0 < q)"

lemma spec_levels_positive:
  "positive_levels ls \<Longrightarrow> spec_levels ls p = Some q \<Longrightarrow> 0 < q"
  by (auto simp: spec_levels_def positive_levels_def list_all_iff level_entry_def u64_as_i64_small
      dest!: map_of_SomeD)

lemma abs_positive_change: "abs_positive a \<Longrightarrow> abs_positive (spec_change sd p d a)"
  by (auto simp: abs_positive_def spec_change_def Let_def split: if_splits)

lemma abs_positive_snapshot:
  "positive_levels y \<Longrightarrow> positive_levels n \<Longrightarrow> abs_positive (spec_snapshot y n)"
  by (auto simp: abs_positive_def spec_snapshot_def split: Side.splits dest: spec_levels_positive)

lemma abs_positive_run: "abs_positive a \<Longrightarrow> list_all positive_op ops \<Longrightarrow> abs_positive (spec_run ops a)"
proof (induction ops arbitrary: a)
  case Nil
  then show ?case by simp
next
  case (Cons op ops)
  then show ?case
    by (cases op) (simp_all add: abs_positive_change abs_positive_snapshot)
qed

text \<open>
  Every resting level is strictly positive, provided the snapshots carry positive sizes below
  \<open>2 ^ 63\<close>: no delta, however negative, leaves a level at zero or below in the book.
\<close>

theorem levels_stay_positive:
  assumes "list_all positive_op ops" and "book_abs (replay ops Book_default) sd p = Some q"
  shows "0 < q"
proof -
  have "book_abs (replay ops Book_default) = spec_run ops (\<lambda>_ _. None)"
    by (rule replay_abs_default)
  moreover have "abs_positive (spec_run ops (\<lambda>_ _. None))"
    using assms(1) by (intro abs_positive_run) (simp_all add: abs_positive_def)
  ultimately show ?thesis using assms(2) by (auto simp: abs_positive_def)
qed

theorem levels_stay_positive_witness:
  "0 < the (book_abs (replay [OpSnapshot [sample_level 5 100] [], OpChange Yes 5 (- 60)] Book_default) Yes 5)"
  by (rule levels_stay_positive [of "[OpSnapshot [sample_level 5 100] [], OpChange Yes 5 (- 60)]" Yes 5])
    (simp_all add: positive_levels_def sample_level_def book_abs_def side_of_book_def apply_snapshot_levels_def
      Book_default_def apply_change_def change_side_def u64_as_i64_def i64_add_def i64_range_def
      om_get_Cons Let_def)

text \<open>
  The proviso of the previous property is needed: a snapshot level of size zero, which the
  size parser accepts, stays in the book as a level of size zero, and it is reported as the
  best bid although nothing rests there.
\<close>

theorem zero_level_survives_snapshot:
  "RestingQty_parse ''0.00'' = Inr 0 \<and>
   (let b = apply_snapshot_levels [\<lparr>pl_price = 450000, pl_quantity = 0\<rparr>] [] Book_default
    in book_abs b Yes 450000 = Some 0 \<and> top_yes_bid_micro (Book_top b) = Some 450000 \<and>
       top_yes_bid_sz_centi (Book_top b) = 0)"
proof -
  have "RestingQty_parse ''0.00'' = Inr 0"
  proof (rule RestingQty_parseI)
    show "decimal_literal ''0.00'' ''0'' ''00''"
      by (simp add: decimal_literal_def all_digits_def)
    show "scaled_value 2 ''0'' ''00'' = unat (0 :: u64)"
      by (simp add: scaled_value_def digits_value_def digit_val_def)
  qed simp
  then show ?thesis
    by (simp add: book_abs_def side_of_book_def apply_snapshot_levels_def Book_default_def Book_top_def
        u64_as_i64_def om_last_def om_get_Cons Let_def)
qed

end
