(* ===== verification/Verify_Engine.thy ===== *)
theory Verify_Engine
  imports Book
begin

text \<open>
  The verify diff engine of \<^verbatim>\<open>crates/kdp-process/src/verify.rs\<close>: it is fed the replayed book events,
  the gap markers and the REST observations of one ticker in stream order, and renders one
  verdict row for each observation. The state is \<open>VerifyEngine\<close>: the recent book states, the
  observation still waiting for a match, whether an unresolved gap makes the book suspect, and
  the rows so far.

  \<open>js\<close> is \<^verbatim>\<open>serde_json::to_string\<close> on a list of levels; only its result is stored.

  \<open>vrun\<close> drives the engine over a whole stream. The lemmas show that no observation is lost
  or reordered, that pruning the window never hides a state that was in force inside the
  tolerance window, and what a \<^verbatim>\<open>matched\<close> and a \<^verbatim>\<open>mismatch\<close> verdict mean.
\<close>

section \<open>Canonical states and the mismatch text\<close>

definition VERIFY_WINDOW_US :: i64 where
  "VERIFY_WINDOW_US = 5000000"

type_synonym State = "levels \<times> levels"

definition canonicalize_book :: "Book \<Rightarrow> State" where
  "canonicalize_book book = (b_yes book, b_no book)"

definition canonicalize_rest_side :: "PriceLevel list \<Rightarrow> levels" where
  "canonicalize_rest_side ls =
     fold (\<lambda>level m. om_insert (pl_price level) (u64_as_i64 (pl_quantity level)) m) ls []"

definition canonicalize_rest :: "PriceLevel list \<Rightarrow> PriceLevel list \<Rightarrow> State" where
  "canonicalize_rest yes no = (canonicalize_rest_side yes, canonicalize_rest_side no)"

definition fmt_side_value :: "i64 option \<Rightarrow> string" where
  "fmt_side_value v = (case v of Some qty \<Rightarrow> fmt_qty_centi qty | None \<Rightarrow> ''absent'')"

type_synonym FirstDiff = "u32 \<times> i64 option \<times> i64 option"

text \<open>\<^verbatim>\<open>iter().copied().collect()\<close> into an ordered map, and the union of the two key sets.\<close>

definition om_collect :: "('k :: linorder \<times> 'v) list \<Rightarrow> ('k, 'v) omap" where
  "om_collect es = fold (\<lambda>(k, v). om_insert k v) es []"

definition side_prices :: "levels \<Rightarrow> levels \<Rightarrow> u32 list" where
  "side_prices ours rest =
     map fst (om_collect (map (\<lambda>(p, _). (p, ())) ours @ map (\<lambda>(p, _). (p, ())) rest))"

fun diff_loop :: "levels \<Rightarrow> levels \<Rightarrow> u32 list \<Rightarrow> nat \<Rightarrow> FirstDiff option \<Rightarrow> nat \<times> FirstDiff option" where
  "diff_loop ours_map rest_map [] cnt fst_diff = (cnt, fst_diff)"
| "diff_loop ours_map rest_map (price # prices) cnt fst_diff =
     (let ours_qty = om_get ours_map price; rest_qty = om_get rest_map price
      in if ours_qty \<noteq> rest_qty
         then diff_loop ours_map rest_map prices (cnt + 1)
                (if fst_diff = None then Some (price, ours_qty, rest_qty) else fst_diff)
         else diff_loop ours_map rest_map prices cnt fst_diff)"

definition side_diff :: "levels \<Rightarrow> levels \<Rightarrow> nat \<times> FirstDiff option" where
  "side_diff ours rest =
     (let ours_map = om_collect ours; rest_map = om_collect rest
      in diff_loop ours_map rest_map (side_prices ours_map rest_map) 0 None)"

definition side_detail :: "string \<Rightarrow> levels \<Rightarrow> levels \<Rightarrow> string" where
  "side_detail label ours rest =
     (case side_diff ours rest of
        (cnt, None) \<Rightarrow> label @ '': 0 level(s) differ''
      | (cnt, Some (price, ours_qty, rest_qty)) \<Rightarrow>
          label @ '': '' @ show_nat cnt @ '' level(s) differ (first at '' @ fmt_price_micro price @
          '': ours '' @ fmt_side_value ours_qty @ '' vs rest '' @ fmt_side_value rest_qty @ '')'')"

definition mismatch_detail :: "State \<Rightarrow> State \<Rightarrow> string" where
  "mismatch_detail ours rest =
     side_detail ''yes'' (fst ours) (fst rest) @ ''; '' @ side_detail ''no'' (snd ours) (snd rest)"

section \<open>The engine\<close>

record VerifyOutcomeRow =
  vr_recv_ts_us :: i64
  vr_outcome :: string
  vr_match_lag_us :: "i64 option"
  vr_yes_levels_json :: string
  vr_no_levels_json :: string
  vr_detail :: string

record PendingCheck =
  pc_verify_ts :: i64
  pc_deadline :: i64
  pc_rest_state :: State
  pc_book_state_at_verify :: State
  pc_yes_levels_json :: string
  pc_no_levels_json :: string

definition resolve_matched :: "i64 \<Rightarrow> PendingCheck \<Rightarrow> VerifyOutcomeRow" where
  "resolve_matched lag_us pc =
     \<lparr>vr_recv_ts_us = pc_verify_ts pc, vr_outcome = ''matched'', vr_match_lag_us = Some lag_us,
      vr_yes_levels_json = pc_yes_levels_json pc, vr_no_levels_json = pc_no_levels_json pc,
      vr_detail = []\<rparr>"

definition resolve_mismatch :: "PendingCheck \<Rightarrow> VerifyOutcomeRow" where
  "resolve_mismatch pc =
     \<lparr>vr_recv_ts_us = pc_verify_ts pc, vr_outcome = ''mismatch'', vr_match_lag_us = None,
      vr_yes_levels_json = pc_yes_levels_json pc, vr_no_levels_json = pc_no_levels_json pc,
      vr_detail = mismatch_detail (pc_book_state_at_verify pc) (pc_rest_state pc)\<rparr>"

definition resolve_skipped_gap :: "PendingCheck \<Rightarrow> VerifyOutcomeRow" where
  "resolve_skipped_gap pc =
     \<lparr>vr_recv_ts_us = pc_verify_ts pc, vr_outcome = ''skipped_gap'', vr_match_lag_us = None,
      vr_yes_levels_json = pc_yes_levels_json pc, vr_no_levels_json = pc_no_levels_json pc,
      vr_detail = ''book turned suspect (unresolved gap) during the verify window; verdict withheld''\<rparr>"

definition resolve_truncated :: "PendingCheck \<Rightarrow> VerifyOutcomeRow" where
  "resolve_truncated pc =
     \<lparr>vr_recv_ts_us = pc_verify_ts pc, vr_outcome = ''truncated'', vr_match_lag_us = None,
      vr_yes_levels_json = pc_yes_levels_json pc, vr_no_levels_json = pc_no_levels_json pc,
      vr_detail = ''stream ended inside the verify window; verdict withheld''\<rparr>"

record VerifyEngine =
  ve_window :: "(i64 \<times> State) list"
  ve_pending :: "PendingCheck option"
  ve_gap_pending :: bool
  ve_rows :: "VerifyOutcomeRow list"

definition VerifyEngine_new :: VerifyEngine where
  "VerifyEngine_new = \<lparr>ve_window = [], ve_pending = None, ve_gap_pending = False, ve_rows = []\<rparr>"

fun prune_window :: "i64 \<Rightarrow> (i64 \<times> State) list \<Rightarrow> (i64 \<times> State) list" where
  "prune_window cutoff (a # b # w) =
     (if fst b \<le> cutoff then prune_window cutoff (b # w) else a # b # w)"
| "prune_window cutoff w = w"

definition on_book_event :: "i64 \<Rightarrow> Book \<Rightarrow> bool \<Rightarrow> VerifyEngine \<Rightarrow> VerifyEngine" where
  "on_book_event recv_ts_us book is_snapshot e =
     (let state = canonicalize_book book;
          e1 = (case ve_pending e of
                  None \<Rightarrow> e
                | Some pending \<Rightarrow>
                    if recv_ts_us > pc_deadline pending
                    then e\<lparr>ve_pending := None, ve_rows := ve_rows e @ [resolve_mismatch pending]\<rparr>
                    else if state = pc_rest_state pending
                    then e\<lparr>ve_pending := None,
                           ve_rows := ve_rows e @
                             [resolve_matched (i64_sub recv_ts_us (pc_verify_ts pending)) pending]\<rparr>
                    else e);
          cutoff = i64_sub recv_ts_us VERIFY_WINDOW_US;
          e2 = e1\<lparr>ve_window := prune_window cutoff (ve_window e1 @ [(recv_ts_us, state)])\<rparr>
      in if is_snapshot then e2\<lparr>ve_gap_pending := False\<rparr> else e2)"

definition on_gap :: "VerifyEngine \<Rightarrow> VerifyEngine" where
  "on_gap e =
     (let e1 = e\<lparr>ve_gap_pending := True\<rparr>
      in case ve_pending e1 of
           None \<Rightarrow> e1
         | Some pending \<Rightarrow>
             e1\<lparr>ve_pending := None, ve_rows := ve_rows e1 @ [resolve_skipped_gap pending]\<rparr>)"

text \<open>The backward scan, over the window from the newest entry to the oldest: the lag of a match.\<close>

fun scan_back :: "i64 \<Rightarrow> i64 \<Rightarrow> State \<Rightarrow> (i64 \<times> State) list \<Rightarrow> i64 option" where
  "scan_back recv_ts_us threshold rest_state [] = None"
| "scan_back recv_ts_us threshold rest_state ((ts, state) # w) =
     (if state = rest_state then Some (i64_sub (max ts threshold) recv_ts_us)
      else if ts < threshold then None
      else scan_back recv_ts_us threshold rest_state w)"

definition on_verify :: "(levels \<Rightarrow> string) \<Rightarrow> i64 \<Rightarrow> PriceLevel list \<Rightarrow> PriceLevel list \<Rightarrow> Book \<Rightarrow>
    VerifyEngine \<Rightarrow> VerifyEngine" where
  "on_verify js recv_ts_us rest_yes rest_no book e =
     (let e1 = (case ve_pending e of
                  None \<Rightarrow> e
                | Some pending \<Rightarrow>
                    e\<lparr>ve_pending := None,
                      ve_rows := ve_rows e @
                        [if ve_gap_pending e then resolve_skipped_gap pending
                         else resolve_mismatch pending]\<rparr>);
          rest_state = canonicalize_rest rest_yes rest_no;
          yj = js (fst rest_state); nj = js (snd rest_state);
          verdict = (\<lambda>oc lag detail.
             e1\<lparr>ve_rows := ve_rows e1 @
                 [\<lparr>vr_recv_ts_us = recv_ts_us, vr_outcome = oc, vr_match_lag_us = lag,
                   vr_yes_levels_json = yj, vr_no_levels_json = nj, vr_detail = detail\<rparr>]\<rparr>)
      in if ve_gap_pending e1
         then verdict ''skipped_gap'' None ''book state is suspect since the last unresolved gap''
         else let current_state = canonicalize_book book in
           if current_state = rest_state then verdict ''matched'' (Some 0) []
           else let threshold = i64_sub recv_ts_us VERIFY_WINDOW_US in
             case scan_back recv_ts_us threshold rest_state (rev (ve_window e1)) of
               Some lag_us \<Rightarrow> verdict ''matched'' (Some lag_us) []
             | None \<Rightarrow>
                 e1\<lparr>ve_pending := Some
                     \<lparr>pc_verify_ts = recv_ts_us, pc_deadline = i64_add recv_ts_us VERIFY_WINDOW_US,
                      pc_rest_state = rest_state, pc_book_state_at_verify = current_state,
                      pc_yes_levels_json = yj, pc_no_levels_json = nj\<rparr>\<rparr>)"

definition engine_finish :: "VerifyEngine \<Rightarrow> VerifyOutcomeRow list" where
  "engine_finish e =
     (case ve_pending e of
        None \<Rightarrow> ve_rows e
      | Some pending \<Rightarrow> ve_rows e @ [resolve_truncated pending])"

section \<open>Streams\<close>

datatype vevent =
    VBook i64 Book bool
  | VGap
  | VVerify i64 "PriceLevel list" "PriceLevel list" Book

fun vstep :: "(levels \<Rightarrow> string) \<Rightarrow> vevent \<Rightarrow> VerifyEngine \<Rightarrow> VerifyEngine" where
  "vstep js (VBook ts b snap) e = on_book_event ts b snap e"
| "vstep js VGap e = on_gap e"
| "vstep js (VVerify ts y n b) e = on_verify js ts y n b e"

definition vrun :: "(levels \<Rightarrow> string) \<Rightarrow> vevent list \<Rightarrow> VerifyEngine" where
  "vrun js evs = fold (vstep js) evs VerifyEngine_new"

lemma vrun_Nil [simp]: "vrun js [] = VerifyEngine_new"
  by (simp add: vrun_def)

lemma vrun_snoc [simp]: "vrun js (evs @ [ev]) = vstep js ev (vrun js evs)"
  by (simp add: vrun_def)

fun book_times :: "vevent \<Rightarrow> (i64 \<times> State) list" where
  "book_times (VBook ts b snap) = [(ts, canonicalize_book b)]"
| "book_times _ = []"

text \<open>Every book state of the stream with its time, in stream order.\<close>

definition history :: "vevent list \<Rightarrow> (i64 \<times> State) list" where
  "history evs = concat (map book_times evs)"

fun verify_times :: "vevent \<Rightarrow> i64 list" where
  "verify_times (VVerify ts y n b) = [ts]"
| "verify_times _ = []"

definition observations :: "vevent list \<Rightarrow> i64 list" where
  "observations evs = concat (map verify_times evs)"

lemma history_simps [simp]:
  "history [] = []" "history (evs @ evs') = history evs @ history evs'"
  "history (ev # evs) = book_times ev @ history evs"
  by (simp_all add: history_def)

lemma observations_simps [simp]:
  "observations [] = []" "observations (evs @ evs') = observations evs @ observations evs'"
  "observations (ev # evs) = verify_times ev @ observations evs"
  by (simp_all add: observations_def)

section \<open>One row for each observation\<close>

definition rows_and_pending :: "VerifyEngine \<Rightarrow> i64 list" where
  "rows_and_pending e = map vr_recv_ts_us (ve_rows e) @
     (case ve_pending e of None \<Rightarrow> [] | Some pc \<Rightarrow> [pc_verify_ts pc])"

lemmas resolve_defs = resolve_matched_def resolve_mismatch_def resolve_skipped_gap_def resolve_truncated_def

lemma rows_and_pending_step:
  "rows_and_pending (vstep js ev e) = rows_and_pending e @ verify_times ev"
  by (cases ev)
    (auto simp: rows_and_pending_def on_book_event_def on_gap_def on_verify_def resolve_defs Let_def
      split: option.splits)

lemma finish_rows:
  "map vr_recv_ts_us (engine_finish (vrun js evs)) = observations evs"
proof -
  have "rows_and_pending (vrun js evs) = observations evs"
    by (induction evs rule: rev_induct)
      (simp_all add: rows_and_pending_step, simp add: rows_and_pending_def VerifyEngine_new_def)
  then show ?thesis
    by (auto simp: engine_finish_def rows_and_pending_def resolve_defs split: option.splits)
qed

text \<open>
  No observation is lost, duplicated or reordered: the rows of a finished engine are, in order,
  exactly one for each REST observation of the stream, whatever book events and gaps come
  between them.
\<close>

theorem one_row_per_observation:
  "map vr_recv_ts_us (engine_finish (vrun js evs)) = observations evs"
  by (rule finish_rows)

section \<open>The window against the full history\<close>

text \<open>No window arithmetic wraps on the instants \<^verbatim>\<open>chrono\<close> represents.\<close>

lemma window_exact [simp]:
  assumes "micros_ok t"
  shows "i64_sub t VERIFY_WINDOW_US = t - VERIFY_WINDOW_US"
    and "i64_add t VERIFY_WINDOW_US = t + VERIFY_WINDOW_US"
  using assms by (simp_all add: i64_sub_def i64_add_def VERIFY_WINDOW_US_def micros_ok_def i64_range_def)

text \<open>The book is a step function: its state at an instant is the last one established by then.\<close>

definition state_at :: "(i64 \<times> State) list \<Rightarrow> i64 \<Rightarrow> State option" where
  "state_at h t =
     (let past = filter (\<lambda>(ts, _). ts \<le> t) h in if past = [] then None else Some (snd (last past)))"

definition times_ok :: "(i64 \<times> State) list \<Rightarrow> bool" where
  "times_ok h \<longleftrightarrow> sorted (map fst h) \<and> list_all micros_ok (map fst h)"

lemma times_ok_append: "times_ok (h @ h') \<Longrightarrow> times_ok h"
  by (simp add: times_ok_def sorted_append)

lemma prune_window_split:
  "\<exists>d. w = d @ prune_window c w \<and> (d = [] \<or> prune_window c w \<noteq> [] \<and> fst (hd (prune_window c w)) \<le> c)"
proof (induction c w rule: prune_window.induct)
  case (1 c a b w)
  show ?case
  proof (cases "fst b \<le> c")
    case True
    with "1.IH" obtain d where d: "b # w = d @ prune_window c (b # w)"
      "d = [] \<or> prune_window c (b # w) \<noteq> [] \<and> fst (hd (prune_window c (b # w))) \<le> c" by blast
    have "prune_window c (b # w) \<noteq> [] \<and> fst (hd (prune_window c (b # w))) \<le> c"
      using d True by (cases d) (metis append_Nil list.sel(1) list.distinct(1), simp)
    with d(1) True show ?thesis
      by (intro exI [of _ "a # d"]) simp
  qed simp
qed simp_all

definition window_inv :: "(i64 \<times> State) list \<Rightarrow> (i64 \<times> State) list \<Rightarrow> bool" where
  "window_inv h w \<longleftrightarrow> (\<exists>d. h = d @ w \<and>
     (d = [] \<or> w \<noteq> [] \<and> fst (hd w) \<le> fst (last h) - VERIFY_WINDOW_US))"

lemma window_inv_push:
  assumes "window_inv h w" and "times_ok (h @ [(ts, st)])"
  shows "window_inv (h @ [(ts, st)]) (prune_window (i64_sub ts VERIFY_WINDOW_US) (w @ [(ts, st)]))"
proof -
  let ?p = "prune_window (ts - VERIFY_WINDOW_US) (w @ [(ts, st)])"
  have ok: "micros_ok ts" and le: "\<forall>x \<in> set h. fst x \<le> ts"
    using assms(2) by (auto simp: times_ok_def sorted_append)
  from assms(1) obtain d where d: "h = d @ w"
    "d = [] \<or> w \<noteq> [] \<and> fst (hd w) \<le> fst (last h) - VERIFY_WINDOW_US"
    by (auto simp: window_inv_def)
  from prune_window_split [of "w @ [(ts, st)]" "ts - VERIFY_WINDOW_US"]
  obtain d' where d': "w @ [(ts, st)] = d' @ ?p" "d' = [] \<or> ?p \<noteq> [] \<and> fst (hd ?p) \<le> ts - VERIFY_WINDOW_US"
    by blast
  have "fst (hd ?p) \<le> ts - VERIFY_WINDOW_US \<and> ?p \<noteq> []" if "d \<noteq> []" and "d' = []"
  proof -
    have "w \<noteq> []" and "fst (hd w) \<le> fst (last h) - VERIFY_WINDOW_US"
      using d(2) that by auto
    moreover have "fst (last h) \<le> ts"
      using le d(1) \<open>w \<noteq> []\<close> by simp
    moreover have "?p = w @ [(ts, st)]" using d'(1) that by simp
    ultimately show ?thesis by simp
  qed
  then have "d @ d' = [] \<or> ?p \<noteq> [] \<and> fst (hd ?p) \<le> ts - VERIFY_WINDOW_US"
    using d'(2) by auto
  moreover have "h @ [(ts, st)] = (d @ d') @ ?p"
    using d(1) d'(1) by simp
  moreover have "fst (last (h @ [(ts, st)])) = ts" by simp
  ultimately show ?thesis
    unfolding window_inv_def window_exact(1) [OF ok] by (metis (no_types, lifting))
qed

lemma window_on_book [simp]:
  "ve_window (on_book_event ts b s e) =
     prune_window (i64_sub ts VERIFY_WINDOW_US) (ve_window e @ [(ts, canonicalize_book b)])"
  by (simp add: on_book_event_def Let_def split: option.splits)

lemma window_on_other [simp]:
  "ve_window (on_gap e) = ve_window e" "ve_window (on_verify js ts y n b e) = ve_window e"
  by (simp_all add: on_gap_def on_verify_def Let_def split: option.splits)

lemma vrun_window:
  "times_ok (history evs) \<Longrightarrow> window_inv (history evs) (ve_window (vrun js evs))"
proof (induction evs rule: rev_induct)
  case Nil
  then show ?case by (simp add: window_inv_def VerifyEngine_new_def)
next
  case (snoc ev evs)
  then have "window_inv (history evs) (ve_window (vrun js evs))"
    by (auto dest: times_ok_append)
  with snoc.prems show ?case
    by (cases ev) (simp_all add: window_inv_push)
qed

lemma scan_back_reaches:
  "\<forall>x \<in> set xs. th \<le> fst x \<Longrightarrow> scan_back v th st (xs @ (ts, st) # ys) \<noteq> None"
  by (induction xs) (auto split: if_splits)

lemma scan_back_Some:
  "scan_back v th st w = Some lag \<Longrightarrow>
     \<exists>xs ts ys. w = xs @ (ts, st) # ys \<and> (\<forall>x \<in> set xs. th \<le> fst x) \<and> lag = i64_sub (max ts th) v"
proof (induction v th st w rule: scan_back.induct)
  case (2 v th st ts s w)
  show ?case
  proof (cases "s = st")
    case True
    with 2 show ?thesis by (intro exI [of _ "[]"]) auto
  next
    case False
    with 2 have "\<not> ts < th" and "scan_back v th st w = Some lag"
      by (auto split: if_splits)
    with "2.IH" [OF False] obtain xs ts' ys where "w = xs @ (ts', st) # ys"
      "\<forall>x \<in> set xs. th \<le> fst x" "lag = i64_sub (max ts' th) v" by blast
    with \<open>\<not> ts < th\<close> show ?thesis
      by (intro exI [of _ "(ts, s) # xs"] exI [of _ ts'] exI [of _ ys]) auto
  qed
qed simp

text \<open>A state in force at some instant of the backward window is found in the pruned window.\<close>

lemma state_at_split:
  assumes "sorted (map fst h)" and "state_at h t = Some st"
  shows "\<exists>a ts b. h = a @ (ts, st) # b \<and> ts \<le> t \<and> (\<forall>x \<in> set b. t < fst x)"
  using assms
proof (induction h rule: rev_induct)
  case Nil
  then show ?case by (simp add: state_at_def)
next
  case (snoc x h)
  show ?case
  proof (cases "fst x \<le> t")
    case True
    with snoc.prems(2) have "x = (fst x, st)"
      by (cases x) (simp add: state_at_def)
    with True show ?thesis by (intro exI [of _ h] exI [of _ "fst x"] exI [of _ "[]"]) simp
  next
    case False
    with snoc.prems(2) have "state_at h t = Some st"
      by (cases x) (simp add: state_at_def Let_def split: if_splits)
    moreover have "sorted (map fst h)" using snoc.prems(1) by (simp add: sorted_append)
    ultimately obtain a ts b where "h = a @ (ts, st) # b" "ts \<le> t" "\<forall>x \<in> set b. t < fst x"
      using snoc.IH by blast
    with False show ?thesis
      by (intro exI [of _ a] exI [of _ ts] exI [of _ "b @ [x]"]) auto
  qed
qed

lemma scan_complete:
  assumes inv: "window_inv h w" and h: "times_ok h" and v: "list_all (\<lambda>x. fst x \<le> v) h"
    and t: "v - VERIFY_WINDOW_US \<le> t" and st: "state_at h t = Some st"
  shows "scan_back v (v - VERIFY_WINDOW_US) st (rev w) \<noteq> None"
proof -
  have "sorted (map fst h)" using h by (simp add: times_ok_def)
  from state_at_split [OF this st]
  obtain a ts b where e: "h = a @ (ts, st) # b" "ts \<le> t" "\<forall>x \<in> set b. t < fst x" by blast
  from inv obtain d where d: "h = d @ w"
    "d = [] \<or> w \<noteq> [] \<and> fst (hd w) \<le> fst (last h) - VERIFY_WINDOW_US"
    by (auto simp: window_inv_def)
  have "length d \<le> length a"
  proof (rule ccontr)
    assume "\<not> length d \<le> length a"
    then have "set w \<subseteq> set b" and "d \<noteq> []"
      using e(1) d(1) by (auto simp: append_eq_append_conv_if append_eq_Cons_conv Cons_eq_append_conv
          dest!: in_set_dropD split: if_splits)
    with d(2) have "w \<noteq> []" and hd: "fst (hd w) \<le> fst (last h) - VERIFY_WINDOW_US" by auto
    then have "hd w \<in> set b" and "last h \<in> set h"
      using \<open>set w \<subseteq> set b\<close> e(1) by auto
    with e(3) v hd t show False by (force simp: list_all_iff)
  qed
  then obtain a' where "w = a' @ (ts, st) # b"
    using e(1) d(1) by (auto simp: append_eq_append_conv2)
  then have "rev w = rev b @ (ts, st) # rev a'" by simp
  moreover have "\<forall>x \<in> set (rev b). v - VERIFY_WINDOW_US \<le> fst x"
    using e(3) t by force
  ultimately show ?thesis by (simp add: scan_back_reaches)
qed

section \<open>What a verdict means\<close>

text \<open>A check is pending only while the book is trusted.\<close>

lemma pending_trusted: "ve_pending (vrun js evs) \<noteq> None \<Longrightarrow> \<not> ve_gap_pending (vrun js evs)"
proof (induction evs rule: rev_induct)
  case Nil
  then show ?case by (simp add: VerifyEngine_new_def)
next
  case (snoc ev evs)
  then show ?case
    by (cases ev)
      (auto simp: on_book_event_def on_gap_def on_verify_def Let_def split: option.splits if_splits)
qed

definition verdict_row :: "(levels \<Rightarrow> string) \<Rightarrow> i64 \<Rightarrow> State \<Rightarrow> string \<Rightarrow> i64 option \<Rightarrow> string \<Rightarrow> VerifyOutcomeRow" where
  "verdict_row js ts st oc lag detail =
     \<lparr>vr_recv_ts_us = ts, vr_outcome = oc, vr_match_lag_us = lag,
      vr_yes_levels_json = js (fst st), vr_no_levels_json = js (snd st), vr_detail = detail\<rparr>"

lemma scan_lag_bounds:
  assumes "scan_back v (v - VERIFY_WINDOW_US) st w = Some lag"
    and "micros_ok v" and "list_all (\<lambda>x. fst x \<le> v) w"
  shows "- VERIFY_WINDOW_US \<le> lag \<and> lag \<le> 0"
proof -
  from scan_back_Some [OF assms(1)] obtain xs ts ys where w: "w = xs @ (ts, st) # ys"
    and lag: "lag = i64_sub (max ts (v - VERIFY_WINDOW_US)) v" by blast
  have "ts \<le> v" using w assms(3) by simp
  then show ?thesis
    using lag assms(2) by (auto simp: i64_sub_def i64_range_def micros_ok_def VERIFY_WINDOW_US_def max_def)
qed

lemma window_subset: "times_ok (history evs) \<Longrightarrow> set (ve_window (vrun js evs)) \<subseteq> set (history evs)"
  using vrun_window [of evs js] by (auto simp: window_inv_def)

text \<open>
  No false mismatch from a state the book was in: when an observation arrives while the book is
  trusted, and the REST state is the book's current state or was the book's state in force at
  some instant of the five seconds before the observation, the engine renders \<^verbatim>\<open>matched\<close> at
  once, with a lag of at most five seconds back. Pruning the window never hides such a state.
\<close>

theorem backward_match_found:
  assumes "times_ok (history evs)" and "list_all (\<lambda>x. fst x \<le> v) (history evs)" and "micros_ok v"
    and "\<not> ve_gap_pending (vrun js evs)"
    and "canonicalize_book book = canonicalize_rest y n \<or>
      (\<exists>t. v - VERIFY_WINDOW_US \<le> t \<and> t \<le> v \<and> state_at (history evs) t = Some (canonicalize_rest y n))"
  shows "\<exists>lag. ve_rows (on_verify js v y n book (vrun js evs)) \<noteq> [] \<and>
      last (ve_rows (on_verify js v y n book (vrun js evs))) =
        verdict_row js v (canonicalize_rest y n) ''matched'' (Some lag) [] \<and>
      - VERIFY_WINDOW_US \<le> lag \<and> lag \<le> 0 \<and>
      ve_pending (on_verify js v y n book (vrun js evs)) = None"
proof (cases "canonicalize_book book = canonicalize_rest y n")
  case True
  with assms(4) show ?thesis
    by (intro exI [of _ 0]) (auto simp: on_verify_def Let_def verdict_row_def VERIFY_WINDOW_US_def
        split: option.splits)
next
  case False
  let ?st = "canonicalize_rest y n" and ?w = "ve_window (vrun js evs)"
  from False assms(5) obtain t where "v - VERIFY_WINDOW_US \<le> t" "state_at (history evs) t = Some ?st"
    by blast
  with scan_complete [OF vrun_window [OF assms(1)] assms(1,2)]
  obtain lag where lag: "scan_back v (v - VERIFY_WINDOW_US) ?st (rev ?w) = Some lag" by blast
  moreover have "list_all (\<lambda>x. fst x \<le> v) (rev ?w)"
    using window_subset [OF assms(1)] assms(2) by (auto simp: list_all_iff)
  ultimately have "- VERIFY_WINDOW_US \<le> lag \<and> lag \<le> 0"
    using assms(3) by (rule_tac scan_lag_bounds)
  with lag False assms(3,4) show ?thesis
    by (intro exI [of _ lag]) (auto simp: on_verify_def Let_def verdict_row_def split: option.splits)
qed

text \<open>
  At 1 s the book holds five contracts, at 2 s it holds seven; the observation of 6 s that still
  shows five is a match, four seconds back.
\<close>

definition ex_book :: "i64 \<Rightarrow> Book" where
  "ex_book q = Book_default\<lparr>b_yes := [(400000, q)], b_yes_total := q\<rparr>"

definition ex_stream :: "vevent list" where
  "ex_stream = [VBook 1000000 (ex_book 500) True, VBook 2000000 (ex_book 700) False]"

definition ex_rest :: "PriceLevel list" where
  "ex_rest = [\<lparr>pl_price = 400000, pl_quantity = 500\<rparr>]"

lemmas ex_defs = ex_book_def ex_stream_def ex_rest_def Book_default_def VerifyEngine_new_def

theorem backward_match_found_witness:
  "\<exists>lag. ve_rows (on_verify (\<lambda>_. []) 6000000 ex_rest [] (ex_book 700) (vrun (\<lambda>_. []) ex_stream)) \<noteq> [] \<and>
     last (ve_rows (on_verify (\<lambda>_. []) 6000000 ex_rest [] (ex_book 700) (vrun (\<lambda>_. []) ex_stream))) =
       verdict_row (\<lambda>_. []) 6000000 (canonicalize_rest ex_rest []) ''matched'' (Some lag) [] \<and>
     - VERIFY_WINDOW_US \<le> lag \<and> lag \<le> 0 \<and>
     ve_pending (on_verify (\<lambda>_. []) 6000000 ex_rest [] (ex_book 700) (vrun (\<lambda>_. []) ex_stream)) = None"
proof (rule backward_match_found)
  have "state_at (history ex_stream) 1500000 = Some (canonicalize_rest ex_rest [])"
    by (simp add: ex_defs state_at_def Let_def canonicalize_rest_def canonicalize_rest_side_def
        canonicalize_book_def u64_as_i64_def i64_wrap_def)
  moreover have "6000000 - VERIFY_WINDOW_US \<le> (1500000 :: i64)" by (simp add: VERIFY_WINDOW_US_def)
  ultimately show "canonicalize_book (ex_book 700) = canonicalize_rest ex_rest [] \<or>
      (\<exists>t. 6000000 - VERIFY_WINDOW_US \<le> t \<and> t \<le> 6000000 \<and>
        state_at (history ex_stream) t = Some (canonicalize_rest ex_rest []))"
    by (intro disjI2 exI [of _ 1500000]) simp
qed (simp_all add: ex_defs times_ok_def micros_ok_def vrun_def on_book_event_def Let_def)

section \<open>A mismatch is never spurious\<close>

fun ev_times :: "vevent \<Rightarrow> i64 list" where
  "ev_times (VBook ts b s) = [ts]"
| "ev_times VGap = []"
| "ev_times (VVerify ts y n b) = [ts]"

definition stream_ok :: "vevent list \<Rightarrow> bool" where
  "stream_ok evs \<longleftrightarrow> sorted (concat (map ev_times evs)) \<and> list_all micros_ok (concat (map ev_times evs))"

lemma stream_ok_append: "stream_ok (evs @ evs') \<Longrightarrow> stream_ok evs"
  by (simp add: stream_ok_def sorted_append)

lemma map_fst_book_times: "set (map fst (book_times ev)) \<subseteq> set (ev_times ev)"
  by (cases ev) auto

lemma stream_ok_history:
  "stream_ok evs \<Longrightarrow> times_ok (history evs) \<and> set (map fst (history evs)) \<subseteq> set (concat (map ev_times evs))"
proof (induction evs rule: rev_induct)
  case Nil
  then show ?case by (simp add: times_ok_def)
next
  case (snoc ev evs)
  have IH: "times_ok (history evs)" "set (map fst (history evs)) \<subseteq> set (concat (map ev_times evs))"
    using snoc stream_ok_append by blast+
  with snoc.prems show ?case
    by (cases ev) (auto simp: times_ok_def stream_ok_def sorted_append)
qed

lemma stream_ok_verify:
  assumes "stream_ok (evs @ [VVerify v y n b])"
  shows "micros_ok v" and "list_all (\<lambda>x. fst x \<le> v) (history evs)"
proof -
  show "micros_ok v" using assms by (simp add: stream_ok_def)
  have "\<forall>t \<in> set (concat (map ev_times evs)). t \<le> v"
    using assms by (auto simp: stream_ok_def sorted_append)
  moreover have "set (map fst (history evs)) \<subseteq> set (concat (map ev_times evs))"
    using stream_ok_history stream_ok_append [OF assms] by blast
  ultimately show "list_all (\<lambda>x. fst x \<le> v) (history evs)"
    by (fastforce simp: list_all_iff)
qed

text \<open>
  \<open>silent v st ev\<close>: the event leaves a check of time \<open>v\<close> against \<open>st\<close> open.
  \<open>closes v ev\<close>: the event ends the check without a match.
\<close>

fun silent :: "i64 \<Rightarrow> State \<Rightarrow> vevent \<Rightarrow> bool" where
  "silent v st (VBook ts b s) \<longleftrightarrow> ts \<le> v + VERIFY_WINDOW_US \<and> canonicalize_book b \<noteq> st"
| "silent v st _ \<longleftrightarrow> False"

fun closes :: "i64 \<Rightarrow> vevent \<Rightarrow> bool" where
  "closes v (VBook ts b s) \<longleftrightarrow> v + VERIFY_WINDOW_US < ts"
| "closes v VGap \<longleftrightarrow> False"
| "closes v (VVerify ts y n b) \<longleftrightarrow> True"

definition unmatched :: "vevent list \<Rightarrow> i64 \<Rightarrow> State \<Rightarrow> Book \<Rightarrow> vevent list \<Rightarrow> bool" where
  "unmatched pre v st b mid \<longleftrightarrow>
     canonicalize_book b \<noteq> st \<and>
     (\<forall>t. v - VERIFY_WINDOW_US \<le> t \<and> t \<le> v \<longrightarrow> state_at (history pre) t \<noteq> Some st) \<and>
     list_all (silent v st) mid"

definition pending_explained :: "vevent list \<Rightarrow> PendingCheck \<Rightarrow> bool" where
  "pending_explained evs pc \<longleftrightarrow>
     (\<exists>pre v y n b mid. evs = pre @ VVerify v y n b # mid \<and>
        unmatched pre v (canonicalize_rest y n) b mid \<and>
        pc_verify_ts pc = v \<and> pc_deadline pc = v + VERIFY_WINDOW_US \<and>
        pc_rest_state pc = canonicalize_rest y n \<and> pc_book_state_at_verify pc = canonicalize_book b)"

definition mismatch_explained :: "vevent list \<Rightarrow> VerifyOutcomeRow \<Rightarrow> bool" where
  "mismatch_explained evs row \<longleftrightarrow>
     (\<exists>pre v y n b mid r post. evs = pre @ VVerify v y n b # mid @ r # post \<and>
        unmatched pre v (canonicalize_rest y n) b mid \<and> closes v r \<and> vr_recv_ts_us row = v \<and>
        vr_detail row = mismatch_detail (canonicalize_book b) (canonicalize_rest y n))"

lemma mismatch_explained_append: "mismatch_explained evs row \<Longrightarrow> mismatch_explained (evs @ evs') row"
  unfolding mismatch_explained_def by (metis append.assoc append_Cons)

lemma pending_explained_silent:
  assumes "pending_explained evs pc" and "silent (pc_verify_ts pc) (pc_rest_state pc) ev"
  shows "pending_explained (evs @ [ev]) pc"
proof -
  from assms(1) obtain pre v y n b mid where "evs = pre @ VVerify v y n b # mid"
    "unmatched pre v (canonicalize_rest y n) b mid" and
    pc: "pc_verify_ts pc = v" "pc_deadline pc = v + VERIFY_WINDOW_US"
    "pc_rest_state pc = canonicalize_rest y n" "pc_book_state_at_verify pc = canonicalize_book b"
    by (auto simp: pending_explained_def)
  then have "evs @ [ev] = pre @ VVerify v y n b # (mid @ [ev])"
    "unmatched pre v (canonicalize_rest y n) b (mid @ [ev])"
    using assms(2) by (simp_all add: unmatched_def)
  with pc show ?thesis unfolding pending_explained_def by blast
qed

lemma pending_explained_closes:
  assumes "pending_explained evs pc" and "closes (pc_verify_ts pc) ev"
  shows "mismatch_explained (evs @ [ev]) (resolve_mismatch pc)"
proof -
  from assms(1) obtain pre v y n b mid where "evs = pre @ VVerify v y n b # mid"
    and um: "unmatched pre v (canonicalize_rest y n) b mid" and
    pc: "pc_verify_ts pc = v"
    "pc_rest_state pc = canonicalize_rest y n" "pc_book_state_at_verify pc = canonicalize_book b"
    by (auto simp: pending_explained_def)
  then have "evs @ [ev] = pre @ VVerify v y n b # mid @ ev # []" by simp
  moreover have "vr_recv_ts_us (resolve_mismatch pc) = v \<and> closes v ev \<and>
      vr_detail (resolve_mismatch pc) = mismatch_detail (canonicalize_book b) (canonicalize_rest y n)"
    using pc assms(2) by (simp add: resolve_mismatch_def)
  ultimately show ?thesis using um unfolding mismatch_explained_def by blast
qed

lemma new_pending_explained:
  assumes "stream_ok (evs @ [VVerify v y n b])" and "\<not> ve_gap_pending (vrun js evs)"
    and "ve_pending (on_verify js v y n b (vrun js evs)) = Some pc"
  shows "pending_explained (evs @ [VVerify v y n b]) pc"
proof -
  let ?st = "canonicalize_rest y n"
  note ok = stream_ok_verify [OF assms(1)]
  have h: "times_ok (history evs)" using stream_ok_history stream_ok_append [OF assms(1)] by blast
  have ne: "canonicalize_book b \<noteq> ?st"
    and scan: "scan_back v (v - VERIFY_WINDOW_US) ?st (rev (ve_window (vrun js evs))) = None"
    using assms(2,3) ok(1) by (auto simp: on_verify_def Let_def split: option.splits if_splits)
  have "unmatched evs v ?st b []"
    using ne scan scan_complete [OF vrun_window [OF h, of js] h ok(2), of _ ?st]
    by (auto simp: unmatched_def)
  moreover have "pc_verify_ts pc = v \<and> pc_deadline pc = v + VERIFY_WINDOW_US \<and>
      pc_rest_state pc = ?st \<and> pc_book_state_at_verify pc = canonicalize_book b"
    using assms(2,3) ok(1) by (auto simp: on_verify_def Let_def split: option.splits if_splits)
  ultimately show ?thesis unfolding pending_explained_def by blast
qed

definition mismatches_explained :: "vevent list \<Rightarrow> VerifyEngine \<Rightarrow> bool" where
  "mismatches_explained evs e \<longleftrightarrow>
     (\<forall>row \<in> set (ve_rows e). vr_outcome row = ''mismatch'' \<longrightarrow> mismatch_explained evs row) \<and>
     (\<forall>pc. ve_pending e = Some pc \<longrightarrow> pending_explained evs pc)"

lemma explained_book:
  assumes "mismatches_explained evs e" and "micros_ok ts"
  shows "mismatches_explained (evs @ [VBook ts b s]) (on_book_event ts b s e)"
proof (cases "ve_pending e")
  case None
  with assms show ?thesis
    by (auto simp: mismatches_explained_def on_book_event_def Let_def mismatch_explained_append)
next
  case (Some pc)
  with assms(1) have pe: "pending_explained evs pc" by (simp add: mismatches_explained_def)
  then have dl: "pc_deadline pc = pc_verify_ts pc + VERIFY_WINDOW_US"
    by (auto simp: pending_explained_def)
  have "mismatch_explained (evs @ [VBook ts b s]) (resolve_mismatch pc)" if "pc_deadline pc < ts"
    using pending_explained_closes [OF pe] that dl by simp
  moreover have "pending_explained (evs @ [VBook ts b s]) pc"
    if "\<not> pc_deadline pc < ts" and "canonicalize_book b \<noteq> pc_rest_state pc"
    using pending_explained_silent [OF pe] that dl by simp
  ultimately show ?thesis
    using assms(1) Some
    by (auto simp: mismatches_explained_def on_book_event_def Let_def mismatch_explained_append
        resolve_matched_def)
qed

lemma explained_gap:
  "mismatches_explained evs e \<Longrightarrow> mismatches_explained (evs @ [VGap]) (on_gap e)"
  by (cases "ve_pending e")
    (auto simp: mismatches_explained_def on_gap_def Let_def mismatch_explained_append resolve_skipped_gap_def)

lemma explained_verify:
  assumes "mismatches_explained evs (vrun js evs)" and "stream_ok (evs @ [VVerify v y n b])"
  shows "mismatches_explained (evs @ [VVerify v y n b]) (on_verify js v y n b (vrun js evs))"
proof -
  let ?e = "vrun js evs" and ?evs = "evs @ [VVerify v y n b]"
  have "mismatch_explained ?evs (resolve_mismatch pc)" if "ve_pending ?e = Some pc" for pc
    using assms(1) that pending_explained_closes [of evs pc "VVerify v y n b"]
    by (simp add: mismatches_explained_def)
  then have "mismatch_explained ?evs row"
    if "row \<in> set (ve_rows (on_verify js v y n b ?e))" and "vr_outcome row = ''mismatch''" for row
    using that assms(1)
    by (auto simp: mismatches_explained_def on_verify_def Let_def mismatch_explained_append
        resolve_skipped_gap_def split: option.splits if_splits)
  moreover have "pending_explained ?evs pc" if "ve_pending (on_verify js v y n b ?e) = Some pc" for pc
  proof (rule new_pending_explained [OF assms(2) _ that])
    show "\<not> ve_gap_pending ?e"
      using that by (auto simp: on_verify_def Let_def split: option.splits if_splits)
  qed
  ultimately show ?thesis by (simp add: mismatches_explained_def)
qed

lemma vrun_explained: "stream_ok evs \<Longrightarrow> mismatches_explained evs (vrun js evs)"
proof (induction evs rule: rev_induct)
  case Nil
  then show ?case by (simp add: mismatches_explained_def VerifyEngine_new_def)
next
  case (snoc ev evs)
  then have IH: "mismatches_explained evs (vrun js evs)" using stream_ok_append by blast
  show ?case
  proof (cases ev)
    case (VBook ts b s)
    then have "micros_ok ts" using snoc.prems by (simp add: stream_ok_def)
    with VBook IH show ?thesis by (simp add: explained_book)
  next
    case VGap
    with IH show ?thesis by (simp add: explained_gap)
  next
    case (VVerify v y n b)
    with IH snoc.prems show ?thesis by (simp add: explained_verify)
  qed
qed

text \<open>
  C6. A mismatch is never spurious: on a time-ordered stream, every \<^verbatim>\<open>mismatch\<close> row of the finished
  engine belongs to an observation that differed from the book at its instant, from every state
  the book was in during the five seconds before it, and from every book state that followed
  until an event beyond the five seconds after it, or the next observation, closed the check,
  with no gap in between. The detail text compares the book at the observation with the REST state.
\<close>

theorem mismatch_is_real:
  assumes "stream_ok evs" and "row \<in> set (engine_finish (vrun js evs))"
    and "vr_outcome row = ''mismatch''"
  shows "\<exists>pre v y n b mid r post. evs = pre @ VVerify v y n b # mid @ r # post \<and>
     unmatched pre v (canonicalize_rest y n) b mid \<and> closes v r \<and> vr_recv_ts_us row = v \<and>
     vr_detail row = mismatch_detail (canonicalize_book b) (canonicalize_rest y n)"
proof -
  have "row \<in> set (ve_rows (vrun js evs))"
    using assms(2,3) by (auto simp: engine_finish_def resolve_truncated_def split: option.splits)
  with assms(3) vrun_explained [OF assms(1), of js] show ?thesis
    by (auto simp: mismatches_explained_def mismatch_explained_def)
qed

definition ex_mismatch :: "vevent list" where
  "ex_mismatch = [VBook 1000000 (ex_book 700) True, VVerify 2000000 ex_rest [] (ex_book 700),
     VBook 9000000 (ex_book 800) False]"

lemma ex_mismatch_row:
  "resolve_mismatch \<lparr>pc_verify_ts = 2000000, pc_deadline = 7000000,
      pc_rest_state = canonicalize_rest ex_rest [], pc_book_state_at_verify = canonicalize_book (ex_book 700),
      pc_yes_levels_json = [], pc_no_levels_json = []\<rparr> \<in> set (engine_finish (vrun (\<lambda>_. []) ex_mismatch))"
  by (simp add: ex_mismatch_def vrun_def on_book_event_def on_verify_def Let_def engine_finish_def
      ex_defs canonicalize_rest_def canonicalize_rest_side_def canonicalize_book_def u64_as_i64_def i64_wrap_def
      VERIFY_WINDOW_US_def i64_add_def i64_sub_def i64_range_def)

theorem mismatch_is_real_witness:
  "\<exists>pre v y n b mid r post. ex_mismatch = pre @ VVerify v y n b # mid @ r # post \<and>
     unmatched pre v (canonicalize_rest y n) b mid \<and> closes v r \<and> v = 2000000"
  using mismatch_is_real [OF _ ex_mismatch_row]
  by (fastforce simp: resolve_mismatch_def ex_mismatch_def stream_ok_def micros_ok_def)

end
