(* ===== verification/Tables.thy ===== *)
theory Tables
  imports Verify_Engine
begin

text \<open>
  The table builders of \<^verbatim>\<open>crates/kdp-process/src/tables.rs\<close>. A table is a struct of column vectors,
  as in the source; \<open>push\<close> operations append one cell to every column, \<open>finish\<close> hands the named
  columns to the record-batch constructor of the Arrow library, which is the parameter
  \<open>try_from\<close>.

  For each table the theory gives the list of rows it represents (\<open>be_of_rows\<close> and its
  siblings build the columns of a list of rows) and shows that every push appends rows, so that
  the columns of a table always have one length.
\<close>

section \<open>Cells and columns\<close>

datatype ProcessError =
    QtyOutOfRange u64
  | BatchError string string
  | UnknownTicker string

definition ts_us :: "Timestamp \<Rightarrow> i64" where
  "ts_us ts = timestamp_micros ts"

definition seq_i64 :: "u64 option \<Rightarrow> i64 option" where
  "seq_i64 seq = map_option u64_as_i64 seq"

definition qty_centi_i64 :: "u64 \<Rightarrow> ProcessError + i64" where
  "qty_centi_i64 q = (if uint q < 2 ^ 63 then Inr (uint q) else Inl (QtyOutOfRange q))"

definition side_str :: "Side \<Rightarrow> string" where
  "side_str side = (case side of Yes \<Rightarrow> ''yes'' | No \<Rightarrow> ''no'')"

definition book_side_str :: "BookSide \<Rightarrow> string" where
  "book_side_str b = (case b of Bid \<Rightarrow> ''bid'' | Ask \<Rightarrow> ''ask'')"

definition gap_reason_str :: "GapReason \<Rightarrow> string" where
  "gap_reason_str r =
     (case r of SeqJump \<Rightarrow> ''seq_jump'' | Reconnect \<Rightarrow> ''reconnect''
      | Resubscribe \<Rightarrow> ''resubscribe'' | VerifyMismatch \<Rightarrow> ''verify_mismatch'')"

definition MICRO_PER_DOLLAR :: i64 where "MICRO_PER_DOLLAR = 1000000"

definition CENTI_PER_CONTRACT :: i64 where "CENTI_PER_CONTRACT = 100"

definition micro_to_dollars :: "u32 option \<Rightarrow> f64 option" where
  "micro_to_dollars micro = map_option (\<lambda>m. FDiv (uint m) MICRO_PER_DOLLAR) micro"

text \<open>A column as the library stores it: every cell may be null.\<close>

datatype ArrayRef =
    Int64Array "i64 option list"
  | BooleanArray "bool option list"
  | Float64Array "f64 option list"
  | StringArray "string option list"

definition i64_col :: "i64 list \<Rightarrow> ArrayRef" where "i64_col v = Int64Array (map Some v)"
definition opt_i64_col :: "i64 option list \<Rightarrow> ArrayRef" where "opt_i64_col v = Int64Array v"
definition bool_col :: "bool list \<Rightarrow> ArrayRef" where "bool_col v = BooleanArray (map Some v)"
definition f64_col :: "f64 list \<Rightarrow> ArrayRef" where "f64_col v = Float64Array (map Some v)"
definition opt_f64_col :: "f64 option list \<Rightarrow> ArrayRef" where "opt_f64_col v = Float64Array v"
definition str_col :: "string list \<Rightarrow> ArrayRef" where "str_col v = StringArray (map Some v)"
definition opt_str_col :: "string option list \<Rightarrow> ArrayRef" where "opt_str_col v = StringArray v"

lemmas col_defs = i64_col_def opt_i64_col_def bool_col_def f64_col_def opt_f64_col_def str_col_def opt_str_col_def

type_synonym columns = "(string \<times> ArrayRef \<times> bool) list"

text \<open>\<open>'b\<close> is the library's record batch, \<open>try_from\<close> its constructor.\<close>

type_synonym 'b try_from = "columns \<Rightarrow> string + 'b"

definition build :: "'b try_from \<Rightarrow> string \<Rightarrow> columns \<Rightarrow> ProcessError + 'b" where
  "build try_from table cols =
     (case try_from cols of Inl e \<Rightarrow> Inl (BatchError table e) | Inr b \<Rightarrow> Inr b)"

section \<open>The lossless mutation log\<close>

record BookEventsTable =
  be_event_idx :: "i64 list"
  be_recv_ts_us :: "i64 list"
  be_event_ts_us :: "i64 list"
  be_seq :: "i64 option list"
  be_sid :: "i64 option list"
  be_is_snapshot :: "bool list"
  be_side :: "string option list"
  be_price_micro :: "i64 option list"
  be_qty_centi :: "i64 option list"

definition BookEventsTable_default :: BookEventsTable where
  "BookEventsTable_default =
     \<lparr>be_event_idx = [], be_recv_ts_us = [], be_event_ts_us = [], be_seq = [], be_sid = [],
      be_is_snapshot = [], be_side = [], be_price_micro = [], be_qty_centi = []\<rparr>"

definition be_row :: "i64 \<Rightarrow> i64 \<Rightarrow> i64 \<Rightarrow> i64 option \<Rightarrow> i64 option \<Rightarrow> bool \<Rightarrow> string option \<Rightarrow>
    i64 option \<Rightarrow> i64 option \<Rightarrow> BookEventsTable \<Rightarrow> BookEventsTable" where
  "be_row event_idx recv evt seq sid is_snapshot side price qty t =
     \<lparr>be_event_idx = be_event_idx t @ [event_idx], be_recv_ts_us = be_recv_ts_us t @ [recv],
      be_event_ts_us = be_event_ts_us t @ [evt], be_seq = be_seq t @ [seq], be_sid = be_sid t @ [sid],
      be_is_snapshot = be_is_snapshot t @ [is_snapshot], be_side = be_side t @ [side],
      be_price_micro = be_price_micro t @ [price], be_qty_centi = be_qty_centi t @ [qty]\<rparr>"

text \<open>The two level loops of \<^verbatim>\<open>push_snapshot\<close>; a failing conversion abandons the table.\<close>

fun push_levels :: "string \<Rightarrow> i64 \<Rightarrow> i64 \<Rightarrow> i64 \<Rightarrow> i64 option \<Rightarrow> i64 option \<Rightarrow> PriceLevel list \<Rightarrow>
    BookEventsTable \<Rightarrow> ProcessError + BookEventsTable" where
  "push_levels side event_idx recv evt seq sid [] t = Inr t"
| "push_levels side event_idx recv evt seq sid (lvl # lvls) t =
     and_then (qty_centi_i64 (pl_quantity lvl)) (\<lambda>q.
       push_levels side event_idx recv evt seq sid lvls
         (be_row event_idx recv evt seq sid True (Some side) (Some (uint (pl_price lvl))) (Some q) t))"

definition push_snapshot :: "i64 \<Rightarrow> Envelope \<Rightarrow> OrderbookSnapshot \<Rightarrow> BookEventsTable \<Rightarrow>
    ProcessError + BookEventsTable" where
  "push_snapshot event_idx env snap t =
     (let recv = ts_us (e_recv_ts env); evt = ts_us (os_ts snap);
          seq = seq_i64 (e_seq env); sid = e_sid env
      in if os_yes snap = [] \<and> os_no snap = []
         then Inr (be_row event_idx recv evt seq sid True None None None t)
         else and_then (push_levels ''yes'' event_idx recv evt seq sid (os_yes snap) t)
                (push_levels ''no'' event_idx recv evt seq sid (os_no snap)))"

definition push_delta :: "i64 \<Rightarrow> Envelope \<Rightarrow> OrderbookDelta \<Rightarrow> BookEventsTable \<Rightarrow> BookEventsTable" where
  "push_delta event_idx env delta t =
     be_row event_idx (ts_us (e_recv_ts env)) (ts_us (od_ts delta)) (seq_i64 (e_seq env)) (e_sid env)
       False (Some (side_str (od_side delta))) (Some (uint (od_price delta))) (Some (od_delta delta)) t"

definition be_columns :: "BookEventsTable \<Rightarrow> columns" where
  "be_columns t =
     [(''event_idx'', i64_col (be_event_idx t), False),
      (''recv_ts_us'', i64_col (be_recv_ts_us t), False),
      (''event_ts_us'', i64_col (be_event_ts_us t), False),
      (''seq'', opt_i64_col (be_seq t), True),
      (''sid'', opt_i64_col (be_sid t), True),
      (''is_snapshot'', bool_col (be_is_snapshot t), False),
      (''side'', opt_str_col (be_side t), True),
      (''price_micro'', opt_i64_col (be_price_micro t), True),
      (''qty_centi'', opt_i64_col (be_qty_centi t), True)]"

definition be_finish :: "'b try_from \<Rightarrow> BookEventsTable \<Rightarrow> ProcessError + 'b" where
  "be_finish try_from t = build try_from ''book_events'' (be_columns t)"

section \<open>The top-of-book series\<close>

record BookTopTable =
  bt_event_idx :: "i64 list"
  bt_recv_ts_us :: "i64 list"
  bt_event_ts_us :: "i64 list"
  bt_seq :: "i64 option list"
  bt_event :: "string list"
  bt_yes_bid_micro :: "i64 option list"
  bt_yes_bid_sz_centi :: "i64 list"
  bt_yes_ask_micro :: "i64 option list"
  bt_yes_ask_sz_centi :: "i64 list"
  bt_mid_micro :: "i64 option list"
  bt_spread_micro :: "i64 option list"
  bt_yes_total_centi :: "i64 list"
  bt_no_total_centi :: "i64 list"
  bt_yes_levels :: "i64 list"
  bt_no_levels :: "i64 list"
  bt_imbalance :: "f64 option list"
  bt_yes_bid :: "f64 option list"
  bt_yes_ask :: "f64 option list"
  bt_mid :: "f64 option list"

definition BookTopTable_default :: BookTopTable where
  "BookTopTable_default =
     \<lparr>bt_event_idx = [], bt_recv_ts_us = [], bt_event_ts_us = [], bt_seq = [], bt_event = [],
      bt_yes_bid_micro = [], bt_yes_bid_sz_centi = [], bt_yes_ask_micro = [], bt_yes_ask_sz_centi = [],
      bt_mid_micro = [], bt_spread_micro = [], bt_yes_total_centi = [], bt_no_total_centi = [],
      bt_yes_levels = [], bt_no_levels = [], bt_imbalance = [], bt_yes_bid = [], bt_yes_ask = [],
      bt_mid = []\<rparr>"

definition bt_push :: "i64 \<Rightarrow> Envelope \<Rightarrow> i64 \<Rightarrow> string \<Rightarrow> Top \<Rightarrow> BookTopTable \<Rightarrow> BookTopTable" where
  "bt_push event_idx env evt_us event tp t =
     (let mid = mid_micro tp
      in \<lparr>bt_event_idx = bt_event_idx t @ [event_idx],
          bt_recv_ts_us = bt_recv_ts_us t @ [ts_us (e_recv_ts env)],
          bt_event_ts_us = bt_event_ts_us t @ [evt_us],
          bt_seq = bt_seq t @ [seq_i64 (e_seq env)],
          bt_event = bt_event t @ [event],
          bt_yes_bid_micro = bt_yes_bid_micro t @ [map_option uint (top_yes_bid_micro tp)],
          bt_yes_bid_sz_centi = bt_yes_bid_sz_centi t @ [top_yes_bid_sz_centi tp],
          bt_yes_ask_micro = bt_yes_ask_micro t @ [map_option uint (top_yes_ask_micro tp)],
          bt_yes_ask_sz_centi = bt_yes_ask_sz_centi t @ [top_yes_ask_sz_centi tp],
          bt_mid_micro = bt_mid_micro t @ [map_option uint mid],
          bt_spread_micro = bt_spread_micro t @ [spread_micro tp],
          bt_yes_total_centi = bt_yes_total_centi t @ [top_yes_total_centi tp],
          bt_no_total_centi = bt_no_total_centi t @ [top_no_total_centi tp],
          bt_yes_levels = bt_yes_levels t @ [top_yes_levels tp],
          bt_no_levels = bt_no_levels t @ [top_no_levels tp],
          bt_imbalance = bt_imbalance t @ [imbalance tp],
          bt_yes_bid = bt_yes_bid t @ [micro_to_dollars (top_yes_bid_micro tp)],
          bt_yes_ask = bt_yes_ask t @ [micro_to_dollars (top_yes_ask_micro tp)],
          bt_mid = bt_mid t @ [micro_to_dollars mid]\<rparr>)"

definition bt_columns :: "BookTopTable \<Rightarrow> columns" where
  "bt_columns t =
     [(''event_idx'', i64_col (bt_event_idx t), False),
      (''recv_ts_us'', i64_col (bt_recv_ts_us t), False),
      (''event_ts_us'', i64_col (bt_event_ts_us t), False),
      (''seq'', opt_i64_col (bt_seq t), True),
      (''event'', str_col (bt_event t), False),
      (''yes_bid_micro'', opt_i64_col (bt_yes_bid_micro t), True),
      (''yes_bid_sz_centi'', i64_col (bt_yes_bid_sz_centi t), False),
      (''yes_ask_micro'', opt_i64_col (bt_yes_ask_micro t), True),
      (''yes_ask_sz_centi'', i64_col (bt_yes_ask_sz_centi t), False),
      (''mid_micro'', opt_i64_col (bt_mid_micro t), True),
      (''spread_micro'', opt_i64_col (bt_spread_micro t), True),
      (''yes_total_centi'', i64_col (bt_yes_total_centi t), False),
      (''no_total_centi'', i64_col (bt_no_total_centi t), False),
      (''yes_levels'', i64_col (bt_yes_levels t), False),
      (''no_levels'', i64_col (bt_no_levels t), False),
      (''imbalance'', opt_f64_col (bt_imbalance t), True),
      (''yes_bid'', opt_f64_col (bt_yes_bid t), True),
      (''yes_ask'', opt_f64_col (bt_yes_ask t), True),
      (''mid'', opt_f64_col (bt_mid t), True)]"

definition bt_finish :: "'b try_from \<Rightarrow> BookTopTable \<Rightarrow> ProcessError + 'b" where
  "bt_finish try_from t = build try_from ''book_top'' (bt_columns t)"

section \<open>Trades, gaps, raw fallbacks, verdicts\<close>

record TradesTable =
  tt_recv_ts_us :: "i64 list"
  tt_event_ts_us :: "i64 list"
  tt_seq :: "i64 option list"
  tt_price_micro :: "i64 list"
  tt_count_centi :: "i64 list"
  tt_yes_price :: "f64 list"
  tt_count :: "f64 list"
  tt_taker_side :: "string list"
  tt_taker_book_side :: "string option list"
  tt_trade_id :: "string option list"

definition TradesTable_default :: TradesTable where
  "TradesTable_default =
     \<lparr>tt_recv_ts_us = [], tt_event_ts_us = [], tt_seq = [], tt_price_micro = [], tt_count_centi = [],
      tt_yes_price = [], tt_count = [], tt_taker_side = [], tt_taker_book_side = [], tt_trade_id = []\<rparr>"

definition tt_push :: "Envelope \<Rightarrow> Trade \<Rightarrow> TradesTable \<Rightarrow> ProcessError + TradesTable" where
  "tt_push env trade t =
     (let price = uint (t_price trade)
      in and_then (qty_centi_i64 (t_count trade)) (\<lambda>cnt. Inr
        \<lparr>tt_recv_ts_us = tt_recv_ts_us t @ [ts_us (e_recv_ts env)],
         tt_event_ts_us = tt_event_ts_us t @ [ts_us (t_ts trade)],
         tt_seq = tt_seq t @ [seq_i64 (e_seq env)],
         tt_price_micro = tt_price_micro t @ [price],
         tt_count_centi = tt_count_centi t @ [cnt],
         tt_yes_price = tt_yes_price t @ [FDiv price MICRO_PER_DOLLAR],
         tt_count = tt_count t @ [FDiv cnt CENTI_PER_CONTRACT],
         tt_taker_side = tt_taker_side t @ [side_str (t_taker_side trade)],
         tt_taker_book_side = tt_taker_book_side t @ [map_option book_side_str (t_taker_book_side trade)],
         tt_trade_id = tt_trade_id t @ [t_trade_id trade]\<rparr>))"

definition tt_columns :: "TradesTable \<Rightarrow> columns" where
  "tt_columns t =
     [(''recv_ts_us'', i64_col (tt_recv_ts_us t), False),
      (''event_ts_us'', i64_col (tt_event_ts_us t), False),
      (''seq'', opt_i64_col (tt_seq t), True),
      (''price_micro'', i64_col (tt_price_micro t), False),
      (''count_centi'', i64_col (tt_count_centi t), False),
      (''yes_price'', f64_col (tt_yes_price t), False),
      (''count'', f64_col (tt_count t), False),
      (''taker_side'', str_col (tt_taker_side t), False),
      (''taker_book_side'', opt_str_col (tt_taker_book_side t), True),
      (''trade_id'', opt_str_col (tt_trade_id t), True)]"

definition tt_finish :: "'b try_from \<Rightarrow> TradesTable \<Rightarrow> ProcessError + 'b" where
  "tt_finish try_from t = build try_from ''trades'' (tt_columns t)"

record GapsTable =
  gt_recv_ts_us :: "i64 list"
  gt_seq :: "i64 option list"
  gt_reason :: "string list"
  gt_channel :: "string list"
  gt_last_seq :: "i64 option list"
  gt_observed_seq :: "i64 option list"
  gt_detail :: "string list"

definition GapsTable_default :: GapsTable where
  "GapsTable_default =
     \<lparr>gt_recv_ts_us = [], gt_seq = [], gt_reason = [], gt_channel = [], gt_last_seq = [],
      gt_observed_seq = [], gt_detail = []\<rparr>"

definition gt_push :: "Envelope \<Rightarrow> GapMarker \<Rightarrow> GapsTable \<Rightarrow> GapsTable" where
  "gt_push env gap t =
     \<lparr>gt_recv_ts_us = gt_recv_ts_us t @ [ts_us (e_recv_ts env)],
      gt_seq = gt_seq t @ [seq_i64 (e_seq env)],
      gt_reason = gt_reason t @ [gap_reason_str (gm_reason gap)],
      gt_channel = gt_channel t @ [gm_channel gap],
      gt_last_seq = gt_last_seq t @ [seq_i64 (gm_last_seq gap)],
      gt_observed_seq = gt_observed_seq t @ [seq_i64 (gm_observed_seq gap)],
      gt_detail = gt_detail t @ [gm_detail gap]\<rparr>"

definition gt_columns :: "GapsTable \<Rightarrow> columns" where
  "gt_columns t =
     [(''recv_ts_us'', i64_col (gt_recv_ts_us t), False),
      (''seq'', opt_i64_col (gt_seq t), True),
      (''reason'', str_col (gt_reason t), False),
      (''channel'', str_col (gt_channel t), False),
      (''last_seq'', opt_i64_col (gt_last_seq t), True),
      (''observed_seq'', opt_i64_col (gt_observed_seq t), True),
      (''detail'', str_col (gt_detail t), False)]"

definition gt_finish :: "'b try_from \<Rightarrow> GapsTable \<Rightarrow> ProcessError + 'b" where
  "gt_finish try_from t = build try_from ''gaps'' (gt_columns t)"

record RawTable =
  rt_recv_ts_us :: "i64 list"
  rt_seq :: "i64 option list"
  rt_channel :: "string list"
  rt_raw_type :: "string option list"
  rt_ticker :: "string option list"
  rt_error :: "string list"
  rt_payload_json :: "string list"

definition RawTable_default :: RawTable where
  "RawTable_default =
     \<lparr>rt_recv_ts_us = [], rt_seq = [], rt_channel = [], rt_raw_type = [], rt_ticker = [],
      rt_error = [], rt_payload_json = []\<rparr>"

text \<open>\<open>ser\<close> is \<^verbatim>\<open>serde_json::to_string\<close> on a JSON value; it may fail.\<close>

definition rt_push :: "(json \<Rightarrow> string option) \<Rightarrow> Envelope \<Rightarrow> string \<Rightarrow> RawFallback \<Rightarrow> RawTable \<Rightarrow> RawTable" where
  "rt_push ser env channel raw t =
     \<lparr>rt_recv_ts_us = rt_recv_ts_us t @ [ts_us (e_recv_ts env)],
      rt_seq = rt_seq t @ [seq_i64 (e_seq env)],
      rt_channel = rt_channel t @ [channel],
      rt_raw_type = rt_raw_type t @ [rf_raw_type raw],
      rt_ticker = rt_ticker t @ [rf_ticker raw],
      rt_error = rt_error t @ [rf_error raw],
      rt_payload_json = rt_payload_json t @
        [case ser (rf_payload raw) of Some s \<Rightarrow> s | None \<Rightarrow> ''\"<unserializable>\"'']\<rparr>"

definition rt_columns :: "RawTable \<Rightarrow> columns" where
  "rt_columns t =
     [(''recv_ts_us'', i64_col (rt_recv_ts_us t), False),
      (''seq'', opt_i64_col (rt_seq t), True),
      (''channel'', str_col (rt_channel t), False),
      (''raw_type'', opt_str_col (rt_raw_type t), True),
      (''ticker'', opt_str_col (rt_ticker t), True),
      (''error'', str_col (rt_error t), False),
      (''payload_json'', str_col (rt_payload_json t), False)]"

definition rt_finish :: "'b try_from \<Rightarrow> RawTable \<Rightarrow> ProcessError + 'b" where
  "rt_finish try_from t = build try_from ''raw'' (rt_columns t)"

record VerifyTable =
  vt_recv_ts_us :: "i64 list"
  vt_outcome :: "string list"
  vt_match_lag_us :: "i64 option list"
  vt_yes_levels_json :: "string list"
  vt_no_levels_json :: "string list"
  vt_detail :: "string list"

definition VerifyTable_default :: VerifyTable where
  "VerifyTable_default =
     \<lparr>vt_recv_ts_us = [], vt_outcome = [], vt_match_lag_us = [], vt_yes_levels_json = [],
      vt_no_levels_json = [], vt_detail = []\<rparr>"

definition vt_push :: "VerifyOutcomeRow \<Rightarrow> VerifyTable \<Rightarrow> VerifyTable" where
  "vt_push row t =
     \<lparr>vt_recv_ts_us = vt_recv_ts_us t @ [vr_recv_ts_us row],
      vt_outcome = vt_outcome t @ [vr_outcome row],
      vt_match_lag_us = vt_match_lag_us t @ [vr_match_lag_us row],
      vt_yes_levels_json = vt_yes_levels_json t @ [vr_yes_levels_json row],
      vt_no_levels_json = vt_no_levels_json t @ [vr_no_levels_json row],
      vt_detail = vt_detail t @ [vr_detail row]\<rparr>"

definition vt_columns :: "VerifyTable \<Rightarrow> columns" where
  "vt_columns t =
     [(''recv_ts_us'', i64_col (vt_recv_ts_us t), False),
      (''outcome'', str_col (vt_outcome t), False),
      (''match_lag_us'', opt_i64_col (vt_match_lag_us t), True),
      (''yes_levels_json'', str_col (vt_yes_levels_json t), False),
      (''no_levels_json'', str_col (vt_no_levels_json t), False),
      (''detail'', str_col (vt_detail t), False)]"

definition vt_finish :: "'b try_from \<Rightarrow> VerifyTable \<Rightarrow> ProcessError + 'b" where
  "vt_finish try_from t = build try_from ''verify'' (vt_columns t)"

section \<open>Tables as lists of rows\<close>

record brow =
  br_event_idx :: i64
  br_recv :: i64
  br_evt :: i64
  br_seq :: "i64 option"
  br_sid :: "i64 option"
  br_is_snapshot :: bool
  br_side :: "string option"
  br_price :: "i64 option"
  br_qty :: "i64 option"

definition be_of_rows :: "brow list \<Rightarrow> BookEventsTable" where
  "be_of_rows rs =
     \<lparr>be_event_idx = map br_event_idx rs, be_recv_ts_us = map br_recv rs, be_event_ts_us = map br_evt rs,
      be_seq = map br_seq rs, be_sid = map br_sid rs, be_is_snapshot = map br_is_snapshot rs,
      be_side = map br_side rs, be_price_micro = map br_price rs, be_qty_centi = map br_qty rs\<rparr>"

lemma be_of_rows_Nil: "BookEventsTable_default = be_of_rows []"
  by (simp add: BookEventsTable_default_def be_of_rows_def)

lemma be_row_rows:
  "be_row i r e q s sn sd p z (be_of_rows rs) =
     be_of_rows (rs @ [\<lparr>br_event_idx = i, br_recv = r, br_evt = e, br_seq = q, br_sid = s,
       br_is_snapshot = sn, br_side = sd, br_price = p, br_qty = z\<rparr>])"
  by (simp add: be_row_def be_of_rows_def)

definition level_row :: "i64 \<Rightarrow> Envelope \<Rightarrow> OrderbookSnapshot \<Rightarrow> string \<Rightarrow> PriceLevel \<Rightarrow> brow" where
  "level_row idx env snap side l =
     \<lparr>br_event_idx = idx, br_recv = ts_us (e_recv_ts env), br_evt = ts_us (os_ts snap),
      br_seq = seq_i64 (e_seq env), br_sid = e_sid env, br_is_snapshot = True, br_side = Some side,
      br_price = Some (uint (pl_price l)), br_qty = Some (uint (pl_quantity l))\<rparr>"

definition boundary_row :: "i64 \<Rightarrow> Envelope \<Rightarrow> OrderbookSnapshot \<Rightarrow> brow" where
  "boundary_row idx env snap =
     \<lparr>br_event_idx = idx, br_recv = ts_us (e_recv_ts env), br_evt = ts_us (os_ts snap),
      br_seq = seq_i64 (e_seq env), br_sid = e_sid env, br_is_snapshot = True, br_side = None,
      br_price = None, br_qty = None\<rparr>"

definition snapshot_rows :: "i64 \<Rightarrow> Envelope \<Rightarrow> OrderbookSnapshot \<Rightarrow> brow list" where
  "snapshot_rows idx env snap =
     (if os_yes snap = [] \<and> os_no snap = [] then [boundary_row idx env snap]
      else map (level_row idx env snap ''yes'') (os_yes snap) @ map (level_row idx env snap ''no'') (os_no snap))"

definition delta_row :: "i64 \<Rightarrow> Envelope \<Rightarrow> OrderbookDelta \<Rightarrow> brow" where
  "delta_row idx env d =
     \<lparr>br_event_idx = idx, br_recv = ts_us (e_recv_ts env), br_evt = ts_us (od_ts d),
      br_seq = seq_i64 (e_seq env), br_sid = e_sid env, br_is_snapshot = False,
      br_side = Some (side_str (od_side d)), br_price = Some (uint (od_price d)), br_qty = Some (od_delta d)\<rparr>"

definition qty_fits :: "PriceLevel \<Rightarrow> bool" where
  "qty_fits l \<longleftrightarrow> uint (pl_quantity l) < 2 ^ 63"

lemma push_levels_rows:
  "push_levels side i (ts_us (e_recv_ts env)) (ts_us (os_ts snap)) (seq_i64 (e_seq env)) (e_sid env)
       ls (be_of_rows rs) =
     (if list_all qty_fits ls then Inr (be_of_rows (rs @ map (level_row i env snap side) ls))
      else Inl (QtyOutOfRange (pl_quantity (hd (dropWhile qty_fits ls)))))"
  by (induction ls arbitrary: rs)
    (simp_all add: qty_centi_i64_def qty_fits_def be_row_rows level_row_def)

lemma push_snapshot_rows:
  "push_snapshot i env snap (be_of_rows rs) =
     (if list_all qty_fits (os_yes snap @ os_no snap)
      then Inr (be_of_rows (rs @ snapshot_rows i env snap))
      else Inl (QtyOutOfRange (pl_quantity (hd (dropWhile qty_fits (os_yes snap @ os_no snap))))))"
proof (cases "os_yes snap = [] \<and> os_no snap = []")
  case True
  then show ?thesis
    by (simp add: push_snapshot_def be_row_rows snapshot_rows_def boundary_row_def)
next
  case False
  then show ?thesis
    by (auto simp: push_snapshot_def Let_def push_levels_rows snapshot_rows_def list_all_iff
        dropWhile_append)
qed

lemma push_delta_rows: "push_delta i env d (be_of_rows rs) = be_of_rows (rs @ [delta_row i env d])"
  by (simp add: push_delta_def be_row_rows delta_row_def)

text \<open>The other tables are the images of the records pushed.\<close>

definition bt_of_rows :: "(i64 \<times> Envelope \<times> i64 \<times> string \<times> Top) list \<Rightarrow> BookTopTable" where
  "bt_of_rows rs =
     fold (\<lambda>(idx, env, evt, event, tp). bt_push idx env evt event tp) rs BookTopTable_default"

definition tt_of_trades :: "(Envelope \<times> Trade) list \<Rightarrow> TradesTable" where
  "tt_of_trades rs =
     \<lparr>tt_recv_ts_us = map (\<lambda>(env, t). ts_us (e_recv_ts env)) rs,
      tt_event_ts_us = map (\<lambda>(env, t). ts_us (t_ts t)) rs,
      tt_seq = map (\<lambda>(env, t). seq_i64 (e_seq env)) rs,
      tt_price_micro = map (\<lambda>(env, t). uint (t_price t)) rs,
      tt_count_centi = map (\<lambda>(env, t). uint (t_count t)) rs,
      tt_yes_price = map (\<lambda>(env, t). FDiv (uint (t_price t)) MICRO_PER_DOLLAR) rs,
      tt_count = map (\<lambda>(env, t). FDiv (uint (t_count t)) CENTI_PER_CONTRACT) rs,
      tt_taker_side = map (\<lambda>(env, t). side_str (t_taker_side t)) rs,
      tt_taker_book_side = map (\<lambda>(env, t). map_option book_side_str (t_taker_book_side t)) rs,
      tt_trade_id = map (\<lambda>(env, t). t_trade_id t) rs\<rparr>"

definition gt_of_gaps :: "(Envelope \<times> GapMarker) list \<Rightarrow> GapsTable" where
  "gt_of_gaps rs =
     \<lparr>gt_recv_ts_us = map (\<lambda>(env, g). ts_us (e_recv_ts env)) rs,
      gt_seq = map (\<lambda>(env, g). seq_i64 (e_seq env)) rs,
      gt_reason = map (\<lambda>(env, g). gap_reason_str (gm_reason g)) rs,
      gt_channel = map (\<lambda>(env, g). gm_channel g) rs,
      gt_last_seq = map (\<lambda>(env, g). seq_i64 (gm_last_seq g)) rs,
      gt_observed_seq = map (\<lambda>(env, g). seq_i64 (gm_observed_seq g)) rs,
      gt_detail = map (\<lambda>(env, g). gm_detail g) rs\<rparr>"

lemma bt_push_rows: "bt_push i env evt event tp (bt_of_rows rs) = bt_of_rows (rs @ [(i, env, evt, event, tp)])"
  by (simp add: bt_of_rows_def)

lemma tt_push_trades:
  "tt_push env t (tt_of_trades rs) =
     (if uint (t_count t) < 2 ^ 63 then Inr (tt_of_trades (rs @ [(env, t)]))
      else Inl (QtyOutOfRange (t_count t)))"
  by (simp add: tt_push_def tt_of_trades_def qty_centi_i64_def Let_def)

lemma gt_push_gaps: "gt_push env g (gt_of_gaps rs) = gt_of_gaps (rs @ [(env, g)])"
  by (simp add: gt_push_def gt_of_gaps_def)

lemma fold_gt_push: "fold (\<lambda>(env, g). gt_push env g) gs (gt_of_gaps rs) = gt_of_gaps (rs @ gs)"
  by (induction gs arbitrary: rs) (auto simp: gt_push_gaps)

lemma table_defaults:
  "BookTopTable_default = bt_of_rows []" "TradesTable_default = tt_of_trades []"
  "GapsTable_default = gt_of_gaps []"
  by (simp_all add: bt_of_rows_def tt_of_trades_def gt_of_gaps_def TradesTable_default_def GapsTable_default_def)

section \<open>What is relied on of the columnar library\<close>

fun col_len :: "ArrayRef \<Rightarrow> nat" where
  "col_len (Int64Array v) = length v"
| "col_len (BooleanArray v) = length v"
| "col_len (Float64Array v) = length v"
| "col_len (StringArray v) = length v"

fun no_nulls :: "ArrayRef \<Rightarrow> bool" where
  "no_nulls (Int64Array v) \<longleftrightarrow> None \<notin> set v"
| "no_nulls (BooleanArray v) \<longleftrightarrow> None \<notin> set v"
| "no_nulls (Float64Array v) \<longleftrightarrow> None \<notin> set v"
| "no_nulls (StringArray v) \<longleftrightarrow> None \<notin> set v"

definition batch_wf :: "nat \<Rightarrow> columns \<Rightarrow> bool" where
  "batch_wf n cols \<longleftrightarrow> cols \<noteq> [] \<and> distinct (map fst cols) \<and>
     list_all (\<lambda>(name, a, nullable). col_len a = n \<and> (nullable \<or> no_nulls a)) cols"

record 'b arrow =
  ar_try_from :: "'b try_from"
  ar_num_rows :: "'b \<Rightarrow> nat"
  ar_column :: "'b \<Rightarrow> string \<Rightarrow> ArrayRef option"

text \<open>
  The documented behaviour: a batch is built from non-empty, distinctly named columns of one
  length with no null in a column declared non-nullable, and gives its columns back by name.
\<close>

definition arrow_ok :: "'b arrow \<Rightarrow> bool" where
  "arrow_ok A \<longleftrightarrow> (\<forall>n cols. batch_wf n cols \<longrightarrow>
     (\<exists>b. ar_try_from A cols = Inr b \<and> ar_num_rows A b = n \<and>
        (\<forall>name. ar_column A b name = map_option fst (map_of cols name))))"

definition plain_arrow :: "columns arrow" where
  "plain_arrow =
     \<lparr>ar_try_from = Inr, ar_num_rows = (\<lambda>cols. col_len (fst (snd (hd cols)))),
      ar_column = (\<lambda>cols name. map_option fst (map_of cols name))\<rparr>"

lemma arrow_ok_plain: "arrow_ok plain_arrow"
  by (auto simp: arrow_ok_def plain_arrow_def batch_wf_def neq_Nil_conv)

lemma col_props [simp]:
  "col_len (i64_col v) = length v" "col_len (opt_i64_col w) = length w" "col_len (bool_col b) = length b"
  "col_len (f64_col f) = length f" "col_len (opt_f64_col g) = length g" "col_len (str_col s) = length s"
  "col_len (opt_str_col u) = length u"
  "no_nulls (i64_col v)" "no_nulls (bool_col b)" "no_nulls (f64_col f)" "no_nulls (str_col s)"
  by (auto simp: col_defs)

lemma be_wf: "batch_wf (length rs) (be_columns (be_of_rows rs))"
  by (simp add: batch_wf_def be_columns_def be_of_rows_def)

lemma tt_wf: "batch_wf (length rs) (tt_columns (tt_of_trades rs))"
  by (simp add: batch_wf_def tt_columns_def tt_of_trades_def)

lemma gt_wf: "batch_wf (length rs) (gt_columns (gt_of_gaps rs))"
  by (simp add: batch_wf_def gt_columns_def gt_of_gaps_def)

lemma bt_wf: "batch_wf (length rs) (bt_columns (bt_of_rows rs))"
proof (induction rs rule: rev_induct)
  case Nil
  then show ?case by (simp add: bt_of_rows_def BookTopTable_default_def batch_wf_def bt_columns_def)
next
  case (snoc x rs)
  then show ?case
    by (cases x) (simp add: bt_push_rows [symmetric] bt_push_def Let_def batch_wf_def bt_columns_def)
qed

definition rt_of_rows :: "(json \<Rightarrow> string option) \<Rightarrow> (Envelope \<times> string \<times> RawFallback) list \<Rightarrow> RawTable" where
  "rt_of_rows ser rs = fold (\<lambda>(env, ch, raw). rt_push ser env ch raw) rs RawTable_default"

definition vt_of_rows :: "VerifyOutcomeRow list \<Rightarrow> VerifyTable" where
  "vt_of_rows rs = fold vt_push rs VerifyTable_default"

lemma rt_push_rows: "rt_push ser env ch raw (rt_of_rows ser rs) = rt_of_rows ser (rs @ [(env, ch, raw)])"
  by (simp add: rt_of_rows_def)

lemma vt_push_rows: "vt_push r (vt_of_rows rs) = vt_of_rows (rs @ [r])"
  by (simp add: vt_of_rows_def)

lemma rt_wf: "batch_wf (length rs) (rt_columns (rt_of_rows ser rs))"
proof (induction rs rule: rev_induct)
  case Nil
  then show ?case by (simp add: rt_of_rows_def RawTable_default_def batch_wf_def rt_columns_def)
next
  case (snoc x rs)
  then show ?case
    by (cases x) (simp add: rt_push_rows [symmetric] rt_push_def Let_def batch_wf_def rt_columns_def)
qed

lemma vt_wf: "batch_wf (length rs) (vt_columns (vt_of_rows rs))"
proof (induction rs rule: rev_induct)
  case Nil
  then show ?case by (simp add: vt_of_rows_def VerifyTable_default_def batch_wf_def vt_columns_def)
next
  case (snoc x rs)
  then show ?case
    by (simp add: vt_push_rows [symmetric] vt_push_def Let_def batch_wf_def vt_columns_def)
qed

text \<open>So no table fails to become a batch, and its batch has one row for each row pushed.\<close>

lemma build_ok:
  assumes "arrow_ok A" and "batch_wf n cols"
  shows "\<exists>b. build (ar_try_from A) table cols = Inr b \<and> ar_num_rows A b = n \<and>
    (\<forall>name. ar_column A b name = map_option fst (map_of cols name))"
  using assms unfolding arrow_ok_def build_def by fastforce

lemmas finish_ok =
  build_ok [OF _ be_wf, where table = "''book_events''", folded be_finish_def]
  build_ok [OF _ bt_wf, where table = "''book_top''", folded bt_finish_def]
  build_ok [OF _ tt_wf, where table = "''trades''", folded tt_finish_def]
  build_ok [OF _ gt_wf, where table = "''gaps''", folded gt_finish_def]
  build_ok [OF _ rt_wf, where table = "''raw''", folded rt_finish_def]
  build_ok [OF _ vt_wf, where table = "''verify''", folded vt_finish_def]

end
