(* ===== verification/Process.thy ===== *)
theory Process
  imports Tables "HOL-Library.Multiset"
begin

text \<open>
  The conversion of one ticker, \<^verbatim>\<open>crates/kdp-process/src/process.rs\<close> with the line reader
  \<^verbatim>\<open>reader.rs\<close> and the manifest \<^verbatim>\<open>manifest.rs\<close>. The mutable locals of \<^verbatim>\<open>process_ticker\<close> are the
  record \<open>proc\<close>; \<open>process_line\<close>, \<open>process_file\<close> and \<open>process_channel\<close> are its nested loops.

  A source file is its path and the results of reading its lines. The parameters are collected
  in \<open>env_params\<close>: JSON decoding and encoding, the Arrow library, the formatting of an instant,
  the clock and the version string. The model takes the files of the two
  channels and returns what is to be written; listing the directories and opening the files is in Process_Main.

  The lemmas show that every non-blank line is accounted for exactly once, that the gaps table
  is in time order, that the conversion cannot fail except on an oversized quantity, and that
  the hole time of the manifest is the measure of the union of the holes.
\<close>

section \<open>Reading lines\<close>

record ReadError =
  re_line_no :: nat
  re_error :: string
  re_raw :: string

text \<open>\<^verbatim>\<open>char::is_whitespace\<close> on code points below 256.\<close>

definition is_whitespace :: "char \<Rightarrow> bool" where
  "is_whitespace c \<longleftrightarrow>
     (let n = (of_char c :: nat) in 9 \<le> n \<and> n \<le> 13 \<or> n = 32 \<or> n = 133 \<or> n = 160)"

definition show_envelope_error :: "EnvelopeError \<Rightarrow> string" where
  "show_envelope_error e =
     (case e of UnsupportedVersion found supported \<Rightarrow>
        ''unsupported envelope schema version '' @ show_nat (unat found) @
        '' (this build supports up to '' @ show_nat (unat supported) @ '')'')"

type_synonym line = "string + string"

fun read_from :: "(string \<Rightarrow> string + Envelope) \<Rightarrow> nat \<Rightarrow> line list \<Rightarrow> (ReadError + Envelope) list" where
  "read_from from_str i [] = []"
| "read_from from_str i (line # lines) =
     (let line_no = i + 1; rest = read_from from_str (i + 1) lines
      in case line of
           Inl e \<Rightarrow> Inl \<lparr>re_line_no = line_no, re_error = ''io error: '' @ e, re_raw = []\<rparr> # rest
         | Inr text \<Rightarrow>
             if list_all is_whitespace text then rest
             else case from_str text of
                    Inl e \<Rightarrow>
                      Inl \<lparr>re_line_no = line_no, re_error = ''json parse: '' @ e, re_raw = text\<rparr> # rest
                  | Inr env \<Rightarrow>
                      (case validate env of
                         Inr _ \<Rightarrow> Inr env # rest
                       | Inl ve \<Rightarrow>
                           Inl \<lparr>re_line_no = line_no, re_error = ''schema: '' @ show_envelope_error ve,
                                re_raw = text\<rparr> # rest))"

definition read_envelopes :: "(string \<Rightarrow> string + Envelope) \<Rightarrow> line list \<Rightarrow> (ReadError + Envelope) list" where
  "read_envelopes from_str lines = read_from from_str 0 lines"

section \<open>Coverage\<close>

definition extend_extent :: "i64 option \<times> i64 option \<Rightarrow> i64 \<Rightarrow> i64 option \<times> i64 option" where
  "extend_extent ext v =
     (Some (case fst ext of None \<Rightarrow> v | Some m \<Rightarrow> min m v),
      Some (case snd ext of None \<Rightarrow> v | Some m \<Rightarrow> max m v))"

definition partition_point :: "(i64 \<Rightarrow> bool) \<Rightarrow> i64 list \<Rightarrow> nat" where
  "partition_point P xs = length (takeWhile P xs)"

definition get_at :: "'a list \<Rightarrow> nat \<Rightarrow> 'a option" where
  "get_at xs i = (if i < length xs then Some (xs ! i) else None)"

fun hole_windows :: "i64 list \<Rightarrow> i64 \<Rightarrow> i64 \<Rightarrow> (Envelope \<times> GapMarker) list \<Rightarrow> (i64 \<times> i64) list" where
  "hole_windows snap_ts_us ss se [] = []"
| "hole_windows snap_ts_us ss se ((env, g) # gap_rows) =
     (let start = timestamp_micros (e_recv_ts env);
          rest = hole_windows snap_ts_us ss se gap_rows;
          window = (\<lambda>en. let cs = max start ss; ce = min en se in if ce > cs then (cs, ce) # rest else rest)
      in case get_at snap_ts_us (partition_point (\<lambda>t. t < start) snap_ts_us) of
           Some t \<Rightarrow> window t
         | None \<Rightarrow> if se \<ge> start then window se else rest)"

fun union_loop :: "i64 \<Rightarrow> (i64 \<times> i64) option \<Rightarrow> (i64 \<times> i64) list \<Rightarrow> i64" where
  "union_loop tot cur [] = (case cur of Some (cs, ce) \<Rightarrow> i64_add tot (i64_sub ce cs) | None \<Rightarrow> tot)"
| "union_loop tot cur ((s, e) # windows) =
     (case cur of
        Some (cs, ce) \<Rightarrow>
          if s \<le> ce then union_loop tot (Some (cs, max ce e)) windows
          else union_loop (i64_add tot (i64_sub ce cs)) (Some (s, e)) windows
      | None \<Rightarrow> union_loop tot (Some (s, e)) windows)"

definition coverage :: "(Envelope \<times> GapMarker) list \<Rightarrow> i64 list \<Rightarrow> i64 option \<times> i64 option \<Rightarrow>
    i64 option \<times> i64 option \<Rightarrow> i64 option \<times> i64 option" where
  "coverage gap_rows snap_ts_us book trade =
     (let snaps = remdups_adj (sort snap_ts_us);
          span = (if fst book \<noteq> None then book else trade);
          span_us = (case span of (Some a, Some b) \<Rightarrow> Some (i64_sub b a) | _ \<Rightarrow> None)
      in case book of
           (Some ss, Some se) \<Rightarrow>
             (span_us, Some (union_loop 0 None (sort (hole_windows snaps ss se gap_rows))))
         | _ \<Rightarrow> (span_us, None))"

section \<open>The main loop\<close>

record env_params =
  ep_from_str :: "string \<Rightarrow> string + Envelope"
  ep_ser :: "json \<Rightarrow> string option"
  ep_levels_json :: "levels \<Rightarrow> string"
  ep_rfc3339 :: "i64 \<Rightarrow> string option"
  ep_tool_version :: string
  ep_now :: string

record proc =
  ps_book_events :: BookEventsTable
  ps_book_top :: BookTopTable
  ps_trades :: TradesTable
  ps_raw :: RawTable
  ps_gap_rows :: "(Envelope \<times> GapMarker) list"
  ps_book :: Book
  ps_engine :: VerifyEngine
  ps_event_idx :: i64
  ps_read_errors :: "ReadError list"
  ps_recv :: "i64 option \<times> i64 option"
  ps_two_sided_snapshots :: nat
  ps_book_extent :: "i64 option \<times> i64 option"
  ps_trade_extent :: "i64 option \<times> i64 option"
  ps_snap_ts_us :: "i64 list"

definition proc_init :: proc where
  "proc_init =
     \<lparr>ps_book_events = BookEventsTable_default, ps_book_top = BookTopTable_default,
      ps_trades = TradesTable_default, ps_raw = RawTable_default, ps_gap_rows = [],
      ps_book = Book_default, ps_engine = VerifyEngine_new, ps_event_idx = 0, ps_read_errors = [],
      ps_recv = (None, None), ps_two_sided_snapshots = 0, ps_book_extent = (None, None),
      ps_trade_extent = (None, None), ps_snap_ts_us = []\<rparr>"

definition two_sided :: "Top \<Rightarrow> bool" where
  "two_sided tp \<longleftrightarrow> top_yes_bid_micro tp \<noteq> None \<and> top_yes_ask_micro tp \<noteq> None"

definition process_snapshot :: "Envelope \<Rightarrow> OrderbookSnapshot \<Rightarrow> proc \<Rightarrow> ProcessError + proc" where
  "process_snapshot env s p =
     (let recv = timestamp_micros (e_recv_ts env); idx = ps_event_idx p
      in and_then (push_snapshot idx env s (ps_book_events p)) (\<lambda>be.
        let book = apply_snapshot s (ps_book p); tp = Book_top book
        in Inr (p\<lparr>ps_event_idx := i64_add idx 1, ps_book_events := be,
             ps_book_extent := extend_extent (ps_book_extent p) recv,
             ps_snap_ts_us := ps_snap_ts_us p @ [recv], ps_book := book,
             ps_engine := on_book_event recv book True (ps_engine p),
             ps_two_sided_snapshots := ps_two_sided_snapshots p + (if two_sided tp then 1 else 0),
             ps_book_top := bt_push idx env (timestamp_micros (os_ts s)) ''snapshot'' tp (ps_book_top p)\<rparr>)))"

definition process_delta :: "Envelope \<Rightarrow> OrderbookDelta \<Rightarrow> proc \<Rightarrow> proc" where
  "process_delta env d p =
     (let recv = timestamp_micros (e_recv_ts env); idx = ps_event_idx p;
          book = apply_delta d (ps_book p); tp = Book_top book
      in p\<lparr>ps_event_idx := i64_add idx 1, ps_book_events := push_delta idx env d (ps_book_events p),
           ps_book_extent := extend_extent (ps_book_extent p) recv, ps_book := book,
           ps_engine := on_book_event recv book False (ps_engine p),
           ps_two_sided_snapshots := ps_two_sided_snapshots p + (if two_sided tp then 1 else 0),
           ps_book_top := bt_push idx env (timestamp_micros (od_ts d)) ''delta'' tp (ps_book_top p)\<rparr>)"

definition process_env :: "env_params \<Rightarrow> string \<Rightarrow> Envelope \<Rightarrow> proc \<Rightarrow> ProcessError + proc" where
  "process_env P channel env p =
     (let recv = timestamp_micros (e_recv_ts env); p1 = p\<lparr>ps_recv := extend_extent (ps_recv p) recv\<rparr>
      in case e_kind env of
           Snapshot s \<Rightarrow> process_snapshot env s p1
         | Delta d \<Rightarrow> Inr (process_delta env d p1)
         | TradeRec t \<Rightarrow>
             and_then (tt_push env t (ps_trades p1)) (\<lambda>tt.
               Inr (p1\<lparr>ps_trades := tt,
                     ps_trade_extent := extend_extent (ps_trade_extent p1) (timestamp_micros (t_ts t))\<rparr>))
         | Gap g \<Rightarrow>
             let p2 = p1\<lparr>ps_gap_rows := ps_gap_rows p1 @ [(env, g)]\<rparr>
             in Inr (if channel = ''orderbook'' then p2\<lparr>ps_engine := on_gap (ps_engine p2)\<rparr> else p2)
         | Raw r \<Rightarrow> Inr (p1\<lparr>ps_raw := rt_push (ep_ser P) env channel r (ps_raw p1)\<rparr>)
         | Verify v \<Rightarrow>
             Inr (p1\<lparr>ps_engine := on_verify (ep_levels_json P) recv (os_yes v) (os_no v) (ps_book p1) (ps_engine p1)\<rparr>))"

definition process_item :: "env_params \<Rightarrow> string \<Rightarrow> ReadError + Envelope \<Rightarrow> proc \<Rightarrow> ProcessError + proc" where
  "process_item P channel item p =
     (case item of
        Inl e \<Rightarrow> Inr (p\<lparr>ps_read_errors := ps_read_errors p @ [e]\<rparr>)
      | Inr env \<Rightarrow> process_env P channel env p)"

text \<open>Loops over records, files and channels; the first error ends them all.\<close>

fun fold_res :: "('a \<Rightarrow> 's \<Rightarrow> 'e + 's) \<Rightarrow> 'a list \<Rightarrow> 's \<Rightarrow> 'e + 's" where
  "fold_res f [] s = Inr s"
| "fold_res f (x # xs) s = and_then (f x s) (fold_res f xs)"

record SourceFile =
  sf_channel :: string
  sf_path :: string
  sf_records :: nat

type_synonym jsonl_file = "string \<times> line list"

definition process_file :: "env_params \<Rightarrow> string \<Rightarrow> jsonl_file \<Rightarrow> proc \<times> SourceFile list \<Rightarrow>
    ProcessError + (proc \<times> SourceFile list)" where
  "process_file P channel file acc =
     (let items = read_envelopes (ep_from_str P) (snd file)
      in and_then (fold_res (process_item P channel) items (fst acc)) (\<lambda>p.
        Inr (p, snd acc @ [\<lparr>sf_channel = channel, sf_path = fst file, sf_records = length items\<rparr>])))"

definition process_channels :: "env_params \<Rightarrow> jsonl_file list \<Rightarrow> jsonl_file list \<Rightarrow>
    ProcessError + (proc \<times> SourceFile list)" where
  "process_channels P orderbook_files trade_files =
     and_then (fold_res (process_file P ''orderbook'') orderbook_files (proc_init, []))
       (fold_res (process_file P ''trade'') trade_files)"

section \<open>Verdicts, gaps and the manifest\<close>

definition mismatch_marker :: "string \<Rightarrow> VerifyOutcomeRow \<Rightarrow> GapMarker" where
  "mismatch_marker ticker row =
     \<lparr>gm_reason = VerifyMismatch, gm_ticker = ticker, gm_channel = ''orderbook'', gm_last_seq = None,
      gm_observed_seq = None, gm_detail = vr_detail row\<rparr>"

record verify_acc =
  va_mismatches :: nat
  va_skipped :: nat
  va_gap_rows :: "(Envelope \<times> GapMarker) list"
  va_table :: VerifyTable

definition verify_row :: "string \<Rightarrow> VerifyOutcomeRow \<Rightarrow> verify_acc \<Rightarrow> verify_acc" where
  "verify_row ticker row a =
     (let a1 =
        (if vr_outcome row = ''mismatch'' then
           (case from_timestamp_micros (vr_recv_ts_us row) of
              Some dt \<Rightarrow>
                let marker = mismatch_marker ticker row
                in a\<lparr>va_mismatches := va_mismatches a + 1,
                     va_gap_rows := va_gap_rows a @ [(Envelope_new dt None None (Gap marker), marker)]\<rparr>
            | None \<Rightarrow> a\<lparr>va_mismatches := va_mismatches a + 1\<rparr>)
         else if vr_outcome row = ''skipped_gap'' \<or> vr_outcome row = ''truncated''
         then a\<lparr>va_skipped := va_skipped a + 1\<rparr>
         else a)
      in a1\<lparr>va_table := vt_push row (va_table a1)\<rparr>)"

text \<open>A stable sort by receive time.\<close>

definition sort_gap_rows :: "(Envelope \<times> GapMarker) list \<Rightarrow> (Envelope \<times> GapMarker) list" where
  "sort_gap_rows rows = sort_key (\<lambda>(env, _). timestamp_micros (e_recv_ts env)) rows"

record Counts =
  ct_book_events :: nat
  ct_book_top :: nat
  ct_trades :: nat
  ct_gaps :: nat
  ct_raw :: nat
  ct_verify :: nat

definition PROCESSED_SCHEMA_VERSION :: u16 where
  "PROCESSED_SCHEMA_VERSION = 1"

record Manifest =
  m_schema_version :: u16
  m_tool_version :: string
  m_ticker :: string
  m_format :: string
  m_processed_at :: string
  m_source_dir :: string
  m_source_files :: "SourceFile list"
  m_first_recv_ts_us :: "i64 option"
  m_last_recv_ts_us :: "i64 option"
  m_first_recv_ts :: "string option"
  m_last_recv_ts :: "string option"
  m_counts :: Counts
  m_read_errors :: nat
  m_complete :: bool
  m_notes :: "string list"
  m_two_sided :: bool
  m_two_sided_snapshots :: nat
  m_verify_checks :: nat
  m_verify_mismatches :: nat
  m_verify_skipped :: nat
  m_underflows :: u64
  m_span_us :: "i64 option"
  m_hole_us :: "i64 option"

definition manifest_notes :: "string \<Rightarrow> Counts \<Rightarrow> nat \<Rightarrow> nat \<Rightarrow> u64 \<Rightarrow> bool \<Rightarrow> string list" where
  "manifest_notes ext counts n_read_errors verify_mismatches underflows is_complete =
     (if ct_gaps counts > 0
      then [show_nat (ct_gaps counts) @ '' gap marker(s) recorded in gaps.'' @ ext @
            ''; holes are expected and preserved''] else []) @
     (if ct_raw counts > 0
      then [show_nat (ct_raw counts) @ '' raw fallback(s) preserved in raw.'' @ ext @
            '' (undecoded at capture); review before deleting the source''] else []) @
     (if n_read_errors > 0
      then [show_nat n_read_errors @
            '' unreadable line(s) saved to read_errors.jsonl; investigate before deleting the source'']
      else []) @
     (if verify_mismatches > 0
      then [show_nat verify_mismatches @
            '' verify mismatch(es): the replayed book diverged from the venue's REST orderbook at those instants; see verify.'' @
            ext @ '' + the verify_mismatch gaps rows''] else []) @
     (if underflows > 0
      then [show_nat (unat underflows) @
            '' book underflow(s): deltas drove levels strictly below zero during replay -- consistency signal, see manifest'']
      else []) @
     [if is_complete
      then ''all source records decoded into the structured tables; the raw capture files are safe to drop once these outputs are verified''
      else ''output is INCOMPLETE (raw fallbacks and/or read errors present); do NOT delete the raw capture files until the items above are reviewed'']"

record TickerOutcome =
  to_ticker :: string
  to_counts :: Counts
  to_read_errors :: nat
  to_complete :: bool

text \<open>Everything \<^verbatim>\<open>process_ticker\<close> writes, by file name: the batches, the unreadable lines, the manifest.\<close>

record 'b ticker_output =
  out_batches :: "(string \<times> 'b) list"
  out_read_errors :: "ReadError list"
  out_manifest :: Manifest

record 'b finished =
  fin_book_events :: 'b
  fin_book_top :: 'b
  fin_trades :: 'b
  fin_gaps :: 'b
  fin_raw :: 'b
  fin_verify :: 'b

definition finish_tables :: "'b arrow \<Rightarrow> proc \<Rightarrow> GapsTable \<Rightarrow> VerifyTable \<Rightarrow> ProcessError + 'b finished" where
  "finish_tables A p gaps verify_table =
     and_then (be_finish (ar_try_from A) (ps_book_events p)) (\<lambda>be.
     and_then (bt_finish (ar_try_from A) (ps_book_top p)) (\<lambda>bt.
     and_then (tt_finish (ar_try_from A) (ps_trades p)) (\<lambda>tt.
     and_then (gt_finish (ar_try_from A) gaps) (\<lambda>gt.
     and_then (rt_finish (ar_try_from A) (ps_raw p)) (\<lambda>rt.
     and_then (vt_finish (ar_try_from A) verify_table) (\<lambda>vt.
       Inr \<lparr>fin_book_events = be, fin_book_top = bt, fin_trades = tt, fin_gaps = gt, fin_raw = rt,
            fin_verify = vt\<rparr>))))))"

definition finished_counts :: "'b arrow \<Rightarrow> 'b finished \<Rightarrow> Counts" where
  "finished_counts A f =
     \<lparr>ct_book_events = ar_num_rows A (fin_book_events f), ct_book_top = ar_num_rows A (fin_book_top f),
      ct_trades = ar_num_rows A (fin_trades f), ct_gaps = ar_num_rows A (fin_gaps f),
      ct_raw = ar_num_rows A (fin_raw f), ct_verify = ar_num_rows A (fin_verify f)\<rparr>"

definition verify_rows_fold :: "string \<Rightarrow> proc \<Rightarrow> verify_acc" where
  "verify_rows_fold ticker p =
     fold (verify_row ticker) (engine_finish (ps_engine p))
       \<lparr>va_mismatches = 0, va_skipped = 0, va_gap_rows = ps_gap_rows p, va_table = VerifyTable_default\<rparr>"

definition gap_rows_sorted :: "string \<Rightarrow> proc \<Rightarrow> (Envelope \<times> GapMarker) list" where
  "gap_rows_sorted ticker p = sort_gap_rows (va_gap_rows (verify_rows_fold ticker p))"

text \<open>The counts, the notes, the manifest and the files to write, once the batches are built.\<close>

definition report :: "env_params \<Rightarrow> 'b arrow \<Rightarrow> string \<Rightarrow> string \<Rightarrow> string \<Rightarrow> proc \<Rightarrow> SourceFile list \<Rightarrow>
    'b finished \<Rightarrow> TickerOutcome \<times> 'b ticker_output" where
  "report P A ticker ext source_dir p source_files f =
     (let underflows = b_underflows (ps_book p);
          va = verify_rows_fold ticker p;
          (span_us, hole_us) = coverage (gap_rows_sorted ticker p) (ps_snap_ts_us p) (ps_book_extent p)
             (ps_trade_extent p);
          counts = finished_counts A f;
          n_read_errors = length (ps_read_errors p);
          is_complete = (ps_read_errors p = [] \<and> ct_raw counts = 0);
          batches =
            [(''book_events.'' @ ext, fin_book_events f), (''book_top.'' @ ext, fin_book_top f),
             (''trades.'' @ ext, fin_trades f), (''gaps.'' @ ext, fin_gaps f)] @
            (if ct_raw counts > 0 then [(''raw.'' @ ext, fin_raw f)] else []) @
            (if ct_verify counts > 0 then [(''verify.'' @ ext, fin_verify f)] else []);
          manifest =
            \<lparr>m_schema_version = PROCESSED_SCHEMA_VERSION, m_tool_version = ep_tool_version P,
             m_ticker = ticker, m_format = ext, m_processed_at = ep_now P, m_source_dir = source_dir,
             m_source_files = source_files, m_first_recv_ts_us = fst (ps_recv p),
             m_last_recv_ts_us = snd (ps_recv p),
             m_first_recv_ts = Option.bind (fst (ps_recv p)) (ep_rfc3339 P),
             m_last_recv_ts = Option.bind (snd (ps_recv p)) (ep_rfc3339 P),
             m_counts = counts, m_read_errors = n_read_errors, m_complete = is_complete,
             m_notes = manifest_notes ext counts n_read_errors (va_mismatches va) underflows is_complete,
             m_two_sided = (ps_two_sided_snapshots p > 0),
             m_two_sided_snapshots = ps_two_sided_snapshots p,
             m_verify_checks = length (engine_finish (ps_engine p)),
             m_verify_mismatches = va_mismatches va, m_verify_skipped = va_skipped va,
             m_underflows = underflows, m_span_us = span_us, m_hole_us = hole_us\<rparr>
      in (\<lparr>to_ticker = ticker, to_counts = counts, to_read_errors = n_read_errors, to_complete = is_complete\<rparr>,
          \<lparr>out_batches = batches, out_read_errors = ps_read_errors p, out_manifest = manifest\<rparr>))"

definition conclude :: "env_params \<Rightarrow> 'b arrow \<Rightarrow> string \<Rightarrow> string \<Rightarrow> string \<Rightarrow> proc \<Rightarrow> SourceFile list \<Rightarrow>
    ProcessError + (TickerOutcome \<times> 'b ticker_output)" where
  "conclude P A ticker ext source_dir p source_files =
     (let gaps = fold (\<lambda>(env, marker). gt_push env marker) (gap_rows_sorted ticker p) GapsTable_default
      in and_then (finish_tables A p gaps (va_table (verify_rows_fold ticker p))) (\<lambda>f.
        Inr (report P A ticker ext source_dir p source_files f)))"

definition process_ticker :: "env_params \<Rightarrow> 'b arrow \<Rightarrow> string \<Rightarrow> string \<Rightarrow> string \<Rightarrow> jsonl_file list \<Rightarrow>
    jsonl_file list \<Rightarrow> ProcessError + (TickerOutcome \<times> 'b ticker_output) option" where
  "process_ticker P A ticker ext source_dir orderbook_files trade_files =
     (if orderbook_files = [] \<and> trade_files = [] then Inr None
      else and_then (process_channels P orderbook_files trade_files) (\<lambda>(p, source_files).
        and_then (conclude P A ticker ext source_dir p source_files) (\<lambda>out. Inr (Some out))))"

text \<open>
  \<^verbatim>\<open>run\<close> over the tickers found, or over the requested ones; \<open>files\<close> gives the capture files of a
  ticker, and the first failing ticker ends the run.
\<close>

fun select_tickers :: "string list \<Rightarrow> string list \<Rightarrow> ProcessError + unit" where
  "select_tickers discovered [] = Inr ()"
| "select_tickers discovered (t # ts) =
     (if t \<notin> set discovered then Inl (UnknownTicker t) else select_tickers discovered ts)"

fun run_loop :: "env_params \<Rightarrow> 'b arrow \<Rightarrow> string \<Rightarrow> (string \<Rightarrow> string \<times> jsonl_file list \<times> jsonl_file list) \<Rightarrow>
    string list \<Rightarrow> (TickerOutcome \<times> 'b ticker_output) list \<Rightarrow>
    ProcessError + (TickerOutcome \<times> 'b ticker_output) list" where
  "run_loop P A ext files [] outcomes = Inr outcomes"
| "run_loop P A ext files (ticker # tickers) outcomes =
     (let (dir, ob, tr) = files ticker
      in and_then (process_ticker P A ticker ext dir ob tr) (\<lambda>r.
        run_loop P A ext files tickers (case r of Some outcome \<Rightarrow> outcomes @ [outcome] | None \<Rightarrow> outcomes)))"

definition run :: "env_params \<Rightarrow> 'b arrow \<Rightarrow> string \<Rightarrow> (string \<Rightarrow> string \<times> jsonl_file list \<times> jsonl_file list) \<Rightarrow>
    string list \<Rightarrow> string list option \<Rightarrow> ProcessError + (TickerOutcome \<times> 'b ticker_output) list" where
  "run P A ext files subdirs only =
     (let discovered = sort subdirs
      in and_then (case only of None \<Rightarrow> Inr discovered
                   | Some lst \<Rightarrow> and_then (select_tickers discovered lst) (\<lambda>_. Inr lst)) (\<lambda>selected.
        run_loop P A ext files selected []))"

section \<open>Accounting\<close>

text \<open>Every record of the input, in processing order, with the channel it came from.\<close>

definition input_items :: "env_params \<Rightarrow> jsonl_file list \<Rightarrow> jsonl_file list \<Rightarrow> (string \<times> (ReadError + Envelope)) list" where
  "input_items P ob tr =
     map (Pair ''orderbook'') (concat (map (\<lambda>f. read_envelopes (ep_from_str P) (snd f)) ob)) @
     map (Pair ''trade'') (concat (map (\<lambda>f. read_envelopes (ep_from_str P) (snd f)) tr))"

lemma fold_res_append: "fold_res f (xs @ ys) s = and_then (fold_res f xs s) (fold_res f ys)"
proof (induction xs arbitrary: s)
  case (Cons x xs)
  then show ?case by (cases "f x s") simp_all
qed simp

lemma fold_res_map: "fold_res f (map g xs) s = fold_res (\<lambda>x. f (g x)) xs s"
proof (induction xs arbitrary: s)
  case (Cons x xs)
  then show ?case by (cases "f (g x) s") simp_all
qed simp

definition run_items :: "env_params \<Rightarrow> (string \<times> (ReadError + Envelope)) list \<Rightarrow> proc \<Rightarrow> ProcessError + proc" where
  "run_items P items = fold_res (\<lambda>(ch, item). process_item P ch item) items"

lemma process_files_items:
  "and_then (fold_res (process_file P ch) fs (p, sf)) (\<lambda>x. Inr (fst x)) =
     run_items P (map (Pair ch) (concat (map (\<lambda>f. read_envelopes (ep_from_str P) (snd f)) fs))) p"
proof (induction fs arbitrary: p sf)
  case (Cons f fs)
  show ?case
  proof (cases "fold_res (process_item P ch) (read_envelopes (ep_from_str P) (snd f)) p")
    case (Inl e)
    then show ?thesis by (simp add: process_file_def run_items_def fold_res_append fold_res_map)
  next
    case (Inr q)
    then show ?thesis
      using Cons.IH by (simp add: process_file_def run_items_def fold_res_append fold_res_map)
  qed
qed (simp add: run_items_def)

lemma run_items_append: "run_items P (xs @ ys) p = and_then (run_items P xs p) (run_items P ys)"
  by (simp add: run_items_def fold_res_append)

lemma run_items_simps [simp]:
  "run_items P [] p = Inr p"
  "run_items P ((ch, item) # items) p = and_then (process_item P ch item p) (run_items P items)"
  by (simp_all add: run_items_def)

lemma process_channels_items:
  "and_then (process_channels P ob tr) (\<lambda>x. Inr (fst x)) = run_items P (input_items P ob tr) proc_init"
proof (cases "fold_res (process_file P ''orderbook'') ob (proc_init, [])")
  case (Inl e)
  then show ?thesis
    using process_files_items [of P "''orderbook''" ob proc_init "[]", symmetric]
    by (simp add: process_channels_def input_items_def run_items_append)
next
  case (Inr x)
  obtain p sf where x: "x = (p, sf)" by (cases x)
  with Inr show ?thesis
    using process_files_items [of P "''orderbook''" ob proc_init "[]", symmetric]
      process_files_items [of P "''trade''" tr p sf]
    by (simp add: process_channels_def input_items_def run_items_append)
qed

lemma source_records:
  "fold_res (process_file P ch) fs (p, sf) = Inr (q, sf') \<Longrightarrow>
     sum_list (map sf_records sf') = sum_list (map sf_records sf) +
       length (concat (map (\<lambda>f. read_envelopes (ep_from_str P) (snd f)) fs))"
  by (induction fs arbitrary: p sf) (auto simp: process_file_def and_then_Inr_iff Let_def)

lemma process_channels_records:
  "process_channels P ob tr = Inr (p, sf) \<Longrightarrow>
     sum_list (map sf_records sf) = length (input_items P ob tr)"
  by (auto simp: process_channels_def and_then_Inr_iff input_items_def dest!: source_records)

text \<open>The records of each kind, in order.\<close>

type_synonym item = "string \<times> (ReadError + Envelope)"

fun item_msgs :: "item \<Rightarrow> Envelope list" where
  "item_msgs (ch, Inl e) = []"
| "item_msgs (ch, Inr env) = (case e_kind env of Snapshot s \<Rightarrow> [env] | Delta d \<Rightarrow> [env] | _ \<Rightarrow> [])"

fun item_trades :: "item \<Rightarrow> (Envelope \<times> Trade) list" where
  "item_trades (ch, Inl e) = []"
| "item_trades (ch, Inr env) = (case e_kind env of TradeRec t \<Rightarrow> [(env, t)] | _ \<Rightarrow> [])"

fun item_gaps :: "item \<Rightarrow> (Envelope \<times> GapMarker) list" where
  "item_gaps (ch, Inl e) = []"
| "item_gaps (ch, Inr env) = (case e_kind env of Gap g \<Rightarrow> [(env, g)] | _ \<Rightarrow> [])"

fun item_raws :: "item \<Rightarrow> (Envelope \<times> string \<times> RawFallback) list" where
  "item_raws (ch, Inl e) = []"
| "item_raws (ch, Inr env) = (case e_kind env of Raw r \<Rightarrow> [(env, ch, r)] | _ \<Rightarrow> [])"

fun item_verifies :: "item \<Rightarrow> Envelope list" where
  "item_verifies (ch, Inl e) = []"
| "item_verifies (ch, Inr env) = (case e_kind env of Verify v \<Rightarrow> [env] | _ \<Rightarrow> [])"

fun item_errors :: "item \<Rightarrow> ReadError list" where
  "item_errors (ch, Inl e) = [e]"
| "item_errors (ch, Inr env) = []"

definition of_items :: "(item \<Rightarrow> 'a list) \<Rightarrow> item list \<Rightarrow> 'a list" where
  "of_items f items = concat (map f items)"

lemma of_items_simps [simp]:
  "of_items f [] = []" "of_items f (xs @ ys) = of_items f xs @ of_items f ys"
  "of_items f (x # xs) = f x @ of_items f xs"
  by (simp_all add: of_items_def)

lemma item_partition:
  "length (item_msgs x) + length (item_trades x) + length (item_gaps x) + length (item_raws x) +
     length (item_verifies x) + length (item_errors x) = 1"
proof (cases x)
  case (Pair ch i)
  then show ?thesis by (cases i) (auto split: RecordKind.splits)
qed

lemma items_partition:
  "length items = length (of_items item_msgs items) + length (of_items item_trades items) +
     length (of_items item_gaps items) + length (of_items item_raws items) +
     length (of_items item_verifies items) + length (of_items item_errors items)"
proof (induction items)
  case (Cons x items)
  then show ?case using item_partition [of x] by simp
qed simp

text \<open>The book after a list of messages, and what each table then holds.\<close>

definition apply_msg :: "Envelope \<Rightarrow> Book \<Rightarrow> Book" where
  "apply_msg env b = (case e_kind env of Snapshot s \<Rightarrow> apply_snapshot s b | Delta d \<Rightarrow> apply_delta d b | _ \<Rightarrow> b)"

definition msg_rows :: "i64 \<Rightarrow> Envelope \<Rightarrow> brow list" where
  "msg_rows idx env =
     (case e_kind env of Snapshot s \<Rightarrow> snapshot_rows idx env s | Delta d \<Rightarrow> [delta_row idx env d] | _ \<Rightarrow> [])"

fun log_rows :: "nat \<Rightarrow> Envelope list \<Rightarrow> brow list" where
  "log_rows k [] = []"
| "log_rows k (env # envs) = msg_rows (i64_wrap (int k)) env @ log_rows (Suc k) envs"

fun top_rows :: "nat \<Rightarrow> Book \<Rightarrow> Envelope list \<Rightarrow> (i64 \<times> Envelope \<times> i64 \<times> string \<times> Top) list" where
  "top_rows k b [] = []"
| "top_rows k b (env # envs) =
     (let b' = apply_msg env b
      in (i64_wrap (int k), env,
          (case e_kind env of Snapshot s \<Rightarrow> timestamp_micros (os_ts s) | Delta d \<Rightarrow> timestamp_micros (od_ts d) | _ \<Rightarrow> 0),
          (case e_kind env of Snapshot s \<Rightarrow> ''snapshot'' | _ \<Rightarrow> ''delta''), Book_top b') # top_rows (Suc k) b' envs)"

fun item_vevents :: "Book \<Rightarrow> item \<Rightarrow> vevent list" where
  "item_vevents b (ch, Inl e) = []"
| "item_vevents b (ch, Inr env) =
     (let recv = timestamp_micros (e_recv_ts env)
      in case e_kind env of
           Snapshot s \<Rightarrow> [VBook recv (apply_msg env b) True]
         | Delta d \<Rightarrow> [VBook recv (apply_msg env b) False]
         | Gap g \<Rightarrow> if ch = ''orderbook'' then [VGap] else []
         | Verify v \<Rightarrow> [VVerify recv (os_yes v) (os_no v) b]
         | _ \<Rightarrow> [])"

fun vevents :: "Book \<Rightarrow> item list \<Rightarrow> vevent list" where
  "vevents b [] = []"
| "vevents b (x # xs) = item_vevents b x @ vevents (fold apply_msg (item_msgs x) b) xs"

lemma log_rows_append: "log_rows k (xs @ ys) = log_rows k xs @ log_rows (k + length xs) ys"
  by (induction xs arbitrary: k) simp_all

lemma top_rows_append:
  "top_rows k b (xs @ ys) = top_rows k b xs @ top_rows (k + length xs) (fold apply_msg xs b) ys"
  by (induction xs arbitrary: k b) (simp_all add: Let_def)

lemma length_top_rows [simp]: "length (top_rows k b xs) = length xs"
  by (induction xs arbitrary: k b) (simp_all add: Let_def)

lemma vevents_append:
  "vevents b (xs @ ys) = vevents b xs @ vevents (fold apply_msg (of_items item_msgs xs) b) ys"
  by (induction xs arbitrary: b) simp_all

definition accounts :: "env_params \<Rightarrow> item list \<Rightarrow> proc \<Rightarrow> bool" where
  "accounts P items p \<longleftrightarrow>
     (let msgs = of_items item_msgs items
      in ps_book_events p = be_of_rows (log_rows 0 msgs) \<and>
         ps_book_top p = bt_of_rows (top_rows 0 Book_default msgs) \<and>
         ps_trades p = tt_of_trades (of_items item_trades items) \<and>
         ps_raw p = rt_of_rows (ep_ser P) (of_items item_raws items) \<and>
         ps_gap_rows p = of_items item_gaps items \<and>
         ps_book p = fold apply_msg msgs Book_default \<and>
         ps_engine p = vrun (ep_levels_json P) (vevents Book_default items) \<and>
         ps_event_idx p = i64_wrap (int (length msgs)) \<and>
         ps_read_errors p = of_items item_errors items)"

lemma accounts_init: "accounts P [] proc_init"
  by (simp add: accounts_def proc_init_def be_of_rows_Nil table_defaults rt_of_rows_def)

lemma next_idx: "i64_add (i64_wrap (int n)) 1 = i64_wrap (int (Suc n))"
  by (simp add: i64_add_def i64_simps algebra_simps)

fun item_fits :: "item \<Rightarrow> bool" where
  "item_fits (ch, Inl e) \<longleftrightarrow> True"
| "item_fits (ch, Inr env) \<longleftrightarrow>
     (case e_kind env of
        Snapshot s \<Rightarrow> list_all qty_fits (os_yes s @ os_no s)
      | TradeRec t \<Rightarrow> uint (t_count t) < 2 ^ 63
      | _ \<Rightarrow> True)"

lemma accounts_step:
  assumes "accounts P items p"
  shows "if item_fits (ch, item)
         then \<exists>q. process_item P ch item p = Inr q \<and> accounts P (items @ [(ch, item)]) q
         else \<exists>q. process_item P ch item p = Inl (QtyOutOfRange q) \<and> 2 ^ 63 \<le> uint q"
proof (cases item)
  case (Inl e)
  with assms show ?thesis
    by (simp add: process_item_def accounts_def Let_def vevents_append)
next
  case (Inr env)
  show ?thesis
  proof (cases "e_kind env")
    case (Snapshot s)
    have "2 ^ 63 \<le> uint (pl_quantity (hd (dropWhile qty_fits (os_yes s @ os_no s))))"
      if "\<not> list_all qty_fits (os_yes s @ os_no s)"
      using that hd_dropWhile [of qty_fits "os_yes s @ os_no s"]
      by (auto simp: list_all_iff qty_fits_def)
    with assms Inr Snapshot show ?thesis
      by (auto simp: process_item_def process_env_def process_snapshot_def accounts_def Let_def
          vevents_append log_rows_append top_rows_append push_snapshot_rows bt_push_rows next_idx
          msg_rows_def apply_msg_def simp del: list_all_append)
  next
    case (Delta d)
    with assms Inr show ?thesis
      by (simp add: process_item_def process_env_def process_delta_def accounts_def Let_def
          vevents_append log_rows_append top_rows_append push_delta_rows bt_push_rows next_idx
          msg_rows_def apply_msg_def)
  next
    case (TradeRec t)
    with assms Inr show ?thesis
      by (auto simp: process_item_def process_env_def accounts_def Let_def vevents_append tt_push_trades)
  next
    case (Gap g)
    with assms Inr show ?thesis
      by (simp add: process_item_def process_env_def accounts_def Let_def vevents_append)
  next
    case (Raw r)
    with assms Inr show ?thesis
      by (simp add: process_item_def process_env_def accounts_def Let_def vevents_append rt_push_rows)
  next
    case (Verify v)
    with assms Inr show ?thesis
      by (simp add: process_item_def process_env_def accounts_def Let_def vevents_append)
  qed
qed

lemma run_items_accounts:
  "if list_all item_fits items then \<exists>p. run_items P items proc_init = Inr p \<and> accounts P items p
   else \<exists>q. run_items P items proc_init = Inl (QtyOutOfRange q) \<and> 2 ^ 63 \<le> uint q"
proof (induction items rule: rev_induct)
  case Nil
  then show ?case by (simp add: accounts_init)
next
  case (snoc x items)
  obtain ch i where x: "x = (ch, i)" by (cases x)
  show ?case
  proof (cases "list_all item_fits items")
    case True
    with snoc obtain p where "run_items P items proc_init = Inr p" "accounts P items p" by auto
    with accounts_step [of P items p ch i] True x show ?thesis
      by (auto simp: run_items_append and_then_Inr_iff split: if_splits)
  next
    case False
    with snoc show ?thesis by (auto simp: run_items_append)
  qed
qed

section \<open>The results\<close>

lemma observations_vevents:
  "observations (vevents b items) = map (\<lambda>env. timestamp_micros (e_recv_ts env)) (of_items item_verifies items)"
proof (induction items arbitrary: b)
  case (Cons x items)
  obtain ch i where "x = (ch, i)" by (cases x)
  with Cons show ?case by (cases i) (auto simp: Let_def split: RecordKind.splits)
qed simp

lemma verdict_times:
  "map vr_recv_ts_us (engine_finish (vrun js (vevents b items))) =
     map (\<lambda>env. timestamp_micros (e_recv_ts env)) (of_items item_verifies items)"
  by (simp add: finish_rows observations_vevents)

lemma verdict_count:
  "length (engine_finish (vrun js (vevents b items))) = length (of_items item_verifies items)"
  using arg_cong [OF verdict_times, of length] by simp

definition stamped :: "string \<Rightarrow> VerifyOutcomeRow list \<Rightarrow> (Envelope \<times> GapMarker) list" where
  "stamped ticker rows =
     map (\<lambda>row. (Envelope_new (vr_recv_ts_us row * 1000) None None (Gap (mismatch_marker ticker row)),
                 mismatch_marker ticker row))
       (filter (\<lambda>row. vr_outcome row = ''mismatch'' \<and> micros_ok (vr_recv_ts_us row)) rows)"

definition mismatch_count :: "VerifyOutcomeRow list \<Rightarrow> nat" where
  "mismatch_count rows = length (filter (\<lambda>row. vr_outcome row = ''mismatch'') rows)"

definition skipped_count :: "VerifyOutcomeRow list \<Rightarrow> nat" where
  "skipped_count rows =
     length (filter (\<lambda>row. vr_outcome row = ''skipped_gap'' \<or> vr_outcome row = ''truncated'') rows)"

lemma verify_row_fold:
  "fold (verify_row ticker) rows
     \<lparr>va_mismatches = m, va_skipped = k, va_gap_rows = gs, va_table = vt_of_rows rs\<rparr> =
   \<lparr>va_mismatches = m + mismatch_count rows, va_skipped = k + skipped_count rows,
    va_gap_rows = gs @ stamped ticker rows, va_table = vt_of_rows (rs @ rows)\<rparr>"
  by (induction rows arbitrary: m k gs rs)
    (simp_all add: verify_row_def from_timestamp_micros_def Let_def vt_push_rows stamped_def
      mismatch_count_def skipped_count_def)

lemma verify_rows_fold_eq:
  "verify_rows_fold ticker p =
     (let rows = engine_finish (ps_engine p)
      in \<lparr>va_mismatches = mismatch_count rows, va_skipped = skipped_count rows,
          va_gap_rows = ps_gap_rows p @ stamped ticker rows, va_table = vt_of_rows rows\<rparr>)"
  using verify_row_fold [of ticker "engine_finish (ps_engine p)" 0 0 "ps_gap_rows p" "[]"]
  by (simp add: verify_rows_fold_def vt_of_rows_def Let_def)

definition all_gaps :: "env_params \<Rightarrow> string \<Rightarrow> item list \<Rightarrow> (Envelope \<times> GapMarker) list" where
  "all_gaps P ticker items =
     sort_gap_rows (of_items item_gaps items @
       stamped ticker (engine_finish (vrun (ep_levels_json P) (vevents Book_default items))))"

text \<open>A finished batch holds the columns of its table, by name, one row for each row pushed.\<close>

definition holds :: "'b arrow \<Rightarrow> 'b \<Rightarrow> nat \<Rightarrow> columns \<Rightarrow> bool" where
  "holds A b n cols \<longleftrightarrow> ar_num_rows A b = n \<and> (\<forall>name. ar_column A b name = map_option fst (map_of cols name))"

lemma finish_tables_ok:
  assumes "arrow_ok A" and "accounts P items p"
  shows "\<exists>f. finish_tables A p (gt_of_gaps gs) (vt_of_rows vs) = Inr f \<and>
    holds A (fin_book_events f) (length (log_rows 0 (of_items item_msgs items)))
      (be_columns (be_of_rows (log_rows 0 (of_items item_msgs items)))) \<and>
    ar_num_rows A (fin_book_top f) = length (of_items item_msgs items) \<and>
    holds A (fin_trades f) (length (of_items item_trades items)) (tt_columns (tt_of_trades (of_items item_trades items))) \<and>
    holds A (fin_gaps f) (length gs) (gt_columns (gt_of_gaps gs)) \<and>
    ar_num_rows A (fin_raw f) = length (of_items item_raws items) \<and>
    ar_num_rows A (fin_verify f) = length vs"
proof -
  let ?m = "of_items item_msgs items"
  note ac = assms(2) [unfolded accounts_def Let_def]
  obtain be where be: "be_finish (ar_try_from A) (ps_book_events p) = Inr be"
    "holds A be (length (log_rows 0 ?m)) (be_columns (be_of_rows (log_rows 0 ?m)))"
    using finish_ok(1) [OF assms(1)] ac unfolding holds_def by metis
  obtain bt where bt: "bt_finish (ar_try_from A) (ps_book_top p) = Inr bt" "ar_num_rows A bt = length ?m"
    using finish_ok(2) [OF assms(1), of "top_rows 0 Book_default ?m"] ac by auto
  obtain tt where tt: "tt_finish (ar_try_from A) (ps_trades p) = Inr tt"
    "holds A tt (length (of_items item_trades items)) (tt_columns (tt_of_trades (of_items item_trades items)))"
    using finish_ok(3) [OF assms(1)] ac unfolding holds_def by metis
  obtain gt where gt: "gt_finish (ar_try_from A) (gt_of_gaps gs) = Inr gt"
    "holds A gt (length gs) (gt_columns (gt_of_gaps gs))"
    using finish_ok(4) [OF assms(1)] unfolding holds_def by metis
  obtain rt where rt: "rt_finish (ar_try_from A) (ps_raw p) = Inr rt"
    "ar_num_rows A rt = length (of_items item_raws items)"
    using finish_ok(5) [OF assms(1)] ac by metis
  obtain vt where vt: "vt_finish (ar_try_from A) (vt_of_rows vs) = Inr vt" "ar_num_rows A vt = length vs"
    using finish_ok(6) [OF assms(1)] by blast
  show ?thesis using be bt tt gt rt vt by (simp add: finish_tables_def)
qed

lemma report_facts:
  assumes "accounts P items p" and "report P A ticker ext dir p sf f = (oc, out)"
    and "ar_num_rows A (fin_raw f) = length (of_items item_raws items)"
  shows "to_counts oc = finished_counts A f"
    and "m_counts (out_manifest out) = finished_counts A f"
    and "m_source_files (out_manifest out) = sf"
    and "out_read_errors out = of_items item_errors items"
    and "m_read_errors (out_manifest out) = length (of_items item_errors items)"
    and "m_complete (out_manifest out) \<longleftrightarrow> of_items item_errors items = [] \<and> of_items item_raws items = []"
    and "m_verify_mismatches (out_manifest out) =
      mismatch_count (engine_finish (vrun (ep_levels_json P) (vevents Book_default items)))"
    and "map_of (out_batches out) (''book_events.'' @ ext) = Some (fin_book_events f)"
    and "map_of (out_batches out) (''trades.'' @ ext) = Some (fin_trades f)"
    and "map_of (out_batches out) (''gaps.'' @ ext) = Some (fin_gaps f)"
  using assms by (auto simp: report_def accounts_def Let_def verify_rows_fold_eq finished_counts_def
      split: prod.splits)

lemma conclude_ok:
  assumes "arrow_ok A" and "accounts P items p"
  shows "\<exists>f. conclude P A ticker ext dir p sf = Inr (report P A ticker ext dir p sf f) \<and>
    finished_counts A f = \<lparr>ct_book_events = length (log_rows 0 (of_items item_msgs items)),
      ct_book_top = length (of_items item_msgs items), ct_trades = length (of_items item_trades items),
      ct_gaps = length (all_gaps P ticker items), ct_raw = length (of_items item_raws items),
      ct_verify = length (of_items item_verifies items)\<rparr> \<and>
    holds A (fin_book_events f) (length (log_rows 0 (of_items item_msgs items)))
      (be_columns (be_of_rows (log_rows 0 (of_items item_msgs items)))) \<and>
    holds A (fin_trades f) (length (of_items item_trades items)) (tt_columns (tt_of_trades (of_items item_trades items))) \<and>
    holds A (fin_gaps f) (length (all_gaps P ticker items)) (gt_columns (gt_of_gaps (all_gaps P ticker items)))"
proof -
  let ?rows = "engine_finish (vrun (ep_levels_json P) (vevents Book_default items))"
  have gaps: "fold (\<lambda>(env, marker). gt_push env marker) gs GapsTable_default = gt_of_gaps gs" for gs
    using fold_gt_push [of gs "[]"] by (simp add: table_defaults)
  have va: "va_table (verify_rows_fold ticker p) = vt_of_rows ?rows"
    "gap_rows_sorted ticker p = all_gaps P ticker items"
    using assms(2) by (simp_all add: accounts_def verify_rows_fold_eq Let_def all_gaps_def gap_rows_sorted_def)
  from finish_tables_ok [OF assms, of "all_gaps P ticker items" ?rows] obtain f where
    "finish_tables A p (gt_of_gaps (all_gaps P ticker items)) (vt_of_rows ?rows) = Inr f"
    "holds A (fin_book_events f) (length (log_rows 0 (of_items item_msgs items)))
      (be_columns (be_of_rows (log_rows 0 (of_items item_msgs items))))"
    "ar_num_rows A (fin_book_top f) = length (of_items item_msgs items)"
    "holds A (fin_trades f) (length (of_items item_trades items)) (tt_columns (tt_of_trades (of_items item_trades items)))"
    "holds A (fin_gaps f) (length (all_gaps P ticker items)) (gt_columns (gt_of_gaps (all_gaps P ticker items)))"
    "ar_num_rows A (fin_raw f) = length (of_items item_raws items)"
    "ar_num_rows A (fin_verify f) = length (of_items item_verifies items)"
    by (auto simp: verdict_count)
  then show ?thesis
    by (intro exI [of _ f]) (simp add: conclude_def Let_def va gaps finished_counts_def holds_def)
qed

lemma process_ticker_ok:
  assumes "arrow_ok A" and "process_ticker P A ticker ext dir ob tr = Inr (Some (oc, out))"
  shows "\<exists>p sf. process_channels P ob tr = Inr (p, sf) \<and> accounts P (input_items P ob tr) p \<and>
    conclude P A ticker ext dir p sf = Inr (oc, out)"
proof -
  from assms(2) obtain p sf where pc: "process_channels P ob tr = Inr (p, sf)"
    and c: "conclude P A ticker ext dir p sf = Inr (oc, out)"
    by (auto simp: process_ticker_def and_then_Inr_iff split: if_splits)
  from pc have "run_items P (input_items P ob tr) proc_init = Inr p"
    using process_channels_items [of P ob tr] by simp
  then have "accounts P (input_items P ob tr) p"
    using run_items_accounts [of "input_items P ob tr" P] by (auto split: if_splits)
  with pc c show ?thesis by blast
qed

definition times_in_range :: "item list \<Rightarrow> bool" where
  "times_in_range items \<longleftrightarrow>
     list_all (\<lambda>env. micros_ok (timestamp_micros (e_recv_ts env))) (of_items item_verifies items)"

lemma stamped_all:
  assumes "times_in_range items"
  shows "length (stamped ticker (engine_finish (vrun js (vevents b items)))) =
    mismatch_count (engine_finish (vrun js (vevents b items)))"
proof -
  let ?rows = "engine_finish (vrun js (vevents b items))"
  have "set (map vr_recv_ts_us ?rows) \<subseteq> Collect micros_ok"
    using assms unfolding verdict_times by (auto simp: times_in_range_def list_all_iff)
  then have "filter (\<lambda>row. vr_outcome row = ''mismatch'' \<and> micros_ok (vr_recv_ts_us row)) ?rows =
      filter (\<lambda>row. vr_outcome row = ''mismatch'') ?rows"
    by (intro filter_cong) auto
  then show ?thesis by (simp add: stamped_def mismatch_count_def)
qed

lemma length_all_gaps:
  "times_in_range items \<Longrightarrow> length (all_gaps P ticker items) = length (of_items item_gaps items) +
     mismatch_count (engine_finish (vrun (ep_levels_json P) (vevents Book_default items)))"
  by (simp add: all_gaps_def sort_gap_rows_def stamped_all)

lemma process_ticker_result:
  assumes "arrow_ok A" and "ob \<noteq> [] \<or> tr \<noteq> []"
  shows "if list_all item_fits (input_items P ob tr)
    then \<exists>oc out. process_ticker P A ticker ext dir ob tr = Inr (Some (oc, out))
    else \<exists>q. process_ticker P A ticker ext dir ob tr = Inl (QtyOutOfRange q) \<and> 2 ^ 63 \<le> uint q"
proof (cases "process_channels P ob tr")
  case (Inl e)
  then have "run_items P (input_items P ob tr) proc_init = Inl e"
    using process_channels_items [of P ob tr] by simp
  with run_items_accounts [of "input_items P ob tr" P] Inl assms(2) show ?thesis
    by (auto simp: process_ticker_def split: if_splits)
next
  case (Inr x)
  obtain p sf where x: "x = (p, sf)" by (cases x)
  have run: "run_items P (input_items P ob tr) proc_init = Inr p"
    using process_channels_items [of P ob tr] Inr x by simp
  with run_items_accounts [of "input_items P ob tr" P]
  have fits: "list_all item_fits (input_items P ob tr)" and ac: "accounts P (input_items P ob tr) p"
    by (auto split: if_splits)
  obtain f where "conclude P A ticker ext dir p sf = Inr (report P A ticker ext dir p sf f)"
    using conclude_ok [OF assms(1) ac] by blast
  with Inr x fits assms(2) show ?thesis
    by (cases "report P A ticker ext dir p sf f") (auto simp: process_ticker_def)
qed

text \<open>
  C5. No record is lost silently. When a ticker is converted, the records read (every non-blank line,
  decodable or not) are accounted for exactly once: by a row of the top-of-book series, of the
  trades, of the raw fallbacks, of the verdicts, by a row of the gaps table beyond those
  synthesised for mismatches, or by a preserved unreadable line.
\<close>

theorem every_record_accounted:
  assumes "arrow_ok A" and "process_ticker P A ticker ext dir ob tr = Inr (Some (oc, out))"
    and "times_in_range (input_items P ob tr)"
  shows "sum_list (map sf_records (m_source_files (out_manifest out))) + m_verify_mismatches (out_manifest out) =
    ct_book_top (to_counts oc) + ct_trades (to_counts oc) + ct_raw (to_counts oc) + ct_verify (to_counts oc) +
    ct_gaps (to_counts oc) + length (out_read_errors out)"
proof -
  let ?items = "input_items P ob tr"
  obtain p sf where pc: "process_channels P ob tr = Inr (p, sf)" and ac: "accounts P ?items p"
    and c: "conclude P A ticker ext dir p sf = Inr (oc, out)"
    using process_ticker_ok [OF assms(1,2)] by (elim exE conjE)
  obtain f where r: "report P A ticker ext dir p sf f = (oc, out)"
    and n: "finished_counts A f = \<lparr>ct_book_events = length (log_rows 0 (of_items item_msgs ?items)),
      ct_book_top = length (of_items item_msgs ?items), ct_trades = length (of_items item_trades ?items),
      ct_gaps = length (all_gaps P ticker ?items), ct_raw = length (of_items item_raws ?items),
      ct_verify = length (of_items item_verifies ?items)\<rparr>"
    using conclude_ok [OF assms(1) ac, of ticker ext dir sf] c by auto
  have "ar_num_rows A (fin_raw f) = length (of_items item_raws ?items)"
    using n by (simp add: finished_counts_def)
  note facts = report_facts [OF ac r this]
  show ?thesis
    using process_channels_records [OF pc] items_partition [of ?items] length_all_gaps [OF assms(3)]
    by (simp add: facts n)
qed

text \<open>
  Non-vacuity: three lines of one file, a raw fallback, a blank and an undecodable one, are two
  records, one raw row and one read error.
\<close>

definition ex_raw :: Envelope where
  "ex_raw = Envelope_new 0 None None
     (Raw \<lparr>rf_raw_type = None, rf_ticker = None, rf_error = [], rf_payload = JNull\<rparr>)"

definition ex_params :: env_params where
  "ex_params =
     \<lparr>ep_from_str = (\<lambda>s. if s = ''r'' then Inr ex_raw else Inl ''bad''),
      ep_ser = (\<lambda>_. None), ep_levels_json = (\<lambda>_. []), ep_rfc3339 = (\<lambda>_. None), ep_tool_version = [],
      ep_now = []\<rparr>"

definition ex_files :: "jsonl_file list" where
  "ex_files = [(''a'', [Inr ''r'', Inr '' '', Inr ''x''])]"

lemma ex_items: "input_items ex_params ex_files [] =
    [(''orderbook'', Inr ex_raw),
     (''orderbook'', Inl \<lparr>re_line_no = 3, re_error = ''json parse: bad'', re_raw = ''x''\<rparr>)]"
  by (simp add: input_items_def ex_params_def ex_files_def ex_raw_def read_envelopes_def is_whitespace_def Let_def)

lemma ex_process:
  "\<exists>oc out. process_ticker ex_params plain_arrow [] [] [] ex_files [] = Inr (Some (oc, out))"
  using process_ticker_result [OF arrow_ok_plain, of ex_files "[]" ex_params "[]" "[]" "[]"]
  by (simp add: ex_items ex_raw_def) (simp add: ex_files_def)

theorem every_record_accounted_witness:
  "\<exists>oc out. process_ticker ex_params plain_arrow [] [] [] ex_files [] = Inr (Some (oc, out)) \<and>
     sum_list (map sf_records (m_source_files (out_manifest out))) + m_verify_mismatches (out_manifest out) =
     ct_book_top (to_counts oc) + ct_trades (to_counts oc) + ct_raw (to_counts oc) + ct_verify (to_counts oc) +
     ct_gaps (to_counts oc) + length (out_read_errors out)"
proof -
  obtain oc out where ok: "process_ticker ex_params plain_arrow [] [] [] ex_files [] = Inr (Some (oc, out))"
    using ex_process by blast
  have "times_in_range (input_items ex_params ex_files [])"
    by (simp add: ex_items ex_raw_def times_in_range_def)
  from every_record_accounted [OF arrow_ok_plain ok this] ok show ?thesis by blast
qed

text \<open>
  C34. The conversion of a ticker with capture files always ends in a result: it succeeds exactly when
  every snapshot size and trade count read fits a signed 64-bit integer, and otherwise reports an
  oversized quantity. The columns of every table always have one length, so building the
  record batches never fails.
\<close>

theorem conversion_total:
  assumes "arrow_ok A" and "ob \<noteq> [] \<or> tr \<noteq> []"
  shows "if list_all item_fits (input_items P ob tr)
    then \<exists>oc out. process_ticker P A ticker ext dir ob tr = Inr (Some (oc, out))
    else \<exists>q. process_ticker P A ticker ext dir ob tr = Inl (QtyOutOfRange q) \<and> 2 ^ 63 \<le> uint q"
  by (rule process_ticker_result [OF assms])

theorem conversion_total_witness:
  "\<exists>oc out. process_ticker ex_params plain_arrow [] [] [] ex_files [] = Inr (Some (oc, out))"
  using conversion_total [OF arrow_ok_plain, of ex_files "[]" ex_params "[]" "[]" "[]"]
  by (simp add: ex_items ex_raw_def) (simp add: ex_files_def)

text \<open>
  The gaps batch written for a ticker is in receive-time order and holds every gap marker of the
  input together with one row for each mismatch verdict, whatever the order in which they arose.
\<close>

theorem gaps_written_in_order:
  assumes "arrow_ok A" and "process_ticker P A ticker ext dir ob tr = Inr (Some (oc, out))"
    and "times_in_range (input_items P ob tr)"
  shows "\<exists>b gs. map_of (out_batches out) (''gaps.'' @ ext) = Some b \<and> ar_num_rows A b = length gs \<and>
    ar_column A b ''recv_ts_us'' = Some (Int64Array (map (\<lambda>(env, g). Some (timestamp_micros (e_recv_ts env))) gs)) \<and>
    ar_column A b ''reason'' = Some (StringArray (map (\<lambda>(env, g). Some (gap_reason_str (gm_reason g))) gs)) \<and>
    sorted (map (\<lambda>(env, g). timestamp_micros (e_recv_ts env)) gs) \<and>
    mset (of_items item_gaps (input_items P ob tr)) \<subseteq># mset gs \<and>
    length gs = length (of_items item_gaps (input_items P ob tr)) + m_verify_mismatches (out_manifest out)"
proof -
  let ?items = "input_items P ob tr" and ?gs = "all_gaps P ticker (input_items P ob tr)"
  obtain p sf where ac: "accounts P ?items p" and c: "conclude P A ticker ext dir p sf = Inr (oc, out)"
    using process_ticker_ok [OF assms(1,2)] by (elim exE conjE)
  obtain f where r: "report P A ticker ext dir p sf f = (oc, out)"
    and n: "ct_raw (finished_counts A f) = length (of_items item_raws ?items)"
    and h: "holds A (fin_gaps f) (length ?gs) (gt_columns (gt_of_gaps ?gs))"
    using conclude_ok [OF assms(1) ac, of ticker ext dir sf] c by auto
  have "ar_num_rows A (fin_raw f) = length (of_items item_raws ?items)"
    using n by (simp add: finished_counts_def)
  note facts = report_facts [OF ac r this]
  have "sorted (map (\<lambda>(env, g). timestamp_micros (e_recv_ts env)) ?gs)"
    using sorted_sort_key [of "\<lambda>(env, _ :: GapMarker). timestamp_micros (e_recv_ts env)"]
    by (simp add: all_gaps_def sort_gap_rows_def)
  moreover have "mset (of_items item_gaps ?items) \<subseteq># mset ?gs"
    by (simp add: all_gaps_def sort_gap_rows_def)
  ultimately show ?thesis
    using h facts(7,10) length_all_gaps [OF assms(3)]
    by (intro exI [of _ "fin_gaps f"] exI [of _ ?gs])
      (auto simp: holds_def gt_columns_def gt_of_gaps_def col_defs ts_us_def)
qed

theorem gaps_written_in_order_witness:
  "\<exists>oc out b (gs :: (Envelope \<times> GapMarker) list).
     process_ticker ex_params plain_arrow [] [] [] ex_files [] = Inr (Some (oc, out)) \<and>
     map_of (out_batches out) ''gaps.'' = Some b \<and> ar_num_rows plain_arrow b = length gs \<and>
     sorted (map (\<lambda>(env, g). timestamp_micros (e_recv_ts env)) gs)"
proof -
  obtain oc out where ok: "process_ticker ex_params plain_arrow [] [] [] ex_files [] = Inr (Some (oc, out))"
    using ex_process by blast
  have "times_in_range (input_items ex_params ex_files [])"
    by (simp add: ex_items ex_raw_def times_in_range_def)
  from gaps_written_in_order [OF arrow_ok_plain ok this] ok show ?thesis
    unfolding append_Nil2 by blast
qed

section \<open>Hole time\<close>

text \<open>
  An instant of the span lies in a hole when some gap was recorded at or before it and no
  snapshot has re-anchored the book since, from the gap to the instant.
\<close>

definition in_hole :: "(Envelope \<times> GapMarker) list \<Rightarrow> i64 list \<Rightarrow> i64 \<Rightarrow> bool" where
  "in_hole gap_rows snap_ts_us t \<longleftrightarrow>
     (\<exists>(env, g) \<in> set gap_rows. timestamp_micros (e_recv_ts env) \<le> t \<and>
        (\<forall>s \<in> set snap_ts_us. timestamp_micros (e_recv_ts env) \<le> s \<longrightarrow> t < s))"

lemma first_at_or_after:
  assumes "sorted xs"
  shows "case get_at xs (partition_point (\<lambda>t. t < start) xs) of
           Some t0 \<Rightarrow> t0 \<in> set xs \<and> start \<le> t0 \<and> (\<forall>x \<in> set xs. start \<le> x \<longrightarrow> t0 \<le> x)
         | None \<Rightarrow> \<forall>x \<in> set xs. x < start"
  using assms
proof (induction xs)
  case (Cons x xs)
  have "get_at (x # xs) (partition_point (\<lambda>t. t < start) (x # xs)) =
      (if x < start then get_at xs (partition_point (\<lambda>t. t < start) xs) else Some x)"
    by (simp add: get_at_def partition_point_def)
  with Cons show ?case by (auto split: option.splits)
qed (simp add: get_at_def)

definition window_union :: "(i64 \<times> i64) list \<Rightarrow> i64 set" where
  "window_union ws = (\<Union>(s, e) \<in> set ws. {s..<e})"

lemma window_union_simps [simp]:
  "window_union [] = {}" "window_union ((s, e) # ws) = {s..<e} \<union> window_union ws"
  "window_union (sort ws) = window_union ws"
  by (auto simp: window_union_def)

lemma hole_windows_union:
  assumes "sorted snaps"
  shows "window_union (hole_windows snaps ss se gs) = {t. ss \<le> t \<and> t < se \<and> in_hole gs snaps t}"
proof (induction gs)
  case Nil
  then show ?case by (simp add: in_hole_def)
next
  case (Cons x gs)
  obtain env g where x: "x = (env, g)" by (cases x)
  let ?start = "timestamp_micros (e_recv_ts env)"
  have ih: "{t. ss \<le> t \<and> t < se \<and> in_hole ((env, g) # gs) snaps t} =
      {t. ss \<le> t \<and> t < se \<and> ?start \<le> t \<and> (\<forall>s \<in> set snaps. ?start \<le> s \<longrightarrow> t < s)} \<union>
      window_union (hole_windows snaps ss se gs)"
    unfolding Cons by (auto simp: in_hole_def)
  have win: "window_union (if lo < hi then (lo, hi) # ws else ws) = {lo..<hi} \<union> window_union ws"
    for lo hi :: i64 and ws by simp
  show ?case
  proof (cases "get_at snaps (partition_point (\<lambda>t. t < ?start) snaps)")
    case None
    with first_at_or_after [OF assms, of ?start] have "\<forall>s \<in> set snaps. s < ?start" by simp
    then have "{t. ss \<le> t \<and> t < se \<and> ?start \<le> t \<and> (\<forall>s \<in> set snaps. ?start \<le> s \<longrightarrow> t < s)} =
        {max ?start ss..<se}" by auto
    moreover have "hole_windows snaps ss se ((env, g) # gs) =
        (let rest = hole_windows snaps ss se gs
         in if max ?start ss < se then (max ?start ss, se) # rest else rest)"
      using None by (simp add: Let_def)
    ultimately show ?thesis unfolding x ih Let_def by (simp only: win)
  next
    case (Some t0)
    with first_at_or_after [OF assms, of ?start]
    have t0: "t0 \<in> set snaps" "?start \<le> t0" "\<forall>s \<in> set snaps. ?start \<le> s \<longrightarrow> t0 \<le> s" by simp_all
    have "(\<forall>s \<in> set snaps. ?start \<le> s \<longrightarrow> t < s) \<longleftrightarrow> t < t0" for t
      using t0 order_less_le_trans by blast
    then have "{t. ss \<le> t \<and> t < se \<and> ?start \<le> t \<and> (\<forall>s \<in> set snaps. ?start \<le> s \<longrightarrow> t < s)} =
        {max ?start ss..<min t0 se}" by (simp only:) auto
    then show ?thesis
      unfolding x ih hole_windows.simps Let_def Some option.case by (simp only: win)
  qed
qed

lemma hole_windows_nonempty: "(s, e) \<in> set (hole_windows snaps ss se gs) \<Longrightarrow> s < e"
  by (induction snaps ss se gs rule: hole_windows.induct)
    (auto simp: Let_def split: option.splits if_splits)

text \<open>The merge of the sorted windows counts each covered microsecond once.\<close>

lemma union_loop_measure:
  assumes "i64_range tot" and "sorted (map fst ws)" and "\<forall>w \<in> set ws. fst w < snd w"
    and "case cur of None \<Rightarrow> True | Some c \<Rightarrow> fst c < snd c \<and> (\<forall>w \<in> set ws. fst c \<le> fst w)"
  shows "union_loop tot cur ws =
    i64_wrap (tot + int (card (window_union (case cur of None \<Rightarrow> ws | Some w \<Rightarrow> w # ws))))"
  using assms
proof (induction tot cur ws rule: union_loop.induct)
  case (1 tot cur)
  then show ?case
    by (cases cur) (auto simp: i64_add_def i64_sub_def i64_simps)
next
  case (2 tot cur s e ws)
  show ?case
  proof (cases cur)
    case None
    with 2 show ?thesis by simp
  next
    case (Some c)
    obtain cs ce where c: "c = (cs, ce)" by (cases c)
    have le: "cs \<le> s" "cs < ce" "s < e" "\<forall>w \<in> set ws. s \<le> fst w" "\<forall>w \<in> set ws. fst w < snd w"
      "sorted (map fst ws)"
      using "2.prems" Some c by simp_all
    show ?thesis
    proof (cases "s \<le> ce")
      case True
      have "{cs..<max ce e} = {cs..<ce} \<union> {s..<e}" using True le by auto
      then have "window_union ((cs, max ce e) # ws) = window_union ((cs, ce) # (s, e) # ws)"
        by (simp add: Un_assoc)
      moreover have "\<forall>w \<in> set ws. cs \<le> fst w" using le by force
      moreover have "cs < max ce e" using le by simp
      ultimately show ?thesis
        using "2.IH"(2) [OF Some c [symmetric] True] "2.prems"(1) Some c True le
        by (simp del: window_union_simps(2))
    next
      case False
      let ?U = "window_union ((s, e) # ws)"
      have "finite ?U" unfolding window_union_def by auto
      moreover have "{cs..<ce} \<inter> ?U = {}" using False le by (force simp: window_union_def)
      moreover have "window_union ((cs, ce) # (s, e) # ws) = {cs..<ce} \<union> ?U" by simp
      ultimately have "int (card (window_union ((cs, ce) # (s, e) # ws))) = (ce - cs) + int (card ?U)"
        using le by (simp add: card_Un_disjoint del: window_union_simps(2))
      moreover have "union_loop tot cur ((s, e) # ws) =
          i64_wrap (i64_add tot (i64_sub ce cs) + int (card ?U))"
        using "2.IH"(3) [OF Some c [symmetric] False] Some c False le by (simp del: window_union_simps(2))
      moreover have "i64_wrap (i64_add tot (i64_sub ce cs) + x) = i64_wrap (tot + ((ce - cs) + x))" for x
        by (simp add: i64_add_def i64_sub_def i64_simps algebra_simps)
      ultimately show ?thesis unfolding Some c option.case by (simp only:)
    qed
  qed
qed

text \<open>
  C16. The hole time of the manifest is exact: it is the number of microseconds of the span that lie in
  a hole, each counted once however many gaps overlap there, and the span is the extent of the
  book events.
\<close>

theorem hole_time_exact:
  assumes "ss \<le> se" and "i64_range (se - ss)"
  shows "coverage gap_rows snap_ts_us (Some ss, Some se) trade =
    (Some (se - ss), Some (int (card {t. ss \<le> t \<and> t < se \<and> in_hole gap_rows snap_ts_us t})))"
proof -
  let ?snaps = "remdups_adj (sort snap_ts_us)" and ?H = "{t. ss \<le> t \<and> t < se \<and> in_hole gap_rows snap_ts_us t}"
  let ?ws = "sort (hole_windows ?snaps ss se gap_rows)"
  have "sorted ?snaps" by (simp add: sorted_remdups_adj)
  from hole_windows_union [OF this] have U: "window_union ?ws = ?H"
    by (simp add: in_hole_def)
  have "sorted (map fst ?ws)"
    by (rule sorted_map_mono) (auto intro: monoI simp: monotone_on_def less_eq_prod_def)
  moreover have "\<forall>w \<in> set ?ws. fst w < snd w" by (auto dest: hole_windows_nonempty)
  ultimately have "union_loop 0 None ?ws = i64_wrap (int (card ?H))"
    using union_loop_measure [of 0 ?ws None] U by simp
  moreover have "int (card ?H) \<le> se - ss"
    using card_mono [of "{ss..<se}" ?H] assms(1) by (force simp: card_atLeastLessThan_int)
  then have "i64_range (int (card ?H))"
    using assms(2) by (auto simp: i64_range_def)
  ultimately show ?thesis
    using assms(2) by (simp add: coverage_def Let_def i64_sub_def)
qed

definition ex_gaps :: "(Envelope \<times> GapMarker) list" where
  "ex_gaps =
     (let g = \<lparr>gm_reason = Reconnect, gm_ticker = [], gm_channel = ''orderbook'', gm_last_seq = None,
               gm_observed_seq = None, gm_detail = []\<rparr>
      in [(Envelope_new 3000 None None (Gap g), g)])"

theorem hole_time_exact_witness:
  "coverage ex_gaps [6, 1] (Some 0, Some 10) (None, None) =
     (Some 10, Some (int (card {t. 0 \<le> t \<and> t < 10 \<and> in_hole ex_gaps [6, 1] t})))"
  using hole_time_exact [of 0 10 ex_gaps "[6, 1]" "(None, None)"] by (simp add: i64_range_def)

end
