(* ===== verification/Load_Reader.thy ===== *)
theory Load_Reader
  imports Process
begin

text \<open>
  The typed row readers of \<^verbatim>\<open>crates/kdp-load/src/reader.rs\<close>, with the error type of \<^verbatim>\<open>error.rs\<close>. A
  Parquet reader is the list of the results it will still yield: a record batch or a failure.
  Batches are those of the Arrow parameter of \<open>Tables\<close>; columns are read by name.

  The detail of a malformed row is a constructor of \<open>row_fault\<close> for each format string of the
  code. The locale \<open>iterator\<close> states what it means for a \<open>next\<close> operation to yield a list; the
  row reader is its first instance. The round-trip lemmas show that the rows \<open>Process\<close>
  wrote are the rows read back.
\<close>

section \<open>Errors\<close>

datatype row_fault =
    ColumnMissing string
  | ColumnUnexpectedType string
  | UnexpectedNull string
  | PriceOutOfRange i64
  | InvalidSideText string
  | InvalidTakerBookSide string
  | NegativeCount i64
  | NegativeSnapshotQty i64
  | DeltaRowIncomplete

datatype LoadError =
    IoError string string
  | ManifestError string string
  | UnsupportedSchema u16 u16
  | Incomplete "string list"
  | MissingTable string string
  | MalformedRow string nat row_fault
  | ParquetError string nat string
  | InvalidRange i64 i64
  | OrderViolation i64 i64

section \<open>Rows\<close>

record BookEventRow =
  ber_event_idx :: i64
  ber_recv_ts_us :: i64
  ber_seq :: "i64 option"
  ber_is_snapshot :: bool
  ber_side :: "Side option"
  ber_price_micro :: "u32 option"
  ber_qty_centi :: "i64 option"

record TradeRow =
  tr_recv_ts_us :: i64
  tr_event_ts_us :: i64
  tr_seq :: "i64 option"
  tr_price_micro :: u32
  tr_count_centi :: u64
  tr_taker_side :: Side
  tr_taker_book_side :: "BookSide option"
  tr_trade_id :: "string option"

record GapRow =
  gr_recv_ts_us :: i64
  gr_seq :: "i64 option"
  gr_reason :: string
  gr_detail :: string

section \<open>Typed access by column name\<close>

definition malformed :: "string \<Rightarrow> nat \<Rightarrow> row_fault \<Rightarrow> LoadError" where
  "malformed table row detail = MalformedRow table row detail"

definition col :: "'b arrow \<Rightarrow> (ArrayRef \<Rightarrow> 'a list option) \<Rightarrow> 'b \<Rightarrow> string \<Rightarrow> string \<Rightarrow> nat \<Rightarrow>
    LoadError + 'a list" where
  "col A downcast b name table row =
     (case ar_column A b name of
        None \<Rightarrow> Inl (malformed table row (ColumnMissing name))
      | Some a \<Rightarrow>
          (case downcast a of
             None \<Rightarrow> Inl (malformed table row (ColumnUnexpectedType name))
           | Some v \<Rightarrow> Inr v))"

fun as_int64 :: "ArrayRef \<Rightarrow> i64 option list option" where
  "as_int64 (Int64Array v) = Some v" | "as_int64 _ = None"

fun as_bool :: "ArrayRef \<Rightarrow> bool option list option" where
  "as_bool (BooleanArray v) = Some v" | "as_bool _ = None"

fun as_str :: "ArrayRef \<Rightarrow> string option list option" where
  "as_str (StringArray v) = Some v" | "as_str _ = None"

definition opt_i64 :: "'b arrow \<Rightarrow> 'b \<Rightarrow> string \<Rightarrow> string \<Rightarrow> nat \<Rightarrow> nat \<Rightarrow> LoadError + i64 option" where
  "opt_i64 A b name t i row = and_then (col A as_int64 b name t row) (\<lambda>a. Inr (a ! i))"

definition req_i64 :: "'b arrow \<Rightarrow> 'b \<Rightarrow> string \<Rightarrow> string \<Rightarrow> nat \<Rightarrow> nat \<Rightarrow> LoadError + i64" where
  "req_i64 A b name t i row =
     and_then (col A as_int64 b name t row) (\<lambda>a.
       case a ! i of None \<Rightarrow> Inl (malformed t row (UnexpectedNull name)) | Some v \<Rightarrow> Inr v)"

definition req_bool :: "'b arrow \<Rightarrow> 'b \<Rightarrow> string \<Rightarrow> string \<Rightarrow> nat \<Rightarrow> nat \<Rightarrow> LoadError + bool" where
  "req_bool A b name t i row =
     and_then (col A as_bool b name t row) (\<lambda>a.
       case a ! i of None \<Rightarrow> Inl (malformed t row (UnexpectedNull name)) | Some v \<Rightarrow> Inr v)"

definition opt_str :: "'b arrow \<Rightarrow> 'b \<Rightarrow> string \<Rightarrow> string \<Rightarrow> nat \<Rightarrow> nat \<Rightarrow> LoadError + string option" where
  "opt_str A b name t i row = and_then (col A as_str b name t row) (\<lambda>a. Inr (a ! i))"

definition req_str :: "'b arrow \<Rightarrow> 'b \<Rightarrow> string \<Rightarrow> string \<Rightarrow> nat \<Rightarrow> nat \<Rightarrow> LoadError + string" where
  "req_str A b name t i row =
     and_then (opt_str A b name t i row) (\<lambda>os.
       case os of None \<Rightarrow> Inl (malformed t row (UnexpectedNull name)) | Some s \<Rightarrow> Inr s)"

definition to_price :: "i64 \<Rightarrow> string \<Rightarrow> nat \<Rightarrow> LoadError + u32" where
  "to_price v t row =
     (if 0 \<le> v \<and> v < 2 ^ 32 then Inr (word_of_int v) else Inl (malformed t row (PriceOutOfRange v)))"

definition to_side :: "string \<Rightarrow> string \<Rightarrow> nat \<Rightarrow> LoadError + Side" where
  "to_side s t row =
     (if s = ''yes'' then Inr Yes else if s = ''no'' then Inr No
      else Inl (malformed t row (InvalidSideText s)))"

section \<open>Decoders\<close>

fun opt_res :: "('a \<Rightarrow> 'e + 'b) \<Rightarrow> 'a option \<Rightarrow> 'e + 'b option" where
  "opt_res f None = Inr None"
| "opt_res f (Some x) = and_then (f x) (\<lambda>y. Inr (Some y))"

definition decode_book_row :: "'b arrow \<Rightarrow> 'b \<Rightarrow> nat \<Rightarrow> nat \<Rightarrow> string \<Rightarrow> LoadError + BookEventRow" where
  "decode_book_row A b i row t =
     and_then (opt_str A b ''side'' t i row) (\<lambda>s.
     and_then (opt_res (\<lambda>s. to_side s t row) s) (\<lambda>side.
     and_then (opt_i64 A b ''price_micro'' t i row) (\<lambda>p.
     and_then (opt_res (\<lambda>v. to_price v t row) p) (\<lambda>price_micro.
     and_then (req_i64 A b ''event_idx'' t i row) (\<lambda>event_idx.
     and_then (req_i64 A b ''recv_ts_us'' t i row) (\<lambda>recv_ts_us.
     and_then (opt_i64 A b ''seq'' t i row) (\<lambda>seq.
     and_then (req_bool A b ''is_snapshot'' t i row) (\<lambda>is_snapshot.
     and_then (opt_i64 A b ''qty_centi'' t i row) (\<lambda>qty_centi.
       Inr \<lparr>ber_event_idx = event_idx, ber_recv_ts_us = recv_ts_us, ber_seq = seq,
            ber_is_snapshot = is_snapshot, ber_side = side, ber_price_micro = price_micro,
            ber_qty_centi = qty_centi\<rparr>)))))))))"

definition to_book_side :: "string option \<Rightarrow> string \<Rightarrow> nat \<Rightarrow> LoadError + BookSide option" where
  "to_book_side os t row =
     (case os of
        None \<Rightarrow> Inr None
      | Some s \<Rightarrow>
          if s = ''bid'' then Inr (Some Bid) else if s = ''ask'' then Inr (Some Ask)
          else Inl (malformed t row (InvalidTakerBookSide s)))"

definition to_count :: "i64 \<Rightarrow> string \<Rightarrow> nat \<Rightarrow> LoadError + u64" where
  "to_count cnt t row =
     (if 0 \<le> cnt then Inr (word_of_int cnt) else Inl (malformed t row (NegativeCount cnt)))"

definition decode_trade_row :: "'b arrow \<Rightarrow> 'b \<Rightarrow> nat \<Rightarrow> nat \<Rightarrow> string \<Rightarrow> LoadError + TradeRow" where
  "decode_trade_row A b i row t =
     and_then (req_i64 A b ''count_centi'' t i row) (\<lambda>cnt.
     and_then (opt_str A b ''taker_book_side'' t i row) (\<lambda>bs.
     and_then (to_book_side bs t row) (\<lambda>taker_book_side.
     and_then (req_i64 A b ''recv_ts_us'' t i row) (\<lambda>recv_ts_us.
     and_then (req_i64 A b ''event_ts_us'' t i row) (\<lambda>event_ts_us.
     and_then (opt_i64 A b ''seq'' t i row) (\<lambda>seq.
     and_then (req_i64 A b ''price_micro'' t i row) (\<lambda>p.
     and_then (to_price p t row) (\<lambda>price_micro.
     and_then (to_count cnt t row) (\<lambda>count_centi.
     and_then (req_str A b ''taker_side'' t i row) (\<lambda>s.
     and_then (to_side s t row) (\<lambda>taker_side.
     and_then (opt_str A b ''trade_id'' t i row) (\<lambda>trade_id.
       Inr \<lparr>tr_recv_ts_us = recv_ts_us, tr_event_ts_us = event_ts_us, tr_seq = seq,
            tr_price_micro = price_micro, tr_count_centi = count_centi, tr_taker_side = taker_side,
            tr_taker_book_side = taker_book_side, tr_trade_id = trade_id\<rparr>))))))))))))"

definition decode_gap_row :: "'b arrow \<Rightarrow> 'b \<Rightarrow> nat \<Rightarrow> nat \<Rightarrow> string \<Rightarrow> LoadError + GapRow" where
  "decode_gap_row A b i row t =
     and_then (req_i64 A b ''recv_ts_us'' t i row) (\<lambda>recv_ts_us.
     and_then (opt_i64 A b ''seq'' t i row) (\<lambda>seq.
     and_then (req_str A b ''reason'' t i row) (\<lambda>reason.
     and_then (req_str A b ''detail'' t i row) (\<lambda>detail.
       Inr \<lparr>gr_recv_ts_us = recv_ts_us, gr_seq = seq, gr_reason = reason, gr_detail = detail\<rparr>))))"

section \<open>The row iterator\<close>

record ('b, 't) RowIter =
  ri_table :: string
  ri_reader :: "(string + 'b) list"
  ri_batch :: "'b option"
  ri_idx :: nat
  ri_row :: nat
  ri_dead :: bool
  ri_decode :: "'b \<Rightarrow> nat \<Rightarrow> nat \<Rightarrow> string \<Rightarrow> LoadError + 't"

definition RowIter_open :: "string \<Rightarrow> ('b \<Rightarrow> nat \<Rightarrow> nat \<Rightarrow> string \<Rightarrow> LoadError + 't) \<Rightarrow> (string + 'b) list \<Rightarrow> ('b, 't) RowIter" where
  "RowIter_open table decode reader =
     \<lparr>ri_table = table, ri_reader = reader, ri_batch = None, ri_idx = 0, ri_row = 0, ri_dead = False,
      ri_decode = decode\<rparr>"

text \<open>The loop of \<^verbatim>\<open>next\<close>: recursion on the batches the reader still yields.\<close>

function row_loop :: "'b arrow \<Rightarrow> ('b, 't) RowIter \<Rightarrow> (LoadError + 't) option \<times> ('b, 't) RowIter" where
  "row_loop A it =
     (case ri_batch it of
        Some batch \<Rightarrow>
          if ri_idx it < ar_num_rows A batch
          then (Some (ri_decode it batch (ri_idx it) (ri_row it) (ri_table it)),
                it\<lparr>ri_idx := ri_idx it + 1, ri_row := ri_row it + 1\<rparr>)
          else row_loop A (it\<lparr>ri_batch := None\<rparr>)
      | None \<Rightarrow>
          (case ri_reader it of
             [] \<Rightarrow> (None, it)
           | Inr batch # rest \<Rightarrow> row_loop A (it\<lparr>ri_reader := rest, ri_batch := Some batch, ri_idx := 0\<rparr>)
           | Inl e # rest \<Rightarrow>
               (Some (Inl (ParquetError (ri_table it) (ri_row it) e)),
                it\<lparr>ri_reader := rest, ri_dead := True\<rparr>)))"
  by auto
termination
  by (relation "measure (\<lambda>(A, it). 2 * length (ri_reader it) + (if ri_batch it = None then 0 else 1))") auto

declare row_loop.simps [simp del]

definition RowIter_next :: "'b arrow \<Rightarrow> ('b, 't) RowIter \<Rightarrow> (LoadError + 't) option \<times> ('b, 't) RowIter" where
  "RowIter_next A it = (if ri_dead it then (None, it) else row_loop A it)"

section \<open>Iterators\<close>

text \<open>\<open>next\<close> yields the list \<open>items\<close>: what every consumer of an iterator relies on.\<close>

locale iterator =
  fixes nxt :: "'s \<Rightarrow> 'a option \<times> 's"
    and items :: "'s \<Rightarrow> 'a list"
    and ok :: "'s \<Rightarrow> bool"
  assumes at_end: "ok s \<Longrightarrow> items s = [] \<Longrightarrow> fst (nxt s) = None"
    and at_item: "ok s \<Longrightarrow> items s = x # xs \<Longrightarrow> fst (nxt s) = Some x \<and> items (snd (nxt s)) = xs \<and> ok (snd (nxt s))"
begin

fun pull :: "nat \<Rightarrow> 's \<Rightarrow> 'a list" where
  "pull 0 s = []"
| "pull (Suc n) s = (case nxt s of (None, s') \<Rightarrow> [] | (Some x, s') \<Rightarrow> x # pull n s')"

lemma pull_take: "ok s \<Longrightarrow> pull n s = take n (items s)"
proof (induction n arbitrary: s)
  case (Suc n)
  show ?case
  proof (cases "items s")
    case Nil
    with at_end [OF Suc.prems] show ?thesis by (cases "nxt s") simp
  next
    case (Cons x xs)
    with at_item [OF Suc.prems Cons] Suc.IH [of "snd (nxt s)"] show ?thesis
      by (cases "nxt s") simp
  qed
qed simp

lemma pull_all: "ok s \<Longrightarrow> length (items s) \<le> n \<Longrightarrow> pull n s = items s"
  by (simp add: pull_take)

end

fun reader_items :: "'b arrow \<Rightarrow> ('b \<Rightarrow> nat \<Rightarrow> nat \<Rightarrow> string \<Rightarrow> LoadError + 't) \<Rightarrow> string \<Rightarrow> nat \<Rightarrow> (string + 'b) list \<Rightarrow>
    (LoadError + 't) list" where
  "reader_items A decode t row [] = []"
| "reader_items A decode t row (Inl e # rest) = [Inl (ParquetError t row e)]"
| "reader_items A decode t row (Inr b # rest) =
     map (\<lambda>i. decode b i (row + i) t) [0..<ar_num_rows A b] @
     reader_items A decode t (row + ar_num_rows A b) rest"

definition row_items :: "'b arrow \<Rightarrow> ('b, 't) RowIter \<Rightarrow> (LoadError + 't) list" where
  "row_items A it =
     (if ri_dead it then []
      else case ri_batch it of
             None \<Rightarrow> reader_items A (ri_decode it) (ri_table it) (ri_row it) (ri_reader it)
           | Some b \<Rightarrow>
               map (\<lambda>i. ri_decode it b i (ri_row it + (i - ri_idx it)) (ri_table it)) [ri_idx it..<ar_num_rows A b] @
               reader_items A (ri_decode it) (ri_table it) (ri_row it + (ar_num_rows A b - ri_idx it)) (ri_reader it))"

lemma row_loop_items:
  "\<not> ri_dead it \<Longrightarrow>
     (case row_items A it of
        [] \<Rightarrow> fst (row_loop A it) = None
      | x # xs \<Rightarrow> fst (row_loop A it) = Some x \<and> row_items A (snd (row_loop A it)) = xs)"
proof (induction A it rule: row_loop.induct)
  case (1 A it)
  show ?case
  proof (cases "ri_batch it")
    case None
    show ?thesis
    proof (cases "ri_reader it")
      case Nil
      with None 1 show ?thesis by (simp add: row_items_def row_loop.simps [of A it])
    next
      case (Cons r rest)
      show ?thesis
      proof (cases r)
        case (Inl e)
        with Cons None 1 show ?thesis by (simp add: row_items_def row_loop.simps [of A it])
      next
        case (Inr b)
        let ?it = "it\<lparr>ri_reader := rest, ri_batch := Some b, ri_idx := 0\<rparr>"
        have "row_items A ?it = row_items A it"
          using Inr Cons None by (simp add: row_items_def)
        moreover have "row_loop A it = row_loop A ?it"
          using Inr Cons None by (simp add: row_loop.simps [of A it])
        ultimately show ?thesis
          using "1.IH"(1) [OF None Cons Inr] "1.prems" by (cases "row_items A it") simp_all
      qed
    qed
  next
    case (Some b)
    show ?thesis
    proof (cases "ri_idx it < ar_num_rows A b")
      case True
      have "[ri_idx it..<ar_num_rows A b] = ri_idx it # [Suc (ri_idx it)..<ar_num_rows A b]"
        using True by (rule upt_conv_Cons)
      with Some True "1.prems" show ?thesis
        by (auto simp: row_items_def row_loop.simps [of A it] Suc_diff_Suc intro!: map_cong)
    next
      case False
      have "row_items A (it\<lparr>ri_batch := None\<rparr>) = row_items A it"
        using Some False by (simp add: row_items_def)
      moreover have "row_loop A it = row_loop A (it\<lparr>ri_batch := None\<rparr>)"
        using Some False by (simp add: row_loop.simps [of A it])
      ultimately show ?thesis
        using "1.IH"(2) [OF Some False] "1.prems" by (cases "row_items A it") simp_all
    qed
  qed
qed

interpretation row_reader: iterator "RowIter_next A" "row_items A" "\<lambda>_. True" for A :: "'b arrow"
proof
  fix s :: "('b, 't) RowIter"
  assume "row_items A s = []"
  then show "fst (RowIter_next A s) = None"
    using row_loop_items [of s A] by (auto simp: RowIter_next_def)
next
  fix s :: "('b, 't) RowIter" and x xs
  assume *: "row_items A s = x # xs"
  then have "\<not> ri_dead s" by (auto simp: row_items_def)
  with * row_loop_items [of s A]
  show "fst (RowIter_next A s) = Some x \<and> row_items A (snd (RowIter_next A s)) = xs \<and> True"
    by (simp add: RowIter_next_def)
qed

section \<open>Reading back what was written\<close>

fun take_col :: "nat \<Rightarrow> ArrayRef \<Rightarrow> ArrayRef" where
  "take_col k (Int64Array v) = Int64Array (take k v)"
| "take_col k (BooleanArray v) = BooleanArray (take k v)"
| "take_col k (Float64Array v) = Float64Array (take k v)"
| "take_col k (StringArray v) = StringArray (take k v)"

fun drop_col :: "nat \<Rightarrow> ArrayRef \<Rightarrow> ArrayRef" where
  "drop_col k (Int64Array v) = Int64Array (drop k v)"
| "drop_col k (BooleanArray v) = BooleanArray (drop k v)"
| "drop_col k (Float64Array v) = Float64Array (drop k v)"
| "drop_col k (StringArray v) = StringArray (drop k v)"

definition map_cols :: "(ArrayRef \<Rightarrow> ArrayRef) \<Rightarrow> columns \<Rightarrow> columns" where
  "map_cols f cols = map (\<lambda>(name, a, nullable). (name, f a, nullable)) cols"

text \<open>
  What is relied on of the Parquet files: a table of \<open>n\<close> rows with the columns \<open>cols\<close> is read
  back as consecutive batches of its rows. The batch sizes are left open.
\<close>

fun chunked :: "'b arrow \<Rightarrow> columns \<Rightarrow> nat \<Rightarrow> 'b list \<Rightarrow> bool" where
  "chunked A cols n [] \<longleftrightarrow> n = 0"
| "chunked A cols n (b # bs) \<longleftrightarrow>
     ar_num_rows A b \<le> n \<and> holds A b (ar_num_rows A b) (map_cols (take_col (ar_num_rows A b)) cols) \<and>
     chunked A (map_cols (drop_col (ar_num_rows A b)) cols) (n - ar_num_rows A b) bs"

lemma col_cuts [simp]:
  "take_col k (i64_col v) = i64_col (take k v)" "drop_col k (i64_col v) = i64_col (drop k v)"
  "take_col k (opt_i64_col w) = opt_i64_col (take k w)" "drop_col k (opt_i64_col w) = opt_i64_col (drop k w)"
  "take_col k (bool_col b) = bool_col (take k b)" "drop_col k (bool_col b) = bool_col (drop k b)"
  "take_col k (f64_col f) = f64_col (take k f)" "drop_col k (f64_col f) = f64_col (drop k f)"
  "take_col k (str_col s) = str_col (take k s)" "drop_col k (str_col s) = str_col (drop k s)"
  "take_col k (opt_str_col u) = opt_str_col (take k u)" "drop_col k (opt_str_col u) = opt_str_col (drop k u)"
  by (simp_all add: col_defs take_map drop_map)

lemma be_cuts:
  "map_cols (take_col k) (be_columns (be_of_rows rs)) = be_columns (be_of_rows (take k rs))"
  "map_cols (drop_col k) (be_columns (be_of_rows rs)) = be_columns (be_of_rows (drop k rs))"
  by (simp_all add: map_cols_def be_columns_def be_of_rows_def take_map drop_map)

lemma tt_cuts:
  "map_cols (take_col k) (tt_columns (tt_of_trades rs)) = tt_columns (tt_of_trades (take k rs))"
  "map_cols (drop_col k) (tt_columns (tt_of_trades rs)) = tt_columns (tt_of_trades (drop k rs))"
  by (simp_all add: map_cols_def tt_columns_def tt_of_trades_def take_map drop_map)

lemma gt_cuts:
  "map_cols (take_col k) (gt_columns (gt_of_gaps rs)) = gt_columns (gt_of_gaps (take k rs))"
  "map_cols (drop_col k) (gt_columns (gt_of_gaps rs)) = gt_columns (gt_of_gaps (drop k rs))"
  by (simp_all add: map_cols_def gt_columns_def gt_of_gaps_def take_map drop_map)

text \<open>One argument for the three tables: if a decoder inverts the writer on each row, the reader inverts the table.\<close>

lemma reader_inverts:
  assumes cut: "\<And>k rs. map_cols (take_col k) (cols rs) = cols (take k rs)"
      "\<And>k rs. map_cols (drop_col k) (cols rs) = cols (drop k rs)"
    and dec: "\<And>b rs i row. holds A b (length rs) (cols rs) \<Longrightarrow> i < length rs \<Longrightarrow> good (rs ! i) \<Longrightarrow>
      decode b i row t = Inr (f (rs ! i))"
    and "chunked A (cols rs) (length rs) bs" and "list_all good rs"
  shows "reader_items A decode t row (map Inr bs) = map (\<lambda>r. Inr (f r)) rs"
  using assms(4,5)
proof (induction bs arbitrary: rs row)
  case (Cons b bs)
  let ?k = "ar_num_rows A b"
  have k: "?k \<le> length rs" "holds A b ?k (cols (take ?k rs))"
    "chunked A (cols (drop ?k rs)) (length (drop ?k rs)) bs"
    using Cons.prems(1) by (simp_all add: cut)
  have "decode b i (row + i) t = Inr (f (rs ! i))" if "i < ?k" for i
    using dec [of b "take ?k rs" i "row + i"] k that Cons.prems(2) by (simp add: list_all_length)
  then have "map (\<lambda>i. decode b i (row + i) t) [0..<?k] = map (\<lambda>r. Inr (f r)) (take ?k rs)"
    using k(1) by (intro nth_equalityI) simp_all
  moreover have "list_all good (drop ?k rs)"
    using Cons.prems(2) by (auto simp: list_all_iff dest: in_set_dropD)
  with Cons.IH [OF k(3)]
  have "reader_items A decode t (row + ?k) (map Inr bs) = map (\<lambda>r. Inr (f r)) (drop ?k rs)" by blast
  ultimately show ?case by (simp flip: map_append)
qed simp

definition loaded :: "brow \<Rightarrow> BookEventRow" where
  "loaded r =
     \<lparr>ber_event_idx = br_event_idx r, ber_recv_ts_us = br_recv r, ber_seq = br_seq r,
      ber_is_snapshot = br_is_snapshot r,
      ber_side = map_option (\<lambda>s. if s = ''yes'' then Yes else No) (br_side r),
      ber_price_micro = map_option word_of_int (br_price r), ber_qty_centi = br_qty r\<rparr>"

definition brow_ok :: "brow \<Rightarrow> bool" where
  "brow_ok r \<longleftrightarrow> (br_side r = None \<or> br_side r = Some ''yes'' \<or> br_side r = Some ''no'') \<and>
     (case br_price r of None \<Rightarrow> True | Some p \<Rightarrow> 0 \<le> p \<and> p < 2 ^ 32)"

lemmas access_defs = opt_i64_def req_i64_def req_bool_def opt_str_def req_str_def col_def holds_def

lemma decode_book_written:
  assumes "holds A b (length rs) (be_columns (be_of_rows rs))" and "i < length rs" and "brow_ok (rs ! i)"
  shows "decode_book_row A b i row t = Inr (loaded (rs ! i))"
  using assms by (auto simp: decode_book_row_def access_defs be_columns_def be_of_rows_def col_defs
      loaded_def brow_ok_def to_side_def to_price_def split: option.splits)

definition loaded_trade :: "Envelope \<times> Trade \<Rightarrow> TradeRow" where
  "loaded_trade = (\<lambda>(env, t).
     \<lparr>tr_recv_ts_us = ts_us (e_recv_ts env), tr_event_ts_us = ts_us (t_ts t), tr_seq = seq_i64 (e_seq env),
      tr_price_micro = t_price t, tr_count_centi = t_count t, tr_taker_side = t_taker_side t,
      tr_taker_book_side = t_taker_book_side t, tr_trade_id = t_trade_id t\<rparr>)"

lemma uint_u32_bound: "uint (p :: u32) < 4294967296"
  using uint_bounded [of p] by simp

lemma decode_trade_written:
  assumes "holds A b (length rs) (tt_columns (tt_of_trades rs))" and "i < length rs"
  shows "decode_trade_row A b i row t = Inr (loaded_trade (rs ! i))"
  using assms
  by (cases "rs ! i") (auto simp: decode_trade_row_def access_defs tt_columns_def tt_of_trades_def col_defs
      loaded_trade_def to_side_def to_price_def to_count_def to_book_side_def side_str_def book_side_str_def
      uint_u32_bound split: option.splits Side.splits BookSide.splits)

definition loaded_gap :: "Envelope \<times> GapMarker \<Rightarrow> GapRow" where
  "loaded_gap = (\<lambda>(env, g).
     \<lparr>gr_recv_ts_us = ts_us (e_recv_ts env), gr_seq = seq_i64 (e_seq env),
      gr_reason = gap_reason_str (gm_reason g), gr_detail = gm_detail g\<rparr>)"

lemma decode_gap_written:
  assumes "holds A b (length rs) (gt_columns (gt_of_gaps rs))" and "i < length rs"
  shows "decode_gap_row A b i row t = Inr (loaded_gap (rs ! i))"
  using assms
  by (cases "rs ! i") (auto simp: decode_gap_row_def access_defs gt_columns_def gt_of_gaps_def col_defs loaded_gap_def)

lemma msg_rows_ok: "list_all brow_ok (msg_rows idx env)"
  by (auto simp: msg_rows_def snapshot_rows_def level_row_def boundary_row_def delta_row_def brow_ok_def
      side_str_def uint_u32_bound list_all_iff split: RecordKind.splits Side.splits)

lemma log_rows_ok: "list_all brow_ok (log_rows k envs)"
  by (induction envs arbitrary: k) (simp_all add: msg_rows_ok)

lemma read_book_rows:
  "chunked A (be_columns (be_of_rows rs)) (length rs) bs \<Longrightarrow> list_all brow_ok rs \<Longrightarrow>
     reader_items A (decode_book_row A) t row (map Inr bs) = map (\<lambda>r. Inr (loaded r)) rs"
  by (rule reader_inverts [where cols = "\<lambda>rs. be_columns (be_of_rows rs)" and good = brow_ok])
    (simp_all add: be_cuts decode_book_written)

lemma read_trade_rows:
  "chunked A (tt_columns (tt_of_trades rs)) (length rs) bs \<Longrightarrow>
     reader_items A (decode_trade_row A) t row (map Inr bs) = map (\<lambda>r. Inr (loaded_trade r)) rs"
  by (rule reader_inverts [where cols = "\<lambda>rs. tt_columns (tt_of_trades rs)" and good = "\<lambda>_. True"])
    (simp_all add: tt_cuts decode_trade_written list_all_iff)

lemma read_gap_rows:
  "chunked A (gt_columns (gt_of_gaps rs)) (length rs) bs \<Longrightarrow>
     reader_items A (decode_gap_row A) t row (map Inr bs) = map (\<lambda>r. Inr (loaded_gap r)) rs"
  by (rule reader_inverts [where cols = "\<lambda>rs. gt_columns (gt_of_gaps rs)" and good = "\<lambda>_. True"])
    (simp_all add: gt_cuts decode_gap_written list_all_iff)

end
