(* ===== verification/Merge.thy ===== *)
theory Merge
  imports Load_Reader
begin

text \<open>
  The deterministic merged stream of \<^verbatim>\<open>crates/kdp-load/src/merge.rs\<close> with the events of
  \<^verbatim>\<open>event.rs\<close>. Three lanes (gaps, book events, trades) are merged by a six-part key; a lane holds
  its next event or a pending error. A row source is the list of results it will still yield.

  The trade lane is deduplicated and sorted when the stream is opened. The book lane assembles
  consecutive snapshot rows of one event index into one snapshot. The lemmas show that the
  stream is in time order, that each lane arrives complete and in order when no error is
  reported, that key-ordered lanes never report one, and what deduplication keeps.
\<close>

section \<open>Events\<close>

record Level =
  lv_price :: u32
  lv_qty :: u64

datatype TradeSource = Ws | RestBackfill

datatype ReplayEvent =
    SnapshotEv i64 i64 "Level list" "Level list" bool
  | DeltaEv i64 i64 Side u32 i64
  | TradeEv i64 u32 u64 Side "BookSide option" "string option" TradeSource
  | GapEv i64 string string

fun ev_ts :: "ReplayEvent \<Rightarrow> i64" where
  "ev_ts (SnapshotEv ts event_idx yes no synthetic) = ts"
| "ev_ts (DeltaEv ts event_idx side price delta) = ts"
| "ev_ts (TradeEv ts price cnt taker_side taker_book_side trade_id source) = ts"
| "ev_ts (GapEv ts reason detail) = ts"

section \<open>The merge key\<close>

type_synonym MergeKey = "i64 \<times> nat \<times> i64 \<times> nat \<times> i64 \<times> nat"

definition PRI_GAP :: nat where "PRI_GAP = 0"
definition PRI_BOOK :: nat where "PRI_BOOK = 1"
definition PRI_TRADE :: nat where "PRI_TRADE = 2"

definition I64_MAX :: i64 where "I64_MAX = 2 ^ 63 - 1"

definition seq_part :: "i64 option \<Rightarrow> nat \<times> i64" where
  "seq_part seq = (case seq of Some s \<Rightarrow> (0, s) | None \<Rightarrow> (1, I64_MAX))"

definition trade_effective :: "TradeRow \<Rightarrow> i64 \<times> TradeSource" where
  "trade_effective row =
     (case tr_seq row of Some _ \<Rightarrow> (tr_recv_ts_us row, Ws) | None \<Rightarrow> (tr_event_ts_us row, RestBackfill))"

definition book_key :: "BookEventRow \<Rightarrow> nat \<Rightarrow> MergeKey" where
  "book_key row file_row =
     (let (c, s) = seq_part (ber_seq row)
      in (ber_recv_ts_us row, c, s, PRI_BOOK, ber_event_idx row, file_row))"

definition trade_key :: "TradeRow \<Rightarrow> nat \<Rightarrow> MergeKey" where
  "trade_key row file_row =
     (let (ts, _) = trade_effective row; (c, s) = seq_part (tr_seq row)
      in (ts, c, s, PRI_TRADE, 0, file_row))"

definition gap_key :: "GapRow \<Rightarrow> nat \<Rightarrow> MergeKey" where
  "gap_key row file_row =
     (let (c, s) = seq_part (gr_seq row) in (gr_recv_ts_us row, c, s, PRI_GAP, 0, file_row))"

section \<open>Trade deduplication\<close>

type_synonym groups = "(string, (nat \<times> TradeRow) list) omap"

fun group_trades :: "(nat \<times> TradeRow) list \<Rightarrow> (nat \<times> TradeRow) list \<Rightarrow> groups \<Rightarrow>
    (nat \<times> TradeRow) list \<times> groups" where
  "group_trades [] out groups = (out, groups)"
| "group_trades ((i, row) # rows) out groups =
     (case tr_trade_id row of
        Some tid \<Rightarrow>
          group_trades rows out
            (om_insert tid ((case om_get groups tid of Some g \<Rightarrow> g | None \<Rightarrow> []) @ [(i, row)]) groups)
      | None \<Rightarrow> group_trades rows (out @ [(i, row)]) groups)"

definition collapse :: "string \<Rightarrow> (nat \<times> TradeRow) list \<Rightarrow> (nat \<times> TradeRow) list" where
  "collapse tid copies0 =
     (if length copies0 = 1 then [last copies0]
      else
        let copies = sort_key (\<lambda>(i, r). trade_key r i) copies0;
            pos = opt_or (find (\<lambda>(_, r). tr_seq r \<noteq> None) copies) (get_at copies 0);
            flds = opt_or (find (\<lambda>(_, r). tr_seq r = None) copies) pos
        in case (pos, flds) of
             (Some (file_row, p), Some (_, f)) \<Rightarrow>
               [(file_row,
                 \<lparr>tr_recv_ts_us = tr_recv_ts_us p, tr_event_ts_us = tr_event_ts_us f,
                  tr_seq = tr_seq p, tr_price_micro = tr_price_micro f,
                  tr_count_centi = tr_count_centi f, tr_taker_side = tr_taker_side f,
                  tr_taker_book_side = opt_or (tr_taker_book_side f) (tr_taker_book_side p),
                  tr_trade_id = Some tid\<rparr>)]
           | _ \<Rightarrow> [])"

definition dedup_trades :: "(nat \<times> TradeRow) list \<Rightarrow> (nat \<times> TradeRow) list" where
  "dedup_trades rows =
     (let (out, groups) = group_trades rows [] []
      in out @ concat (map (\<lambda>(tid, copies). collapse tid copies) groups))"

section \<open>Lanes\<close>

record Lane =
  ln_head :: "(MergeKey \<times> ReplayEvent) option"
  ln_err :: "LoadError option"

definition Lane_empty :: Lane where
  "Lane_empty = \<lparr>ln_head = None, ln_err = None\<rparr>"

record EventIter =
  ei_gaps :: "(LoadError + GapRow) list"
  ei_book :: "(LoadError + BookEventRow) list"
  ei_trades :: "(nat \<times> TradeRow) list"
  ei_gap_lane :: Lane
  ei_book_lane :: Lane
  ei_trade_lane :: Lane
  ei_gap_row :: nat
  ei_book_row :: nat
  ei_last_key :: "MergeKey option"

fun enumerate_ok :: "nat \<Rightarrow> (LoadError + 't) list \<Rightarrow> LoadError + (nat \<times> 't) list" where
  "enumerate_ok i [] = Inr []"
| "enumerate_ok i (r # rs) =
     and_then r (\<lambda>row. and_then (enumerate_ok (i + 1) rs) (\<lambda>rows. Inr ((i, row) # rows)))"

definition from_sources :: "(LoadError + GapRow) list \<Rightarrow> (LoadError + BookEventRow) list \<Rightarrow>
    (LoadError + TradeRow) list \<Rightarrow> LoadError + EventIter" where
  "from_sources gaps book trades =
     and_then (enumerate_ok 0 trades) (\<lambda>rows.
       let rows = sort_key (\<lambda>(i, r). trade_key r i) (dedup_trades rows)
       in Inr \<lparr>ei_gaps = gaps, ei_book = book, ei_trades = rows, ei_gap_lane = Lane_empty,
               ei_book_lane = Lane_empty, ei_trade_lane = Lane_empty, ei_gap_row = 0, ei_book_row = 0,
               ei_last_key = None\<rparr>)"

definition idle :: "Lane \<Rightarrow> bool" where
  "idle l \<longleftrightarrow> ln_head l = None \<and> ln_err l = None"

definition gap_event :: "GapRow \<Rightarrow> ReplayEvent" where
  "gap_event row = GapEv (gr_recv_ts_us row) (gr_reason row) (gr_detail row)"

definition fill_gap_lane :: "EventIter \<Rightarrow> EventIter" where
  "fill_gap_lane it =
     (if \<not> idle (ei_gap_lane it) then it
      else case ei_gaps it of
             [] \<Rightarrow> it
           | Inl e # rest \<Rightarrow> it\<lparr>ei_gaps := rest, ei_gap_lane := (ei_gap_lane it)\<lparr>ln_err := Some e\<rparr>\<rparr>
           | Inr row # rest \<Rightarrow>
               it\<lparr>ei_gaps := rest, ei_gap_row := ei_gap_row it + 1,
                  ei_gap_lane := (ei_gap_lane it)\<lparr>ln_head := Some (gap_key row (ei_gap_row it), gap_event row)\<rparr>\<rparr>)"

definition trade_event :: "TradeRow \<Rightarrow> ReplayEvent" where
  "trade_event row =
     (let (ts, source) = trade_effective row
      in TradeEv ts (tr_price_micro row) (tr_count_centi row) (tr_taker_side row) (tr_taker_book_side row)
           (tr_trade_id row) source)"

definition fill_trade_lane :: "EventIter \<Rightarrow> EventIter" where
  "fill_trade_lane it =
     (if \<not> idle (ei_trade_lane it) then it
      else case ei_trades it of
             [] \<Rightarrow> it
           | (file_row, row) # rest \<Rightarrow>
               it\<lparr>ei_trades := rest,
                  ei_trade_lane := (ei_trade_lane it)\<lparr>ln_head := Some (trade_key row file_row, trade_event row)\<rparr>\<rparr>)"

text \<open>A delta row must carry side, price and quantity.\<close>

definition delta_event :: "BookEventRow \<Rightarrow> nat \<Rightarrow> LoadError + ReplayEvent" where
  "delta_event row file_row =
     (case (ber_side row, ber_price_micro row, ber_qty_centi row) of
        (Some side, Some price, Some qty) \<Rightarrow>
          Inr (DeltaEv (ber_recv_ts_us row) (ber_event_idx row) side price qty)
      | _ \<Rightarrow> Inl (MalformedRow ''book_events'' file_row DeltaRowIncomplete))"

definition push_level :: "BookEventRow \<Rightarrow> nat \<Rightarrow> Level list \<times> Level list \<Rightarrow> LoadError + Level list \<times> Level list" where
  "push_level row file_row acc =
     (case (ber_side row, ber_price_micro row, ber_qty_centi row) of
        (Some side, Some price, Some qty) \<Rightarrow>
          if qty < 0 then Inl (MalformedRow ''book_events'' file_row (NegativeSnapshotQty qty))
          else let level = \<lparr>lv_price = price, lv_qty = word_of_int qty\<rparr>
               in Inr (case side of Yes \<Rightarrow> (fst acc @ [level], snd acc) | No \<Rightarrow> (fst acc, snd acc @ [level]))
      | _ \<Rightarrow> Inr acc)"

text \<open>The rows of one snapshot: the levels or an error, the rows left, the next row number.\<close>

fun group_loop :: "i64 \<Rightarrow> (LoadError + BookEventRow) list \<Rightarrow> nat \<Rightarrow> Level list \<times> Level list \<Rightarrow>
    (LoadError + Level list \<times> Level list) \<times> (LoadError + BookEventRow) list \<times> nat" where
  "group_loop idx [] book_row acc = (Inr acc, [], book_row)"
| "group_loop idx (Inl e # rest) book_row acc = (Inl e, rest, book_row)"
| "group_loop idx (Inr row # rest) book_row acc =
     (if ber_is_snapshot row \<and> ber_event_idx row = idx
      then (case push_level row book_row acc of
              Inl e \<Rightarrow> (Inl e, rest, book_row + 1)
            | Inr acc' \<Rightarrow> group_loop idx rest (book_row + 1) acc')
      else (Inr acc, Inr row # rest, book_row))"

text \<open>One book event: a delta row or a whole snapshot.\<close>

definition book_pull :: "BookEventRow \<Rightarrow> (LoadError + BookEventRow) list \<Rightarrow> nat \<Rightarrow>
    (LoadError + MergeKey \<times> ReplayEvent) \<times> (LoadError + BookEventRow) list \<times> nat" where
  "book_pull first rest book_row =
     (let key = book_key first book_row
      in if \<not> ber_is_snapshot first
         then (and_then (delta_event first book_row) (\<lambda>ev. Inr (key, ev)), rest, book_row + 1)
         else case push_level first book_row ([], []) of
                Inl e \<Rightarrow> (Inl e, rest, book_row + 1)
              | Inr acc \<Rightarrow>
                  (case group_loop (ber_event_idx first) rest (book_row + 1) acc of
                     (r, rest', n) \<Rightarrow>
                       (and_then r (\<lambda>(yes, no).
                          Inr (key, SnapshotEv (ber_recv_ts_us first) (ber_event_idx first) yes no False)),
                        rest', n)))"

definition fill_book_lane :: "EventIter \<Rightarrow> EventIter" where
  "fill_book_lane it =
     (if \<not> idle (ei_book_lane it) then it
      else case ei_book it of
             [] \<Rightarrow> it
           | Inl e # rest \<Rightarrow> it\<lparr>ei_book := rest, ei_book_lane := (ei_book_lane it)\<lparr>ln_err := Some e\<rparr>\<rparr>
           | Inr first # rest \<Rightarrow>
               (case book_pull first rest (ei_book_row it) of
                  (r, rest', n) \<Rightarrow>
                    it\<lparr>ei_book := rest', ei_book_row := n,
                       ei_book_lane :=
                         (case r of
                            Inl e \<Rightarrow> (ei_book_lane it)\<lparr>ln_err := Some e\<rparr>
                          | Inr h \<Rightarrow> (ei_book_lane it)\<lparr>ln_head := Some h\<rparr>)\<rparr>))"

section \<open>The merged stream\<close>

datatype lane_id = GapLane | BookLane | TradeLane

fun lane :: "lane_id \<Rightarrow> EventIter \<Rightarrow> Lane" where
  "lane GapLane it = ei_gap_lane it"
| "lane BookLane it = ei_book_lane it"
| "lane TradeLane it = ei_trade_lane it"

fun set_lane :: "lane_id \<Rightarrow> Lane \<Rightarrow> EventIter \<Rightarrow> EventIter" where
  "set_lane GapLane l it = it\<lparr>ei_gap_lane := l\<rparr>"
| "set_lane BookLane l it = it\<lparr>ei_book_lane := l\<rparr>"
| "set_lane TradeLane l it = it\<lparr>ei_trade_lane := l\<rparr>"

definition fill_lanes :: "EventIter \<Rightarrow> EventIter" where
  "fill_lanes it = fill_trade_lane (fill_book_lane (fill_gap_lane it))"

definition lane_order :: "lane_id list" where
  "lane_order = [GapLane, BookLane, TradeLane]"

text \<open>\<^verbatim>\<open>min_by_key\<close>: the first lane of least key among those with a head.\<close>

fun best_lane :: "EventIter \<Rightarrow> lane_id list \<Rightarrow> (lane_id \<times> MergeKey \<times> ReplayEvent) option" where
  "best_lane it [] = None"
| "best_lane it (l # ls) =
     (case (ln_head (lane l it), best_lane it ls) of
        (None, best) \<Rightarrow> best
      | (Some (k, ev), None) \<Rightarrow> Some (l, k, ev)
      | (Some (k, ev), Some (l', k', ev')) \<Rightarrow> if k \<le> k' then Some (l, k, ev) else Some (l', k', ev'))"

definition EventIter_next :: "EventIter \<Rightarrow> (LoadError + ReplayEvent) option \<times> EventIter" where
  "EventIter_next it0 =
     (let it = fill_lanes it0
      in case find (\<lambda>l. ln_err (lane l it) \<noteq> None) lane_order of
           Some l \<Rightarrow>
             (map_option Inl (ln_err (lane l it)), set_lane l ((lane l it)\<lparr>ln_err := None\<rparr>) it)
         | None \<Rightarrow>
             (case best_lane it lane_order of
                None \<Rightarrow> (None, it)
              | Some (l, key, ev) \<Rightarrow>
                  let it1 = set_lane l ((lane l it)\<lparr>ln_head := None\<rparr>) it
                  in case ei_last_key it1 of
                       Some prev \<Rightarrow>
                         if key < prev then (Some (Inl (OrderViolation (fst key) (fst prev))), it1)
                         else (Some (Inr ev), it1\<lparr>ei_last_key := Some key\<rparr>)
                     | None \<Rightarrow> (Some (Inr ev), it1\<lparr>ei_last_key := Some key\<rparr>)))"

section \<open>Termination: the list an iterator yields\<close>

lemma idle_iff: "idle l \<longleftrightarrow> l = Lane_empty"
  by (cases l) (simp add: idle_def Lane_empty_def)

definition lane_load :: "Lane \<Rightarrow> nat" where
  "lane_load l = (case ln_head l of None \<Rightarrow> 0 | Some _ \<Rightarrow> 1) + (case ln_err l of None \<Rightarrow> 0 | Some _ \<Rightarrow> 1)"

lemma lane_load_simps [simp]:
  "lane_load Lane_empty = 0" "lane_load (Lane_empty\<lparr>ln_head := Some h\<rparr>) = 1"
  "lane_load (Lane_empty\<lparr>ln_err := Some e\<rparr>) = 1"
  by (simp_all add: lane_load_def Lane_empty_def)

definition pending :: "EventIter \<Rightarrow> nat" where
  "pending it = length (ei_gaps it) + length (ei_book it) + length (ei_trades it) +
     lane_load (ei_gap_lane it) + lane_load (ei_book_lane it) + lane_load (ei_trade_lane it)"

lemma group_loop_length: "length (fst (snd (group_loop idx rows n acc))) \<le> length rows"
  by (induction idx rows n acc rule: group_loop.induct) (auto split: sum.splits)

lemma book_pull_length: "length (fst (snd (book_pull first rest n))) \<le> length rest"
  using group_loop_length [of "ber_event_idx first" rest "n + 1"]
  by (auto simp: book_pull_def Let_def split: sum.splits prod.splits) (metis fst_conv snd_conv)+

lemma book_pull_shorter: "book_pull first rest n = (r, rest', n') \<Longrightarrow> length rest' < Suc (length rest)"
  using book_pull_length [of first rest n] by simp

text \<open>What filling an idle lane does; a lane that holds something is left alone.\<close>

lemma fill_gap_eq:
  "fill_gap_lane it =
     (if ei_gap_lane it \<noteq> Lane_empty then it
      else case ei_gaps it of
             [] \<Rightarrow> it
           | x # rest \<Rightarrow>
               (case x of
                  Inl e \<Rightarrow> it\<lparr>ei_gaps := rest, ei_gap_lane := Lane_empty\<lparr>ln_err := Some e\<rparr>\<rparr>
                | Inr row \<Rightarrow>
                    it\<lparr>ei_gaps := rest, ei_gap_row := ei_gap_row it + 1,
                       ei_gap_lane := Lane_empty\<lparr>ln_head := Some (gap_key row (ei_gap_row it), gap_event row)\<rparr>\<rparr>))"
  by (auto simp: fill_gap_lane_def idle_iff split: list.split sum.split)

lemma fill_trade_eq:
  "fill_trade_lane it =
     (if ei_trade_lane it \<noteq> Lane_empty then it
      else case ei_trades it of
             [] \<Rightarrow> it
           | x # rest \<Rightarrow>
               it\<lparr>ei_trades := rest,
                  ei_trade_lane := Lane_empty\<lparr>ln_head := Some (trade_key (snd x) (fst x), trade_event (snd x))\<rparr>\<rparr>)"
  by (auto simp: fill_trade_lane_def idle_iff split: list.split)

lemma fill_book_eq:
  "fill_book_lane it =
     (if ei_book_lane it \<noteq> Lane_empty then it
      else case ei_book it of
             [] \<Rightarrow> it
           | x # rest \<Rightarrow>
               (case x of
                  Inl e \<Rightarrow> it\<lparr>ei_book := rest, ei_book_lane := Lane_empty\<lparr>ln_err := Some e\<rparr>\<rparr>
                | Inr first \<Rightarrow>
                    let p = book_pull first rest (ei_book_row it)
                    in it\<lparr>ei_book := fst (snd p), ei_book_row := snd (snd p),
                          ei_book_lane :=
                            (case fst p of
                               Inl e \<Rightarrow> Lane_empty\<lparr>ln_err := Some e\<rparr>
                             | Inr h \<Rightarrow> Lane_empty\<lparr>ln_head := Some h\<rparr>)\<rparr>))"
  by (auto simp: fill_book_lane_def idle_iff Let_def split: list.split sum.split prod.split)

lemma fill_gap_pending: "pending (fill_gap_lane it) \<le> pending it"
  by (auto simp: fill_gap_eq pending_def split: list.split sum.split)

lemma fill_trade_pending: "pending (fill_trade_lane it) \<le> pending it"
  by (auto simp: fill_trade_eq pending_def split: list.split)

lemma fill_book_pending: "pending (fill_book_lane it) \<le> pending it"
proof (cases "ei_book it")
  case (Cons x rest)
  then show ?thesis
    using book_pull_length [of "projr x" rest "ei_book_row it"]
    by (cases x; cases "fst (book_pull (projr x) rest (ei_book_row it))")
      (auto simp: fill_book_eq pending_def Let_def)
qed (simp add: fill_book_eq)

lemma fill_lanes_pending: "pending (fill_lanes it) \<le> pending it"
  unfolding fill_lanes_def
  using fill_gap_pending fill_book_pending fill_trade_pending by (meson order_trans)

lemma best_lane_head: "best_lane it ls = Some (l, k, ev) \<Longrightarrow> l \<in> set ls \<and> ln_head (lane l it) = Some (k, ev)"
  by (induction ls) (auto split: option.splits if_splits)

lemma pending_set_lane:
  "lane_load l' < lane_load (lane l it) \<Longrightarrow> pending (set_lane l l' it) < pending it"
  by (cases l) (simp_all add: pending_def)

lemma set_lane_last [simp]: "ei_last_key (set_lane l x it) = ei_last_key it"
  by (cases l) simp_all

text \<open>The three ways one call ends.\<close>

lemma next_cases:
  obtains (err) l e where "ln_err (lane l (fill_lanes it)) = Some e"
      "EventIter_next it = (Some (Inl e), set_lane l ((lane l (fill_lanes it))\<lparr>ln_err := None\<rparr>) (fill_lanes it))"
  | (exhausted) "\<forall>l. ln_err (lane l (fill_lanes it)) = None" "best_lane (fill_lanes it) lane_order = None"
      "EventIter_next it = (None, fill_lanes it)"
  | (event) l k ev it1 where "\<forall>l. ln_err (lane l (fill_lanes it)) = None"
      "best_lane (fill_lanes it) lane_order = Some (l, k, ev)"
      "it1 = set_lane l ((lane l (fill_lanes it))\<lparr>ln_head := None\<rparr>) (fill_lanes it)"
      "EventIter_next it =
        (case ei_last_key (fill_lanes it) of
           Some p \<Rightarrow> if k < p then (Some (Inl (OrderViolation (fst k) (fst p))), it1)
                     else (Some (Inr ev), it1\<lparr>ei_last_key := Some k\<rparr>)
         | None \<Rightarrow> (Some (Inr ev), it1\<lparr>ei_last_key := Some k\<rparr>))"
proof (cases "find (\<lambda>l. ln_err (lane l (fill_lanes it)) \<noteq> None) lane_order")
  case (Some l)
  then obtain e where "ln_err (lane l (fill_lanes it)) = Some e" by (auto simp: find_Some_iff)
  with Some err [of l e] show ?thesis unfolding EventIter_next_def Let_def by simp
next
  case None
  have all: "\<forall>l. ln_err (lane l (fill_lanes it)) = None"
  proof
    fix l
    have "l \<in> set lane_order" by (cases l) (simp_all add: lane_order_def)
    with None show "ln_err (lane l (fill_lanes it)) = None" unfolding find_None_iff by blast
  qed
  show ?thesis
  proof (cases "best_lane (fill_lanes it) lane_order")
    case best: None
    with None all exhausted show ?thesis unfolding EventIter_next_def Let_def by simp
  next
    case best: (Some x)
    obtain l k ev where "x = (l, k, ev)" by (cases x)
    with None all best event [of l k ev] show ?thesis unfolding EventIter_next_def Let_def by simp
  qed
qed

lemma next_pending:
  assumes "EventIter_next it = (Some x, it')"
  shows "pending it' < pending it"
proof -
  have "pending it' < pending (fill_lanes it)"
  proof (cases it rule: next_cases)
    case (err l e)
    then have "it' = set_lane l ((lane l (fill_lanes it))\<lparr>ln_err := None\<rparr>) (fill_lanes it)"
      using assms by simp
    with err(1) show ?thesis by (auto intro!: pending_set_lane simp: lane_load_def)
  next
    case exhausted
    with assms show ?thesis by simp
  next
    case (event l k ev it1)
    have "pending it' = pending it1"
      using assms event(4) by (auto simp: pending_def split: option.splits if_splits)
    moreover have "pending it1 < pending (fill_lanes it)"
      unfolding event(3) using best_lane_head [OF event(2)]
      by (intro pending_set_lane) (simp add: lane_load_def)
    ultimately show ?thesis by simp
  qed
  with fill_lanes_pending [of it] show ?thesis by simp
qed

function event_items :: "EventIter \<Rightarrow> (LoadError + ReplayEvent) list" where
  "event_items it =
     (case EventIter_next it of (None, it') \<Rightarrow> [] | (Some x, it') \<Rightarrow> x # event_items it')"
  by auto
termination
  by (relation "measure pending") (auto dest!: next_pending [OF sym])

declare event_items.simps [simp del]

interpretation merged: iterator EventIter_next event_items "\<lambda>_. True"
proof
  fix s
  assume "event_items s = []"
  then show "fst (EventIter_next s) = None"
    by (cases "EventIter_next s") (auto simp: event_items.simps [of s] split: option.splits)
next
  fix s x xs
  assume "event_items s = x # xs"
  then show "fst (EventIter_next s) = Some x \<and> event_items (snd (EventIter_next s)) = xs \<and> True"
    by (cases "EventIter_next s") (auto simp: event_items.simps [of s] split: option.splits)
qed

section \<open>The abstract merge\<close>

text \<open>
  The specification works on the whole streams of the lanes: at each step it reports an error
  that stands first in a lane, or takes the event of least key and either emits it or, when its
  key is below the last one emitted, reports the violation.
\<close>

type_synonym stream = "(LoadError + MergeKey \<times> ReplayEvent) list"

type_synonym mstate = "(lane_id \<Rightarrow> stream) \<times> MergeKey option"

definition bounded :: "MergeKey \<Rightarrow> stream \<Rightarrow> bool" where
  "bounded k xs \<longleftrightarrow> (case xs of [] \<Rightarrow> True | Inl e # _ \<Rightarrow> False | Inr (k', ev) # _ \<Rightarrow> k \<le> k')"

inductive merge_step :: "mstate \<Rightarrow> LoadError + ReplayEvent \<Rightarrow> mstate \<Rightarrow> bool" where
  lane_error: "S l = Inl e # xs \<Longrightarrow> merge_step (S, prev) (Inl e) (S(l := xs), prev)"
| violation: "S l = Inr (k, ev) # xs \<Longrightarrow> \<forall>l'. bounded k (S l') \<Longrightarrow> k < p \<Longrightarrow>
    merge_step (S, Some p) (Inl (OrderViolation (fst k) (fst p))) (S(l := xs), Some p)"
| emit: "S l = Inr (k, ev) # xs \<Longrightarrow> \<forall>l'. bounded k (S l') \<Longrightarrow>
    (case prev of None \<Rightarrow> True | Some p \<Rightarrow> p \<le> k) \<Longrightarrow> merge_step (S, prev) (Inr ev) (S(l := xs), Some k)"

inductive merge_run :: "mstate \<Rightarrow> (LoadError + ReplayEvent) list \<Rightarrow> bool" where
  finished: "\<forall>l. S l = [] \<Longrightarrow> merge_run (S, prev) []"
| step: "merge_step s x s' \<Longrightarrow> merge_run s' xs \<Longrightarrow> merge_run s (x # xs)"

inductive_cases merge_stepE [elim]: "merge_step s x s'"

text \<open>The stream each lane still holds.\<close>

fun gap_stream :: "nat \<Rightarrow> (LoadError + GapRow) list \<Rightarrow> stream" where
  "gap_stream n [] = []"
| "gap_stream n (Inl e # rest) = Inl e # gap_stream n rest"
| "gap_stream n (Inr row # rest) = Inr (gap_key row n, gap_event row) # gap_stream (n + 1) rest"

definition trade_stream :: "(nat \<times> TradeRow) list \<Rightarrow> stream" where
  "trade_stream rows = map (\<lambda>(i, row). Inr (trade_key row i, trade_event row)) rows"

function book_stream :: "nat \<Rightarrow> (LoadError + BookEventRow) list \<Rightarrow> stream" where
  "book_stream n [] = []"
| "book_stream n (Inl e # rest) = Inl e # book_stream n rest"
| "book_stream n (Inr first # rest) =
     (case book_pull first rest n of (r, rest', n') \<Rightarrow> r # book_stream n' rest')"
  by pat_completeness auto
termination
  by (relation "measure (\<lambda>(n, rows). length rows)") (auto dest!: book_pull_shorter [OF sym])

definition queued :: "Lane \<Rightarrow> stream" where
  "queued l = (case ln_err l of Some e \<Rightarrow> [Inl e] | None \<Rightarrow> []) @ (case ln_head l of Some h \<Rightarrow> [Inr h] | None \<Rightarrow> [])"

fun backlog :: "lane_id \<Rightarrow> EventIter \<Rightarrow> stream" where
  "backlog GapLane it = gap_stream (ei_gap_row it) (ei_gaps it)"
| "backlog BookLane it = book_stream (ei_book_row it) (ei_book it)"
| "backlog TradeLane it = trade_stream (ei_trades it)"

definition stream_of :: "EventIter \<Rightarrow> lane_id \<Rightarrow> stream" where
  "stream_of it l = queued (lane l it) @ backlog l it"

definition mabs :: "EventIter \<Rightarrow> mstate" where
  "mabs it = (stream_of it, ei_last_key it)"

lemma queued_simps [simp]:
  "queued Lane_empty = []" "queued (Lane_empty\<lparr>ln_head := Some h\<rparr>) = [Inr h]"
  "queued (Lane_empty\<lparr>ln_err := Some e\<rparr>) = [Inl e]"
  by (simp_all add: queued_def Lane_empty_def)

lemma fill_gap_stream: "stream_of (fill_gap_lane it) l = stream_of it l"
  by (cases l) (auto simp: stream_of_def fill_gap_eq split: list.split sum.split)

lemma fill_trade_stream: "stream_of (fill_trade_lane it) l = stream_of it l"
  by (cases l) (auto simp: stream_of_def fill_trade_eq trade_stream_def split: list.split)

lemma fill_book_stream: "stream_of (fill_book_lane it) l = stream_of it l"
proof (cases "ei_book it")
  case (Cons x rest)
  then show ?thesis
    by (cases l; cases x; cases "fst (book_pull (projr x) rest (ei_book_row it))")
      (auto simp: stream_of_def fill_book_eq Let_def split: prod.split)
qed (cases l; simp add: fill_book_eq stream_of_def)

lemma fill_last [simp]: "ei_last_key (fill_lanes it) = ei_last_key it"
proof -
  have "ei_last_key (fill_gap_lane it) = ei_last_key it" for it
    by (simp add: fill_gap_eq split: list.split sum.split)
  moreover have "ei_last_key (fill_trade_lane it) = ei_last_key it" for it
    by (simp add: fill_trade_eq split: list.split)
  moreover have "ei_last_key (fill_book_lane it) = ei_last_key it" for it
    by (simp add: fill_book_eq Let_def split: list.split sum.split)
  ultimately show ?thesis by (simp add: fill_lanes_def)
qed

lemma fill_stream: "stream_of (fill_lanes it) = stream_of it"
  by (rule ext) (simp add: fill_lanes_def fill_gap_stream fill_trade_stream fill_book_stream)

text \<open>After filling, an idle lane has nothing left; a lane never holds an event and an error.\<close>

definition lanes_ok :: "EventIter \<Rightarrow> bool" where
  "lanes_ok it \<longleftrightarrow> (\<forall>l. ln_head (lane l it) = None \<or> ln_err (lane l it) = None)"

lemma lane_neq [simp]:
  "Lane_empty\<lparr>ln_err := Some e\<rparr> \<noteq> Lane_empty" "Lane_empty\<lparr>ln_head := Some h\<rparr> \<noteq> Lane_empty"
  by (simp_all add: Lane_empty_def)

lemma fill_gap_other [simp]:
  "ei_book (fill_gap_lane it) = ei_book it" "ei_book_row (fill_gap_lane it) = ei_book_row it"
  "ei_book_lane (fill_gap_lane it) = ei_book_lane it" "ei_trades (fill_gap_lane it) = ei_trades it"
  "ei_trade_lane (fill_gap_lane it) = ei_trade_lane it"
  by (simp_all add: fill_gap_eq split: list.split sum.split)

lemma fill_trade_other [simp]:
  "ei_book (fill_trade_lane it) = ei_book it" "ei_book_row (fill_trade_lane it) = ei_book_row it"
  "ei_book_lane (fill_trade_lane it) = ei_book_lane it" "ei_gaps (fill_trade_lane it) = ei_gaps it"
  "ei_gap_row (fill_trade_lane it) = ei_gap_row it" "ei_gap_lane (fill_trade_lane it) = ei_gap_lane it"
  by (simp_all add: fill_trade_eq split: list.split)

lemma fill_book_other [simp]:
  "ei_gaps (fill_book_lane it) = ei_gaps it" "ei_gap_row (fill_book_lane it) = ei_gap_row it"
  "ei_gap_lane (fill_book_lane it) = ei_gap_lane it" "ei_trades (fill_book_lane it) = ei_trades it"
  "ei_trade_lane (fill_book_lane it) = ei_trade_lane it"
  by (simp_all add: fill_book_eq Let_def split: list.split sum.split)

lemma filled_idle: "lane l (fill_lanes it) = Lane_empty \<Longrightarrow> backlog l (fill_lanes it) = []"
proof (cases l)
  case GapLane
  assume "lane l (fill_lanes it) = Lane_empty"
  with GapLane show ?thesis
    by (auto simp: fill_lanes_def fill_gap_eq split: list.splits sum.splits if_splits)
next
  case BookLane
  assume "lane l (fill_lanes it) = Lane_empty"
  with BookLane show ?thesis
    by (auto simp: fill_lanes_def fill_book_eq Let_def split: list.splits sum.splits if_splits)
next
  case TradeLane
  assume "lane l (fill_lanes it) = Lane_empty"
  with TradeLane show ?thesis
    by (auto simp: fill_lanes_def fill_trade_eq trade_stream_def split: list.splits if_splits)
qed

definition lane_ok :: "Lane \<Rightarrow> bool" where
  "lane_ok x \<longleftrightarrow> ln_head x = None \<or> ln_err x = None"

lemma lane_ok_simps [simp]:
  "lane_ok Lane_empty" "lane_ok (Lane_empty\<lparr>ln_err := Some e\<rparr>)" "lane_ok (Lane_empty\<lparr>ln_head := Some h\<rparr>)"
  by (simp_all add: lane_ok_def Lane_empty_def)

lemma lanes_ok_alt: "lanes_ok it \<longleftrightarrow> (\<forall>l. lane_ok (lane l it))"
  by (simp add: lanes_ok_def lane_ok_def)

lemma fill_lane_ok:
  assumes "lanes_ok it"
  shows "lane_ok (lane l (fill_lanes it))"
proof (cases l)
  case GapLane
  have "lane_ok (ei_gap_lane it)" using assms lane.simps(1) unfolding lanes_ok_alt by metis
  with GapLane show ?thesis by (simp add: fill_lanes_def fill_gap_eq split: list.split sum.split)
next
  case BookLane
  have "lane_ok (ei_book_lane it)" using assms lane.simps(2) unfolding lanes_ok_alt by metis
  with BookLane show ?thesis by (simp add: fill_lanes_def fill_book_eq Let_def split: list.split sum.split)
next
  case TradeLane
  have "lane_ok (ei_trade_lane it)" using assms lane.simps(3) unfolding lanes_ok_alt by metis
  with TradeLane show ?thesis by (simp add: fill_lanes_def fill_trade_eq split: list.split)
qed

lemma lane_set_lane: "lane l' (set_lane l x it) = (if l' = l then x else lane l' it)"
  by (cases l; cases l') simp_all

lemma backlog_set_lane [simp]: "backlog l' (set_lane l x it) = backlog l' it"
  by (cases l; cases l') simp_all

lemma stream_set_lane: "stream_of (set_lane l x it) = (stream_of it)(l := queued x @ backlog l it)"
  by (rule ext) (simp add: stream_of_def lane_set_lane)

lemma stream_last [simp]: "stream_of (it\<lparr>ei_last_key := k\<rparr>) = stream_of it"
  "lane l (it\<lparr>ei_last_key := k\<rparr>) = lane l it"
proof -
  show ln: "lane l (it\<lparr>ei_last_key := k\<rparr>) = lane l it" for l by (cases l) simp_all
  have "backlog l (it\<lparr>ei_last_key := k\<rparr>) = backlog l it" for l by (cases l) simp_all
  with ln show "stream_of (it\<lparr>ei_last_key := k\<rparr>) = stream_of it" by (intro ext) (simp add: stream_of_def)
qed

lemma best_lane_min:
  "best_lane it ls = Some (l, k, ev) \<Longrightarrow> l' \<in> set ls \<Longrightarrow> ln_head (lane l' it) = Some (k', ev') \<Longrightarrow> k \<le> k'"
proof (induction ls arbitrary: l k ev)
  case (Cons x ls)
  show ?case
  proof (cases "best_lane it ls")
    case None
    have "ln_head (lane y it) = None" if "y \<in> set ls" for y
      using None that by (induction ls) (auto split: option.splits if_splits)
    with None Cons.prems show ?thesis by (auto split: option.splits)
  next
    case (Some b)
    obtain l2 k2 ev2 where b: "b = (l2, k2, ev2)" by (cases b)
    show ?thesis
    proof (cases "l' = x")
      case True
      with Some b Cons.prems show ?thesis by (auto split: if_splits)
    next
      case False
      with Cons.prems(2) have "k2 \<le> k'" using Cons.IH [OF Some [unfolded b]] Cons.prems(3) by simp
      with Some b Cons.prems(1) show ?thesis
        by (cases "ln_head (lane x it)") (auto split: if_splits)
    qed
  qed
qed simp

lemma best_lane_None: "best_lane it ls = None \<Longrightarrow> l \<in> set ls \<Longrightarrow> ln_head (lane l it) = None"
  by (induction ls) (auto split: option.splits if_splits)

lemma in_lane_order: "l \<in> set lane_order"
  by (cases l) (simp_all add: lane_order_def)

lemma head_stream:
  assumes "ln_err (lane l (fill_lanes it)) = None"
  shows "stream_of it l =
    (case ln_head (lane l (fill_lanes it)) of Some h \<Rightarrow> Inr h # backlog l (fill_lanes it) | None \<Rightarrow> [])"
proof (cases "ln_head (lane l (fill_lanes it))")
  case None
  then have "lane l (fill_lanes it) = Lane_empty"
    using assms by (cases "lane l (fill_lanes it)") (simp add: Lane_empty_def)
  with None filled_idle [of l it] show ?thesis
    unfolding fill_stream [of it, symmetric] by (simp add: stream_of_def)
next
  case (Some h)
  with assms show ?thesis
    unfolding fill_stream [of it, symmetric] by (simp add: stream_of_def queued_def)
qed

text \<open>One call of the iterator is one step of the specification.\<close>

lemma next_refines:
  assumes "lanes_ok it" and "EventIter_next it = (Some x, it')"
  shows "merge_step (mabs it) x (mabs it') \<and> lanes_ok it'"
proof (cases it rule: next_cases)
  case (err l e)
  let ?f = "fill_lanes it"
  have it': "it' = set_lane l ((lane l ?f)\<lparr>ln_err := None\<rparr>) ?f" and x: "x = Inl e"
    using assms(2) err(2) by simp_all
  have hd: "ln_head (lane l ?f) = None" using fill_lane_ok [OF assms(1), of l] err(1) by (simp add: lane_ok_def)
  then have "stream_of it l = Inl e # backlog l ?f"
    using err(1) unfolding fill_stream [of it, symmetric] by (simp add: stream_of_def queued_def)
  then have "merge_step (mabs it) x (mabs it')"
    unfolding mabs_def it' x stream_set_lane fill_stream using hd
    by (auto simp: queued_def intro!: lane_error)
  moreover have "lanes_ok it'"
    unfolding lanes_ok_alt it' lane_set_lane using fill_lane_ok [OF assms(1)] hd by (simp add: lane_ok_def)
  ultimately show ?thesis by blast
next
  case exhausted
  with assms(2) show ?thesis by simp
next
  case (event l k ev it1)
  let ?f = "fill_lanes it"
  have hd: "ln_head (lane l ?f) = Some (k, ev)" using best_lane_head [OF event(2)] by blast
  have s: "stream_of it l = Inr (k, ev) # backlog l ?f" using head_stream [of l it] event(1) hd by simp
  have b: "\<forall>l'. bounded k (stream_of it l')"
  proof
    fix l'
    show "bounded k (stream_of it l')"
      using best_lane_min [OF event(2) in_lane_order [of l']] head_stream [of l' it] event(1)
      by (cases "ln_head (lane l' ?f)") (auto simp: bounded_def)
  qed
  have it1: "stream_of it1 = (stream_of it)(l := backlog l ?f)"
    unfolding event(3) stream_set_lane fill_stream using event(1) by (simp add: queued_def)
  have ok: "lane_ok (lane l' it1)" for l'
    unfolding event(3) lane_set_lane using fill_lane_ok [OF assms(1)] by (simp add: lane_ok_def)
  have last1: "ei_last_key it1 = ei_last_key it" unfolding event(3) by simp
  show ?thesis
  proof (cases "\<exists>p. ei_last_key it = Some p \<and> k < p")
    case True
    then obtain p where p: "ei_last_key it = Some p" "k < p" by blast
    with event(4) assms(2) have "x = Inl (OrderViolation (fst k) (fst p))" "it' = it1" by simp_all
    then show ?thesis
      using violation [of "stream_of it" l k ev "backlog l ?f" p, OF s b p(2)] p(1) it1 last1 ok
      by (simp add: mabs_def lanes_ok_alt)
  next
    case False
    then have "x = Inr ev" "it' = it1\<lparr>ei_last_key := Some k\<rparr>"
      using event(4) assms(2) by (auto split: option.splits if_splits)
    moreover have "case ei_last_key it of None \<Rightarrow> True | Some p \<Rightarrow> p \<le> k"
      using False by (auto split: option.split)
    ultimately show ?thesis
      using emit [of "stream_of it" l k ev "backlog l ?f" "ei_last_key it", OF s b] it1 ok
      by (simp add: mabs_def lanes_ok_alt)
  qed
qed

lemma next_exhausted:
  assumes "EventIter_next it = (None, it')"
  shows "stream_of it l = []"
proof (cases it rule: next_cases)
  case exhausted
  with best_lane_None [OF exhausted(2) in_lane_order [of l]] head_stream [of l it] show ?thesis by simp
qed (use assms in \<open>auto split: option.splits if_splits\<close>)

text \<open>So the iterator implements the specification, from any state.\<close>

lemma items_refine: "lanes_ok it \<Longrightarrow> merge_run (mabs it) (event_items it)"
proof (induction it rule: event_items.induct)
  case (1 it)
  show ?case
  proof (cases "EventIter_next it")
    case (Pair r it')
    show ?thesis
    proof (cases r)
      case None
      with Pair next_exhausted [of it it'] show ?thesis
        by (simp add: event_items.simps [of it] mabs_def finished)
    next
      case (Some x)
      with Pair next_refines [OF "1.prems", of x it'] have "merge_step (mabs it) x (mabs it')" "lanes_ok it'"
        by simp_all
      with 1 Pair Some show ?thesis by (simp add: event_items.simps [of it] step)
    qed
  qed
qed

section \<open>Properties of the specification\<close>

definition rights :: "('a + 'b) list \<Rightarrow> 'b list" where
  "rights xs = concat (map (\<lambda>x. case x of Inl _ \<Rightarrow> [] | Inr y \<Rightarrow> [y]) xs)"

lemma rights_simps [simp]:
  "rights [] = []" "rights (Inl e # xs) = rights xs" "rights (Inr y # xs) = y # rights xs"
  "rights (xs @ ys) = rights xs @ rights ys" "rights (map (\<lambda>z. Inr (f z)) zs) = map f zs"
  by (simp_all add: rights_def o_def concat_map_singleton)

definition no_errors :: "('a + 'b) list \<Rightarrow> bool" where
  "no_errors xs \<longleftrightarrow> list_all (\<lambda>x. \<not> isl x) xs"

lemma no_errors_simps [simp]:
  "no_errors []" "no_errors (Inr y # xs) \<longleftrightarrow> no_errors xs" "\<not> no_errors (Inl e # xs)"
  "no_errors (xs @ ys) \<longleftrightarrow> no_errors xs \<and> no_errors ys"
  by (simp_all add: no_errors_def)

fun ev_lane :: "ReplayEvent \<Rightarrow> lane_id" where
  "ev_lane (SnapshotEv ts event_idx yes no synthetic) = BookLane"
| "ev_lane (DeltaEv ts event_idx side price delta) = BookLane"
| "ev_lane (TradeEv ts price cnt taker_side taker_book_side trade_id source) = TradeLane"
| "ev_lane (GapEv ts reason detail) = GapLane"

definition stream_wf :: "lane_id \<Rightarrow> stream \<Rightarrow> bool" where
  "stream_wf l xs \<longleftrightarrow> list_all (\<lambda>(k, ev). fst k = ev_ts ev \<and> ev_lane ev = l) (rights xs)"

lemma key_ts_mono: "(p :: MergeKey) \<le> k \<Longrightarrow> fst p \<le> fst k"
  by (auto simp: less_eq_prod_def)

text \<open>Every step takes the first element of one lane.\<close>

lemma step_takes:
  "merge_step s x s' \<Longrightarrow> \<exists>l y. fst s l = y # fst s' l \<and> (\<forall>l'. l' \<noteq> l \<longrightarrow> fst s' l' = fst s l')"
proof (induction rule: merge_step.induct)
  case (lane_error S l e xs prev)
  then show ?case by (intro exI [of _ l] exI [of _ "Inl e"]) simp
next
  case (violation S l k ev xs p)
  then show ?case by (intro exI [of _ l] exI [of _ "Inr (k, ev)"]) simp
next
  case (emit S l k ev xs prev)
  then show ?case by (intro exI [of _ l] exI [of _ "Inr (k, ev)"]) simp
qed

lemma step_suffix:
  assumes "merge_step s x s'"
  shows "\<exists>ys. fst s l = ys @ fst s' l"
proof -
  from step_takes [OF assms] obtain l0 y where "fst s l0 = y # fst s' l0"
    "\<forall>l'. l' \<noteq> l0 \<longrightarrow> fst s' l' = fst s l'" by blast
  then show ?thesis by (cases "l = l0") (metis append_Cons append_Nil, metis append_Nil)
qed

lemma step_wf:
  assumes "merge_step s x s'" and "\<forall>l. stream_wf l (fst s l)"
  shows "stream_wf l (fst s' l)"
proof -
  from step_suffix [OF assms(1), of l] obtain ys where "fst s l = ys @ fst s' l" by blast
  with assms(2) [rule_format, of l] show ?thesis by (simp add: stream_wf_def)
qed

text \<open>Time order: the emitted events never go back in time.\<close>

definition not_before :: "MergeKey option \<Rightarrow> ReplayEvent list \<Rightarrow> bool" where
  "not_before prev evs \<longleftrightarrow> (case prev of None \<Rightarrow> True | Some p \<Rightarrow> list_all (\<lambda>ev. fst p \<le> ev_ts ev) evs)"

lemma run_sorted:
  "merge_run s out \<Longrightarrow> \<forall>l. stream_wf l (fst s l) \<Longrightarrow>
     sorted (map ev_ts (rights out)) \<and> not_before (snd s) (rights out)"
proof (induction rule: merge_run.induct)
  case (finished S prev)
  then show ?case by (simp add: not_before_def split: option.split)
next
  case (step s x s' xs)
  have IH: "sorted (map ev_ts (rights xs))" "not_before (snd s') (rights xs)"
    using step.IH step_wf [OF step.hyps(1) step.prems] by blast+
  from step.hyps(1) show ?case
  proof cases
    case (lane_error S l e ys prev)
    with IH show ?thesis by simp
  next
    case (violation S l k ev ys p)
    with IH show ?thesis by simp
  next
    case (emit S l k ev ys prev)
    have "ev_ts ev = fst k" using step.prems emit by (auto simp: stream_wf_def dest!: spec [of _ l])
    moreover have "list_all (\<lambda>ev. fst k \<le> ev_ts ev) (rights xs)"
      using IH(2) emit by (simp add: not_before_def)
    moreover have "fst p \<le> fst k" if "prev = Some p" for p
      using emit that by (simp add: key_ts_mono)
    ultimately show ?thesis
      using IH(1) emit
      by (cases prev) (auto simp: not_before_def list_all_iff intro: order_trans)
  qed
qed

text \<open>Completeness: without an error in the output, each lane arrives whole and in order.\<close>

lemma run_complete:
  "merge_run s out \<Longrightarrow> \<forall>l. stream_wf l (fst s l) \<Longrightarrow> no_errors out \<Longrightarrow>
     no_errors (fst s l) \<and> filter (\<lambda>ev. ev_lane ev = l) (rights out) = map snd (rights (fst s l))"
proof (induction rule: merge_run.induct)
  case (finished S prev)
  then show ?case by simp
next
  case (step s x s' xs)
  from step.hyps(1) show ?case
  proof cases
    case (emit S l0 k ev ys prev)
    have lane: "ev_lane ev = l0" using step.prems(1) emit by (auto simp: stream_wf_def dest!: spec [of _ l0])
    have "\<forall>l. stream_wf l (fst s' l)" using step_wf [OF step.hyps(1) step.prems(1)] by blast
    with step.IH step.prems(2) emit have
      "no_errors (fst s' l) \<and> filter (\<lambda>ev. ev_lane ev = l) (rights xs) = map snd (rights (fst s' l))"
      by simp
    with emit lane show ?thesis by (cases "l = l0") simp_all
  qed (use step.prems in simp_all)
qed

text \<open>Lanes that are error free and in key order give a stream without errors.\<close>

definition key_ordered :: "MergeKey option \<Rightarrow> stream \<Rightarrow> bool" where
  "key_ordered prev xs \<longleftrightarrow> no_errors xs \<and> sorted (map fst (rights xs)) \<and>
     (case prev of None \<Rightarrow> True | Some p \<Rightarrow> list_all (\<lambda>x. p \<le> fst x) (rights xs))"

lemma key_ordered_bounded:
  assumes "key_ordered prev xs" and "bounded k xs"
  shows "key_ordered (Some k) xs"
proof (cases xs)
  case (Cons x ys)
  then obtain k' ev where "x = Inr (k', ev)" "k \<le> k'"
    using assms by (cases x) (auto simp: bounded_def key_ordered_def)
  with assms(1) Cons show ?thesis
    by (simp add: key_ordered_def list_all_iff) (meson image_eqI order_trans)
qed (simp add: key_ordered_def)

lemma run_no_errors:
  "merge_run s out \<Longrightarrow> \<forall>l. key_ordered (snd s) (fst s l) \<Longrightarrow> no_errors out"
proof (induction rule: merge_run.induct)
  case (finished S prev)
  then show ?case by simp
next
  case (step s x s' xs)
  from step.hyps(1) show ?case
  proof cases
    case (lane_error S l e ys prev)
    with step.prems show ?thesis by (auto simp: key_ordered_def dest!: spec [of _ l])
  next
    case (violation S l k ev ys p)
    then have "p \<le> k" using step.prems by (auto simp: key_ordered_def dest!: spec [of _ l])
    with violation show ?thesis by simp
  next
    case (emit S l k ev ys prev)
    have "key_ordered (Some k) (fst s' l')" for l'
    proof -
      have "key_ordered (Some k) (S l')"
        using step.prems emit by (intro key_ordered_bounded) auto
      with emit show ?thesis by (auto simp: key_ordered_def)
    qed
    with step.IH emit show ?thesis by simp
  qed
qed

section \<open>The opened stream\<close>

lemma gap_stream_wf: "stream_wf GapLane (gap_stream n rows)"
  by (induction n rows rule: gap_stream.induct)
    (simp_all add: stream_wf_def gap_key_def gap_event_def split: prod.split)

lemma trade_stream_wf: "stream_wf TradeLane (trade_stream rows)"
  by (induction rows)
    (auto simp: stream_wf_def trade_stream_def trade_key_def trade_event_def trade_effective_def Let_def
      split: prod.split option.split)

lemma book_pull_wf:
  "fst (book_pull first rest n) = Inr (k, ev) \<Longrightarrow> fst k = ev_ts ev \<and> ev_lane ev = BookLane"
  by (auto simp: book_pull_def Let_def book_key_def delta_event_def and_then_Inr_iff
      split: if_splits sum.splits prod.splits option.splits)

lemma book_stream_wf: "stream_wf BookLane (book_stream n rows)"
proof (induction n rows rule: book_stream.induct)
  case (3 n first rest)
  obtain r rest' n' where p: "book_pull first rest n = (r, rest', n')" by (cases "book_pull first rest n")
  with "3.IH" [of r "(rest', n')" rest' n'] have "stream_wf BookLane (book_stream n' rest')" by simp
  with p book_pull_wf [of first rest n] show ?case by (cases r) (auto simp: stream_wf_def)
qed (simp_all add: stream_wf_def)

lemma open_state:
  assumes "from_sources gaps book trades = Inr it"
  shows "\<exists>rows. enumerate_ok 0 trades = Inr rows \<and>
    stream_of it GapLane = gap_stream 0 gaps \<and> stream_of it BookLane = book_stream 0 book \<and>
    stream_of it TradeLane = trade_stream (sort_key (\<lambda>(i, r). trade_key r i) (dedup_trades rows)) \<and>
    lanes_ok it \<and> ei_last_key it = None"
proof -
  from assms obtain rows where rows: "enumerate_ok 0 trades = Inr rows"
    and it: "it = \<lparr>ei_gaps = gaps, ei_book = book, ei_trades = sort_key (\<lambda>(i, r). trade_key r i) (dedup_trades rows),
      ei_gap_lane = Lane_empty, ei_book_lane = Lane_empty, ei_trade_lane = Lane_empty, ei_gap_row = 0,
      ei_book_row = 0, ei_last_key = None\<rparr>"
    by (auto simp: from_sources_def and_then_Inr_iff Let_def)
  have "lane_ok (lane l it)" for l by (cases l) (simp_all add: it)
  then show ?thesis using rows by (simp add: it stream_of_def lanes_ok_alt)
qed

lemma open_run:
  assumes "from_sources gaps book trades = Inr it"
  shows "merge_run (stream_of it, None) (event_items it)" and "\<forall>l. stream_wf l (stream_of it l)"
proof -
  from open_state [OF assms] obtain rows where o: "stream_of it GapLane = gap_stream 0 gaps"
    "stream_of it BookLane = book_stream 0 book"
    "stream_of it TradeLane = trade_stream (sort_key (\<lambda>(i, r). trade_key r i) (dedup_trades rows))"
    "lanes_ok it" "ei_last_key it = None" by blast
  show "merge_run (stream_of it, None) (event_items it)"
    using items_refine [OF o(4)] o(5) by (simp add: mabs_def)
  show "\<forall>l. stream_wf l (stream_of it l)"
  proof
    fix l
    show "stream_wf l (stream_of it l)"
      by (cases l) (simp_all add: o(1-3) gap_stream_wf book_stream_wf trade_stream_wf)
  qed
qed

lemma trade_lane_ordered: "key_ordered None (trade_stream (sort_key (\<lambda>(i, r). trade_key r i) rows))"
proof -
  have "rights (trade_stream rs) = map (\<lambda>(i, row). (trade_key row i, trade_event row)) rs" for rs
    by (induction rs) (auto simp: trade_stream_def)
  moreover have "no_errors (trade_stream rs)" for rs
    by (induction rs) (auto simp: trade_stream_def)
  ultimately show ?thesis
    using sorted_sort_key [of "\<lambda>(i, r). trade_key r i" rows]
    by (simp add: key_ordered_def o_def case_prod_unfold)
qed

lemma ordered_no_error:
  assumes "from_sources gaps book trades = Inr it"
    and "no_errors (gap_stream 0 gaps)" and "sorted (map fst (rights (gap_stream 0 gaps)))"
    and "no_errors (book_stream 0 book)" and "sorted (map fst (rights (book_stream 0 book)))"
  shows "no_errors (event_items it)"
proof -
  from open_state [OF assms(1)] obtain rows where o: "stream_of it GapLane = gap_stream 0 gaps"
    "stream_of it BookLane = book_stream 0 book"
    "stream_of it TradeLane = trade_stream (sort_key (\<lambda>(i, r). trade_key r i) (dedup_trades rows))" by blast
  have "key_ordered None (stream_of it l)" for l
    by (cases l) (use assms o trade_lane_ordered in \<open>simp_all add: key_ordered_def\<close>)
  then show ?thesis using run_no_errors [OF open_run(1) [OF assms(1)]] by simp
qed

text \<open>A gap, a delta and a trade for the examples.\<close>

definition ex_gap_row :: "i64 \<Rightarrow> i64 option \<Rightarrow> GapRow" where
  "ex_gap_row ts seq = \<lparr>gr_recv_ts_us = ts, gr_seq = seq, gr_reason = ''reconnect'', gr_detail = []\<rparr>"

definition ex_delta_row :: BookEventRow where
  "ex_delta_row = \<lparr>ber_event_idx = 0, ber_recv_ts_us = 3, ber_seq = Some 1, ber_is_snapshot = False,
     ber_side = Some Yes, ber_price_micro = Some 400000, ber_qty_centi = Some 100\<rparr>"

definition ex_trade_row :: TradeRow where
  "ex_trade_row = \<lparr>tr_recv_ts_us = 9, tr_event_ts_us = 4, tr_seq = None, tr_price_micro = 400000,
     tr_count_centi = 100, tr_taker_side = Yes, tr_taker_book_side = None, tr_trade_id = Some ''a''\<rparr>"

definition ex_iter :: EventIter where
  "ex_iter = projr (from_sources [Inr (ex_gap_row 5 None)] [Inr ex_delta_row] [Inr ex_trade_row])"

lemma ex_opened: "from_sources [Inr (ex_gap_row 5 None)] [Inr ex_delta_row] [Inr ex_trade_row] = Inr ex_iter"
  by (simp add: ex_iter_def from_sources_def Let_def)

lemma ex_streams:
  "no_errors (gap_stream 0 [Inr (ex_gap_row 5 None)])" "sorted (map fst (rights (gap_stream 0 [Inr (ex_gap_row 5 None)])))"
  "no_errors (book_stream 0 [Inr ex_delta_row])" "sorted (map fst (rights (book_stream 0 [Inr ex_delta_row])))"
  by (simp_all add: ex_delta_row_def book_pull_def delta_event_def Let_def)

text \<open>
  C33. The merged stream is in time order: whatever the files contain, and also after an error has been
  reported, the events it yields never go back in effective time.
\<close>

theorem stream_in_time_order:
  assumes "from_sources gaps book trades = Inr it"
  shows "sorted (map ev_ts (rights (event_items it)))"
  using run_sorted [OF open_run(1) [OF assms]] open_run(2) [OF assms] by simp

theorem stream_in_time_order_witness: "sorted (map ev_ts (rights (event_items ex_iter)))"
  by (rule stream_in_time_order [OF ex_opened])

text \<open>
  C7. Nothing is dropped in silence: when the stream reports no error, the gap events in it are the
  gap rows in file order, the book events are those of the book file in order, and the trades
  are the deduplicated trades in key order.
\<close>

theorem stream_complete:
  assumes "from_sources gaps book trades = Inr it" and "no_errors (event_items it)"
  shows "\<exists>rows. enumerate_ok 0 trades = Inr rows \<and>
    filter (\<lambda>ev. ev_lane ev = GapLane) (rights (event_items it)) = map snd (rights (gap_stream 0 gaps)) \<and>
    filter (\<lambda>ev. ev_lane ev = BookLane) (rights (event_items it)) = map snd (rights (book_stream 0 book)) \<and>
    filter (\<lambda>ev. ev_lane ev = TradeLane) (rights (event_items it)) =
      map (\<lambda>(i, row). trade_event row) (sort_key (\<lambda>(i, r). trade_key r i) (dedup_trades rows)) \<and>
    no_errors (gap_stream 0 gaps) \<and> no_errors (book_stream 0 book)"
proof -
  from open_state [OF assms(1)] obtain rows where o: "enumerate_ok 0 trades = Inr rows"
    "stream_of it GapLane = gap_stream 0 gaps" "stream_of it BookLane = book_stream 0 book"
    "stream_of it TradeLane = trade_stream (sort_key (\<lambda>(i, r). trade_key r i) (dedup_trades rows))" by blast
  note c = run_complete [OF open_run(1) [OF assms(1)], simplified, OF open_run(2) [OF assms(1)] assms(2)]
  have "map snd (rights (trade_stream rs)) = map (\<lambda>(i, row). trade_event row) rs" for rs
    by (induction rs) (auto simp: trade_stream_def)
  with c [of GapLane] c [of BookLane] c [of TradeLane] show ?thesis
    by (intro exI [of _ rows]) (simp add: o)
qed

theorem stream_complete_witness:
  "filter (\<lambda>ev. ev_lane ev = BookLane) (rights (event_items ex_iter)) =
     map snd (rights (book_stream 0 [Inr ex_delta_row]))"
  using stream_complete [OF ex_opened ordered_no_error [OF ex_opened ex_streams]] by blast

text \<open>
  No false alarm: when the gap rows and the book events decode and each file is in key order, the
  merged stream reports no error at all.
\<close>

theorem ordered_files_no_error:
  assumes "from_sources gaps book trades = Inr it"
    and "no_errors (gap_stream 0 gaps)" and "sorted (map fst (rights (gap_stream 0 gaps)))"
    and "no_errors (book_stream 0 book)" and "sorted (map fst (rights (book_stream 0 book)))"
  shows "no_errors (event_items it)"
  by (rule ordered_no_error [OF assms])

theorem ordered_files_no_error_witness: "no_errors (event_items ex_iter)"
  by (rule ordered_files_no_error [OF ex_opened ex_streams])

text \<open>
  The order check compares whole keys, not times: two gap rows of the same microsecond, the first
  without and the second with a sequence number, are in time order, and the stream still
  reports an ordering violation and drops the second one.
\<close>

theorem violation_without_regression:
  "\<exists>it. from_sources [Inr (ex_gap_row 5 None), Inr (ex_gap_row 5 (Some 7))] [] [] = Inr it \<and>
     event_items it = [Inr (gap_event (ex_gap_row 5 None)), Inl (OrderViolation 5 5)]"
  by (simp add: from_sources_def Let_def dedup_trades_def event_items.simps EventIter_next_def fill_lanes_def
      fill_gap_eq fill_trade_eq fill_book_eq lane_order_def Lane_empty_def ex_gap_row_def gap_key_def gap_event_def
      seq_part_def I64_MAX_def)

section \<open>What deduplication keeps\<close>

definition with_id :: "string option \<Rightarrow> (nat \<times> TradeRow) list \<Rightarrow> (nat \<times> TradeRow) list" where
  "with_id i rows = filter (\<lambda>x. tr_trade_id (snd x) = i) rows"

definition group_of :: "groups \<Rightarrow> string \<Rightarrow> (nat \<times> TradeRow) list" where
  "group_of g tid = (case om_get g tid of Some c \<Rightarrow> c | None \<Rightarrow> [])"

lemma group_trades_spec:
  assumes "om_wf g" and "group_trades rows out g = (out', g')"
  shows "out' = out @ with_id None rows \<and> om_wf g' \<and>
    group_of g' tid = group_of g tid @ with_id (Some tid) rows \<and>
    (om_get g' tid = None \<longleftrightarrow> om_get g tid = None \<and> with_id (Some tid) rows = [])"
  using assms
proof (induction rows out g rule: group_trades.induct)
  case (1 out groups)
  then show ?case by (simp add: with_id_def)
next
  case (2 i row rows out g)
  show ?case
  proof (cases "tr_trade_id row")
    case None
    with 2 show ?thesis by (simp add: with_id_def)
  next
    case (Some t)
    let ?g = "om_insert t ((case om_get g t of Some c \<Rightarrow> c | None \<Rightarrow> []) @ [(i, row)]) g"
    have "om_wf ?g" using "2.prems"(1) by simp
    with 2 Some have IH: "out' = out @ with_id None rows \<and> om_wf g' \<and>
        group_of g' tid = group_of ?g tid @ with_id (Some tid) rows \<and>
        (om_get g' tid = None \<longleftrightarrow> om_get ?g tid = None \<and> with_id (Some tid) rows = [])" by simp
    moreover have "group_of ?g tid = group_of g tid @ (if tid = t then [(i, row)] else [])"
      using "2.prems"(1) by (simp add: group_of_def om_get_insert)
    ultimately show ?thesis
      using Some "2.prems"(1) by (auto simp: with_id_def om_get_insert)
  qed
qed

text \<open>The row that stands for a non-empty group of copies of one trade.\<close>

lemma find_or_head:
  assumes "xs \<noteq> []"
  shows "\<exists>x. opt_or (find P xs) (get_at xs 0) = Some x \<and> x \<in> set xs \<and> ((\<exists>y \<in> set xs. P y) \<longrightarrow> P x)"
proof (cases "find P xs")
  case None
  then have "\<forall>x \<in> set xs. \<not> P x" by (auto simp: find_None_iff)
  with None assms show ?thesis by (simp add: get_at_def)
next
  case (Some x)
  then have "x \<in> set xs" and "P x" by (auto simp: find_Some_iff)
  with Some show ?thesis by simp
qed

definition stands_for :: "string \<Rightarrow> (nat \<times> TradeRow) list \<Rightarrow> nat \<times> TradeRow \<Rightarrow> bool" where
  "stands_for tid copies x \<longleftrightarrow>
     tr_trade_id (snd x) = Some tid \<and>
     (\<exists>p \<in> set copies. fst x = fst p \<and> tr_seq (snd x) = tr_seq (snd p) \<and>
        tr_recv_ts_us (snd x) = tr_recv_ts_us (snd p) \<and>
        ((\<exists>c \<in> set copies. tr_seq (snd c) \<noteq> None) \<longrightarrow> tr_seq (snd p) \<noteq> None)) \<and>
     (\<exists>f \<in> set copies. tr_event_ts_us (snd x) = tr_event_ts_us (snd f) \<and>
        tr_price_micro (snd x) = tr_price_micro (snd f) \<and> tr_count_centi (snd x) = tr_count_centi (snd f) \<and>
        tr_taker_side (snd x) = tr_taker_side (snd f) \<and>
        ((\<exists>c \<in> set copies. tr_seq (snd c) = None) \<longrightarrow> tr_seq (snd f) = None))"

lemma collapse_spec:
  assumes "copies \<noteq> []" and "\<forall>c \<in> set copies. tr_trade_id (snd c) = Some tid"
  shows "\<exists>x. collapse tid copies = [x] \<and> stands_for tid copies x"
proof (cases "length copies = 1")
  case True
  then obtain c where "copies = [c]" by (auto simp: length_Suc_conv)
  with assms(2) show ?thesis by (simp add: collapse_def stands_for_def)
next
  case False
  let ?xs = "sort_key (\<lambda>(i, r). trade_key r i) copies"
  let ?ws = "\<lambda>x :: nat \<times> TradeRow. tr_seq (snd x) \<noteq> None" and ?rest = "\<lambda>x :: nat \<times> TradeRow. tr_seq (snd x) = None"
  have ne: "?xs \<noteq> []" using assms(1) by (metis length_sort length_0_conv)
  from find_or_head [OF this, of ?ws] obtain p where
    p: "opt_or (find ?ws ?xs) (get_at ?xs 0) = Some p" "p \<in> set copies" "(\<exists>y \<in> set copies. ?ws y) \<longrightarrow> ?ws p"
    by auto
  obtain f where f: "opt_or (find ?rest ?xs) (Some p) = Some f" "f \<in> set copies"
    "(\<exists>y \<in> set copies. ?rest y) \<longrightarrow> ?rest f"
  proof (cases "find ?rest ?xs")
    case None
    then have "\<not> (\<exists>y \<in> set copies. ?rest y)" unfolding find_None_iff by auto
    with None p(2) that show ?thesis by simp
  next
    case (Some f)
    then have "f \<in> set copies" "?rest f" by (auto simp: find_Some_iff) (metis nth_mem length_sort set_sort)
    with Some that show ?thesis by simp
  qed
  obtain i pr where ip: "p = (i, pr)" by (cases p)
  obtain j fr where jf: "f = (j, fr)" by (cases f)
  have "collapse tid copies =
      [(i, \<lparr>tr_recv_ts_us = tr_recv_ts_us pr, tr_event_ts_us = tr_event_ts_us fr, tr_seq = tr_seq pr,
        tr_price_micro = tr_price_micro fr, tr_count_centi = tr_count_centi fr,
        tr_taker_side = tr_taker_side fr,
        tr_taker_book_side = opt_or (tr_taker_book_side fr) (tr_taker_book_side pr), tr_trade_id = Some tid\<rparr>)]"
    using False p(1) f(1) ip jf unfolding collapse_def Let_def case_prod_unfold by simp
  moreover have "stands_for tid copies (i, \<lparr>tr_recv_ts_us = tr_recv_ts_us pr,
      tr_event_ts_us = tr_event_ts_us fr, tr_seq = tr_seq pr, tr_price_micro = tr_price_micro fr,
      tr_count_centi = tr_count_centi fr, tr_taker_side = tr_taker_side fr,
      tr_taker_book_side = opt_or (tr_taker_book_side fr) (tr_taker_book_side pr), tr_trade_id = Some tid\<rparr>)"
    unfolding stands_for_def
    by (intro conjI bexI [OF _ p(2)] bexI [OF _ f(2)]) (use p(3) f(3) ip jf in simp_all)
  ultimately show ?thesis by blast
qed

lemma groups_with_id:
  assumes "om_wf g" and "\<forall>(t, c) \<in> set g. \<exists>x. collapse t c = [x] \<and> tr_trade_id (snd x) = Some t"
  shows "with_id (Some tid) (concat (map (\<lambda>(t, c). collapse t c) g)) =
      (case om_get g tid of None \<Rightarrow> [] | Some c \<Rightarrow> collapse tid c)"
    and "with_id None (concat (map (\<lambda>(t, c). collapse t c) g)) = []"
proof -
  show "with_id None (concat (map (\<lambda>(t, c). collapse t c) g)) = []"
    using assms(2) by (induction g) (auto simp: with_id_def)
  show "with_id (Some tid) (concat (map (\<lambda>(t, c). collapse t c) g)) =
      (case om_get g tid of None \<Rightarrow> [] | Some c \<Rightarrow> collapse tid c)"
    using assms
  proof (induction g)
    case (Cons e g)
    obtain t c where e: "e = (t, c)" by (cases e)
    with Cons.prems obtain x where x: "collapse t c = [x]" "tr_trade_id (snd x) = Some t" by auto
    have "om_get g t = None"
    proof -
      have "t \<notin> fst ` set g" using Cons.prems(1) e by (auto simp: om_wf_Cons)
      then show ?thesis using dom_om_get [of g] by (metis domIff)
    qed
    moreover have "with_id (Some tid) (concat (map (\<lambda>(t, c). collapse t c) g)) =
        (case om_get g tid of None \<Rightarrow> [] | Some c \<Rightarrow> collapse tid c)"
      using Cons by (simp add: om_wf_Cons)
    ultimately show ?case
      using e x by (auto simp: om_get_Cons with_id_def)
  qed (simp add: with_id_def)
qed

text \<open>
  Deduplication keeps every economic trade exactly once: rows without a trade id are all kept in
  order, and of the copies of one id exactly one row remains. It stands at the file row, receive
  time and sequence number of a live copy when there is one, and carries the execution time,
  price, count and taker side of a backfilled copy when there is one.
\<close>

theorem dedup_keeps_each_trade_once:
  "with_id None (dedup_trades rows) = with_id None rows \<and>
   (if with_id (Some tid) rows = [] then with_id (Some tid) (dedup_trades rows) = []
    else \<exists>x. with_id (Some tid) (dedup_trades rows) = [x] \<and> stands_for tid (with_id (Some tid) rows) x)"
proof -
  obtain out g where g: "group_trades rows [] [] = (out, g)" by (cases "group_trades rows [] []")
  note spec = group_trades_spec [OF om_wf_Nil g]
  have wf: "om_wf g" and out: "out = with_id None rows" using spec by auto
  have grp: "c = with_id (Some t) rows \<and> c \<noteq> []" if "om_get g t = Some c" for t c
    using spec [of t] that by (simp add: group_of_def)
  have copies: "\<exists>x. collapse t c = [x] \<and> stands_for t c x" if "om_get g t = Some c" for t c
  proof (rule collapse_spec)
    show "c \<noteq> []" using grp [OF that] by blast
    have "c = with_id (Some t) rows" using grp [OF that] by blast
    then show "\<forall>x \<in> set c. tr_trade_id (snd x) = Some t" by (simp add: with_id_def)
  qed
  have "\<forall>(t, c) \<in> set g. \<exists>x. collapse t c = [x] \<and> tr_trade_id (snd x) = Some t"
    using copies om_get_Some_iff [OF wf] by (fastforce simp: stands_for_def)
  note gi = groups_with_id [OF wf this]
  have d: "with_id i (dedup_trades rows) = with_id i out @ with_id i (concat (map (\<lambda>(t, c). collapse t c) g))" for i
    by (simp add: dedup_trades_def g with_id_def)
  have "with_id (Some tid) out = []" "with_id None out = out"
    unfolding out by (auto simp: with_id_def filter_empty_conv)
  with d gi(2) out have none: "with_id None (dedup_trades rows) = with_id None rows" by simp
  have some: "with_id (Some tid) (dedup_trades rows) = (case om_get g tid of None \<Rightarrow> [] | Some c \<Rightarrow> collapse tid c)"
    using d gi(1) \<open>with_id (Some tid) out = []\<close> by simp
  show ?thesis
  proof (cases "om_get g tid")
    case None
    with spec [of tid] some none show ?thesis by simp
  next
    case (Some c)
    with grp [OF Some] copies [OF Some] some none show ?thesis by auto
  qed
qed

end
