(* ===== verification/Replay.thy ===== *)
theory Replay
  imports Merge
begin

text \<open>
  Book replay over the merged stream and range replay, \<^verbatim>\<open>crates/kdp-load/src/replay.rs\<close>, and the
  directory loader of \<^verbatim>\<open>lib.rs\<close> and \<^verbatim>\<open>manifest.rs\<close> with its completeness gate. The contents of a
  directory are parameters: the result of reading the manifest file, its JSON decoding, and the
  batches of each table file.

  The lemmas relate a range replay to the full stream: what it emits, that its events rebuild
  the same book, and what becomes of the gaps that were open at its start.
\<close>

section \<open>The book replayer\<close>

record BookReplayer =
  rp_book :: Book
  rp_pending_gaps :: "ReplayEvent list"

definition BookReplayer_default :: BookReplayer where
  "BookReplayer_default = \<lparr>rp_book = Book_default, rp_pending_gaps = []\<rparr>"

definition to_levels :: "Level list \<Rightarrow> PriceLevel list" where
  "to_levels ls = map (\<lambda>l. \<lparr>pl_price = lv_price l, pl_quantity = lv_qty l\<rparr>) ls"

fun replayer_apply :: "ReplayEvent \<Rightarrow> BookReplayer \<Rightarrow> BookReplayer" where
  "replayer_apply (SnapshotEv ts event_idx yes no synthetic) r =
     r\<lparr>rp_book := apply_snapshot_levels (to_levels yes) (to_levels no) (rp_book r), rp_pending_gaps := []\<rparr>"
| "replayer_apply (DeltaEv ts event_idx side price delta) r =
     r\<lparr>rp_book := apply_change side price delta (rp_book r)\<rparr>"
| "replayer_apply (GapEv ts reason detail) r =
     r\<lparr>rp_pending_gaps := rp_pending_gaps r @ [GapEv ts reason detail]\<rparr>"
| "replayer_apply (TradeEv ts price cnt taker_side taker_book_side trade_id source) r = r"

definition synthetic_side :: "levels \<Rightarrow> Level list" where
  "synthetic_side m =
     map (\<lambda>(p, q). \<lparr>lv_price = p, lv_qty = word_of_int q\<rparr>) (filter (\<lambda>(_, q). q > 0) m)"

definition synthetic_snapshot :: "i64 \<Rightarrow> BookReplayer \<Rightarrow> ReplayEvent" where
  "synthetic_snapshot t0 r =
     SnapshotEv t0 (- 1) (synthetic_side (b_yes (rp_book r))) (synthetic_side (b_no (rp_book r))) True"

section \<open>Range replay\<close>

record RangeIter =
  rg_lead :: "ReplayEvent list"
  rg_held :: "ReplayEvent option"
  rg_rest :: EventIter
  rg_t1 :: i64

text \<open>The pre-roll loop; an error in it fails the construction.\<close>

function preroll :: "i64 \<Rightarrow> EventIter \<Rightarrow> BookReplayer \<Rightarrow> LoadError + BookReplayer \<times> ReplayEvent option \<times> EventIter" where
  "preroll t0 events replayer =
     (case EventIter_next events of
        (None, events') \<Rightarrow> Inr (replayer, None, events')
      | (Some (Inl e), events') \<Rightarrow> Inl e
      | (Some (Inr ev), events') \<Rightarrow>
          if ev_ts ev \<ge> t0 then Inr (replayer, Some ev, events')
          else preroll t0 events' (replayer_apply ev replayer))"
  by auto
termination
  by (relation "measure (\<lambda>(t0, events, r). pending events)") (auto dest!: next_pending [OF sym])

declare preroll.simps [simp del]

definition RangeIter_build :: "EventIter \<Rightarrow> i64 \<Rightarrow> i64 \<Rightarrow> LoadError + RangeIter" where
  "RangeIter_build events t0 t1 =
     and_then (preroll t0 events BookReplayer_default) (\<lambda>(replayer, held, rest).
       Inr \<lparr>rg_lead = rp_pending_gaps replayer @ [synthetic_snapshot t0 (replayer\<lparr>rp_pending_gaps := []\<rparr>)],
            rg_held = held, rg_rest = rest, rg_t1 = t1\<rparr>)"

definition clip :: "i64 \<Rightarrow> (LoadError + ReplayEvent) option \<Rightarrow> (LoadError + ReplayEvent) option" where
  "clip t1 nx =
     (case nx of
        None \<Rightarrow> None
      | Some (Inl e) \<Rightarrow> Some (Inl e)
      | Some (Inr ev) \<Rightarrow> if ev_ts ev < t1 then Some (Inr ev) else None)"

definition RangeIter_next :: "RangeIter \<Rightarrow> (LoadError + ReplayEvent) option \<times> RangeIter" where
  "RangeIter_next it =
     (case rg_lead it of
        ev # lead \<Rightarrow> (Some (Inr ev), it\<lparr>rg_lead := lead\<rparr>)
      | [] \<Rightarrow>
          (case rg_held it of
             Some ev \<Rightarrow> (clip (rg_t1 it) (Some (Inr ev)), it\<lparr>rg_held := None\<rparr>)
           | None \<Rightarrow>
               let (nx, rest) = EventIter_next (rg_rest it)
               in (clip (rg_t1 it) nx, it\<lparr>rg_rest := rest\<rparr>)))"

section \<open>The loader\<close>

definition SUPPORTED_SCHEMA_VERSION :: u16 where
  "SUPPORTED_SCHEMA_VERSION = 1"

record LoadManifest =
  lm_schema_version :: u16
  lm_ticker :: string
  lm_format :: string
  lm_complete :: bool
  lm_read_errors :: nat
  lm_counts :: "(string, nat) omap"

datatype Completeness = Complete | IncompleteBecause "string list"

text \<open>\<open>file\<close> is the result of reading \<^verbatim>\<open>manifest.json\<close>, \<open>parse\<close> its JSON decoding.\<close>

definition Manifest_open :: "string \<Rightarrow> string + string \<Rightarrow> (string \<Rightarrow> string + LoadManifest) \<Rightarrow> LoadError + LoadManifest" where
  "Manifest_open path file parse =
     (case file of
        Inl source \<Rightarrow> Inl (IoError path source)
      | Inr text \<Rightarrow>
          (case parse text of
             Inl e \<Rightarrow> Inl (ManifestError path e)
           | Inr m \<Rightarrow>
               if lm_schema_version m > SUPPORTED_SCHEMA_VERSION
               then Inl (UnsupportedSchema (lm_schema_version m) SUPPORTED_SCHEMA_VERSION)
               else if lm_format m \<noteq> ''parquet''
               then Inl (ManifestError path (''format '' @ lm_format m @ '' not supported (v1 reads parquet only)''))
               else Inr m))"

definition completeness :: "LoadManifest \<Rightarrow> Completeness" where
  "completeness m =
     (if lm_complete m then Complete
      else
        let r1 = (if lm_read_errors m > 0
                  then [show_nat (lm_read_errors m) @ '' undecodable source lines (read_errors.jsonl)''] else []);
            raw = (case om_get (lm_counts m) ''raw'' of Some n \<Rightarrow> n | None \<Rightarrow> 0);
            r2 = (if raw > 0 then r1 @ [show_nat raw @ '' raw fallback records (raw table)''] else r1)
        in IncompleteBecause (if r2 = [] then [''manifest says complete=false''] else r2))"

record Loader =
  ld_dir :: string
  ld_completeness :: Completeness
  ld_acknowledged :: bool

definition Loader_open :: "string \<Rightarrow> string + string \<Rightarrow> (string \<Rightarrow> string + LoadManifest) \<Rightarrow> LoadError + Loader" where
  "Loader_open dir file parse =
     and_then (Manifest_open (dir @ ''/manifest.json'') file parse) (\<lambda>manifest.
       Inr \<lparr>ld_dir = dir, ld_completeness = completeness manifest, ld_acknowledged = False\<rparr>)"

definition allow_incomplete :: "Loader \<Rightarrow> Loader" where
  "allow_incomplete ld = ld\<lparr>ld_acknowledged := True\<rparr>"

definition gate :: "Loader \<Rightarrow> LoadError + unit" where
  "gate ld =
     (case (ld_completeness ld, ld_acknowledged ld) of
        (IncompleteBecause reasons, False) \<Rightarrow> Inl (Incomplete reasons)
      | _ \<Rightarrow> Inr ())"

text \<open>
  \<open>tables\<close> gives the reader of a table file, or the error of opening it. A row source is the
  list its reader yields.
\<close>

definition open_table :: "'b arrow \<Rightarrow> (string \<Rightarrow> LoadError + (string + 'b) list) \<Rightarrow> string \<Rightarrow>
    ('b \<Rightarrow> nat \<Rightarrow> nat \<Rightarrow> string \<Rightarrow> LoadError + 't) \<Rightarrow> LoadError + (LoadError + 't) list" where
  "open_table A tables name decode =
     and_then (tables name) (\<lambda>reader. Inr (row_items A (RowIter_open name decode reader)))"

definition EventIter_open :: "'b arrow \<Rightarrow> (string \<Rightarrow> LoadError + (string + 'b) list) \<Rightarrow> LoadError + EventIter" where
  "EventIter_open A tables =
     and_then (open_table A tables ''gaps'' (decode_gap_row A)) (\<lambda>gaps.
     and_then (open_table A tables ''book_events'' (decode_book_row A)) (\<lambda>book.
     and_then (open_table A tables ''trades'' (decode_trade_row A)) (\<lambda>trades.
       from_sources gaps book trades)))"

definition Loader_events :: "'b arrow \<Rightarrow> (string \<Rightarrow> LoadError + (string + 'b) list) \<Rightarrow> Loader \<Rightarrow> LoadError + EventIter" where
  "Loader_events A tables ld = and_then (gate ld) (\<lambda>_. EventIter_open A tables)"

definition Loader_between :: "'b arrow \<Rightarrow> (string \<Rightarrow> LoadError + (string + 'b) list) \<Rightarrow> i64 \<Rightarrow> i64 \<Rightarrow> Loader \<Rightarrow>
    LoadError + RangeIter" where
  "Loader_between A tables t0 t1 ld =
     (if t0 \<ge> t1 then Inl (InvalidRange t0 t1)
      else and_then (gate ld) (\<lambda>_.
        and_then (EventIter_open A tables) (\<lambda>events. RangeIter_build events t0 t1)))"

section \<open>What a range yields\<close>

fun range_out :: "i64 \<Rightarrow> (LoadError + ReplayEvent) list \<Rightarrow> (LoadError + ReplayEvent) list" where
  "range_out t1 [] = []"
| "range_out t1 (Inl e # xs) = Inl e # range_out t1 xs"
| "range_out t1 (Inr ev # xs) = (if ev_ts ev < t1 then Inr ev # range_out t1 xs else [])"

definition range_items :: "RangeIter \<Rightarrow> (LoadError + ReplayEvent) list" where
  "range_items it =
     map Inr (rg_lead it) @
     range_out (rg_t1 it) ((case rg_held it of Some ev \<Rightarrow> [Inr ev] | None \<Rightarrow> []) @ event_items (rg_rest it))"

interpretation ranged: iterator RangeIter_next range_items "\<lambda>_. True"
proof
  fix s
  assume "range_items s = []"
  then show "fst (RangeIter_next s) = None"
    by (auto simp: range_items_def RangeIter_next_def clip_def event_items.simps [of "rg_rest s"]
        split: option.splits prod.splits sum.splits if_splits)
next
  fix s x xs
  assume "range_items s = x # xs"
  then show "fst (RangeIter_next s) = Some x \<and> range_items (snd (RangeIter_next s)) = xs \<and> True"
    by (auto simp: range_items_def RangeIter_next_def clip_def event_items.simps [of "rg_rest s"] Let_def
        split: option.splits prod.splits sum.splits if_splits list.splits)
qed

lemma map_rights: "no_errors xs \<Longrightarrow> map Inr (rights xs) = xs"
proof (induction xs)
  case (Cons x xs)
  then show ?case by (cases x) simp_all
qed simp

lemma exhausted_stays:
  assumes "EventIter_next it = (None, it')"
  shows "event_items it' = []"
proof (cases it rule: next_cases)
  case exhausted
  have idle: "lane l (fill_lanes it) = Lane_empty" for l
    using exhausted(1) [rule_format, of l] best_lane_None [OF exhausted(2) in_lane_order [of l]]
    by (cases "lane l (fill_lanes it)") (simp add: Lane_empty_def)
  have "gap_stream n rows = [] \<Longrightarrow> rows = []" for n rows
    by (cases "(n, rows)" rule: gap_stream.cases) auto
  moreover have "book_stream n rows = [] \<Longrightarrow> rows = []" for n rows
    by (cases "(n, rows)" rule: book_stream.cases) (auto split: prod.splits)
  ultimately have "ei_gaps (fill_lanes it) = []" "ei_book (fill_lanes it) = []" "ei_trades (fill_lanes it) = []"
    using filled_idle [OF idle, of GapLane] filled_idle [OF idle, of BookLane] filled_idle [OF idle, of TradeLane]
    by (auto simp: trade_stream_def)
  then have "pending it' = 0"
    using assms exhausted(3) idle [of GapLane] idle [of BookLane] idle [of TradeLane] by (simp add: pending_def)
  moreover obtain a b where ab: "EventIter_next it' = (a, b)" by (cases "EventIter_next it'")
  ultimately have "a = None" using next_pending [of it'] by (cases a) auto
  with ab show ?thesis by (simp add: event_items.simps [of it'])
qed (use assms in \<open>auto split: option.splits if_splits\<close>)

lemma preroll_spec:
  "no_errors (event_items it) \<Longrightarrow>
   \<exists>held rest. preroll t0 it r =
       Inr (fold replayer_apply (takeWhile (\<lambda>ev. ev_ts ev < t0) (rights (event_items it))) r, held, rest) \<and>
     (case held of Some ev \<Rightarrow> [Inr ev] | None \<Rightarrow> []) @ event_items rest =
       map Inr (dropWhile (\<lambda>ev. ev_ts ev < t0) (rights (event_items it)))"
proof (induction t0 it r rule: preroll.induct)
  case (1 t0 it r)
  obtain nx it' where nx: "EventIter_next it = (nx, it')" by (cases "EventIter_next it")
  show ?case
  proof (cases nx)
    case None
    with nx exhausted_stays [of it it'] show ?thesis
      by (simp add: preroll.simps [of t0 it r] event_items.simps [of it])
  next
    case (Some x)
    then obtain ev where x: "x = Inr ev" and ne: "no_errors (event_items it')"
      using "1.prems" nx by (cases x) (auto simp: event_items.simps [of it])
    show ?thesis
    proof (cases "ev_ts ev < t0")
      case True
      with "1.IH" [OF nx [symmetric] Some x] ne nx Some x show ?thesis
        by (simp add: preroll.simps [of t0 it r] event_items.simps [of it])
    next
      case False
      with nx Some x map_rights [OF ne] show ?thesis
        by (simp add: preroll.simps [of t0 it r] event_items.simps [of it])
    qed
  qed
qed

lemma range_out_ok: "range_out t1 (map Inr evs) = map Inr (takeWhile (\<lambda>ev. ev_ts ev < t1) evs)"
  by (induction evs) simp_all

lemma sorted_cut:
  assumes "sorted (map f xs)"
  shows "takeWhile (\<lambda>x. f x < a) xs = filter (\<lambda>x. f x < a) xs"
    and "dropWhile (\<lambda>x. f x < a) xs = filter (\<lambda>x. a \<le> f x) xs"
proof -
  show "takeWhile (\<lambda>x. f x < a) xs = filter (\<lambda>x. f x < a) xs"
    using assms by (induction xs) (fastforce simp: filter_empty_conv eq_commute [of "[]"])+
  show "dropWhile (\<lambda>x. f x < a) xs = filter (\<lambda>x. a \<le> f x) xs"
    using assms
  proof (induction xs)
    case (Cons x xs)
    then have "filter (\<lambda>y. a \<le> f y) xs = xs" if "a \<le> f x" using that by (force simp: filter_id_conv)
    with Cons show ?case by auto
  qed simp
qed

text \<open>On a stream without errors: pending gaps, opener, then exactly the events of the range.\<close>

lemma range_events:
  fixes it :: EventIter and t0 t1 :: i64
  defines "evs \<equiv> rights (event_items it)"
  assumes "no_errors (event_items it)" and "sorted (map ev_ts evs)"
  shows "\<exists>rg. RangeIter_build it t0 t1 = Inr rg \<and>
    (let r0 = fold replayer_apply (filter (\<lambda>ev. ev_ts ev < t0) evs) BookReplayer_default
     in range_items rg = map Inr (rp_pending_gaps r0 @ [synthetic_snapshot t0 r0] @
          filter (\<lambda>ev. t0 \<le> ev_ts ev \<and> ev_ts ev < t1) evs))"
proof -
  let ?r0 = "fold replayer_apply (filter (\<lambda>ev. ev_ts ev < t0) evs) BookReplayer_default"
  from preroll_spec [OF assms(2), of t0 BookReplayer_default] obtain held rest where
    p: "preroll t0 it BookReplayer_default = Inr (?r0, held, rest)" and
    h: "(case held of Some ev \<Rightarrow> [Inr ev] | None \<Rightarrow> []) @ event_items rest =
      map Inr (filter (\<lambda>ev. t0 \<le> ev_ts ev) evs)"
    unfolding sorted_cut [OF assms(3) [unfolded evs_def]] evs_def by blast
  have "sorted (map ev_ts (filter (\<lambda>ev. t0 \<le> ev_ts ev) evs))"
    using assms(3) by (rule sorted_filter)
  from sorted_cut(1) [OF this, of t1] have
    "takeWhile (\<lambda>ev. ev_ts ev < t1) (filter (\<lambda>ev. t0 \<le> ev_ts ev) evs) =
      filter (\<lambda>ev. t0 \<le> ev_ts ev \<and> ev_ts ev < t1) evs" by (simp add: conj_commute)
  then show ?thesis
    using p h by (simp add: RangeIter_build_def range_items_def range_out_ok synthetic_snapshot_def Let_def)
qed

section \<open>A range rebuilds the book\<close>

fun ev_ops :: "ReplayEvent \<Rightarrow> book_op list" where
  "ev_ops (SnapshotEv ts event_idx yes no synthetic) = [OpSnapshot (to_levels yes) (to_levels no)]"
| "ev_ops (DeltaEv ts event_idx side price delta) = [OpChange side price delta]"
| "ev_ops (TradeEv ts price cnt taker_side taker_book_side trade_id source) = []"
| "ev_ops (GapEv ts reason detail) = []"

lemma replayer_book: "rp_book (fold replayer_apply evs r) = replay (concat (map ev_ops evs)) (rp_book r)"
proof (induction evs arbitrary: r)
  case (Cons ev evs)
  then show ?case by (cases ev) simp_all
qed simp

definition positive_ev :: "ReplayEvent \<Rightarrow> bool" where
  "positive_ev ev \<longleftrightarrow> list_all positive_op (ev_ops ev)"

lemma replay_positive:
  "list_all positive_op ops \<Longrightarrow> book_abs (replay ops Book_default) sd p = Some q \<Longrightarrow> 0 < q"
  using abs_positive_run [of "\<lambda>_ _. None" ops]
  by (simp add: replay_abs_default) (simp add: abs_positive_def)

text \<open>The levels of a positive book, listed and loaded again, are the same book.\<close>

lemma spec_levels_synthetic:
  assumes "side_inv m t" and "\<forall>e \<in> set m. 0 < snd e"
  shows "spec_levels (to_levels (synthetic_side m)) = om_get m"
proof -
  have "filter (\<lambda>(_, q). q > 0) m = m" using assms(2) by (auto simp: filter_id_conv)
  moreover have "map (\<lambda>(p, q). (p, u64_as_i64 (word_of_int q))) m = m"
  proof (rule map_idI)
    fix e assume e: "e \<in> set m"
    then have "0 < snd e" "snd e < 2 ^ 63" using assms by (auto simp: side_inv_def i64_range_def)
    then show "(case e of (p, q) \<Rightarrow> (p, u64_as_i64 (word_of_int q))) = e"
      by (cases e) (simp add: u64_as_i64_small uint_word_of_int)
  qed
  ultimately have "map level_entry (to_levels (synthetic_side m)) = m"
    by (simp add: synthetic_side_def to_levels_def level_entry_def o_def case_prod_unfold)
  moreover have "map_of (rev m) = map_of m"
    using om_wf_distinct [of m] assms(1) by (simp add: side_inv_def map_of_inject_set rev_map [symmetric])
  ultimately show ?thesis
    by (simp add: spec_levels_def om_get_def fun_eq_iff)
qed

lemma synthetic_same_book:
  assumes "book_inv b" and "\<forall>sd p q. book_abs b sd p = Some q \<longrightarrow> 0 < q"
  shows "spec_snapshot (to_levels (synthetic_side (b_yes b))) (to_levels (synthetic_side (b_no b))) = book_abs b"
proof -
  have inv: "side_inv (side_of_book sd b) (total_of_book sd b)" for sd using assms(1) by (simp add: book_inv_def)
  have "spec_levels (to_levels (synthetic_side (side_of_book sd b))) = book_abs b sd" for sd
  proof -
    have "om_wf (side_of_book sd b)" using inv [of sd] by (simp add: side_inv_def)
    then have "\<forall>e \<in> set (side_of_book sd b). 0 < snd e"
      using assms(2) om_get_Some_iff by (fastforce simp: book_abs_def)
    from spec_levels_synthetic [OF inv this] show ?thesis by (simp add: book_abs_def)
  qed
  from this [of Yes] this [of No] show ?thesis
    by (intro ext) (simp add: spec_snapshot_def side_of_book_def split: Side.split)
qed

text \<open>The events of a range, applied from nothing, rebuild the levels of the whole prefix.\<close>

lemma range_same_levels:
  assumes "list_all positive_ev pre"
  shows "book_abs (rp_book (fold replayer_apply
      (rp_pending_gaps r0 @ [synthetic_snapshot t0 (fold replayer_apply pre BookReplayer_default)] @ post) BookReplayer_default)) =
    book_abs (rp_book (fold replayer_apply (pre @ post) BookReplayer_default))"
proof -
  let ?ops = "concat (map ev_ops pre)" and ?post = "concat (map ev_ops post)"
  let ?b = "replay ?ops Book_default"
  have inv: "book_inv ?b" by (rule replay_inv) simp
  have pos: "list_all positive_op ?ops" using assms by (induction pre) (simp_all add: positive_ev_def)
  have syn: "spec_snapshot (to_levels (synthetic_side (b_yes ?b))) (to_levels (synthetic_side (b_no ?b))) = book_abs ?b"
    using synthetic_same_book [OF inv] replay_positive [OF pos] by blast
  have run: "book_abs (replay ops b) = spec_run ops (book_abs b)" if "book_inv b" for ops b
    unfolding replay_def using bk.abs_run [OF that] .
  let ?lead = "concat (map ev_ops (rp_pending_gaps r0))"
  have "book_abs (replay (?lead @ OpSnapshot (to_levels (synthetic_side (b_yes ?b))) (to_levels (synthetic_side (b_no ?b))) # ?post) Book_default)
      = spec_run ?post (book_abs ?b)"
    using run [of Book_default "?lead @ OpSnapshot (to_levels (synthetic_side (b_yes ?b))) (to_levels (synthetic_side (b_no ?b))) # ?post"] syn
    by (simp add: spec_run_def)
  moreover have "book_abs (replay (?ops @ ?post) Book_default) = spec_run ?post (book_abs ?b)"
    using run [OF inv] by simp
  ultimately show ?thesis
    unfolding replayer_book by (simp add: BookReplayer_default_def replayer_book synthetic_snapshot_def)
qed

lemma opened_sorted: "from_sources gaps book trades = Inr it \<Longrightarrow> sorted (map ev_ts (rights (event_items it)))"
  using run_sorted [OF open_run(1)] open_run(2) by simp

lemma ex_no_errors: "no_errors (event_items ex_iter)"
  by (rule ordered_no_error [OF ex_opened ex_streams])

lemma ex_event_items:
  "event_items ex_iter =
     [Inr (DeltaEv 3 0 Yes 400000 100), Inr (trade_event ex_trade_row), Inr (gap_event (ex_gap_row 5 None))]"
  by (simp add: ex_iter_def from_sources_def Let_def dedup_trades_def collapse_def event_items.simps EventIter_next_def
      fill_lanes_def fill_gap_eq fill_trade_eq fill_book_eq lane_order_def Lane_empty_def ex_gap_row_def ex_trade_row_def
      ex_delta_row_def gap_key_def gap_event_def trade_key_def trade_effective_def book_key_def book_pull_def delta_event_def
      seq_part_def I64_MAX_def PRI_GAP_def PRI_BOOK_def PRI_TRADE_def)

text \<open>
  C27. A range replay over \<open>[t0, t1)\<close> of a stream without errors yields, in order, the gaps still
  open at \<open>t0\<close>, one synthetic snapshot of the book at \<open>t0\<close>, and then exactly the events of the
  stream with a time in the range, in stream order.
\<close>

theorem range_replay_exact:
  assumes "from_sources gaps book trades = Inr it" and "no_errors (event_items it)"
  shows "\<exists>rg. RangeIter_build it t0 t1 = Inr rg \<and>
    (let evs = rights (event_items it);
         r0 = fold replayer_apply (filter (\<lambda>ev. ev_ts ev < t0) evs) BookReplayer_default
     in range_items rg = map Inr (rp_pending_gaps r0 @ [synthetic_snapshot t0 r0] @
          filter (\<lambda>ev. t0 \<le> ev_ts ev \<and> ev_ts ev < t1) evs))"
  using range_events [OF assms(2) opened_sorted [OF assms(1)]] by (simp add: Let_def)

theorem range_replay_exact_witness:
  "\<exists>rg. RangeIter_build ex_iter 4 8 = Inr rg \<and>
    (let evs = rights (event_items ex_iter);
         r0 = fold replayer_apply (filter (\<lambda>ev. ev_ts ev < 4) evs) BookReplayer_default
     in range_items rg = map Inr (rp_pending_gaps r0 @ [synthetic_snapshot 4 r0] @
          filter (\<lambda>ev. 4 \<le> ev_ts ev \<and> ev_ts ev < 8) evs))"
  by (rule range_replay_exact [OF ex_opened ex_no_errors])

text \<open>
  C28. A range replay is enough to know the book: feeding its events to a fresh replayer ends with the
  same resting size at every side and price as feeding it the whole stream up to \<open>t1\<close>, provided
  the snapshots before \<open>t0\<close> carry positive sizes below \<open>2 ^ 63\<close>.
\<close>

theorem range_rebuilds_book:
  assumes "from_sources gaps book trades = Inr it" and "no_errors (event_items it)" and "t0 \<le> t1"
    and "list_all positive_ev (filter (\<lambda>ev. ev_ts ev < t0) (rights (event_items it)))"
  shows "\<exists>rg. RangeIter_build it t0 t1 = Inr rg \<and>
    book_abs (rp_book (fold replayer_apply (rights (range_items rg)) BookReplayer_default)) =
    book_abs (rp_book (fold replayer_apply (filter (\<lambda>ev. ev_ts ev < t1) (rights (event_items it))) BookReplayer_default))"
proof -
  let ?evs = "rights (event_items it)"
  let ?pre = "filter (\<lambda>ev. ev_ts ev < t0) ?evs" and ?post = "filter (\<lambda>ev. t0 \<le> ev_ts ev \<and> ev_ts ev < t1) ?evs"
  let ?r0 = "fold replayer_apply ?pre BookReplayer_default"
  have srt: "sorted (map ev_ts ?evs)" by (rule opened_sorted [OF assms(1)])
  from range_events [OF assms(2) srt, of t0 t1] obtain rg where rg: "RangeIter_build it t0 t1 = Inr rg"
    and out: "range_items rg = map Inr (rp_pending_gaps ?r0 @ [synthetic_snapshot t0 ?r0] @ ?post)"
    by (auto simp: Let_def)
  have rr: "rights (map Inr xs) = xs" for xs :: "ReplayEvent list" by (induction xs) simp_all
  have "?pre @ ?post = filter (\<lambda>ev. ev_ts ev < t1) ?evs"
  proof -
    have "?evs = ?pre @ filter (\<lambda>ev. t0 \<le> ev_ts ev) ?evs"
      using sorted_cut [OF srt, of t0] takeWhile_dropWhile_id [of "\<lambda>ev. ev_ts ev < t0" ?evs] by simp
    then have "filter (\<lambda>ev. ev_ts ev < t1) ?evs =
        filter (\<lambda>ev. ev_ts ev < t1) ?pre @ filter (\<lambda>ev. ev_ts ev < t1) (filter (\<lambda>ev. t0 \<le> ev_ts ev) ?evs)"
      by (metis filter_append)
    moreover have "filter (\<lambda>ev. ev_ts ev < t1) ?pre = ?pre"
      using assms(3) by (subst filter_id_conv) auto
    ultimately show ?thesis by (simp add: conj_commute)
  qed
  with range_same_levels [OF assms(4), of ?r0 t0 ?post] show ?thesis
    using rg by (intro exI [of _ rg]) (simp only: out rr)
qed

theorem range_rebuilds_book_witness:
  "\<exists>rg. RangeIter_build ex_iter 4 8 = Inr rg \<and>
    book_abs (rp_book (fold replayer_apply (rights (range_items rg)) BookReplayer_default)) =
    book_abs (rp_book (fold replayer_apply (filter (\<lambda>ev. ev_ts ev < 8) (rights (event_items ex_iter))) BookReplayer_default))"
proof (rule range_rebuilds_book [OF ex_opened ex_no_errors])
  show "list_all positive_ev (filter (\<lambda>ev. ev_ts ev < 4) (rights (event_items ex_iter)))"
    by (simp add: ex_event_items positive_ev_def gap_event_def ex_gap_row_def trade_event_def trade_effective_def
        ex_trade_row_def)
qed simp

text \<open>
  The gaps open at the start of a range do not survive its opener in a replayer: they are emitted
  before the synthetic snapshot, and applying that snapshot, like any other, empties the list of
  pending gaps. After the opening events the replayer always reports a trusted book.
\<close>

theorem opener_clears_gaps:
  assumes "RangeIter_build it t0 t1 = Inr rg"
  shows "rp_pending_gaps (fold replayer_apply (rg_lead rg) BookReplayer_default) = []"
  using assms by (auto simp: RangeIter_build_def and_then_Inr_iff synthetic_snapshot_def)

theorem opener_clears_gaps_witness:
  "\<exists>rg. RangeIter_build ex_iter 6 8 = Inr rg \<and> gap_event (ex_gap_row 5 None) \<in> set (rg_lead rg) \<and>
     rp_pending_gaps (fold replayer_apply (rg_lead rg) BookReplayer_default) = []"
proof -
  from preroll_spec [OF ex_no_errors, of 6 BookReplayer_default] obtain rg where
    rg: "RangeIter_build ex_iter 6 8 = Inr rg" and "gap_event (ex_gap_row 5 None) \<in> set (rg_lead rg)"
    by (auto simp: RangeIter_build_def ex_event_items gap_event_def ex_gap_row_def trade_event_def
        trade_effective_def ex_trade_row_def)
  with opener_clears_gaps [OF rg] show ?thesis by blast
qed

text \<open>
  An incomplete directory is never loaded in silence: a loader opened on a manifest that is not
  complete refuses both the full stream and any range with at least one reason, whatever the
  tables hold, until the caller has acknowledged it.
\<close>

theorem incomplete_refused:
  assumes "Loader_open dir (Inr text) parse = Inr ld" and "parse text = Inr m" and "\<not> lm_complete m"
  shows "\<exists>reasons. reasons \<noteq> [] \<and> Loader_events A tables ld = Inl (Incomplete reasons) \<and>
    (t0 < t1 \<longrightarrow> Loader_between A tables t0 t1 ld = Inl (Incomplete reasons)) \<and>
    Loader_events A tables (allow_incomplete ld) = EventIter_open A tables"
proof -
  have "ld_completeness ld = completeness m" "\<not> ld_acknowledged ld"
    using assms(1,2) by (auto simp: Loader_open_def Manifest_open_def split: if_splits)
  moreover obtain reasons where "completeness m = IncompleteBecause reasons" "reasons \<noteq> []"
    using assms(3) by (auto simp: completeness_def Let_def split: if_splits)
  ultimately show ?thesis
    by (intro exI [of _ reasons]) (auto simp: Loader_events_def Loader_between_def gate_def allow_incomplete_def)
qed

definition ex_manifest :: LoadManifest where
  "ex_manifest = \<lparr>lm_schema_version = 1, lm_ticker = [], lm_format = ''parquet'', lm_complete = False,
     lm_read_errors = 2, lm_counts = []\<rparr>"

theorem incomplete_refused_witness:
  "\<exists>ld reasons. Loader_open [] (Inr []) (\<lambda>_. Inr ex_manifest) = Inr ld \<and>
     Loader_events plain_arrow (\<lambda>_. Inr []) ld = Inl (Incomplete reasons) \<and> reasons \<noteq> []"
proof -
  obtain ld where ld: "Loader_open [] (Inr []) (\<lambda>_. Inr ex_manifest) = Inr ld"
    by (simp add: Loader_open_def Manifest_open_def ex_manifest_def SUPPORTED_SCHEMA_VERSION_def)
  have "\<not> lm_complete ex_manifest" by (simp add: ex_manifest_def)
  from incomplete_refused [OF ld refl this, of plain_arrow "\<lambda>_. Inr []" 0 1] ld show ?thesis by blast
qed

end
