(* ===== verification/Lossless.thy ===== *)
theory Lossless
  imports Replay
begin

text \<open>
  From capture to replay: the rows \<open>Process\<close> writes for the messages of a ticker, read back by
  \<open>Load_Reader\<close> and assembled by the book lane of \<open>Merge\<close>, are one event for each message, and
  applying the events to a \<open>BookReplayer\<close> performs the operations the processor performed.
\<close>

section \<open>The events of a message log\<close>

definition load_levels_of :: "PriceLevel list \<Rightarrow> Level list" where
  "load_levels_of ls = map (\<lambda>l. \<lparr>lv_price = pl_price l, lv_qty = pl_quantity l\<rparr>) ls"

fun msg_event :: "nat \<Rightarrow> Envelope \<Rightarrow> ReplayEvent" where
  "msg_event k env =
     (case e_kind env of
        Snapshot s \<Rightarrow>
          SnapshotEv (ts_us (e_recv_ts env)) (i64_wrap (int k)) (load_levels_of (os_yes s)) (load_levels_of (os_no s)) False
      | Delta d \<Rightarrow> DeltaEv (ts_us (e_recv_ts env)) (i64_wrap (int k)) (od_side d) (od_price d) (od_delta d)
      | _ \<Rightarrow> GapEv 0 [] [])"

definition msg_ok :: "Envelope \<Rightarrow> bool" where
  "msg_ok env \<longleftrightarrow>
     (case e_kind env of Snapshot s \<Rightarrow> list_all qty_fits (os_yes s @ os_no s) | Delta d \<Rightarrow> True | _ \<Rightarrow> False)"

definition loaded_rows :: "brow list \<Rightarrow> (LoadError + BookEventRow) list" where
  "loaded_rows rs = map (\<lambda>r. Inr (loaded r)) rs"

lemma loaded_rows_simps [simp]:
  "loaded_rows [] = []" "loaded_rows (r # rs) = Inr (loaded r) # loaded_rows rs"
  "loaded_rows (rs @ rs') = loaded_rows rs @ loaded_rows rs'"
  by (simp_all add: loaded_rows_def)

lemma book_pull_group:
  "ber_is_snapshot first \<Longrightarrow> book_pull first rest n =
     (case group_loop (ber_event_idx first) (Inr first # rest) n ([], []) of
        (r, rest', n') \<Rightarrow>
          (and_then r (\<lambda>(yes, no). Inr (book_key first n,
             SnapshotEv (ber_recv_ts_us first) (ber_event_idx first) yes no False)), rest', n'))"
  by (simp add: book_pull_def Let_def split: sum.split)

lemma level_loaded [simp]:
  "ber_is_snapshot (loaded (level_row k env s sd l))" "ber_event_idx (loaded (level_row k env s sd l)) = k"
  "ber_recv_ts_us (loaded (level_row k env s sd l)) = ts_us (e_recv_ts env)"
  by (simp_all add: loaded_def level_row_def)

lemma push_loaded_level:
  assumes "sd = ''yes'' \<or> sd = ''no''"
  shows "push_level (loaded (level_row k env s sd l)) n acc =
    Inr (if sd = ''yes'' then (fst acc @ load_levels_of [l], snd acc) else (fst acc, snd acc @ load_levels_of [l]))"
  using assms by (auto simp: push_level_def loaded_def level_row_def load_levels_of_def)

lemma group_levels:
  assumes "sd = ''yes'' \<or> sd = ''no''"
  shows "group_loop k (loaded_rows (map (level_row k env s sd) ls) @ rest) n acc =
    group_loop k rest (n + length ls)
      (if sd = ''yes'' then (fst acc @ load_levels_of ls, snd acc) else (fst acc, snd acc @ load_levels_of ls))"
proof (induction ls arbitrary: n acc)
  case (Cons l ls)
  show ?case
    using assms by (simp add: push_loaded_level [OF assms] Cons) (auto simp: load_levels_of_def)
qed (use assms in \<open>auto simp: load_levels_of_def\<close>)

text \<open>The rows after a snapshot do not belong to its group.\<close>

definition stops :: "i64 \<Rightarrow> brow list \<Rightarrow> bool" where
  "stops k rs \<longleftrightarrow> (case rs of [] \<Rightarrow> True | r # _ \<Rightarrow> br_event_idx r \<noteq> k)"

lemma group_stops: "stops k rs \<Longrightarrow> group_loop k (loaded_rows rs) n acc = (Inr acc, loaded_rows rs, n)"
  by (cases rs) (simp_all add: stops_def loaded_def)

lemma msg_rows_idx:
  "msg_ok env \<Longrightarrow> msg_rows k env \<noteq> [] \<and> (\<forall>r \<in> set (msg_rows k env). br_event_idx r = k)"
  by (auto simp: msg_ok_def msg_rows_def snapshot_rows_def boundary_row_def level_row_def delta_row_def
      split: RecordKind.splits)

lemma next_idx_neq: "i64_wrap (int (Suc k)) \<noteq> i64_wrap (int k)"
proof
  assume "i64_wrap (int (Suc k)) = i64_wrap (int k)"
  then have "(int k + 1) mod 2 ^ 64 = int k mod 2 ^ 64" by (simp add: i64_wrap_eq_iff add.commute)
  then have "(int k + 1 - int k) mod 2 ^ 64 = 0" by (metis mod_eq_dvd_iff dvd_imp_mod_0)
  then show False by simp
qed

lemma log_stops:
  assumes "list_all msg_ok envs"
  shows "stops (i64_wrap (int k)) (log_rows (Suc k) envs)"
proof (cases envs)
  case (Cons env rest)
  with assms msg_rows_idx [of env "i64_wrap (int (Suc k))"] obtain r rs where
    "msg_rows (i64_wrap (int (Suc k))) env = r # rs" "br_event_idx r = i64_wrap (int (Suc k))"
    by (auto simp: neq_Nil_conv)
  with Cons next_idx_neq [of k] show ?thesis by (simp add: stops_def)
qed (simp add: stops_def)

text \<open>A snapshot with its rows comes back as itself.\<close>

lemma snapshot_group:
  assumes "stops k rs"
  shows "group_loop k (loaded_rows (snapshot_rows k env s) @ loaded_rows rs) n ([], []) =
    (Inr (load_levels_of (os_yes s), load_levels_of (os_no s)), loaded_rows rs, n + length (snapshot_rows k env s))"
proof (cases "os_yes s = [] \<and> os_no s = []")
  case True
  then show ?thesis
    using group_stops [OF assms]
    by (simp add: snapshot_rows_def loaded_def boundary_row_def push_level_def load_levels_of_def)
next
  case False
  then have "snapshot_rows k env s = map (level_row k env s ''yes'') (os_yes s) @ map (level_row k env s ''no'') (os_no s)"
    by (auto simp: snapshot_rows_def)
  then show ?thesis
    using group_stops [OF assms] by (simp add: group_levels load_levels_of_def)
qed

lemma log_stream:
  "list_all msg_ok envs \<Longrightarrow>
     no_errors (book_stream n (loaded_rows (log_rows k envs))) \<and>
     map snd (rights (book_stream n (loaded_rows (log_rows k envs)))) =
       map (\<lambda>(i, env). msg_event i env) (zip [k..<k + length envs] envs)"
proof (induction envs arbitrary: k n)
  case (Cons env envs)
  let ?k = "i64_wrap (int k)" and ?rest = "log_rows (Suc k) envs"
  have IH: "no_errors (book_stream n (loaded_rows ?rest)) \<and>
      map snd (rights (book_stream n (loaded_rows ?rest))) =
        map (\<lambda>(i, env). msg_event i env) (zip [Suc k..<Suc k + length envs] envs)" for n
    using Cons by simp
  have upt: "[k..<k + length (env # envs)] = k # [Suc k..<Suc k + length envs]"
    by (simp add: upt_conv_Cons del: upt_Suc)
  have st: "stops ?k ?rest" using Cons.prems by (intro log_stops) simp
  show ?case
  proof (cases "e_kind env")
    case (Snapshot s)
    obtain r rs where rows: "snapshot_rows ?k env s = r # rs"
      using msg_rows_idx [of env ?k] Cons.prems Snapshot by (auto simp: msg_rows_def neq_Nil_conv)
    have r: "ber_is_snapshot (loaded r)" "ber_event_idx (loaded r) = ?k" "ber_recv_ts_us (loaded r) = ts_us (e_recv_ts env)"
    proof -
      have "r \<in> set (snapshot_rows ?k env s)" using rows by simp
      then show "ber_is_snapshot (loaded r)" "ber_event_idx (loaded r) = ?k" "ber_recv_ts_us (loaded r) = ts_us (e_recv_ts env)"
        by (auto simp: snapshot_rows_def loaded_def boundary_row_def level_row_def split: if_splits)
    qed
    have "book_pull (loaded r) (loaded_rows rs @ loaded_rows ?rest) n =
        (Inr (book_key (loaded r) n, msg_event k env), loaded_rows ?rest, n + length (snapshot_rows ?k env s))"
      using snapshot_group [OF st, of env s n] r Snapshot rows by (simp add: book_pull_group)
    then have "book_stream n (loaded_rows (log_rows k (env # envs))) =
        Inr (book_key (loaded r) n, msg_event k env) # book_stream (n + length (snapshot_rows ?k env s)) (loaded_rows ?rest)"
      using Snapshot rows by (simp add: msg_rows_def del: msg_event.simps)
    then show ?thesis unfolding upt using IH by (simp del: msg_event.simps)
  next
    case (Delta d)
    have "book_pull (loaded (delta_row ?k env d)) (loaded_rows ?rest) n =
        (Inr (book_key (loaded (delta_row ?k env d)) n, msg_event k env), loaded_rows ?rest, n + 1)"
      using Delta by (simp add: book_pull_def loaded_def delta_row_def delta_event_def side_str_def Let_def split: Side.split)
    then have "book_stream n (loaded_rows (log_rows k (env # envs))) =
        Inr (book_key (loaded (delta_row ?k env d)) n, msg_event k env) # book_stream (n + 1) (loaded_rows ?rest)"
      using Delta by (simp add: msg_rows_def del: msg_event.simps)
    then show ?thesis unfolding upt using IH by (simp del: msg_event.simps)
  qed (use Cons.prems in \<open>simp_all add: msg_ok_def\<close>)
qed simp

text \<open>Applying the event of a message does to the book what the processor did.\<close>

lemma replay_msg:
  assumes "msg_ok env"
  shows "rp_book (replayer_apply (msg_event k env) r) = apply_msg env (rp_book r)"
proof -
  have "to_levels (load_levels_of ls) = ls" for ls
    by (induction ls) (simp_all add: to_levels_def load_levels_of_def)
  with assms show ?thesis
    by (auto simp: msg_ok_def apply_msg_def apply_snapshot_def apply_delta_def split: RecordKind.splits)
qed

lemma replay_msgs:
  assumes "list_all msg_ok envs" and "length ks = length envs"
  shows "rp_book (fold replayer_apply (map (\<lambda>(i, env). msg_event i env) (zip ks envs)) r) =
    fold apply_msg envs (rp_book r)"
  using assms(2,1)
proof (induction ks envs arbitrary: r rule: list_induct2)
  case (Cons k ks env envs)
  then show ?case by (simp add: replay_msg del: msg_event.simps)
qed simp

text \<open>Only the events of the book lane touch the book.\<close>

lemma replay_book_lane:
  "rp_book (fold replayer_apply evs r) = rp_book (fold replayer_apply (filter (\<lambda>ev. ev_lane ev = BookLane) evs) r)"
proof -
  have "concat (map ev_ops evs) = concat (map ev_ops (filter (\<lambda>ev. ev_lane ev = BookLane) evs))"
  proof (induction evs)
    case (Cons ev evs)
    then show ?case by (cases ev) simp_all
  qed simp
  then show ?thesis by (simp add: replayer_book)
qed

section \<open>Opening what was written\<close>

text \<open>What is relied on of a written table: its rows are read back in batches, in order.\<close>

definition reads_back :: "'b arrow \<Rightarrow> 'b \<Rightarrow> 'b list \<Rightarrow> bool" where
  "reads_back A b bs \<longleftrightarrow> (\<forall>n cols. batch_wf n cols \<and> holds A b n cols \<longrightarrow> chunked A cols n bs)"

definition stored :: "'b arrow \<Rightarrow> (string \<times> 'b) list \<Rightarrow> (string \<Rightarrow> LoadError + (string + 'b) list) \<Rightarrow> bool" where
  "stored A batches tables \<longleftrightarrow>
     (\<forall>name b. map_of batches (name @ ''.parquet'') = Some b \<longrightarrow>
        (\<exists>bs. tables name = Inr (map Inr bs) \<and> reads_back A b bs))"

lemma enumerate_ok_map:
  "enumerate_ok i (map (\<lambda>r. Inr (f r)) rs) = Inr (zip [i..<i + length rs] (map f rs))"
  by (induction rs arbitrary: i) (simp_all add: upt_conv_Cons del: upt_Suc)

lemma gap_stream_ok: "no_errors (gap_stream n (map (\<lambda>r. Inr (f r)) rs)) \<and>
    map snd (rights (gap_stream n (map (\<lambda>r. Inr (f r)) rs))) = map (\<lambda>r. gap_event (f r)) rs"
  by (induction rs arbitrary: n) simp_all

lemma step_only_violation:
  assumes "merge_step s x s'" and "\<forall>l. no_errors (fst s l)" and "x = Inl e"
  shows "\<exists>a b. e = OrderViolation a b"
  using assms(1)
proof cases
  case (lane_error S l e' xs prev)
  with assms(2) have "no_errors (Inl e' # xs)" by (metis fst_conv)
  then show ?thesis by simp
qed (use assms(3) in auto)

lemma run_only_violation:
  "merge_run s out \<Longrightarrow> \<forall>l. no_errors (fst s l) \<Longrightarrow> Inl e \<in> set out \<Longrightarrow> \<exists>a b. e = OrderViolation a b"
proof (induction rule: merge_run.induct)
  case (step s x s' xs)
  have "no_errors (fst s' l)" for l
  proof -
    from step_suffix [OF step.hyps(1), of l] obtain ys where "fst s l = ys @ fst s' l" by blast
    with step.prems(1) [rule_format, of l] show ?thesis by simp
  qed
  with step.IH step.prems step_only_violation [OF step.hyps(1)] show ?case by auto
qed simp

lemma msgs_ok: "list_all item_fits items \<Longrightarrow> list_all msg_ok (of_items item_msgs items)"
proof (induction items)
  case (Cons x items)
  obtain ch i where "x = (ch, i)" by (cases x)
  with Cons show ?case by (cases i) (auto simp: msg_ok_def split: RecordKind.splits)
qed simp

text \<open>The readers of the three tables of a converted ticker.\<close>

lemma written_tables:
  assumes "arrow_ok A" and "process_ticker P A ticker ''parquet'' dir ob tr = Inr (Some (oc, out))"
    and "stored A (out_batches out) tables"
  shows "open_table A tables ''gaps'' (decode_gap_row A) =
      Inr (map (\<lambda>r. Inr (loaded_gap r)) (all_gaps P ticker (input_items P ob tr)))"
    and "open_table A tables ''book_events'' (decode_book_row A) =
      Inr (loaded_rows (log_rows 0 (of_items item_msgs (input_items P ob tr))))"
    and "open_table A tables ''trades'' (decode_trade_row A) =
      Inr (map (\<lambda>r. Inr (loaded_trade r)) (of_items item_trades (input_items P ob tr)))"
proof -
  let ?items = "input_items P ob tr"
  let ?rows = "log_rows 0 (of_items item_msgs ?items)" and ?gs = "all_gaps P ticker ?items"
    and ?ts = "of_items item_trades ?items"
  obtain p sf where ac: "accounts P ?items p" and c: "conclude P A ticker ''parquet'' dir p sf = Inr (oc, out)"
    using process_ticker_ok [OF assms(1,2)] by (elim exE conjE)
  obtain f where r: "report P A ticker ''parquet'' dir p sf f = (oc, out)"
    and n: "ct_raw (finished_counts A f) = length (of_items item_raws ?items)"
    and h: "holds A (fin_book_events f) (length ?rows) (be_columns (be_of_rows ?rows))"
      "holds A (fin_trades f) (length ?ts) (tt_columns (tt_of_trades ?ts))"
      "holds A (fin_gaps f) (length ?gs) (gt_columns (gt_of_gaps ?gs))"
    using conclude_ok [OF assms(1) ac, of ticker "''parquet''" dir sf] c by auto
  have "ar_num_rows A (fin_raw f) = length (of_items item_raws ?items)"
    using n by (simp add: finished_counts_def)
  note m = report_facts(8-10) [OF ac r this]
  have st: "\<exists>bs. tables name = Inr (map Inr bs) \<and> reads_back A b bs"
    if "map_of (out_batches out) (name @ ''.parquet'') = Some b" for name b
    using assms(3) that unfolding stored_def by blast
  have opened: "open_table A tables name decode = Inr (reader_items A decode name 0 (map Inr bs))"
    if "tables name = Inr (map Inr bs)" for name decode bs
    using that by (simp add: open_table_def RowIter_open_def row_items_def)
  from st [of "''gaps''"] m(3) obtain gb where g: "tables ''gaps'' = Inr (map Inr gb)" "reads_back A (fin_gaps f) gb"
    by auto
  show "open_table A tables ''gaps'' (decode_gap_row A) = Inr (map (\<lambda>r. Inr (loaded_gap r)) ?gs)"
    unfolding opened [OF g(1)]
    using read_gap_rows g(2) h(3) gt_wf [of ?gs] unfolding reads_back_def by blast
  from st [of "''book_events''"] m(1) obtain bb where
    b: "tables ''book_events'' = Inr (map Inr bb)" "reads_back A (fin_book_events f) bb" by auto
  show "open_table A tables ''book_events'' (decode_book_row A) = Inr (loaded_rows ?rows)"
    unfolding opened [OF b(1)] loaded_rows_def
    using read_book_rows [OF _ log_rows_ok] b(2) h(1) be_wf [of ?rows] unfolding reads_back_def by blast
  from st [of "''trades''"] m(2) obtain tb where
    t: "tables ''trades'' = Inr (map Inr tb)" "reads_back A (fin_trades f) tb" by auto
  show "open_table A tables ''trades'' (decode_trade_row A) = Inr (map (\<lambda>r. Inr (loaded_trade r)) ?ts)"
    unfolding opened [OF t(1)]
    using read_trade_rows t(2) h(2) tt_wf [of ?ts] unfolding reads_back_def by blast
qed

text \<open>A plain store that keeps each batch as it is satisfies the hypotheses.\<close>

lemma take_drop_all:
  "col_len a = n \<Longrightarrow> take_col n a = a" "col_len a = n \<Longrightarrow> col_len (drop_col n a) = 0"
  by (cases a; auto)+

lemma reads_back_whole: "reads_back A b [b]"
proof -
  have "map_cols (take_col n) cols = cols" if "batch_wf n cols" for n cols
    unfolding map_cols_def by (rule map_idI) (use that in \<open>auto simp: batch_wf_def list_all_iff take_drop_all\<close>)
  then show ?thesis by (auto simp: reads_back_def holds_def)
qed

lemma rights_trade_stream: "map snd (rights (trade_stream rs)) = map (\<lambda>(i, row). trade_event row) rs"
  by (induction rs) (auto simp: trade_stream_def)

section \<open>From the files of a capture to the replayed book\<close>

lemma capture_replay:
  assumes "arrow_ok A" and "process_ticker P A ticker ''parquet'' dir ob tr = Inr (Some (oc, out))"
    and "stored A (out_batches out) tables"
  shows "\<exists>it. EventIter_open A tables = Inr it \<and>
    (\<forall>e. Inl e \<in> set (event_items it) \<longrightarrow> (\<exists>a b. e = OrderViolation a b)) \<and>
    (no_errors (event_items it) \<longrightarrow>
       rp_book (fold replayer_apply (rights (event_items it)) BookReplayer_default) =
         fold apply_msg (of_items item_msgs (input_items P ob tr)) Book_default \<and>
       filter (\<lambda>ev. ev_lane ev = GapLane) (rights (event_items it)) =
         map (\<lambda>r. gap_event (loaded_gap r)) (all_gaps P ticker (input_items P ob tr)) \<and>
       filter (\<lambda>ev. ev_lane ev = TradeLane) (rights (event_items it)) =
         map (\<lambda>(i, row). trade_event row) (sort_key (\<lambda>(i, r). trade_key r i)
           (dedup_trades (zip [0..<length (of_items item_trades (input_items P ob tr))]
              (map loaded_trade (of_items item_trades (input_items P ob tr)))))))"
proof -
  let ?items = "input_items P ob tr"
  let ?msgs = "of_items item_msgs ?items" and ?ts = "of_items item_trades ?items"
    and ?gs = "all_gaps P ticker ?items"
  let ?g = "map (\<lambda>r. Inr (loaded_gap r)) ?gs" and ?b = "loaded_rows (log_rows 0 ?msgs)"
    and ?t = "map (\<lambda>r. Inr (loaded_trade r)) ?ts"
  have en: "enumerate_ok 0 ?t = Inr (zip [0..<length ?ts] (map loaded_trade ?ts))"
    by (simp add: enumerate_ok_map)
  then obtain it where fs: "from_sources ?g ?b ?t = Inr it"
    by (simp add: from_sources_def Let_def)
  have op: "EventIter_open A tables = Inr it"
    by (simp add: EventIter_open_def written_tables [OF assms] fs)
  have "list_all item_fits ?items"
    using process_ticker_result [OF assms(1), of ob tr P ticker "''parquet''" dir] assms(2)
    by (cases "ob = [] \<and> tr = []") (auto simp: process_ticker_def split: if_splits)
  then have ok: "list_all msg_ok ?msgs" by (rule msgs_ok)
  note lg = log_stream [OF ok, of 0 0]
  obtain rows where o: "enumerate_ok 0 ?t = Inr rows" "stream_of it GapLane = gap_stream 0 ?g"
    "stream_of it BookLane = book_stream 0 ?b"
    "stream_of it TradeLane = trade_stream (sort_key (\<lambda>(i, r). trade_key r i) (dedup_trades rows))"
    using open_state [OF fs] by blast
  have ne: "\<forall>l. no_errors (stream_of it l)"
  proof
    fix l
    show "no_errors (stream_of it l)"
      using o gap_stream_ok [of 0 loaded_gap ?gs] lg trade_lane_ordered
      by (cases l) (simp_all add: key_ordered_def)
  qed
  have viol: "\<exists>a b. e = OrderViolation a b" if "Inl e \<in> set (event_items it)" for e
    using run_only_violation [OF open_run(1) [OF fs]] ne that by simp
  have lanes: "filter (\<lambda>ev. ev_lane ev = l) (rights (event_items it)) = map snd (rights (stream_of it l))"
    if "no_errors (event_items it)" for l
    using run_complete [OF open_run(1) [OF fs], simplified, OF open_run(2) [OF fs] that] by blast
  have "rp_book (fold replayer_apply (rights (event_items it)) BookReplayer_default) = fold apply_msg ?msgs Book_default"
    if "no_errors (event_items it)"
    using lanes [OF that, of BookLane] lg replay_msgs [OF ok, of "[0..<0 + length ?msgs]" BookReplayer_default]
    by (subst replay_book_lane) (simp add: o(3) BookReplayer_default_def del: msg_event.simps)
  moreover have "filter (\<lambda>ev. ev_lane ev = GapLane) (rights (event_items it)) = map (\<lambda>r. gap_event (loaded_gap r)) ?gs"
    if "no_errors (event_items it)"
    using lanes [OF that, of GapLane] gap_stream_ok [of 0 loaded_gap ?gs] by (simp add: o(2))
  moreover have "filter (\<lambda>ev. ev_lane ev = TradeLane) (rights (event_items it)) =
      map (\<lambda>(i, row). trade_event row) (sort_key (\<lambda>(i, r). trade_key r i)
        (dedup_trades (zip [0..<length ?ts] (map loaded_trade ?ts))))"
    if "no_errors (event_items it)"
    using lanes [OF that, of TradeLane] o(1,4) en by (simp add: rights_trade_stream)
  ultimately show ?thesis using op viol by blast
qed

end
