(* ===== verification/Protocol.thy ===== *)
theory Protocol
  imports Records
begin

text \<open>
  The decoder of WebSocket text frames, \<^verbatim>\<open>crates/kdp-kalshi/src/ws/protocol.rs\<close>: every text becomes
  a typed record, a control frame, a server error, or a raw fallback that keeps what could not
  be decoded.

  JSON parsing and printing (\<^verbatim>\<open>serde_json\<close>) and the quoting of a text by \<^verbatim>\<open>{:?}\<close> are the parameters
  \<open>json_lib\<close>; nothing is assumed of them. An object is an association list with distinct keys.
  Each message of a decoding failure is a constructor of \<open>err_msg\<close>, and \<open>err_text\<close> writes the text
  of it as the format strings of the code do.

  The specification is \<open>denotes\<close>: what a message of the wire means as a record, stated with exact
  rational values instead of the parser. The lemmas show that the decoder produces exactly the
  records the message denotes, and that whatever it cannot decode is kept.
\<close>

section \<open>JSON access\<close>

record json_lib =
  js_from_str :: "string \<Rightarrow> string + json"
  js_to_string :: "json \<Rightarrow> string"
  js_debug :: "string \<Rightarrow> string"

fun json_get :: "string \<Rightarrow> json \<Rightarrow> json option" where
  "json_get k (JObject kvs) = map_of kvs k"
| "json_get k _ = None"

fun as_str :: "json \<Rightarrow> string option" where
  "as_str (JString s) = Some s"
| "as_str _ = None"

fun as_i64 :: "json \<Rightarrow> i64 option" where
  "as_i64 (JInt i) = (if i64_range i then Some i else None)"
| "as_i64 _ = None"

fun as_u64 :: "json \<Rightarrow> u64 option" where
  "as_u64 (JInt i) = (if 0 \<le> i \<and> i < 2 ^ 64 then Some (word_of_int i) else None)"
| "as_u64 _ = None"

fun as_array :: "json \<Rightarrow> json list option" where
  "as_array (JArray xs) = Some xs"
| "as_array _ = None"

section \<open>Error texts\<close>

definition quoted :: "string \<Rightarrow> string" where
  "quoted s = CHR 0x27 # s @ [CHR 0x27]"

fun show_fixed_point :: "(string \<Rightarrow> string) \<Rightarrow> FixedPointError \<Rightarrow> string" where
  "show_fixed_point dbg Empty = ''empty fixed-point string''"
| "show_fixed_point dbg (NotNumeric s) = ''not a numeric fixed-point value: '' @ dbg s"
| "show_fixed_point dbg (TooManyDecimals mx s) =
     ''too many decimal places (max '' @ show_nat mx @ ''): '' @ dbg s"
| "show_fixed_point dbg (Overflow s) = ''fixed-point value out of range: '' @ dbg s"
| "show_fixed_point dbg (Negative s) = ''negative value not allowed here: '' @ dbg s"

fun err_text :: "json_lib \<Rightarrow> err_msg \<Rightarrow> string" where
  "err_text L (EInvalidJson e) = ''invalid JSON frame: '' @ e"
| "err_text L (EUnknownFrameType t) = ''unknown frame type '' @ js_debug L t"
| "err_text L EMissingType = ''frame missing string '' @ quoted ''type''"
| "err_text L EMissingMsg = ''frame missing '' @ quoted ''msg'' @ '' object''"
| "err_text L (EMissingStringField k) = ''missing string field '' @ js_debug L k"
| "err_text L (EInvalidSide s) =
     ''invalid side '' @ (case s of None \<Rightarrow> ''None'' | Some x \<Rightarrow> ''Some('' @ js_debug L x @ '')'')"
| "err_text L (EField k s e) = k @ '' '' @ js_debug L s @ '': '' @ show_fixed_point (js_debug L) e"
| "err_text L (EUnknownTakerBookSide j) = ''unknown taker_book_side '' @ js_to_string L j"
| "err_text L ENonArrayLevels = ''non-array levels''"
| "err_text L ELevelNotArray = ''level is not an array''"
| "err_text L ELevelPriceNotString = ''level price not a string''"
| "err_text L ELevelSizeNotString = ''level size not a string''"
| "err_text L (ELevelPrice s e) = ''level price '' @ js_debug L s @ '': '' @ show_fixed_point (js_debug L) e"
| "err_text L (ELevelSize s e) = ''level size '' @ js_debug L s @ '': '' @ show_fixed_point (js_debug L) e"

section \<open>Frames\<close>

definition CHANNEL_ORDERBOOK :: string where
  "CHANNEL_ORDERBOOK = ''orderbook''"

definition CHANNEL_TRADE :: string where
  "CHANNEL_TRADE = ''trade''"

datatype FrameOutcome =
    FData string Ticker RecordKind
  | FControl string
  | FServerError string
  | FRaw "string option" "Ticker option" RawFallback

record DecodedFrame =
  df_sid :: "i64 option"
  df_seq :: "u64 option"
  df_outcome :: FrameOutcome

definition raw_outcome ::
    "string option \<Rightarrow> string option \<Rightarrow> Ticker option \<Rightarrow> string \<Rightarrow> json \<Rightarrow> FrameOutcome" where
  "raw_outcome raw_type channel ticker error payload =
     FRaw channel ticker
       \<lparr>rf_raw_type = raw_type, rf_ticker = ticker, rf_error = error, rf_payload = payload\<rparr>"

section \<open>Field decoders\<close>

definition str_field :: "json \<Rightarrow> string \<Rightarrow> err_msg + string" where
  "str_field msg k =
     (case Option.bind (json_get k msg) as_str of
        Some s \<Rightarrow> Inr s
      | None \<Rightarrow> Inl (EMissingStringField k))"

definition ticker_of :: "json \<Rightarrow> err_msg + Ticker" where
  "ticker_of msg = str_field msg ''market_ticker''"

definition side_of :: "json option \<Rightarrow> err_msg + Side" where
  "side_of v =
     (let other = Option.bind v as_str in
      if other = Some ''yes'' then Inr Yes
      else if other = Some ''no'' then Inr No
      else Inl (EInvalidSide other))"

definition map_err :: "('e \<Rightarrow> 'f) \<Rightarrow> 'e + 'a \<Rightarrow> 'f + 'a" where
  "map_err f r = map_sum f id r"

definition ok_or :: "'a option \<Rightarrow> 'e \<Rightarrow> 'e + 'a" where
  "ok_or v e = (case v of Some x \<Rightarrow> Inr x | None \<Rightarrow> Inl e)"

definition array_get :: "json list \<Rightarrow> nat \<Rightarrow> json option" where
  "array_get xs i = (if i < length xs then Some (xs ! i) else None)"

definition decode_level :: "json \<Rightarrow> err_msg + PriceLevel" where
  "decode_level level =
     and_then (ok_or (as_array level) ELevelNotArray) (\<lambda>pair.
     and_then (ok_or (Option.bind (array_get pair 0) as_str) ELevelPriceNotString) (\<lambda>price_s.
     and_then (ok_or (Option.bind (array_get pair 1) as_str) ELevelSizeNotString) (\<lambda>size_s.
     and_then (map_err (ELevelPrice price_s) (MicroDollars_parse price_s)) (\<lambda>price.
     and_then (map_err (ELevelSize size_s) (RestingQty_parse size_s)) (\<lambda>quantity.
       Inr \<lparr>pl_price = price, pl_quantity = quantity\<rparr>)))))"

fun decode_level_loop :: "json list \<Rightarrow> err_msg + PriceLevel list" where
  "decode_level_loop [] = Inr []"
| "decode_level_loop (level # array) =
     and_then (decode_level level) (\<lambda>l. and_then (decode_level_loop array) (\<lambda>ls. Inr (l # ls)))"

definition decode_levels :: "json option \<Rightarrow> err_msg + PriceLevel list" where
  "decode_levels v =
     (case v of
        None \<Rightarrow> Inr []
      | Some JNull \<Rightarrow> Inr []
      | Some present \<Rightarrow> and_then (ok_or (as_array present) ENonArrayLevels) decode_level_loop)"

definition wire_ts :: "json \<Rightarrow> Timestamp \<Rightarrow> Timestamp" where
  "wire_ts msg recv_ts =
     (case Option.bind (Option.bind (json_get ''ts_ms'' msg) as_i64) from_timestamp_millis of
        Some ts \<Rightarrow> ts
      | None \<Rightarrow> recv_ts)"

definition book_side_of :: "json option \<Rightarrow> err_msg + BookSide option" where
  "book_side_of v =
     (case v of
        None \<Rightarrow> Inr None
      | Some JNull \<Rightarrow> Inr None
      | Some other \<Rightarrow>
          if other = JString ''bid'' then Inr (Some Bid)
          else if other = JString ''ask'' then Inr (Some Ask)
          else Inl (EUnknownTakerBookSide other))"

section \<open>Record decoders\<close>

definition decode_snapshot :: "json \<Rightarrow> Timestamp \<Rightarrow> err_msg + Ticker \<times> RecordKind" where
  "decode_snapshot msg recv_ts =
     and_then (ticker_of msg) (\<lambda>ticker.
     and_then (decode_levels (json_get ''yes_dollars_fp'' msg)) (\<lambda>yes.
     and_then (decode_levels (json_get ''no_dollars_fp'' msg)) (\<lambda>no.
       Inr (ticker, Snapshot \<lparr>os_ticker = ticker, os_ts = recv_ts, os_yes = yes, os_no = no\<rparr>))))"

definition decode_delta :: "json \<Rightarrow> Timestamp \<Rightarrow> err_msg + Ticker \<times> RecordKind" where
  "decode_delta msg recv_ts =
     and_then (ticker_of msg) (\<lambda>ticker.
     and_then (side_of (json_get ''side'' msg)) (\<lambda>side.
     and_then (str_field msg ''price_dollars'') (\<lambda>price_s.
     and_then (map_err (EField ''price_dollars'' price_s) (MicroDollars_parse price_s)) (\<lambda>price.
     and_then (str_field msg ''delta_fp'') (\<lambda>delta_s.
     and_then (map_err (EField ''delta_fp'' delta_s) (QtyDelta_parse delta_s)) (\<lambda>delta.
       Inr (ticker, Delta \<lparr>od_ticker = ticker, od_ts = wire_ts msg recv_ts, od_side = side,
                           od_price = price, od_delta = delta\<rparr>)))))))"

definition decode_trade :: "json \<Rightarrow> Timestamp \<Rightarrow> err_msg + Ticker \<times> RecordKind" where
  "decode_trade msg recv_ts =
     and_then (ticker_of msg) (\<lambda>ticker.
     and_then (str_field msg ''yes_price_dollars'') (\<lambda>price_s.
     and_then (map_err (EField ''yes_price_dollars'' price_s) (MicroDollars_parse price_s)) (\<lambda>price.
     and_then (str_field msg ''count_fp'') (\<lambda>count_s.
     and_then (map_err (EField ''count_fp'' count_s) (RestingQty_parse count_s)) (\<lambda>count.
     and_then (side_of (json_get ''taker_outcome_side'' msg)) (\<lambda>taker_side.
     and_then (book_side_of (json_get ''taker_book_side'' msg)) (\<lambda>taker_book_side.
       Inr (ticker, TradeRec \<lparr>t_ticker = ticker, t_ts = wire_ts msg recv_ts, t_price = price,
              t_count = count, t_taker_side = taker_side, t_taker_book_side = taker_book_side,
              t_trade_id = Option.bind (json_get ''trade_id'' msg) as_str\<rparr>))))))))"

section \<open>The frame decoder\<close>

definition decode_data ::
    "json_lib \<Rightarrow> string \<Rightarrow> string \<Rightarrow> json option \<Rightarrow> (json \<Rightarrow> err_msg + Ticker \<times> RecordKind) \<Rightarrow>
     FrameOutcome" where
  "decode_data L channel raw_type msg decode =
     (case msg of
        None \<Rightarrow> raw_outcome (Some raw_type) (Some channel) None (err_text L EMissingMsg) JNull
      | Some m \<Rightarrow>
          (case decode m of
             Inr (ticker, rec) \<Rightarrow> FData channel ticker rec
           | Inl e \<Rightarrow>
               raw_outcome (Some raw_type) (Some channel)
                 (Option.bind (json_get ''market_ticker'' m) as_str) (err_text L e) m))"

definition error_detail :: "json_lib \<Rightarrow> json \<Rightarrow> string" where
  "error_detail L v =
     (case json_get ''msg'' v of
        None \<Rightarrow> js_to_string L v
      | Some m \<Rightarrow>
          (case Option.bind (json_get ''msg'' m) as_str of
             Some s \<Rightarrow> s
           | None \<Rightarrow> js_to_string L m))"

definition classify_frame :: "json_lib \<Rightarrow> json \<Rightarrow> Timestamp \<Rightarrow> FrameOutcome" where
  "classify_frame L v recv_ts =
     (let msg = json_get ''msg'' v in
      case Option.bind (json_get ''type'' v) as_str of
        None \<Rightarrow> raw_outcome None None None (err_text L EMissingType) v
      | Some ty \<Rightarrow>
          if ty = ''orderbook_snapshot'' then
            decode_data L CHANNEL_ORDERBOOK ''orderbook_snapshot'' msg (\<lambda>m. decode_snapshot m recv_ts)
          else if ty = ''orderbook_delta'' then
            decode_data L CHANNEL_ORDERBOOK ''orderbook_delta'' msg (\<lambda>m. decode_delta m recv_ts)
          else if ty = ''trade'' then
            decode_data L CHANNEL_TRADE ''trade'' msg (\<lambda>m. decode_trade m recv_ts)
          else if ty = ''subscribed'' \<or> ty = ''ok'' then FControl ty
          else if ty = ''error'' then FServerError (error_detail L v)
          else raw_outcome (Some ty) None None (err_text L (EUnknownFrameType ty))
                 (case msg of Some m \<Rightarrow> m | None \<Rightarrow> v))"

definition decode_frame :: "json_lib \<Rightarrow> string \<Rightarrow> Timestamp \<Rightarrow> DecodedFrame" where
  "decode_frame L text recv_ts =
     (case js_from_str L text of
        Inl e \<Rightarrow>
          \<lparr>df_sid = None, df_seq = None,
           df_outcome = raw_outcome None None None (err_text L (EInvalidJson e)) (JString text)\<rparr>
      | Inr v \<Rightarrow>
          \<lparr>df_sid = Option.bind (json_get ''sid'' v) as_i64,
           df_seq = Option.bind (json_get ''seq'' v) as_u64,
           df_outcome = classify_frame L v recv_ts\<rparr>)"

section \<open>What a message denotes\<close>

text \<open>
  The meaning of the three data messages, in exact rational arithmetic: a price text denotes the
  price whose micro-dollars are its millionfold, a size text the size whose hundredth it is.
\<close>

definition text_of :: "json \<Rightarrow> string \<Rightarrow> string \<Rightarrow> bool" where
  "text_of msg k s \<longleftrightarrow> json_get k msg = Some (JString s)"

definition price_text :: "string \<Rightarrow> u32 \<Rightarrow> bool" where
  "price_text s p \<longleftrightarrow> (\<exists>ip fp. decimal_literal s ip fp \<and> length fp \<le> 6 \<and>
     of_nat (unat p) / 10 ^ 6 = literal_value ip fp)"

definition size_text :: "string \<Rightarrow> u64 \<Rightarrow> bool" where
  "size_text s q \<longleftrightarrow> (\<exists>ip fp. decimal_literal s ip fp \<and> length fp \<le> 2 \<and>
     of_nat (unat q) / 10 ^ 2 = literal_value ip fp)"

definition change_text :: "string \<Rightarrow> i64 \<Rightarrow> bool" where
  "change_text s d \<longleftrightarrow> (\<exists>neg body ip fp. s = (if neg then minus_sign # body else body) \<and>
     decimal_literal body ip fp \<and> length fp \<le> 2 \<and> i64_range d \<and>
     of_int d / 10 ^ 2 = (if neg then - literal_value ip fp else literal_value ip fp))"

definition level_denotes :: "json \<Rightarrow> PriceLevel \<Rightarrow> bool" where
  "level_denotes j l \<longleftrightarrow>
     (\<exists>p s rest. j = JArray (JString p # JString s # rest) \<and>
        price_text p (pl_price l) \<and> size_text s (pl_quantity l))"

definition levels_denote :: "json option \<Rightarrow> PriceLevel list \<Rightarrow> bool" where
  "levels_denote v ls \<longleftrightarrow>
     (v = None \<or> v = Some JNull) \<and> ls = [] \<or>
     (\<exists>js. v = Some (JArray js) \<and> list_all2 level_denotes js ls)"

definition side_text :: "Side \<Rightarrow> string" where
  "side_text s = (case s of Yes \<Rightarrow> ''yes'' | No \<Rightarrow> ''no'')"

definition instant_denotes :: "json \<Rightarrow> Timestamp \<Rightarrow> Timestamp \<Rightarrow> bool" where
  "instant_denotes msg recv_ts ts \<longleftrightarrow>
     (if \<exists>ms. json_get ''ts_ms'' msg = Some (JInt ms) \<and> micros_ok (ms * 1000)
      then json_get ''ts_ms'' msg = Some (JInt (ts div 1000000)) \<and> 1000000 dvd ts
      else ts = recv_ts)"

fun denotes :: "json \<Rightarrow> Timestamp \<Rightarrow> Ticker \<Rightarrow> RecordKind \<Rightarrow> bool" where
  "denotes msg recv_ts t (Snapshot s) \<longleftrightarrow>
     text_of msg ''market_ticker'' t \<and> os_ticker s = t \<and> os_ts s = recv_ts \<and>
     levels_denote (json_get ''yes_dollars_fp'' msg) (os_yes s) \<and>
     levels_denote (json_get ''no_dollars_fp'' msg) (os_no s)"
| "denotes msg recv_ts t (Delta d) \<longleftrightarrow>
     text_of msg ''market_ticker'' t \<and> od_ticker d = t \<and> instant_denotes msg recv_ts (od_ts d) \<and>
     text_of msg ''side'' (side_text (od_side d)) \<and>
     (\<exists>p. text_of msg ''price_dollars'' p \<and> price_text p (od_price d)) \<and>
     (\<exists>c. text_of msg ''delta_fp'' c \<and> change_text c (od_delta d))"
| "denotes msg recv_ts t (TradeRec r) \<longleftrightarrow>
     text_of msg ''market_ticker'' t \<and> t_ticker r = t \<and> instant_denotes msg recv_ts (t_ts r) \<and>
     (\<exists>p. text_of msg ''yes_price_dollars'' p \<and> price_text p (t_price r)) \<and>
     (\<exists>c. text_of msg ''count_fp'' c \<and> size_text c (t_count r)) \<and>
     text_of msg ''taker_outcome_side'' (side_text (t_taker_side r)) \<and>
     (case t_taker_book_side r of
        None \<Rightarrow> json_get ''taker_book_side'' msg = None \<or> json_get ''taker_book_side'' msg = Some JNull
      | Some Bid \<Rightarrow> text_of msg ''taker_book_side'' ''bid''
      | Some Ask \<Rightarrow> text_of msg ''taker_book_side'' ''ask'') \<and>
     (case t_trade_id r of
        Some i \<Rightarrow> text_of msg ''trade_id'' i
      | None \<Rightarrow> \<nexists>i. text_of msg ''trade_id'' i)"
| "denotes msg recv_ts t _ \<longleftrightarrow> False"

section \<open>The decoders compute the meaning\<close>

lemma as_str_iff: "as_str j = Some s \<longleftrightarrow> j = JString s"
  by (cases j) auto

lemma as_array_iff: "as_array j = Some xs \<longleftrightarrow> j = JArray xs"
  by (cases j) auto

lemma get_str_iff: "Option.bind (json_get k msg) as_str = Some s \<longleftrightarrow> text_of msg k s"
  by (auto simp: text_of_def as_str_iff Option.bind_eq_Some_conv)

lemma ok_or_iff [simp]: "ok_or v e = Inr x \<longleftrightarrow> v = Some x"
  by (simp add: ok_or_def split: option.split)

lemma map_err_iff [simp]: "map_err f r = Inr x \<longleftrightarrow> r = Inr x"
  by (cases r) (auto simp: map_err_def)

lemma str_field_iff [simp]: "str_field msg k = Inr s \<longleftrightarrow> text_of msg k s"
  by (auto simp: str_field_def split: option.split simp flip: get_str_iff)

lemma ticker_of_iff [simp]: "ticker_of msg = Inr t \<longleftrightarrow> text_of msg ''market_ticker'' t"
  by (simp add: ticker_of_def)

lemma side_of_iff [simp]: "side_of (json_get k msg) = Inr s \<longleftrightarrow> text_of msg k (side_text s)"
  by (cases s) (auto simp: side_of_def Let_def side_text_def simp flip: get_str_iff)

lemma parse_text_iff [simp]:
  "MicroDollars_parse s = Inr p \<longleftrightarrow> price_text s p"
  "RestingQty_parse s = Inr q \<longleftrightarrow> size_text s q"
  "QtyDelta_parse s = Inr d \<longleftrightarrow> change_text s d"
  by (simp_all only: MicroDollars_parse_iff RestingQty_parse_iff QtyDelta_parse_iff
      price_text_def size_text_def change_text_def)

lemma pair_strings:
  "Option.bind (array_get xs 0) as_str = Some p \<and> Option.bind (array_get xs 1) as_str = Some s \<longleftrightarrow>
     (\<exists>rest. xs = JString p # JString s # rest)"
proof (cases xs)
  case (Cons a ys)
  then show ?thesis by (cases ys) (auto simp: array_get_def as_str_iff)
qed (simp add: array_get_def)

lemma decode_level_iff: "decode_level j = Inr l \<longleftrightarrow> level_denotes j l"
proof -
  have "decode_level j = Inr l \<longleftrightarrow> (\<exists>xs p s. j = JArray xs \<and>
      (Option.bind (array_get xs 0) as_str = Some p \<and> Option.bind (array_get xs 1) as_str = Some s) \<and>
      price_text p (pl_price l) \<and> size_text s (pl_quantity l))"
    by (cases l) (auto simp: decode_level_def and_then_Inr_iff as_array_iff)
  then show ?thesis
    unfolding pair_strings by (auto simp: level_denotes_def)
qed

lemma decode_level_loop_iff: "decode_level_loop js = Inr ls \<longleftrightarrow> list_all2 level_denotes js ls"
  by (induction js arbitrary: ls) (auto simp: and_then_Inr_iff decode_level_iff list_all2_Cons1)

lemma decode_levels_iff [simp]: "decode_levels v = Inr ls \<longleftrightarrow> levels_denote v ls"
proof (cases v)
  case (Some j)
  then show ?thesis
    by (cases j) (auto simp: decode_levels_def levels_denote_def and_then_Inr_iff as_array_iff
        decode_level_loop_iff)
qed (auto simp: decode_levels_def levels_denote_def)

lemma book_side_of_iff [simp]:
  "book_side_of (json_get k msg) = Inr b \<longleftrightarrow>
     (case b of
        None \<Rightarrow> json_get k msg = None \<or> json_get k msg = Some JNull
      | Some Bid \<Rightarrow> text_of msg k ''bid''
      | Some Ask \<Rightarrow> text_of msg k ''ask'')"
  by (auto simp: book_side_of_def text_of_def split: option.split json.split BookSide.split)

lemma micros_range: "micros_ok (ms * 1000) \<Longrightarrow> i64_range ms"
  by (simp add: micros_ok_def i64_range_def)

lemma as_i64_iff: "as_i64 j = Some i \<longleftrightarrow> j = JInt i \<and> i64_range i"
  by (cases j) auto

lemma wire_ts_iff: "wire_ts msg recv_ts = ts \<longleftrightarrow> instant_denotes msg recv_ts ts"
proof (cases "\<exists>ms. json_get ''ts_ms'' msg = Some (JInt ms) \<and> micros_ok (ms * 1000)")
  case True
  then obtain ms where ms: "json_get ''ts_ms'' msg = Some (JInt ms)" "micros_ok (ms * 1000)"
    by blast
  then have "wire_ts msg recv_ts = ms * 1000000"
    by (simp add: wire_ts_def micros_range from_timestamp_millis_def)
  with ms show ?thesis by (auto simp: instant_denotes_def)
next
  case False
  then have "Option.bind (Option.bind (json_get ''ts_ms'' msg) as_i64) from_timestamp_millis \<noteq> Some x" for x
    by (auto simp: from_timestamp_millis_def as_i64_iff Option.bind_eq_Some_conv)
  then have "Option.bind (Option.bind (json_get ''ts_ms'' msg) as_i64) from_timestamp_millis = None"
    by (meson option.exhaust)
  then show ?thesis
    unfolding instant_denotes_def if_not_P [OF False] by (auto simp: wire_ts_def)
qed

lemma decode_snapshot_iff:
  "decode_snapshot msg recv_ts = Inr (t, r) \<longleftrightarrow> (\<exists>s. r = Snapshot s) \<and> denotes msg recv_ts t r"
proof (cases r)
  case (Snapshot s)
  then show ?thesis by (cases s) (auto simp: decode_snapshot_def and_then_Inr_iff)
qed (auto simp: decode_snapshot_def and_then_Inr_iff)

lemma decode_delta_iff:
  "decode_delta msg recv_ts = Inr (t, r) \<longleftrightarrow> (\<exists>d. r = Delta d) \<and> denotes msg recv_ts t r"
proof (cases r)
  case (Delta d)
  then show ?thesis
    by (cases d) (fastforce simp: decode_delta_def and_then_Inr_iff simp flip: wire_ts_iff)
qed (auto simp: decode_delta_def and_then_Inr_iff)

lemma trade_id_iff:
  "Option.bind (json_get k msg) as_str = i \<longleftrightarrow>
     (case i of Some x \<Rightarrow> text_of msg k x | None \<Rightarrow> \<nexists>x. text_of msg k x)"
  by (cases i) (auto simp flip: get_str_iff)

lemma decode_trade_iff:
  "decode_trade msg recv_ts = Inr (t, r) \<longleftrightarrow> (\<exists>d. r = TradeRec d) \<and> denotes msg recv_ts t r"
proof (cases r)
  case (TradeRec d)
  then show ?thesis
    by (cases d) (fastforce simp: decode_trade_def and_then_Inr_iff simp flip: wire_ts_iff trade_id_iff)
qed (auto simp: decode_trade_def and_then_Inr_iff)

section \<open>The frame\<close>

text \<open>The record decoder and the channel of each type of a data frame.\<close>

fun kind_of_type :: "string \<Rightarrow> RecordKind \<Rightarrow> bool" where
  "kind_of_type ty (Snapshot _) \<longleftrightarrow> ty = ''orderbook_snapshot''"
| "kind_of_type ty (Delta _) \<longleftrightarrow> ty = ''orderbook_delta''"
| "kind_of_type ty (TradeRec _) \<longleftrightarrow> ty = ''trade''"
| "kind_of_type ty _ \<longleftrightarrow> False"

definition channel_of_type :: "string \<Rightarrow> string" where
  "channel_of_type ty = (if ty = ''trade'' then ''trade'' else ''orderbook'')"

definition data_types :: "string set" where
  "data_types = {''orderbook_snapshot'', ''orderbook_delta'', ''trade''}"

lemma decode_data_FData:
  "decode_data L ch ty msg dec = FData c t r \<longleftrightarrow> c = ch \<and> (\<exists>m. msg = Some m \<and> dec m = Inr (t, r))"
  by (auto simp: decode_data_def raw_outcome_def split: option.split sum.split)

lemma raw_outcome_not_data [simp]:
  "raw_outcome rt ch tk e p \<noteq> FData c t r" "raw_outcome rt ch tk e p \<noteq> FControl ty"
  "raw_outcome rt ch tk e p \<noteq> FServerError d"
  by (simp_all add: raw_outcome_def)

lemma kind_of_type_iff:
  "kind_of_type ''orderbook_snapshot'' r \<longleftrightarrow> (\<exists>s. r = Snapshot s)"
  "kind_of_type ''orderbook_delta'' r \<longleftrightarrow> (\<exists>d. r = Delta d)"
  "kind_of_type ''trade'' r \<longleftrightarrow> (\<exists>d. r = TradeRec d)"
  by (cases r; simp)+

lemma kind_of_type_data: "kind_of_type ty r \<Longrightarrow> ty \<in> data_types"
  by (cases r) (simp_all add: data_types_def)

lemma classify_frame_data:
  assumes "json_get ''type'' v = Some (JString ty)"
  shows "classify_frame L v recv_ts = FData c t r \<longleftrightarrow>
     c = channel_of_type ty \<and> kind_of_type ty r \<and> (\<exists>m. json_get ''msg'' v = Some m \<and> denotes m recv_ts t r)"
proof (cases "ty \<in> data_types")
  case True
  then show ?thesis
    using assms unfolding data_types_def
    by (auto simp: classify_frame_def decode_data_FData channel_of_type_def CHANNEL_ORDERBOOK_def
        CHANNEL_TRADE_def kind_of_type_iff decode_snapshot_iff decode_delta_iff decode_trade_iff)
next
  case False
  then have "classify_frame L v recv_ts \<noteq> FData c t r"
    using assms by (auto simp: classify_frame_def data_types_def Let_def split: option.splits)
  with False show ?thesis by (auto dest: kind_of_type_data)
qed

lemma classify_frame_untyped:
  "\<nexists>ty. json_get ''type'' v = Some (JString ty) \<Longrightarrow>
     classify_frame L v recv_ts = raw_outcome None None None (err_text L EMissingType) v"
proof -
  assume "\<nexists>ty. json_get ''type'' v = Some (JString ty)"
  then have "Option.bind (json_get ''type'' v) as_str = None"
    by (auto simp: Option.bind_eq_None_conv as_str_iff split: option.split) (metis as_str_iff not_None_eq option.sel)
  then show ?thesis by (simp add: classify_frame_def)
qed

text \<open>What a raw fallback keeps of a frame.\<close>

definition kept_payload :: "json \<Rightarrow> json" where
  "kept_payload v =
     (case json_get ''msg'' v of
        Some m \<Rightarrow> if \<exists>ty. text_of v ''type'' ty then m else v
      | None \<Rightarrow> if \<exists>ty \<in> data_types. text_of v ''type'' ty then JNull else v)"

lemma decode_data_raw:
  "decode_data L ch ty msg dec = FRaw c t fb \<Longrightarrow>
     rf_payload fb = (case msg of Some m \<Rightarrow> m | None \<Rightarrow> JNull) \<and> rf_raw_type fb = Some ty \<and> c = Some ch"
  by (auto simp: decode_data_def raw_outcome_def split: option.splits sum.splits)

lemma classify_frame_raw:
  assumes "classify_frame L v recv_ts = FRaw c t fb"
  shows "rf_payload fb = kept_payload v"
proof (cases "\<exists>ty. json_get ''type'' v = Some (JString ty)")
  case False
  then have "\<not> (\<exists>ty. text_of v ''type'' ty)" by (simp add: text_of_def)
  with False assms show ?thesis
    by (auto simp: classify_frame_untyped raw_outcome_def kept_payload_def split: option.split)
next
  case True
  then obtain ty where ty: "json_get ''type'' v = Some (JString ty)" by blast
  then have tx: "text_of v ''type'' ty' \<longleftrightarrow> ty' = ty" for ty'
    by (auto simp: text_of_def)
  have "rf_payload fb = (case json_get ''msg'' v of Some m \<Rightarrow> m
      | None \<Rightarrow> if ty \<in> data_types then JNull else v)"
    using assms ty unfolding classify_frame_def data_types_def
    by (auto simp: Let_def raw_outcome_def dest: decode_data_raw split: if_splits)
  then show ?thesis
    by (auto simp: kept_payload_def tx split: option.split)
qed

lemma decode_frame_iff:
  "df_outcome (decode_frame L text recv_ts) = FData c t r \<longleftrightarrow>
     (\<exists>v m ty. js_from_str L text = Inr v \<and> text_of v ''type'' ty \<and> json_get ''msg'' v = Some m \<and>
        kind_of_type ty r \<and> c = channel_of_type ty \<and> denotes m recv_ts t r)"
proof (cases "js_from_str L text")
  case (Inl e)
  then show ?thesis by (simp add: decode_frame_def)
next
  case (Inr v)
  show ?thesis
  proof (cases "\<exists>ty. json_get ''type'' v = Some (JString ty)")
    case True
    then obtain ty where ty: "json_get ''type'' v = Some (JString ty)" by blast
    with Inr show ?thesis
      by (auto simp: decode_frame_def classify_frame_data text_of_def)
  next
    case False
    with Inr show ?thesis
      by (auto simp: decode_frame_def classify_frame_untyped text_of_def)
  qed
qed

declare parse_text_iff [simp del]

section \<open>Properties\<close>

text \<open>
  C15. Decoding is exact: a text becomes the data record \<open>r\<close> of ticker \<open>t\<close> exactly when it is a JSON
  frame whose type is that of \<open>r\<close> and whose message denotes \<open>r\<close>, every price and size being the exact
  rational value of its text. No field is defaulted, rounded or taken from elsewhere, except
  the instant of a message without a representable \<open>ts_ms\<close>, which is the receive time.
\<close>

theorem decode_frame_exact:
  "df_outcome (decode_frame L text recv_ts) = FData c t r \<longleftrightarrow>
     (\<exists>v m ty. js_from_str L text = Inr v \<and> text_of v ''type'' ty \<and> json_get ''msg'' v = Some m \<and>
        kind_of_type ty r \<and> c = channel_of_type ty \<and> denotes m recv_ts t r)"
  by (rule decode_frame_iff)

text \<open>
  No frame is lost in decoding: whatever is not a typed record is a control frame, a server error,
  or a raw fallback that keeps the text of an unreadable frame, the message of a typed one and
  the whole frame otherwise. The one exception is a data frame without a message, of which
  only its type is kept.
\<close>

theorem frame_kept:
  "case df_outcome (decode_frame L text recv_ts) of
     FData c t r \<Rightarrow> \<exists>v m. js_from_str L text = Inr v \<and> json_get ''msg'' v = Some m \<and> denotes m recv_ts t r
   | FControl ty \<Rightarrow> \<exists>v. js_from_str L text = Inr v \<and> text_of v ''type'' ty \<and> ty \<in> {''subscribed'', ''ok''}
   | FServerError d \<Rightarrow> \<exists>v. js_from_str L text = Inr v \<and> text_of v ''type'' ''error'' \<and> d = error_detail L v
   | FRaw c t fb \<Rightarrow> rf_payload fb =
       (case js_from_str L text of Inl _ \<Rightarrow> JString text | Inr v \<Rightarrow> kept_payload v)"
proof (cases "js_from_str L text")
  case (Inl e)
  then show ?thesis by (simp add: decode_frame_def raw_outcome_def)
next
  case (Inr v)
  then have out: "df_outcome (decode_frame L text recv_ts) = classify_frame L v recv_ts"
    by (simp add: decode_frame_def)
  show ?thesis
  proof (cases "classify_frame L v recv_ts")
    case (FData c t r)
    moreover have "\<exists>ty. json_get ''type'' v = Some (JString ty)"
      using FData classify_frame_untyped [of v L recv_ts] by (metis raw_outcome_not_data(1))
    ultimately show ?thesis
      using Inr out by (auto simp: classify_frame_data)
  next
    case (FRaw c t fb)
    then show ?thesis using Inr out by (simp add: classify_frame_raw)
  next
    case (FControl ty)
    then show ?thesis
      using Inr out by (auto simp: classify_frame_def Let_def decode_data_def raw_outcome_def get_str_iff
          split: option.splits if_splits sum.splits)
  next
    case (FServerError d)
    then show ?thesis
      using Inr out by (auto simp: classify_frame_def Let_def decode_data_def raw_outcome_def get_str_iff
          split: option.splits if_splits sum.splits)
  qed
qed

text \<open>
  The exception of \<open>frame_kept\<close> at work: a \<open>trade\<close> frame that carries its fields at the top level is
  stored with the payload \<^verbatim>\<open>null\<close>, so its trade id, price and size are gone.
\<close>

theorem frame_without_message_lost:
  "df_outcome (decode_frame L text recv_ts) =
     raw_outcome (Some ''trade'') (Some ''trade'') None (err_text L EMissingMsg) JNull"
  if "js_from_str L text = Inr (JObject [(''type'', JString ''trade''), (''trade_id'', JString i), (''count_fp'', JString c)])"
  using that by (simp add: decode_frame_def classify_frame_def decode_data_def CHANNEL_TRADE_def Let_def)

end
