(* ===== verification/Seq_Gap.thy ===== *)
theory Seq_Gap
  imports Records
begin

text \<open>
  The per-subscription sequence tracker of \<^verbatim>\<open>crates/kdp-kalshi/src/ws/gap.rs\<close>. A tracker keeps the
  last sequence number it saw; a snapshot re-baselines it, a delta or trade is classified as in
  order, a repeat, or the far side of a hole. Sequence numbers are \<open>u64\<close>, so the successor
  of the last number wraps.

  The lemmas are about a whole stream of messages on one subscription: between two messages that
  are persisted, either the numbers are consecutive or the second one carries a gap verdict that
  names both ends of the hole.
\<close>

section \<open>The tracker\<close>

datatype SeqVerdict = Accept | Duplicate | GapVerdict GapReason "u64 option" u64

record SeqTracker =
  st_last_seq :: "u64 option"

definition SeqTracker_new :: SeqTracker where
  "SeqTracker_new = \<lparr>st_last_seq = None\<rparr>"

definition on_snapshot :: "u64 option \<Rightarrow> SeqTracker \<Rightarrow> SeqTracker \<times> SeqVerdict" where
  "on_snapshot seq t = (t\<lparr>st_last_seq := seq\<rparr>, Accept)"

definition on_sequenced :: "u64 \<Rightarrow> SeqTracker \<Rightarrow> SeqTracker \<times> SeqVerdict" where
  "on_sequenced seq t =
     (case st_last_seq t of
        None \<Rightarrow> (t\<lparr>st_last_seq := Some seq\<rparr>, Accept)
      | Some lst \<Rightarrow>
          if seq = lst + 1 then (t\<lparr>st_last_seq := Some seq\<rparr>, Accept)
          else if seq = lst then (t, Duplicate)
          else (t\<lparr>st_last_seq := Some seq\<rparr>, GapVerdict SeqJump (Some lst) seq))"

definition tracker_reset :: "SeqTracker \<Rightarrow> SeqTracker" where
  "tracker_reset t = t\<lparr>st_last_seq := None\<rparr>"

section \<open>A stream of messages on one subscription\<close>

datatype seq_msg = MSnapshot "u64 option" | MSequenced u64

fun tracker_step :: "seq_msg \<Rightarrow> SeqTracker \<Rightarrow> SeqTracker \<times> SeqVerdict" where
  "tracker_step (MSnapshot s) t = on_snapshot s t"
| "tracker_step (MSequenced s) t = on_sequenced s t"

fun feed :: "SeqTracker \<Rightarrow> seq_msg list \<Rightarrow> (seq_msg \<times> SeqVerdict) list" where
  "feed t [] = []"
| "feed t (m # ms) = (let (t', v) = tracker_step m t in (m, v) # feed t' ms)"

definition persisted :: "(seq_msg \<times> SeqVerdict) list \<Rightarrow> (seq_msg \<times> SeqVerdict) list" where
  "persisted xs = filter (\<lambda>(_, v). v \<noteq> Duplicate) xs"

fun msg_seq :: "seq_msg \<Rightarrow> u64 option" where
  "msg_seq (MSnapshot s) = s"
| "msg_seq (MSequenced s) = Some s"

text \<open>What the verdict on a message says about the number persisted just before it.\<close>

fun continues :: "u64 option \<Rightarrow> seq_msg \<times> SeqVerdict \<Rightarrow> bool" where
  "continues prev (MSnapshot s, v) \<longleftrightarrow> v = Accept"
| "continues prev (MSequenced s, v) \<longleftrightarrow>
     (case prev of
        None \<Rightarrow> v = Accept
      | Some a \<Rightarrow> v = Accept \<and> s = a + 1 \<or> v = GapVerdict SeqJump (Some a) s \<and> s \<noteq> a + 1)"

lemma persisted_simps [simp]:
  "persisted [] = []"
  "persisted ((m, Duplicate) # xs) = persisted xs"
  "persisted ((m, Accept) # xs) = (m, Accept) # persisted xs"
  "persisted ((m, GapVerdict r l ob) # xs) = (m, GapVerdict r l ob) # persisted xs"
  by (simp_all add: persisted_def)

lemma tracker_step_cases:
  assumes "tracker_step m t = (t', v)"
  shows "v = Duplicate \<and> t' = t \<and> msg_seq m = st_last_seq t \<or>
     v \<noteq> Duplicate \<and> st_last_seq t' = msg_seq m \<and> continues (st_last_seq t) (m, v)"
  using assms
  by (cases m) (auto simp: on_snapshot_def on_sequenced_def split: option.splits if_splits)

lemma feed_hd_continues:
  "persisted (feed t ms) = e # es \<Longrightarrow> continues (st_last_seq t) e"
proof (induction ms arbitrary: t)
  case Nil
  then show ?case by simp
next
  case (Cons m ms)
  obtain t' v where s: "tracker_step m t = (t', v)" by fastforce
  show ?case
    using tracker_step_cases [OF s] Cons by (cases v) (auto simp: s)
qed

lemma feed_successively:
  "successively (\<lambda>a. continues (msg_seq (fst a))) (persisted (feed t ms))"
proof (induction ms arbitrary: t)
  case Nil
  then show ?case by simp
next
  case (Cons m ms)
  obtain t' v where s: "tracker_step m t = (t', v)" by fastforce
  show ?case
  proof (cases "v = Duplicate")
    case True
    with Cons show ?thesis by (simp add: s)
  next
    case False
    then have "st_last_seq t' = msg_seq m"
      using tracker_step_cases [OF s] by blast
    with False have "persisted (feed t (m # ms)) = (m, v) # persisted (feed t' ms)"
      and "\<And>e es. persisted (feed t' ms) = e # es \<Longrightarrow> continues (msg_seq m) e"
      using feed_hd_continues [of t' ms] by (cases v; simp add: s)+
    then show ?thesis
      using Cons.IH [of t'] by (cases "persisted (feed t' ms)") auto
  qed
qed

lemma duplicate_repeats:
  "feed t ms = xs @ (MSequenced s, Duplicate) # ys \<Longrightarrow>
     (if persisted xs = [] then st_last_seq t else msg_seq (fst (last (persisted xs)))) = Some s"
proof (induction ms arbitrary: t xs)
  case Nil
  then show ?case by simp
next
  case (Cons m ms)
  obtain t' v where st: "tracker_step m t = (t', v)" by fastforce
  show ?case
  proof (cases xs)
    case Nil
    with Cons.prems tracker_step_cases [OF st] show ?thesis by (auto simp: st)
  next
    case (Cons e xs')
    then have e: "e = (m, v)" and "feed t' ms = xs' @ (MSequenced s, Duplicate) # ys"
      using Cons.prems by (auto simp: st)
    then have IH: "(if persisted xs' = [] then st_last_seq t' else msg_seq (fst (last (persisted xs')))) = Some s"
      by (intro Cons.IH)
    show ?thesis
      using tracker_step_cases [OF st] IH Cons e by (cases v) (auto split: if_splits)
  qed
qed

section \<open>Properties\<close>

text \<open>
  No silent hole: on any stream of one subscription, between two messages persisted one after
  the other, a sequenced message is accepted only as the successor of the number before it
  (or as the first number after a baseline without one); in every other case it carries a
  \<open>SeqJump\<close> verdict that names exactly the last number seen and the number observed.
\<close>

theorem no_silent_hole:
  "successively (\<lambda>a. continues (msg_seq (fst a))) (persisted (feed SeqTracker_new ms))"
  by (rule feed_successively)

text \<open>
  Only true repeats are dropped: a message classified as a duplicate has the very number of
  the message persisted last before it, so dropping it loses nothing.
\<close>

theorem duplicate_is_repeat:
  "feed SeqTracker_new ms = xs @ (MSequenced s, Duplicate) # ys \<Longrightarrow>
     persisted xs \<noteq> [] \<and> msg_seq (fst (last (persisted xs))) = Some s"
  using duplicate_repeats [of SeqTracker_new ms xs s ys]
  by (auto simp: SeqTracker_new_def split: if_splits)

theorem duplicate_is_repeat_witness:
  "persisted (feed SeqTracker_new [MSnapshot (Some 4), MSequenced 5]) \<noteq> [] \<and>
   msg_seq (fst (last (persisted (feed SeqTracker_new [MSnapshot (Some 4), MSequenced 5])))) = Some 5"
  by (rule duplicate_is_repeat [where ms = "[MSnapshot (Some 4), MSequenced 5, MSequenced 5]" and ys = "[]"])
    (simp add: SeqTracker_new_def on_snapshot_def on_sequenced_def)

end
