(* ===== verification/Backoff.thy ===== *)
theory Backoff
  imports Prelude
begin

text \<open>
  The reconnect backoff of \<^verbatim>\<open>crates/kdp-kalshi/src/ws/backoff.rs\<close>. A \<^verbatim>\<open>Duration\<close> is its length in
  nanoseconds; \<^verbatim>\<open>as_millis\<close> rounds down and \<^verbatim>\<open>cap / 2\<close> is integer division. The attempt counter is
  a \<open>u32\<close> that saturates. \<^verbatim>\<open>checked_shl\<close> fails only when the shift reaches the width of the
  type: below that it discards the bits shifted out.

  The jitter is a number from outside; the floating-point product \<^verbatim>\<open>mul_f64\<close> is the parameter
  \<open>mul\<close>, of which only is used that a factor between 0 and 1 does not lengthen a duration.
\<close>

unbundle bit_operations_syntax

section \<open>The schedule\<close>

type_synonym Duration = nat

definition as_millis_u64 :: "Duration \<Rightarrow> u64" where
  "as_millis_u64 d = of_nat (d div 1000000)"

definition from_millis :: "u64 \<Rightarrow> Duration" where
  "from_millis ms = unat ms * 1000000"

definition checked_shl :: "u64 \<Rightarrow> u32 \<Rightarrow> u64 option" where
  "checked_shl x n = (if unat n < 64 then Some (push_bit (unat n) x) else None)"

record Backoff =
  bo_base :: Duration
  bo_max :: Duration
  bo_attempt :: u32

definition Backoff_new :: "Duration \<Rightarrow> Duration \<Rightarrow> Backoff" where
  "Backoff_new base mx = \<lparr>bo_base = base, bo_max = mx, bo_attempt = 0\<rparr>"

definition backoff_reset :: "Backoff \<Rightarrow> Backoff" where
  "backoff_reset b = b\<lparr>bo_attempt := 0\<rparr>"

definition capped :: "Backoff \<Rightarrow> Duration" where
  "capped b =
     (let base_ms = as_millis_u64 (bo_base b);
          max_ms = as_millis_u64 (bo_max b);
          scaled = (case checked_shl base_ms (bo_attempt b) of Some s \<Rightarrow> s | None \<Rightarrow> - 1)
      in from_millis (min scaled max_ms))"

definition saturating_add_u32 :: "u32 \<Rightarrow> u32 \<Rightarrow> u32" where
  "saturating_add_u32 a b = (if unat a + unat b < 2 ^ 32 then a + b else - 1)"

definition clamp01 :: "real \<Rightarrow> real" where
  "clamp01 j = max 0 (min 1 j)"

definition backoff_next :: "(Duration \<Rightarrow> real \<Rightarrow> Duration) \<Rightarrow> real \<Rightarrow> Backoff \<Rightarrow> Duration \<times> Backoff" where
  "backoff_next mul jitter b =
     (let cap = capped b;
          b' = b\<lparr>bo_attempt := saturating_add_u32 (bo_attempt b) 1\<rparr>;
          half = cap div 2
      in (half + mul half (clamp01 jitter), b'))"

section \<open>The shift\<close>

lemma unat_push_bit: "unat (push_bit n (x :: u64)) = (unat x * 2 ^ n) mod 2 ^ 64"
  by (simp only: unsigned_push_bit_eq) (simp add: take_bit_eq_mod push_bit_eq_mult)

lemma capped_no_overflow:
  assumes "unat (as_millis_u64 (bo_base b)) * 2 ^ unat (bo_attempt b) < 2 ^ 64"
    and "unat (bo_attempt b) < 64"
  shows "capped b = min (unat (as_millis_u64 (bo_base b)) * 2 ^ unat (bo_attempt b))
     (unat (as_millis_u64 (bo_max b))) * 1000000"
proof -
  let ?s = "push_bit (unat (bo_attempt b)) (as_millis_u64 (bo_base b))"
  have "unat ?s = unat (as_millis_u64 (bo_base b)) * 2 ^ unat (bo_attempt b)"
    using assms(1) by (simp add: unat_push_bit)
  moreover have "unat (min ?s (as_millis_u64 (bo_max b))) = min (unat ?s) (unat (as_millis_u64 (bo_max b)))"
    by (simp add: min_def word_le_nat_alt)
  ultimately show ?thesis
    using assms(2) by (simp add: capped_def checked_shl_def from_millis_def Let_def)
qed

text \<open>The schedule of the capture session: half a second, doubling, at most thirty seconds.\<close>

definition session_backoff :: Backoff where
  "session_backoff = Backoff_new (500 * 1000000) (30 * 1000000000)"

lemma session_millis [simp]:
  "unat (as_millis_u64 (bo_base session_backoff)) = 500"
  "unat (as_millis_u64 (bo_max session_backoff)) = 30000"
  by (simp_all add: session_backoff_def Backoff_new_def as_millis_u64_def)

definition session_cap_ms :: "nat \<Rightarrow> nat" where
  "session_cap_ms n = (if n < 64 then min ((500 * 2 ^ n) mod 2 ^ 64) 30000 else 30000)"

lemma capped_session:
  "capped (session_backoff\<lparr>bo_attempt := a\<rparr>) = session_cap_ms (unat a) * 1000000"
proof -
  have m: "unat (min s t) = min (unat s) (unat t)" for s t :: u64
    by (simp add: min_def word_le_nat_alt)
  have "unat (- 1 :: u64) = 2 ^ 64 - 1" by (simp add: unsigned_minus_1_eq_mask mask_eq_exp_minus_1)
  then show ?thesis
    by (simp add: capped_def checked_shl_def session_cap_ms_def from_millis_def m unat_push_bit Let_def)
qed

lemma session_cap_small: "n \<le> 55 \<Longrightarrow> session_cap_ms n = min (500 * 2 ^ n) 30000"
proof -
  assume n: "n \<le> 55"
  then have "(2 :: nat) ^ n \<le> 2 ^ 55" by (intro power_increasing) simp_all
  then have "500 * 2 ^ n < (2 :: nat) ^ 64" by simp
  with n show ?thesis by (simp add: session_cap_ms_def)
qed

lemma session_cap_big: "56 \<le> n \<Longrightarrow> session_cap_ms n = (if n = 62 \<or> n = 63 then 0 else 30000)"
proof (cases "n < 64")
  case True
  assume "56 \<le> n"
  with True have "n \<in> {56, 57, 58, 59, 60, 61, 62, 63}" by auto
  then show ?thesis by (auto simp: session_cap_ms_def)
qed (simp add: session_cap_ms_def)

section \<open>Properties\<close>

text \<open>
  The schedule doubles up to its cap: while the doubled base still fits 64 bits, the capped
  delay is exactly the smaller of the maximum and \<open>base * 2 ^ attempt\<close>, in whole
  milliseconds.
\<close>

theorem capped_is_exponential:
  assumes "unat (as_millis_u64 (bo_base b)) * 2 ^ unat (bo_attempt b) < 2 ^ 64"
    and "unat (bo_attempt b) < 64"
  shows "capped b = min (unat (as_millis_u64 (bo_base b)) * 2 ^ unat (bo_attempt b))
     (unat (as_millis_u64 (bo_max b))) * 1000000"
  by (rule capped_no_overflow [OF assms])

theorem capped_is_exponential_witness:
  "capped (session_backoff\<lparr>bo_attempt := 3\<rparr>) = min (500 * 2 ^ 3) 30000 * 1000000"
  using capped_is_exponential [of "session_backoff\<lparr>bo_attempt := 3\<rparr>"] by simp

text \<open>
  The schedule does not saturate: with the session's own parameters the delay before jitter
  is zero at exactly the 63rd and the 64th consecutive attempt, because \<^verbatim>\<open>checked_shl\<close>
  only refuses a shift of 64 or more and otherwise drops the high bits. Everywhere else it
  is at least half a second.
\<close>

theorem session_backoff_collapses:
  "capped (session_backoff\<lparr>bo_attempt := a\<rparr>) =
     (if a = 62 \<or> a = 63 then 0
      else min (500 * 2 ^ min (unat a) 55) 30000 * 1000000)"
proof -
  have eq: "a = 62 \<longleftrightarrow> unat a = 62" "a = 63 \<longleftrightarrow> unat a = 63"
    by (simp_all add: word_unat_eq_iff)
  show ?thesis
  proof (cases "unat a \<le> 55")
    case True
    then show ?thesis by (simp add: capped_session session_cap_small eq min_def)
  next
    case False
    then show ?thesis by (simp add: capped_session session_cap_big eq min_def)
  qed
qed

text \<open>
  Equal jitter: whatever the jitter, the delay handed out lies between half the cap and the
  cap, and the attempt counter moves on without ever wrapping back.
\<close>

theorem backoff_next_bounds:
  assumes mul_le: "\<And>d j. 0 \<le> j \<Longrightarrow> j \<le> 1 \<Longrightarrow> mul d j \<le> d"
    and "backoff_next mul jitter b = (delay, b')"
  shows "capped b div 2 \<le> delay \<and> delay \<le> capped b \<and> bo_attempt b \<le> bo_attempt b' \<and>
     bo_base b' = bo_base b \<and> bo_max b' = bo_max b"
proof -
  have "0 \<le> clamp01 jitter" and "clamp01 jitter \<le> 1"
    by (simp_all add: clamp01_def)
  then have "mul (capped b div 2) (clamp01 jitter) \<le> capped b div 2"
    by (rule mul_le)
  moreover have "bo_attempt b \<le> saturating_add_u32 (bo_attempt b) 1"
  proof (cases "unat (bo_attempt b) + 1 < 2 ^ 32")
    case True
    then show ?thesis
      by (simp add: saturating_add_u32_def word_le_nat_alt unat_word_ariths)
  qed (simp add: saturating_add_u32_def)
  ultimately show ?thesis
    using assms(2) by (auto simp: backoff_next_def Let_def)
qed

theorem backoff_next_bounds_witness:
  "capped session_backoff div 2 \<le> 500000000 \<and> 500000000 \<le> capped session_backoff \<and>
   bo_attempt session_backoff \<le> bo_attempt (session_backoff\<lparr>bo_attempt := 1\<rparr>) \<and>
   bo_base (session_backoff\<lparr>bo_attempt := 1\<rparr>) = bo_base session_backoff \<and>
   bo_max (session_backoff\<lparr>bo_attempt := 1\<rparr>) = bo_max session_backoff"
proof (rule backoff_next_bounds [where mul = "\<lambda>d j. nat \<lfloor>j * d\<rfloor>" and jitter = 1])
  fix d :: nat and j :: real
  assume "0 \<le> j" and "j \<le> 1"
  then have "j * d \<le> d" by (simp add: mult_left_le_one_le)
  then have "\<lfloor>j * d\<rfloor> \<le> int d" by linarith
  then show "nat \<lfloor>j * d\<rfloor> \<le> d" by simp
next
  have "capped (session_backoff\<lparr>bo_attempt := 0\<rparr>) = 500000000"
    unfolding capped_session by (simp add: session_cap_ms_def)
  moreover have "session_backoff\<lparr>bo_attempt := 0\<rparr> = session_backoff"
    by (simp add: session_backoff_def Backoff_new_def)
  ultimately show "backoff_next (\<lambda>d j. nat \<lfloor>j * d\<rfloor>) 1 session_backoff =
      (500000000, session_backoff\<lparr>bo_attempt := 1\<rparr>)"
    by (simp add: backoff_next_def clamp01_def saturating_add_u32_def session_backoff_def Backoff_new_def)
qed

end
