(* ===== verification/Transition.thy ===== *)
theory Transition
  imports Main
begin

text \<open>
  Machines given by an executable partial step function: \<open>step i s\<close> is the state after the input
  \<open>i\<close>, or \<open>None\<close> where \<open>i\<close> is not an input the machine waits for in \<open>s\<close>. The session, the
  writer and the supervisors are such machines. The interface \<open>stepwise_invariant\<close> lifts what every
  step keeps to all reachable states; the interface \<open>polling\<close> is for loops that ask the outside world
  once per round and may not return.
\<close>

inductive reachable :: "('i \<Rightarrow> 's \<Rightarrow> 's option) \<Rightarrow> 's \<Rightarrow> 's \<Rightarrow> bool" for step s0 where
  start: "reachable step s0 s0"
| step: "reachable step s0 s \<Longrightarrow> step i s = Some s' \<Longrightarrow> reachable step s0 s'"

fun run_inputs :: "('i \<Rightarrow> 's \<Rightarrow> 's option) \<Rightarrow> 'i list \<Rightarrow> 's \<Rightarrow> 's option" where
  "run_inputs step [] s = Some s"
| "run_inputs step (i # is) s =
     (case step i s of None \<Rightarrow> None | Some s' \<Rightarrow> run_inputs step is s')"

lemma run_inputs_reachable_from:
  "reachable step s0 s \<Longrightarrow> run_inputs step is s = Some s' \<Longrightarrow> reachable step s0 s'"
  by (induction "is" arbitrary: s) (auto split: option.splits intro: reachable.step)

lemma run_inputs_reachable: "run_inputs step is s0 = Some s \<Longrightarrow> reachable step s0 s"
  by (rule run_inputs_reachable_from [OF reachable.start])

locale stepwise_invariant =
  fixes step :: "'i \<Rightarrow> 's \<Rightarrow> 's option" and s0 :: 's and inv :: "'s \<Rightarrow> bool"
  assumes inv_start: "inv s0"
    and inv_step: "inv s \<Longrightarrow> step i s = Some s' \<Longrightarrow> inv s'"
begin

lemma inv_reachable: "reachable step s0 s \<Longrightarrow> inv s"
  by (induction rule: reachable.induct) (auto intro: inv_start inv_step)

lemma inv_run: "run_inputs step is s0 = Some s \<Longrightarrow> inv s"
  by (rule inv_reachable [OF run_inputs_reachable])

end

section \<open>Polling loops\<close>

text \<open>
  A loop that asks the outside world once per round, keeps a state, and may ask for ever: \<open>body n s\<close>
  is the result of round \<open>n\<close>, or the state it goes on with. The interface \<open>polling\<close> states when such a
  loop, given as a partial function, returns, and with what.
\<close>

primrec polled :: "(nat \<Rightarrow> 's \<Rightarrow> 'r + 's) \<Rightarrow> 's \<Rightarrow> nat \<Rightarrow> 'r + 's" where
  "polled body s 0 = Inr s"
| "polled body s (Suc n) = (case polled body s n of Inl r \<Rightarrow> Inl r | Inr t \<Rightarrow> body n t)"

lemma polled_earlier: "polled body s n = Inr t \<Longrightarrow> j < n \<Longrightarrow> \<exists>u. polled body s j = Inr u \<and> (\<exists>v. body j u = Inr v)"
  by (induction n arbitrary: t) (auto split: sum.splits simp: less_Suc_eq)

locale polling =
  fixes body :: "nat \<Rightarrow> 's \<Rightarrow> 'r + 's" and loop :: "nat \<Rightarrow> 's \<Rightarrow> 'r option"
  assumes loop_step: "loop i s = (case body i s of Inl r \<Rightarrow> Some r | Inr t \<Rightarrow> loop (i + 1) t)"
    and loop_induct: "loop i s = Some r \<Longrightarrow> (\<And>i s r. body i s = Inl r \<Longrightarrow> P i s r) \<Longrightarrow>
      (\<And>i s t r. body i s = Inr t \<Longrightarrow> P (i + 1) t r \<Longrightarrow> P i s r) \<Longrightarrow> P i s r"
begin

text \<open>What is returned is the result of some round, reached with an invariant of the kept state.\<close>

lemma loop_returns:
  assumes "loop i s = Some r" and "keeps s" and "\<And>i s t. keeps s \<Longrightarrow> body i s = Inr t \<Longrightarrow> keeps t"
  shows "\<exists>k t. i \<le> k \<and> keeps t \<and> body k t = Inl r"
proof -
  have "keeps s \<longrightarrow> (\<exists>k t. i \<le> k \<and> keeps t \<and> body k t = Inl r)"
  proof (rule loop_induct [OF assms(1)], goal_cases)
    case (1 i s r)
    then show ?case by blast
  next
    case (2 i s t r)
    show ?case
    proof
      assume "keeps s"
      then have "keeps t" using assms(3) 2(1) by blast
      then obtain k u where "i + 1 \<le> k" "keeps u" "body k u = Inl r" using 2(2) by blast
      then show "\<exists>k t. i \<le> k \<and> keeps t \<and> body k t = Inl r"
        by (intro exI [of _ k] exI [of _ u]) simp
    qed
  qed
  with assms(2) show ?thesis by blast
qed

lemma loop_polled: "polled body s n = Inr t \<Longrightarrow> loop 0 s = loop n t"
proof (induction n arbitrary: t)
  case (Suc n)
  then obtain u where u: "polled body s n = Inr u" "body n u = Inr t"
    by (auto split: sum.splits)
  have "loop n u = loop (n + 1) t" by (subst loop_step) (simp add: u(2))
  with Suc.IH [OF u(1)] show ?case by simp
qed simp

lemma loop_result: "polled body s n = Inr t \<Longrightarrow> body n t = Inl r \<Longrightarrow> loop 0 s = Some r"
  using loop_polled [of s n t] loop_step [of n t] by simp

lemma loop_ends:
  assumes "\<And>t. \<exists>r. body n t = Inl r"
  shows "\<exists>i t r. i \<le> n \<and> polled body s i = Inr t \<and> body i t = Inl r \<and> loop 0 s = Some r"
proof -
  have "\<exists>i t r. i \<le> k \<and> polled body s i = Inr t \<and> body i t = Inl r" if "polled body s (Suc k) = Inl r" for k r
    using that
  proof (induction k arbitrary: r)
    case (Suc k)
    show ?case
    proof (cases "polled body s (Suc k)")
      case (Inl q)
      then show ?thesis using Suc.IH [OF Inl] le_SucI by blast
    next
      case (Inr t)
      then show ?thesis using Suc.prems by (intro exI [of _ "Suc k"] exI [of _ t] exI [of _ r]) simp
    qed
  qed simp
  moreover obtain k r where "k \<le> n" "polled body s (Suc k) = Inl r"
  proof (cases "polled body s n")
    case (Inr t)
    moreover obtain r where "body n t = Inl r" using assms by blast
    ultimately show ?thesis using that [of n r] by simp
  next
    case (Inl q)
    then have "polled body s (Suc n) = Inl q" by simp
    then show ?thesis using that [of n q] by simp
  qed
  ultimately show ?thesis using loop_result by (meson order_trans)
qed

end

end
