(* ===== verification/Session.thy ===== *)
theory Session
  imports Protocol Seq_Gap Backoff Ordered_Map Transition
begin

text \<open>
  The resilient capture session, \<^verbatim>\<open>run_session\<close> of \<^verbatim>\<open>crates/kdp-kalshi/src/ws/session.rs\<close>: connect, read
  frames, detect sequence holes, reconnect with backoff, until a shutdown or until the consumer
  of the events is gone.

  The session is a machine whose inputs are the outcomes of what the code awaits: the shutdown
  future, the connection attempt, the next item of the socket, the end of a backoff sleep. A frame
  comes with the instant \<^verbatim>\<open>Utc::now()\<close> reads for it. The bounded channel to the writer is the list
  of the events sent so far; \<open>se_open\<close> tells whether the receiver is still there. Log lines and the
  \<^verbatim>\<open>ws.close\<close> of a finished connection are left out.

  The lemmas show that no hole is silent in the stream of events the session emits, across jumps
  and across reconnects, and that a frame is withheld only when an event with its subscription
  and number has been sent before.
\<close>

section \<open>Types\<close>

record CaptureEvent =
  ce_recv_ts :: Timestamp
  ce_frame :: DecodedFrame

datatype SessionEnd = Shutdown | SinkClosed

record SessionStats =
  sn_status :: "u16 option"
  sn_frames :: u64
  sn_by_type :: "(string, u64) omap"
  sn_connects :: u64
  sn_gaps :: u64
  sn_end :: "SessionEnd option"

definition SessionStats_default :: SessionStats where
  "SessionStats_default =
     \<lparr>sn_status = None, sn_frames = 0, sn_by_type = [], sn_connects = 0, sn_gaps = 0, sn_end = None\<rparr>"

datatype SeqOutcome = SPersist | SDuplicate | SGap string i64 "u64 option" u64

type_synonym trackers = "i64 \<Rightarrow> SeqTracker option"

definition ONDISK_CHANNELS :: "string list" where
  "ONDISK_CHANNELS = [CHANNEL_ORDERBOOK, CHANNEL_TRADE]"

section \<open>Labels and sequence classification\<close>

definition frame_label :: "DecodedFrame \<Rightarrow> string" where
  "frame_label frame =
     (case df_outcome frame of
        FData _ _ rec \<Rightarrow>
          (case rec of
             Snapshot _ \<Rightarrow> ''snapshot''
           | Delta _ \<Rightarrow> ''delta''
           | TradeRec _ \<Rightarrow> ''trade''
           | Gap _ \<Rightarrow> ''gap''
           | Raw _ \<Rightarrow> ''raw''
           | Verify _ \<Rightarrow> ''verify'')
      | FControl msg_type \<Rightarrow> ''control:'' @ msg_type
      | FServerError _ \<Rightarrow> ''error''
      | FRaw _ _ _ \<Rightarrow> ''raw'')"

definition is_snapshot :: "RecordKind \<Rightarrow> bool" where
  "is_snapshot rec = (case rec of Snapshot _ \<Rightarrow> True | _ \<Rightarrow> False)"

definition classify_seq :: "DecodedFrame \<Rightarrow> trackers \<Rightarrow> trackers \<times> SeqOutcome" where
  "classify_seq frame trackers =
     (case df_outcome frame of
        FData channel _ rec \<Rightarrow>
          (case df_sid frame of
             Some sid \<Rightarrow>
               let tracker = (case trackers sid of Some t \<Rightarrow> t | None \<Rightarrow> SeqTracker_new);
                   (tracker', verdict) =
                     (if is_snapshot rec then on_snapshot (df_seq frame) tracker
                      else case df_seq frame of
                             Some seq \<Rightarrow> on_sequenced seq tracker
                           | None \<Rightarrow> (tracker, Accept))
               in (trackers(sid \<mapsto> tracker'),
                   case verdict of
                     Accept \<Rightarrow> SPersist
                   | Duplicate \<Rightarrow> SDuplicate
                   | GapVerdict _ last_seq observed_seq \<Rightarrow> SGap channel sid last_seq observed_seq)
           | None \<Rightarrow> (trackers, SPersist))
      | _ \<Rightarrow> (trackers, SPersist))"

section \<open>Sending\<close>

record session_env =
  se_json :: json_lib
  se_tickers :: "string list"
  se_open :: "CaptureEvent list \<Rightarrow> bool"
  se_mul :: "Duration \<Rightarrow> real \<Rightarrow> Duration"

definition sink_send :: "session_env \<Rightarrow> CaptureEvent \<Rightarrow> CaptureEvent list \<Rightarrow> CaptureEvent list \<times> bool" where
  "sink_send env e sent = (if se_open env sent then (sent @ [e], True) else (sent, False))"

definition gap_capture_event :: "Timestamp \<Rightarrow> i64 option \<Rightarrow> string \<Rightarrow> GapMarker \<Rightarrow> CaptureEvent" where
  "gap_capture_event recv_ts sid channel marker =
     \<lparr>ce_recv_ts = recv_ts,
      ce_frame = \<lparr>df_sid = sid, df_seq = None, df_outcome = FData channel (gm_ticker marker) (Gap marker)\<rparr>\<rparr>"

definition send_gap ::
    "session_env \<Rightarrow> Timestamp \<Rightarrow> i64 option \<Rightarrow> string \<Rightarrow> GapMarker \<Rightarrow> CaptureEvent list \<times> SessionStats \<Rightarrow>
     (CaptureEvent list \<times> SessionStats) \<times> bool" where
  "send_gap env recv_ts sid channel marker = (\<lambda>(sent, stats).
     let (sent', alive) = sink_send env (gap_capture_event recv_ts sid channel marker) sent
     in ((sent', stats\<lparr>sn_gaps := sn_gaps stats + 1\<rparr>), alive))"

text \<open>A loop of sends that returns at the first one that finds the sink closed.\<close>

fun send_gaps ::
    "session_env \<Rightarrow> Timestamp \<Rightarrow> i64 option \<Rightarrow> (string \<times> GapMarker) list \<Rightarrow> CaptureEvent list \<times> SessionStats \<Rightarrow>
     (CaptureEvent list \<times> SessionStats) \<times> bool" where
  "send_gaps env recv_ts sid [] st = (st, True)"
| "send_gaps env recv_ts sid ((channel, marker) # ms) st =
     (let (st', alive) = send_gap env recv_ts sid channel marker st
      in if alive then send_gaps env recv_ts sid ms st' else (st', False))"

definition reconnect_marker :: "string \<Rightarrow> string \<Rightarrow> GapMarker" where
  "reconnect_marker ticker channel =
     \<lparr>gm_reason = Reconnect, gm_ticker = ticker, gm_channel = channel, gm_last_seq = None,
      gm_observed_seq = None, gm_detail = ''reconnected after disconnect/idle''\<rparr>"

definition emit_reconnect_gaps ::
    "session_env \<Rightarrow> Timestamp \<Rightarrow> CaptureEvent list \<times> SessionStats \<Rightarrow> (CaptureEvent list \<times> SessionStats) \<times> bool" where
  "emit_reconnect_gaps env recv_ts st =
     send_gaps env recv_ts None
       (concat (map (\<lambda>ticker. map (\<lambda>channel. (channel, reconnect_marker ticker channel)) ONDISK_CHANNELS)
          (se_tickers env))) st"

definition show_i64 :: "i64 \<Rightarrow> string" where
  "show_i64 i = (if i < 0 then ''-'' @ show_nat (nat (- i)) else show_nat (nat i))"

definition seq_jump_marker :: "string \<Rightarrow> i64 \<Rightarrow> u64 option \<Rightarrow> u64 \<Rightarrow> string \<Rightarrow> GapMarker" where
  "seq_jump_marker channel sid last_seq observed_seq ticker =
     \<lparr>gm_reason = SeqJump, gm_ticker = ticker, gm_channel = channel, gm_last_seq = last_seq,
      gm_observed_seq = Some observed_seq, gm_detail = ''seq jump on sid '' @ show_i64 sid\<rparr>"

definition emit_seq_gaps ::
    "session_env \<Rightarrow> Timestamp \<Rightarrow> string \<Rightarrow> i64 \<Rightarrow> u64 option \<Rightarrow> u64 \<Rightarrow> CaptureEvent list \<times> SessionStats \<Rightarrow>
     (CaptureEvent list \<times> SessionStats) \<times> bool" where
  "emit_seq_gaps env recv_ts channel sid last_seq observed_seq st =
     send_gaps env recv_ts (Some sid)
       (map (\<lambda>ticker. (channel, seq_jump_marker channel sid last_seq observed_seq ticker)) (se_tickers env)) st"

section \<open>The session\<close>

datatype phase = Connecting | Reading | Sleeping | Ended

record session =
  ss_stats :: SessionStats
  ss_backoff :: Backoff
  ss_first :: bool
  ss_trackers :: trackers
  ss_sent :: "CaptureEvent list"
  ss_phase :: phase

definition session_start :: session where
  "session_start =
     \<lparr>ss_stats = SessionStats_default, ss_backoff = session_backoff, ss_first = True,
      ss_trackers = (\<lambda>_. None), ss_sent = [], ss_phase = Connecting\<rparr>"

datatype session_input =
    IShutdown
  | IConnected u16 Timestamp
  | IConnectFailed string
  | ISlept real
  | ITimeout
  | IStreamEnd
  | IWsError string
  | IText string Timestamp
  | IPing bool
  | IClose
  | IOther

definition end_session :: "SessionEnd \<Rightarrow> session \<Rightarrow> session" where
  "end_session e s = s\<lparr>ss_stats := (ss_stats s)\<lparr>sn_end := Some e\<rparr>, ss_phase := Ended\<rparr>"

definition on_connected :: "session_env \<Rightarrow> u16 \<Rightarrow> Timestamp \<Rightarrow> session \<Rightarrow> session" where
  "on_connected env status recv_ts s =
     (let stats = (ss_stats s)\<lparr>sn_status := Some status, sn_connects := sn_connects (ss_stats s) + 1\<rparr>;
          ((sent, stats'), alive) =
            (if ss_first s then ((ss_sent s, stats), True)
             else emit_reconnect_gaps env recv_ts (ss_sent s, stats));
          s' = s\<lparr>ss_stats := stats', ss_backoff := backoff_reset (ss_backoff s), ss_sent := sent\<rparr>
      in if alive then s'\<lparr>ss_first := False, ss_trackers := (\<lambda>_. None), ss_phase := Reading\<rparr>
         else end_session SinkClosed s')"

definition count_label :: "string \<Rightarrow> SessionStats \<Rightarrow> SessionStats" where
  "count_label label stats =
     stats\<lparr>sn_frames := sn_frames stats + 1,
           sn_by_type := om_insert label
             ((case om_get (sn_by_type stats) label of Some n \<Rightarrow> n | None \<Rightarrow> 0) + 1) (sn_by_type stats)\<rparr>"

definition on_text :: "session_env \<Rightarrow> string \<Rightarrow> Timestamp \<Rightarrow> session \<Rightarrow> session" where
  "on_text env text recv_ts s =
     (let frame = decode_frame (se_json env) text recv_ts;
          stats = count_label (frame_label frame) (ss_stats s);
          (trackers, outcome) = classify_seq frame (ss_trackers s);
          s1 = s\<lparr>ss_stats := stats, ss_trackers := trackers\<rparr>
      in if outcome = SDuplicate then s1
         else
           let ((sent, stats'), alive) =
                 (case outcome of
                    SGap channel sid last_seq observed_seq \<Rightarrow>
                      emit_seq_gaps env recv_ts channel sid last_seq observed_seq (ss_sent s, stats)
                  | _ \<Rightarrow> ((ss_sent s, stats), True));
               s2 = s1\<lparr>ss_stats := stats', ss_sent := sent\<rparr>
           in if \<not> alive then end_session SinkClosed s2
              else
                let (sent', alive') = sink_send env \<lparr>ce_recv_ts = recv_ts, ce_frame = frame\<rparr> sent;
                    s3 = s2\<lparr>ss_sent := sent'\<rparr>
                in if alive' then s3 else end_session SinkClosed s3)"

fun session_step :: "session_env \<Rightarrow> session_input \<Rightarrow> session \<Rightarrow> session option" where
  "session_step env i s =
     (case ss_phase s of
        Connecting \<Rightarrow>
          (case i of
             IShutdown \<Rightarrow> Some (end_session Shutdown s)
           | IConnected status recv_ts \<Rightarrow> Some (on_connected env status recv_ts s)
           | IConnectFailed _ \<Rightarrow> Some (s\<lparr>ss_phase := Sleeping\<rparr>)
           | _ \<Rightarrow> None)
      | Reading \<Rightarrow>
          (case i of
             IShutdown \<Rightarrow> Some (end_session Shutdown s)
           | ITimeout \<Rightarrow> Some (s\<lparr>ss_phase := Sleeping\<rparr>)
           | IStreamEnd \<Rightarrow> Some (s\<lparr>ss_phase := Sleeping\<rparr>)
           | IWsError _ \<Rightarrow> Some (s\<lparr>ss_phase := Sleeping\<rparr>)
           | IText text recv_ts \<Rightarrow> Some (on_text env text recv_ts s)
           | IPing pong_sent \<Rightarrow> Some (if pong_sent then s else s\<lparr>ss_phase := Sleeping\<rparr>)
           | IClose \<Rightarrow> Some (s\<lparr>ss_phase := Sleeping\<rparr>)
           | IOther \<Rightarrow> Some s
           | _ \<Rightarrow> None)
      | Sleeping \<Rightarrow>
          (case i of
             IShutdown \<Rightarrow> Some (end_session Shutdown s)
           | ISlept jitter \<Rightarrow>
               Some (s\<lparr>ss_backoff := snd (backoff_next (se_mul env) jitter (ss_backoff s)),
                       ss_phase := Connecting\<rparr>)
           | _ \<Rightarrow> None)
      | Ended \<Rightarrow> None)"

declare session_step.simps [simp del]

section \<open>Holes in the emitted stream\<close>

text \<open>The subscription and number an emitted data event carries for the sequence check.\<close>

definition tracked :: "CaptureEvent \<Rightarrow> (i64 \<times> u64 option) option" where
  "tracked e =
     (case (df_outcome (ce_frame e), df_sid (ce_frame e)) of
        (FData _ _ (Snapshot _), Some sid) \<Rightarrow> Some (sid, df_seq (ce_frame e))
      | (FData _ _ (Delta _), Some sid) \<Rightarrow> map_option (\<lambda>q. (sid, Some q)) (df_seq (ce_frame e))
      | (FData _ _ (TradeRec _), Some sid) \<Rightarrow> map_option (\<lambda>q. (sid, Some q)) (df_seq (ce_frame e))
      | _ \<Rightarrow> None)"

definition snapshot_event :: "CaptureEvent \<Rightarrow> bool" where
  "snapshot_event e \<longleftrightarrow> (\<exists>c t s. df_outcome (ce_frame e) = FData c t (Snapshot s))"

definition event_channel :: "CaptureEvent \<Rightarrow> string" where
  "event_channel e = (case df_outcome (ce_frame e) of FData c _ _ \<Rightarrow> c | _ \<Rightarrow> [])"

definition gap_of :: "CaptureEvent \<Rightarrow> (string \<times> GapMarker) option" where
  "gap_of e = (case df_outcome (ce_frame e) of FData c _ (Gap g) \<Rightarrow> Some (c, g) | _ \<Rightarrow> None)"

definition jump_marked :: "string list \<Rightarrow> string \<Rightarrow> u64 \<Rightarrow> u64 \<Rightarrow> CaptureEvent list \<Rightarrow> bool" where
  "jump_marked tickers c l n es \<longleftrightarrow>
     (\<forall>t \<in> set tickers. \<exists>e \<in> set es. \<exists>g. gap_of e = Some (c, g) \<and> gm_reason g = SeqJump \<and>
        gm_ticker g = t \<and> gm_channel g = c \<and> gm_last_seq g = Some l \<and> gm_observed_seq g = Some n)"

definition reconnect_marked :: "string list \<Rightarrow> CaptureEvent list \<Rightarrow> bool" where
  "reconnect_marked tickers es \<longleftrightarrow>
     (\<forall>t \<in> set tickers. \<forall>c \<in> set ONDISK_CHANNELS. \<exists>e \<in> set es. \<exists>g. gap_of e = Some (c, g) \<and>
        gm_reason g = Reconnect \<and> gm_ticker g = t \<and> gm_channel g = c)"

definition holes_marked :: "string list \<Rightarrow> CaptureEvent list \<Rightarrow> bool" where
  "holes_marked tickers sent \<longleftrightarrow>
     (\<forall>xs d1 ys d2 zs sid l n.
        sent = xs @ d1 # ys @ d2 # zs \<and> tracked d1 = Some (sid, Some l) \<and>
        tracked d2 = Some (sid, Some n) \<and> \<not> snapshot_event d2 \<and>
        (\<forall>e \<in> set ys. \<forall>q. tracked e \<noteq> Some (sid, q)) \<and> n \<noteq> l + 1 \<longrightarrow>
        jump_marked tickers (event_channel d2) l n ys \<or> reconnect_marked tickers ys)"

text \<open>The number seen last on a subscription and the events sent since.\<close>

definition since :: "i64 \<Rightarrow> CaptureEvent list \<Rightarrow> (u64 option \<times> CaptureEvent list) option" where
  "since sid es = foldl (\<lambda>a e.
     case tracked e of
       Some (sid', q) \<Rightarrow> if sid' = sid then Some (q, []) else map_option (\<lambda>(q, ys). (q, ys @ [e])) a
     | None \<Rightarrow> map_option (\<lambda>(q, ys). (q, ys @ [e])) a) None es"

lemma since_Nil [simp]: "since sid [] = None"
  by (simp add: since_def)

lemma since_snoc:
  "since sid (es @ [e]) =
     (case tracked e of
        Some (sid', q) \<Rightarrow> if sid' = sid then Some (q, []) else map_option (\<lambda>(q, ys). (q, ys @ [e])) (since sid es)
      | None \<Rightarrow> map_option (\<lambda>(q, ys). (q, ys @ [e])) (since sid es))"
  unfolding since_def foldl_append by simp

lemma since_split:
  assumes "tracked d = Some (sid, q)" and "\<forall>e \<in> set ys. \<forall>q. tracked e \<noteq> Some (sid, q)"
  shows "since sid (xs @ d # ys) = Some (q, ys)"
  using assms(2)
proof (induction ys rule: rev_induct)
  case Nil
  then show ?case using assms(1) since_snoc [of sid xs d] by simp
next
  case (snoc e ys)
  then have IH: "since sid (xs @ d # ys) = Some (q, ys)" by simp
  have "since sid ((xs @ d # ys) @ [e]) = Some (q, ys @ [e])"
    using snoc.prems IH unfolding since_snoc by (auto split: option.split)
  then show ?case by simp
qed

lemma since_quiet:
  "\<forall>e \<in> set gs. tracked e = None \<Longrightarrow>
     since sid (es @ gs) = map_option (\<lambda>(q, ys). (q, ys @ gs)) (since sid es)"
proof (induction gs rule: rev_induct)
  case Nil
  then show ?case by (cases "since sid es") auto
next
  case (snoc g gs)
  then show ?case
    using since_snoc [of sid "es @ gs" g] by (cases "since sid es") auto
qed

definition step_marked :: "string list \<Rightarrow> CaptureEvent list \<Rightarrow> CaptureEvent \<Rightarrow> bool" where
  "step_marked tickers es d \<longleftrightarrow>
     (\<forall>sid n l ys. tracked d = Some (sid, Some n) \<and> \<not> snapshot_event d \<and>
        since sid es = Some (Some l, ys) \<and> n \<noteq> l + 1 \<longrightarrow>
        jump_marked tickers (event_channel d) l n ys \<or> reconnect_marked tickers ys)"

lemma holes_marked_snoc:
  assumes "holes_marked tickers es" and "step_marked tickers es d"
  shows "holes_marked tickers (es @ [d])"
  unfolding holes_marked_def
proof (intro allI impI; elim conjE)
  fix xs d1 ys d2 zs sid l n
  assume eq: "es @ [d] = xs @ d1 # ys @ d2 # zs" and t: "tracked d1 = Some (sid, Some l)"
    "tracked d2 = Some (sid, Some n)" "\<not> snapshot_event d2"
    "\<forall>e \<in> set ys. \<forall>q. tracked e \<noteq> Some (sid, q)" "n \<noteq> l + 1"
  show "jump_marked tickers (event_channel d2) l n ys \<or> reconnect_marked tickers ys"
  proof (cases zs rule: rev_cases)
    case Nil
    then have "d2 = d" and "es = xs @ d1 # ys"
      using eq by (simp_all flip: append_Cons append_assoc)
    with since_split [OF t(1,4)] t assms(2) show ?thesis
      unfolding step_marked_def by blast
  next
    case (snoc zs' z)
    then have "es = xs @ d1 # ys @ d2 # zs'"
      using eq by (simp flip: append_Cons append_assoc)
    with t assms(1) show ?thesis
      unfolding holes_marked_def by blast
  qed
qed

lemma holes_marked_quiet:
  "holes_marked tickers es \<Longrightarrow> \<forall>e \<in> set gs. tracked e = None \<Longrightarrow> holes_marked tickers (es @ gs)"
proof (induction gs rule: rev_induct)
  case (snoc g gs)
  then have "holes_marked tickers ((es @ gs) @ [g])"
    by (intro holes_marked_snoc) (auto simp: step_marked_def)
  then show ?case by simp
qed simp

section \<open>Sending and classifying\<close>

lemma gap_capture_event_simps [simp]:
  "tracked (gap_capture_event ts sid c m) = None"
  "gap_of (gap_capture_event ts sid c m) = Some (c, m)"
  by (simp_all add: tracked_def gap_of_def gap_capture_event_def)

lemma send_gaps_prefix:
  "send_gaps env ts sid ms (sent, st) = ((sent', st'), alive) \<Longrightarrow>
     \<exists>gs rest. map (\<lambda>(c, m). gap_capture_event ts sid c m) ms = gs @ rest \<and> sent' = sent @ gs \<and>
       (alive \<longleftrightarrow> rest = []) \<and>
       st' = st\<lparr>sn_gaps := sn_gaps st + of_nat (length gs) + (if alive then 0 else 1)\<rparr>"
proof (induction ms arbitrary: sent st)
  case Nil
  then show ?case by auto
next
  case (Cons cm ms)
  obtain c m where cm: "cm = (c, m)" by fastforce
  let ?g = "gap_capture_event ts sid c m"
  show ?case
  proof (cases "se_open env sent")
    case True
    then have "send_gaps env ts sid ms (sent @ [?g], st\<lparr>sn_gaps := sn_gaps st + 1\<rparr>) = ((sent', st'), alive)"
      using Cons.prems by (simp add: cm send_gap_def sink_send_def)
    from Cons.IH [OF this] obtain gs rest
      where "map (\<lambda>(c, m). gap_capture_event ts sid c m) ms = gs @ rest" "sent' = sent @ ?g # gs"
        "alive \<longleftrightarrow> rest = []" "st' = st\<lparr>sn_gaps := sn_gaps st + 1 + of_nat (length gs) + (if alive then 0 else 1)\<rparr>"
      by auto
    then show ?thesis
      by (intro exI [of _ "?g # gs"] exI [of _ rest]) (auto simp: cm algebra_simps)
  next
    case False
    with Cons.prems show ?thesis
      by (auto simp: cm send_gap_def sink_send_def)
  qed
qed

lemma send_gaps_open:
  "send_gaps env ts sid ms st = (st', alive) \<Longrightarrow> \<not> alive \<Longrightarrow> \<exists>es. \<not> se_open env es"
  by (induction ms arbitrary: st)
    (auto simp: send_gap_def sink_send_def split: prod.splits if_splits)

lemma decode_frame_kind:
  "df_outcome (decode_frame L text ts) = FData c t r \<Longrightarrow>
     (\<exists>x. r = Snapshot x) \<or> (\<exists>x. r = Delta x) \<or> (\<exists>x. r = TradeRec x)"
  by (cases r) (auto simp: decode_frame_iff)

definition tracker_last :: "trackers \<Rightarrow> i64 \<Rightarrow> u64 option" where
  "tracker_last trackers sid = (case trackers sid of Some t \<Rightarrow> st_last_seq t | None \<Rightarrow> None)"

lemma classify_seq_untracked:
  assumes "tracked \<lparr>ce_recv_ts = ts, ce_frame = frame\<rparr> = None"
    and "frame = decode_frame L text ts" and "classify_seq frame tr = (tr', oc)"
  shows "oc = SPersist" and "tracker_last tr' sid = tracker_last tr sid"
    and "tr sid = Some t \<Longrightarrow> tr' sid = Some t"
proof -
  have "oc = SPersist \<and> tracker_last tr' sid = tracker_last tr sid \<and> (tr sid = Some t \<longrightarrow> tr' sid = Some t)" for sid t
  proof (cases "df_outcome frame")
    case (FData c tk r)
    with assms(2) have "(\<exists>x. r = Snapshot x) \<or> (\<exists>x. r = Delta x) \<or> (\<exists>x. r = TradeRec x)"
      by (auto dest: decode_frame_kind)
    with FData assms(1,3) show ?thesis
      by (auto simp: classify_seq_def tracked_def tracker_last_def is_snapshot_def SeqTracker_new_def
          split: option.splits if_splits)
  qed (use assms(3) in \<open>auto simp: classify_seq_def\<close>)
  then show "oc = SPersist" "tracker_last tr' sid = tracker_last tr sid" "tr sid = Some t \<Longrightarrow> tr' sid = Some t"
    by blast+
qed

lemma classify_seq_tracked:
  assumes "tracked e = Some (sid, q)" and "e = \<lparr>ce_recv_ts = ts, ce_frame = frame\<rparr>"
    and "classify_seq frame tr = (tr', oc)"
  shows "oc = SDuplicate \<and> q \<noteq> None \<and> tracker_last tr sid = q \<and> tr' = tr \<or>
     tr' = tr(sid \<mapsto> \<lparr>st_last_seq = q\<rparr>) \<and>
     (oc = SPersist \<and> (\<forall>l n. \<not> snapshot_event e \<and> tracker_last tr sid = Some l \<and> q = Some n \<longrightarrow> n = l + 1) \<or>
      (\<exists>l n. oc = SGap (event_channel e) sid (Some l) n \<and> tracker_last tr sid = Some l \<and> q = Some n))"
proof -
  define tk where "tk = (case tr sid of Some t \<Rightarrow> t | None \<Rightarrow> SeqTracker_new)"
  have lst: "tracker_last tr sid = st_last_seq tk"
    by (simp add: tracker_last_def tk_def SeqTracker_new_def split: option.split)
  obtain c t r where out: "df_outcome frame = FData c t r" and sid: "df_sid frame = Some sid"
    using assms(1,2) by (auto simp: tracked_def split: FrameOutcome.splits option.splits RecordKind.splits)
  have cases: "(\<exists>x. r = Snapshot x) \<and> q = df_seq frame \<or>
      \<not> is_snapshot r \<and> \<not> snapshot_event e \<and> df_seq frame = q \<and> q \<noteq> None"
    using assms(1,2) out sid
    by (auto simp: tracked_def is_snapshot_def snapshot_event_def split: RecordKind.splits)
  have chan: "event_channel e = c"
    using assms(2) out by (simp add: event_channel_def)
  from cases show ?thesis
  proof (elim disjE conjE exE)
    fix x assume "r = Snapshot x" and "q = df_seq frame"
    then show ?thesis
      using assms(2,3) out sid tk_def
      by (auto simp: classify_seq_def is_snapshot_def on_snapshot_def snapshot_event_def Let_def)
  next
    assume ns: "\<not> is_snapshot r" "\<not> snapshot_event e" and "df_seq frame = q" "q \<noteq> None"
    then obtain n where q: "q = Some n" "df_seq frame = Some n" by auto
    obtain tk' v where os: "on_sequenced n tk = (tk', v)" by fastforce
    have cl: "tr' = tr(sid \<mapsto> tk')"
      "oc = (case v of Accept \<Rightarrow> SPersist | Duplicate \<Rightarrow> SDuplicate | GapVerdict _ l ob \<Rightarrow> SGap c sid l ob)"
      using assms(3) out sid ns q os by (auto simp: classify_seq_def Let_def tk_def [symmetric])
    have "tr sid = Some tk" if "st_last_seq tk = Some n"
      using that by (auto simp: tk_def SeqTracker_new_def split: option.splits)
    then show ?thesis
      using os cl q chan ns lst unfolding on_sequenced_def
      by (auto split: option.splits if_splits)
  qed
qed

section \<open>The session invariant\<close>

definition session_inv :: "session_env \<Rightarrow> session \<Rightarrow> bool" where
  "session_inv env s \<longleftrightarrow>
     holes_marked (se_tickers env) (ss_sent s) \<and>
     (ss_first s \<longrightarrow> ss_sent s = []) \<and>
     (ss_phase s = Reading \<longrightarrow> \<not> ss_first s \<and>
        (\<forall>sid q ys. since sid (ss_sent s) = Some (q, ys) \<longrightarrow>
           reconnect_marked (se_tickers env) ys \<or> tracker_last (ss_trackers s) sid = q) \<and>
        (\<forall>sid q. tracker_last (ss_trackers s) sid = Some q \<longrightarrow>
           (\<exists>e \<in> set (ss_sent s). tracked e = Some (sid, Some q))))"

lemma session_invI [intro?]:
  assumes "holes_marked (se_tickers env) (ss_sent s)" and "ss_first s \<Longrightarrow> ss_sent s = []"
    and "ss_phase s = Reading \<Longrightarrow> \<not> ss_first s"
    and "\<And>sid q ys. ss_phase s = Reading \<Longrightarrow> since sid (ss_sent s) = Some (q, ys) \<Longrightarrow>
           reconnect_marked (se_tickers env) ys \<or> tracker_last (ss_trackers s) sid = q"
    and "\<And>sid q. ss_phase s = Reading \<Longrightarrow> tracker_last (ss_trackers s) sid = Some q \<Longrightarrow>
           \<exists>e \<in> set (ss_sent s). tracked e = Some (sid, Some q)"
  shows "session_inv env s"
  using assms by (simp add: session_inv_def)

lemma session_invD:
  assumes "session_inv env s"
  shows "holes_marked (se_tickers env) (ss_sent s)" and "ss_first s \<Longrightarrow> ss_sent s = []"
    and "ss_phase s = Reading \<Longrightarrow> \<not> ss_first s"
    and "ss_phase s = Reading \<Longrightarrow> since sid (ss_sent s) = Some (q, ys) \<Longrightarrow>
           reconnect_marked (se_tickers env) ys \<or> tracker_last (ss_trackers s) sid = q"
    and "ss_phase s = Reading \<Longrightarrow> tracker_last (ss_trackers s) sid = Some n \<Longrightarrow>
           \<exists>e \<in> set (ss_sent s). tracked e = Some (sid, Some n)"
  using assms by (auto simp: session_inv_def)

lemma session_inv_start: "session_inv env session_start"
  by (simp add: session_inv_def session_start_def holes_marked_def)

lemma session_inv_phase: "session_inv env s \<Longrightarrow> p \<noteq> Reading \<Longrightarrow> session_inv env (s\<lparr>ss_phase := p\<rparr>)"
  by (simp add: session_inv_def)

lemma session_inv_end: "session_inv env s \<Longrightarrow> session_inv env (end_session e s)"
  by (simp add: session_inv_def end_session_def)

lemma reconnect_events_mark:
  assumes "map (\<lambda>(c, m). gap_capture_event ts None c m)
      (concat (map (\<lambda>t. map (\<lambda>c. (c, reconnect_marker t c)) ONDISK_CHANNELS) tickers)) = gs"
  shows "reconnect_marked tickers (ys @ gs)"
  unfolding reconnect_marked_def
proof (intro ballI)
  fix t c
  assume "t \<in> set tickers" and "c \<in> set ONDISK_CHANNELS"
  then have "gap_capture_event ts None c (reconnect_marker t c) \<in> set gs"
    using assms by force
  then show "\<exists>e \<in> set (ys @ gs). \<exists>g. gap_of e = Some (c, g) \<and> gm_reason g = Reconnect \<and>
      gm_ticker g = t \<and> gm_channel g = c"
    by (intro bexI [of _ "gap_capture_event ts None c (reconnect_marker t c)"])
      (simp_all add: reconnect_marker_def)
qed

lemma jump_events_mark:
  assumes "map (\<lambda>(c, m). gap_capture_event ts (Some sid) c m)
      (map (\<lambda>t. (c, seq_jump_marker c sid (Some l) n t)) tickers) = gs"
  shows "jump_marked tickers c l n (ys @ gs)"
  unfolding jump_marked_def
proof
  fix t
  assume "t \<in> set tickers"
  then have "gap_capture_event ts (Some sid) c (seq_jump_marker c sid (Some l) n t) \<in> set gs"
    using assms by force
  then show "\<exists>e \<in> set (ys @ gs). \<exists>g. gap_of e = Some (c, g) \<and> gm_reason g = SeqJump \<and>
      gm_ticker g = t \<and> gm_channel g = c \<and> gm_last_seq g = Some l \<and> gm_observed_seq g = Some n"
    by (intro bexI [of _ "gap_capture_event ts (Some sid) c (seq_jump_marker c sid (Some l) n t)"])
      (simp_all add: seq_jump_marker_def)
qed

lemma quiet_gaps:
  "map (\<lambda>(c, m). gap_capture_event ts sid c m) ms = gs @ rest \<Longrightarrow> \<forall>e \<in> set gs. tracked e = None"
proof -
  assume "map (\<lambda>(c, m). gap_capture_event ts sid c m) ms = gs @ rest"
  then have "set gs \<subseteq> set (map (\<lambda>(c, m). gap_capture_event ts sid c m) ms)" by simp
  then show ?thesis by auto
qed

lemma on_connected_cases:
  obtains (first) "ss_first s"
    "on_connected env status ts s = s\<lparr>ss_stats := (ss_stats s)\<lparr>sn_status := Some status, sn_connects := sn_connects (ss_stats s) + 1\<rparr>,
       ss_backoff := backoff_reset (ss_backoff s), ss_first := False, ss_trackers := (\<lambda>_. None), ss_phase := Reading\<rparr>"
  | (gaps) gs st where "\<not> ss_first s"
    "map (\<lambda>(c, m). gap_capture_event ts None c m)
      (concat (map (\<lambda>t. map (\<lambda>c. (c, reconnect_marker t c)) ONDISK_CHANNELS) (se_tickers env))) = gs"
    "on_connected env status ts s = s\<lparr>ss_stats := st, ss_backoff := backoff_reset (ss_backoff s),
       ss_first := False, ss_trackers := (\<lambda>_. None), ss_sent := ss_sent s @ gs, ss_phase := Reading\<rparr>"
    "sn_gaps st = sn_gaps (ss_stats s) + of_nat (length gs)"
    "sn_end st = sn_end (ss_stats s)"
  | (closed) gs rest st where "\<not> ss_first s" "rest \<noteq> []"
    "map (\<lambda>(c, m). gap_capture_event ts None c m)
      (concat (map (\<lambda>t. map (\<lambda>c. (c, reconnect_marker t c)) ONDISK_CHANNELS) (se_tickers env))) = gs @ rest"
    "on_connected env status ts s = end_session SinkClosed (s\<lparr>ss_stats := st, ss_backoff := backoff_reset (ss_backoff s),
       ss_sent := ss_sent s @ gs\<rparr>)"
proof (cases "ss_first s")
  case True
  then show ?thesis by (intro that(1)) (simp_all add: on_connected_def Let_def)
next
  case False
  let ?st = "(ss_stats s)\<lparr>sn_status := Some status, sn_connects := sn_connects (ss_stats s) + 1\<rparr>"
  obtain sent st alive where e: "emit_reconnect_gaps env ts (ss_sent s, ?st) = ((sent, st), alive)"
    by (metis prod_cases3 surj_pair)
  from send_gaps_prefix [OF e [unfolded emit_reconnect_gaps_def]] obtain gs rest
    where m: "map (\<lambda>(c, m). gap_capture_event ts None c m)
      (concat (map (\<lambda>t. map (\<lambda>c. (c, reconnect_marker t c)) ONDISK_CHANNELS) (se_tickers env))) = gs @ rest"
      and r: "sent = ss_sent s @ gs" "alive \<longleftrightarrow> rest = []"
      "st = ?st\<lparr>sn_gaps := sn_gaps ?st + of_nat (length gs) + (if alive then 0 else 1)\<rparr>"
    by blast
  show ?thesis
  proof (cases alive)
    case True
    show ?thesis
      by (rule that(2) [of gs st]) (use False True e m r in \<open>simp_all add: on_connected_def Let_def\<close>)
  next
    case alive: False
    show ?thesis
      by (rule that(3) [of rest gs st]) (use False alive e m r in \<open>simp_all add: on_connected_def Let_def\<close>)
  qed
qed

lemma session_inv_connected:
  assumes "session_inv env s"
  shows "session_inv env (on_connected env status ts s)"
proof (cases rule: on_connected_cases [of s env status ts])
  case first
  with session_invD(2) [OF assms] have "ss_sent s = []" by simp
  with first show ?thesis
    by (simp add: session_inv_def holes_marked_def tracker_last_def)
next
  case (gaps gs st)
  have quiet: "\<forall>e \<in> set gs. tracked e = None"
    using gaps(2) by (intro quiet_gaps [where rest = "[]"]) simp
  show ?thesis
    unfolding gaps(3)
    by (rule session_invI)
      (use holes_marked_quiet [OF session_invD(1) [OF assms] quiet] in
        \<open>auto simp: since_quiet [OF quiet] tracker_last_def reconnect_events_mark [OF gaps(2)]\<close>)
next
  case (closed gs rest st)
  have quiet: "\<forall>e \<in> set gs. tracked e = None"
    using closed(3) by (rule quiet_gaps)
  show ?thesis
    unfolding closed(4) end_session_def
    by (rule session_invI)
      (use closed(1) holes_marked_quiet [OF session_invD(1) [OF assms] quiet] in simp_all)
qed

lemma reconnect_marked_append: "reconnect_marked tickers ys \<Longrightarrow> reconnect_marked tickers (ys @ gs)"
  by (fastforce simp: reconnect_marked_def)

lemma session_inv_extend:
  assumes inv: "session_inv env s" and ph: "ss_phase s = Reading"
    and quiet: "\<forall>g \<in> set gs. tracked g = None"
    and un: "tracked e = None \<Longrightarrow> tracker_last tr' = tracker_last (ss_trackers s)"
    and tr: "\<And>sid q. tracked e = Some (sid, q) \<Longrightarrow> tr' = (ss_trackers s)(sid \<mapsto> \<lparr>st_last_seq = q\<rparr>)"
    and mk: "\<And>sid l n ys. tracked e = Some (sid, Some n) \<Longrightarrow> \<not> snapshot_event e \<Longrightarrow>
      tracker_last (ss_trackers s) sid = Some l \<Longrightarrow> n \<noteq> l + 1 \<Longrightarrow>
      jump_marked (se_tickers env) (event_channel e) l n (ys @ gs)"
  shows "session_inv env (s\<lparr>ss_stats := st, ss_trackers := tr', ss_sent := ss_sent s @ gs @ [e]\<rparr>)"
proof (rule session_invI; simp add: ph)
  have "step_marked (se_tickers env) (ss_sent s @ gs) e"
    unfolding step_marked_def
  proof (intro allI impI; elim conjE)
    fix sid n l ys
    assume t: "tracked e = Some (sid, Some n)" "\<not> snapshot_event e" "n \<noteq> l + 1"
      and "since sid (ss_sent s @ gs) = Some (Some l, ys)"
    then obtain ys0 where ys: "since sid (ss_sent s) = Some (Some l, ys0)" "ys = ys0 @ gs"
      by (auto simp: since_quiet [OF quiet])
    from session_invD(4) [OF inv ph ys(1)] mk [OF t(1,2) _ t(3)]
    show "jump_marked (se_tickers env) (event_channel e) l n ys \<or> reconnect_marked (se_tickers env) ys"
      unfolding ys(2) by (blast intro: reconnect_marked_append)
  qed
  with holes_marked_quiet [OF session_invD(1) [OF inv] quiet]
  show "holes_marked (se_tickers env) (ss_sent s @ gs @ [e])"
    using holes_marked_snoc [of "se_tickers env" "ss_sent s @ gs" e] by simp
  show "\<not> ss_first s" using session_invD(3) [OF inv ph] .
  then show "ss_first s \<Longrightarrow> False" by simp
next
  fix sid q ys
  assume "since sid (ss_sent s @ gs @ [e]) = Some (q, ys)"
  then have sn: "since sid ((ss_sent s @ gs) @ [e]) = Some (q, ys)" by simp
  show "reconnect_marked (se_tickers env) ys \<or> tracker_last tr' sid = q"
  proof (cases "\<exists>q'. tracked e = Some (sid, q')")
    case True
    with sn tr show ?thesis
      unfolding since_snoc by (auto simp: tracker_last_def)
  next
    case False
    then obtain ys0 where ys: "since sid (ss_sent s) = Some (q, ys0)" "ys = (ys0 @ gs) @ [e]"
      using sn unfolding since_snoc by (auto simp: since_quiet [OF quiet] split: option.splits if_splits)
    have "tracker_last tr' sid = tracker_last (ss_trackers s) sid"
      using False un tr by (cases "tracked e") (auto simp: tracker_last_def)
    with session_invD(4) [OF inv ph ys(1)] show ?thesis
      unfolding ys(2) by (auto intro: reconnect_marked_append)
  qed
next
  fix sid q
  assume tl: "tracker_last tr' sid = Some q"
  show "tracked e = Some (sid, Some q) \<or> (\<exists>x \<in> set (ss_sent s) \<union> set gs. tracked x = Some (sid, Some q))"
  proof (cases "\<exists>q'. tracked e = Some (sid, q')")
    case True
    with tl tr show ?thesis by (auto simp: tracker_last_def)
  next
    case False
    then have "tracker_last tr' sid = tracker_last (ss_trackers s) sid"
      using un tr by (cases "tracked e") (auto simp: tracker_last_def)
    with tl session_invD(5) [OF inv ph] show ?thesis by (auto simp: bex_Un)
  qed
qed

text \<open>The three ways a text frame is handled.\<close>

lemma on_text_cases:
  fixes env :: session_env and s :: session and tx :: string and ts :: Timestamp
  defines "frame \<equiv> decode_frame (se_json env) tx ts"
  defines "e \<equiv> \<lparr>ce_recv_ts = ts, ce_frame = frame\<rparr>"
  obtains (duplicate) sid n st where
      "tracked e = Some (sid, Some n)" "tracker_last (ss_trackers s) sid = Some n"
      "on_text env tx ts s = s\<lparr>ss_stats := st\<rparr>" "sn_end st = sn_end (ss_stats s)"
      "sn_gaps st = sn_gaps (ss_stats s)"
  | (sent) gs tr' st where
      "on_text env tx ts s = s\<lparr>ss_stats := st, ss_trackers := tr', ss_sent := ss_sent s @ gs @ [e]\<rparr>"
      "\<forall>g \<in> set gs. tracked g = None \<and> (\<exists>c m. gap_of g = Some (c, m) \<and> gm_reason m = SeqJump)"
      "tracked e = None \<Longrightarrow> tracker_last tr' = tracker_last (ss_trackers s)"
      "\<And>sid q. tracked e = Some (sid, q) \<Longrightarrow> tr' = (ss_trackers s)(sid \<mapsto> \<lparr>st_last_seq = q\<rparr>)"
      "\<And>sid l n ys. tracked e = Some (sid, Some n) \<Longrightarrow> \<not> snapshot_event e \<Longrightarrow>
        tracker_last (ss_trackers s) sid = Some l \<Longrightarrow> n \<noteq> l + 1 \<Longrightarrow>
        jump_marked (se_tickers env) (event_channel e) l n (ys @ gs)"
      "sn_end st = sn_end (ss_stats s)" "sn_gaps st = sn_gaps (ss_stats s) + of_nat (length gs)"
  | (closed) gs s' where
      "on_text env tx ts s = end_session SinkClosed s'" "ss_sent s' = ss_sent s @ gs"
      "\<forall>g \<in> set gs. tracked g = None \<and> gap_of g \<noteq> None" "ss_first s' = ss_first s" "\<exists>es. \<not> se_open env es"
proof -
  let ?st = "count_label (frame_label frame) (ss_stats s)"
  obtain tr' oc where cl: "classify_seq frame (ss_trackers s) = (tr', oc)" by fastforce
  have st [simp]: "sn_end ?st = sn_end (ss_stats s)" "sn_gaps ?st = sn_gaps (ss_stats s)"
    by (simp_all add: count_label_def)
  have end_cases: thesis
    if oc: "oc \<noteq> SDuplicate"
      and em: "(case oc of SGap c sid l n \<Rightarrow> emit_seq_gaps env ts c sid l n (ss_sent s, ?st)
          | _ \<Rightarrow> ((ss_sent s, ?st), True)) = ((ss_sent s @ gs, st), alive)"
      and gs: "\<forall>g \<in> set gs. tracked g = None \<and> (\<exists>c m. gap_of g = Some (c, m) \<and> gm_reason m = SeqJump)"
      and un: "tracked e = None \<Longrightarrow> tracker_last tr' = tracker_last (ss_trackers s)"
      and tr: "\<And>sid q. tracked e = Some (sid, q) \<Longrightarrow> tr' = (ss_trackers s)(sid \<mapsto> \<lparr>st_last_seq = q\<rparr>)"
      and mk: "\<And>sid l n ys. alive \<Longrightarrow> tracked e = Some (sid, Some n) \<Longrightarrow> \<not> snapshot_event e \<Longrightarrow>
        tracker_last (ss_trackers s) sid = Some l \<Longrightarrow> n \<noteq> l + 1 \<Longrightarrow>
        jump_marked (se_tickers env) (event_channel e) l n (ys @ gs)"
      and al: "\<not> alive \<Longrightarrow> \<exists>es. \<not> se_open env es"
      and sn: "sn_end st = sn_end (ss_stats s)" "alive \<Longrightarrow> sn_gaps st = sn_gaps (ss_stats s) + of_nat (length gs)"
    for gs st alive
  proof (cases "alive \<and> se_open env (ss_sent s @ gs)")
    case True
    then have "on_text env tx ts s = s\<lparr>ss_stats := st, ss_trackers := tr', ss_sent := ss_sent s @ gs @ [e]\<rparr>"
      using oc em cl by (simp add: on_text_def frame_def [symmetric] e_def sink_send_def Let_def)
    then show ?thesis
      by (rule sent) (use True gs un tr mk sn in blast)+
  next
    case False
    obtain s' where s': "on_text env tx ts s = end_session SinkClosed s'" "ss_sent s' = ss_sent s @ gs"
      "ss_first s' = ss_first s"
      using False oc em cl by (cases alive) (simp_all add: on_text_def frame_def [symmetric] e_def sink_send_def Let_def)
    show ?thesis
      by (rule closed [OF s'(1,2) _ s'(3)]) (use gs al False in fastforce)+
  qed
  show thesis
  proof (cases "tracked e")
    case None
    note u = classify_seq_untracked [OF None [unfolded e_def] frame_def [THEN meta_eq_to_obj_eq] cl]
    then have "tracker_last tr' = tracker_last (ss_trackers s)" by blast
    then show ?thesis
      by (intro end_cases [where gs = "[]" and st = "?st" and alive = True]) (use None u(1) in auto)
  next
    case (Some p)
    then obtain sid q where t: "tracked e = Some (sid, q)" by (cases p) auto
    from classify_seq_tracked [OF t e_def [THEN meta_eq_to_obj_eq] cl]
    consider (dup) "oc = SDuplicate" "q \<noteq> None" "tracker_last (ss_trackers s) sid = q" "tr' = ss_trackers s"
      | (ok) "tr' = (ss_trackers s)(sid \<mapsto> \<lparr>st_last_seq = q\<rparr>)" "oc = SPersist"
        "\<forall>l n. \<not> snapshot_event e \<and> tracker_last (ss_trackers s) sid = Some l \<and> q = Some n \<longrightarrow> n = l + 1"
      | (jump) l n where "tr' = (ss_trackers s)(sid \<mapsto> \<lparr>st_last_seq = q\<rparr>)"
        "oc = SGap (event_channel e) sid (Some l) n" "tracker_last (ss_trackers s) sid = Some l" "q = Some n"
      by blast
    then show ?thesis
    proof cases
      case dup
      then obtain n where n: "q = Some n" by blast
      have "on_text env tx ts s = s\<lparr>ss_stats := ?st\<rparr>"
        using dup cl by (simp add: on_text_def frame_def [symmetric] Let_def)
      with dup n t show ?thesis by (intro duplicate [of sid n ?st]) simp_all
    next
      case ok
      show ?thesis
        by (rule end_cases [where gs = "[]" and st = "?st" and alive = True]) (use ok t in auto)
    next
      case (jump l n)
      obtain sent' st alive where e1: "emit_seq_gaps env ts (event_channel e) sid (Some l) n (ss_sent s, ?st) = ((sent', st), alive)"
        by (metis prod_cases3 surj_pair)
      from send_gaps_prefix [OF this [unfolded emit_seq_gaps_def]] obtain gs rest where
        m: "map (\<lambda>(c, m). gap_capture_event ts (Some sid) c m)
          (map (\<lambda>t. (event_channel e, seq_jump_marker (event_channel e) sid (Some l) n t)) (se_tickers env)) = gs @ rest"
        and r: "sent' = ss_sent s @ gs" "alive \<longleftrightarrow> rest = []"
          "st = ?st\<lparr>sn_gaps := sn_gaps ?st + of_nat (length gs) + (if alive then 0 else 1)\<rparr>"
        by blast
      have "set gs \<subseteq> set (gs @ rest)" by simp
      then have gs: "\<forall>g \<in> set gs. tracked g = None \<and> (\<exists>c m. gap_of g = Some (c, m) \<and> gm_reason m = SeqJump)"
        unfolding m [symmetric] by (auto simp: seq_jump_marker_def)
      show ?thesis
      proof (rule end_cases [where gs = gs and st = st and alive = alive])
        show "oc \<noteq> SDuplicate" using jump by simp
        show "(case oc of SGap c sid l n \<Rightarrow> emit_seq_gaps env ts c sid l n (ss_sent s, ?st)
          | _ \<Rightarrow> ((ss_sent s, ?st), True)) = ((ss_sent s @ gs, st), alive)"
          using jump e1 r by simp
        show "jump_marked (se_tickers env) (event_channel e) l' n' (ys @ gs)"
          if "alive" "tracked e = Some (sid', Some n')" "tracker_last (ss_trackers s) sid' = Some l'" for sid' l' n' ys
          using that jump t r m jump_events_mark [of ts sid "event_channel e" l n "se_tickers env" gs ys] by simp
      qed (use gs jump t r send_gaps_open [OF e1 [unfolded emit_seq_gaps_def]] in auto)
    qed
  qed
qed

lemma session_inv_text:
  assumes inv: "session_inv env s" and ph: "ss_phase s = Reading"
  shows "session_inv env (on_text env tx ts s)"
proof (cases rule: on_text_cases [where env = env and tx = tx and ts = ts and s = s])
  case (duplicate sid n st)
  with inv show ?thesis by (simp add: session_inv_def)
next
  case (sent gs tr' st)
  show ?thesis
    unfolding sent(1) by (rule session_inv_extend [OF inv ph]) (use sent in blast)+
next
  case (closed gs s')
  have "holes_marked (se_tickers env) (ss_sent s')"
    unfolding closed(2) using holes_marked_quiet [OF session_invD(1) [OF inv]] closed(3) by blast
  then show ?thesis
    unfolding closed(1) end_session_def
    by (intro session_invI) (use session_invD(3) [OF inv ph] closed(4) in simp_all)
qed

text \<open>Every input a phase waits for, with the state after it.\<close>

lemma session_step_cases:
  assumes "session_step env i s = Some s'"
  obtains (shutdown) "i = IShutdown" "ss_phase s \<noteq> Ended" "s' = end_session Shutdown s"
  | (connected) status ts where "i = IConnected status ts" "ss_phase s = Connecting"
      "s' = on_connected env status ts s"
  | (frame) tx ts where "i = IText tx ts" "ss_phase s = Reading" "s' = on_text env tx ts s"
  | (sleep) "ss_phase s = Connecting \<or> ss_phase s = Reading" "s' = s\<lparr>ss_phase := Sleeping\<rparr>"
  | (woken) b where "ss_phase s = Sleeping" "s' = s\<lparr>ss_backoff := b, ss_phase := Connecting\<rparr>"
  | (idle) "ss_phase s = Reading" "s' = s"
proof (cases "ss_phase s")
  case Connecting
  with assms have "i = IShutdown \<and> s' = end_session Shutdown s \<or>
      (\<exists>status ts. i = IConnected status ts \<and> s' = on_connected env status ts s) \<or>
      s' = s\<lparr>ss_phase := Sleeping\<rparr>"
    unfolding session_step.simps by (cases i) auto
  with Connecting that(1,2,4) show ?thesis by (metis phase.distinct(5))
next
  case Reading
  with assms have "i = IShutdown \<and> s' = end_session Shutdown s \<or>
      (\<exists>tx ts. i = IText tx ts \<and> s' = on_text env tx ts s) \<or>
      s' = s\<lparr>ss_phase := Sleeping\<rparr> \<or> s' = s"
    unfolding session_step.simps by (cases i) (auto split: if_splits)
  with Reading that(1,3,4,6) show ?thesis by (metis phase.distinct(9))
next
  case Sleeping
  with assms have "i = IShutdown \<and> s' = end_session Shutdown s \<or>
      (\<exists>b. s' = s\<lparr>ss_backoff := b, ss_phase := Connecting\<rparr>)"
    unfolding session_step.simps by (cases i) auto
  with Sleeping that(1,5) show ?thesis by (metis phase.distinct(11))
next
  case Ended
  then show ?thesis
    using assms by (simp add: session_step.simps)
qed

lemma session_inv_step:
  assumes "session_inv env s" and "session_step env i s = Some s'"
  shows "session_inv env s'"
  using assms(2)
proof (cases rule: session_step_cases)
  case (woken b)
  with assms(1) show ?thesis by (simp add: session_inv_def)
qed (use assms(1) in \<open>auto intro: session_inv_end session_inv_connected session_inv_text session_inv_phase\<close>)

interpretation session: stepwise_invariant "session_step env" session_start "session_inv env" for env
  by unfold_locales (auto intro: session_inv_start session_inv_step)

lemma on_connected_ended:
  assumes "ss_phase (on_connected env status ts s) = Ended"
  shows "\<exists>es. \<not> se_open env es"
proof (cases "ss_first s")
  case True
  with assms show ?thesis by (simp add: on_connected_def Let_def)
next
  case False
  let ?st = "(ss_stats s)\<lparr>sn_status := Some status, sn_connects := sn_connects (ss_stats s) + 1\<rparr>"
  obtain st' alive where e: "emit_reconnect_gaps env ts (ss_sent s, ?st) = (st', alive)"
    by fastforce
  with False assms have "\<not> alive"
    by (cases st') (auto simp: on_connected_def Let_def split: if_splits)
  then show ?thesis
    using send_gaps_open [OF e [unfolded emit_reconnect_gaps_def]] by blast
qed

lemma session_end_reason:
  assumes "session_step env i s = Some s'" and "ss_phase s' = Ended" and "i \<noteq> IShutdown"
  shows "\<exists>es. \<not> se_open env es"
  using assms(1)
proof (cases rule: session_step_cases)
  case (connected status ts)
  with assms(2) show ?thesis by (auto dest: on_connected_ended)
next
  case (frame tx ts)
  show ?thesis
    by (cases rule: on_text_cases [where env = env and tx = tx and ts = ts and s = s]) (use frame assms(2) in auto)
qed (use assms(2,3) in auto)

text \<open>The kinds of record that reach each channel.\<close>

definition event_kind_ok :: "CaptureEvent \<Rightarrow> bool" where
  "event_kind_ok e \<longleftrightarrow>
     (\<forall>c t r. df_outcome (ce_frame e) = FData c t r \<longrightarrow>
        (\<exists>g. r = Gap g) \<or> c = ''trade'' \<and> (\<exists>x. r = TradeRec x) \<or>
        c = ''orderbook'' \<and> ((\<exists>x. r = Snapshot x) \<or> (\<exists>x. r = Delta x)))"

definition kinds_ok :: "session \<Rightarrow> bool" where
  "kinds_ok s \<longleftrightarrow> list_all event_kind_ok (ss_sent s)"

lemma gap_kind_ok: "gap_of e \<noteq> None \<Longrightarrow> event_kind_ok e"
  by (auto simp: gap_of_def event_kind_ok_def split: FrameOutcome.splits RecordKind.splits)

lemma decoded_kind_ok: "event_kind_ok \<lparr>ce_recv_ts = ts, ce_frame = decode_frame L tx ts'\<rparr>"
proof -
  have "kind_of_type ty r \<Longrightarrow> (\<exists>x. r = TradeRec x) \<and> ty = ''trade'' \<or>
      ((\<exists>x. r = Snapshot x) \<or> (\<exists>x. r = Delta x)) \<and> ty \<noteq> ''trade''" for ty r
    by (cases r) auto
  then show ?thesis
    by (auto simp: event_kind_ok_def decode_frame_iff channel_of_type_def)
qed

lemma kinds_ok_step:
  assumes "kinds_ok s" and "session_step env i s = Some s'"
  shows "kinds_ok s'"
  using assms(2)
proof (cases rule: session_step_cases)
  case (connected status ts)
  have gaps: "list_all event_kind_ok gs"
    if "map (\<lambda>(c, m). gap_capture_event ts None c m) ms = gs @ rest" for gs rest ms
  proof -
    have "set gs \<subseteq> set (gs @ rest)" by simp
    then show ?thesis
      unfolding that [symmetric] by (auto simp: list_all_iff gap_kind_ok)
  qed
  show ?thesis
    by (cases rule: on_connected_cases [of s env status ts])
      (use assms(1) connected gaps [of _ _ "[]"] gaps in \<open>auto simp: kinds_ok_def end_session_def\<close>)
next
  case (frame tx ts)
  show ?thesis
  proof (cases rule: on_text_cases [where env = env and tx = tx and ts = ts and s = s])
    case (duplicate sid n st)
    with assms(1) frame show ?thesis by (simp add: kinds_ok_def)
  next
    case (sent gs tr' st)
    then have "list_all event_kind_ok gs"
      by (metis (no_types, lifting) gap_kind_ok list_all_iff option.distinct(1))
    with assms(1) frame sent(1) show ?thesis
      by (simp add: kinds_ok_def decoded_kind_ok)
  next
    case (closed gs s1)
    then have "list_all event_kind_ok gs"
      by (simp add: gap_kind_ok list_all_iff)
    with assms(1) frame closed(1,2) show ?thesis
      by (simp add: kinds_ok_def end_session_def)
  qed
qed (use assms(1) in \<open>auto simp: kinds_ok_def end_session_def\<close>)

interpretation session_kinds: stepwise_invariant "session_step env" session_start kinds_ok for env
  by unfold_locales (simp add: kinds_ok_def session_start_def, rule kinds_ok_step)

section \<open>A concrete run\<close>

text \<open>A session over one ticker that reads a snapshot numbered 5 and then a delta numbered 8.\<close>

definition ex_frame :: "string \<Rightarrow> int \<Rightarrow> (string \<times> json) list \<Rightarrow> json" where
  "ex_frame ty seq msg =
     JObject [(''type'', JString ty), (''sid'', JInt 1), (''seq'', JInt seq), (''msg'', JObject msg)]"

definition ex_json :: json_lib where
  "ex_json =
     \<lparr>js_from_str = (\<lambda>s.
        if s = ''S'' then Inr (ex_frame ''orderbook_snapshot'' 5 [(''market_ticker'', JString ''T'')])
        else if s = ''D'' then Inr (ex_frame ''orderbook_delta'' 8
          [(''market_ticker'', JString ''T''), (''side'', JString ''yes''),
           (''price_dollars'', JString ''0.5''), (''delta_fp'', JString ''-1'')])
        else Inl ''expected value''),
      js_to_string = (\<lambda>_. []), js_debug = quoted\<rparr>"

definition ex_env :: session_env where
  "ex_env = \<lparr>se_json = ex_json, se_tickers = [''T''], se_open = (\<lambda>_. True), se_mul = (\<lambda>d _. d)\<rparr>"

definition ex_session :: "session_input list \<Rightarrow> session" where
  "ex_session is = the (run_inputs (session_step ex_env) is session_start)"

lemma ex_parse [simp]: "MicroDollars_parse ''0.5'' = Inr 500000" "QtyDelta_parse ''-1'' = Inr (- 100)"
  by code_simp+

lemmas ex_defs = ex_session_def ex_env_def ex_json_def ex_frame_def session_start_def SessionStats_default_def
  session_step.simps on_connected_def on_text_def Let_def sink_send_def decode_frame_def classify_frame_def
  decode_data_def decode_snapshot_def decode_delta_def str_field_def ticker_of_def side_of_def decode_levels_def
  map_err_def ok_or_def wire_ts_def classify_seq_def is_snapshot_def on_snapshot_def on_sequenced_def
  SeqTracker_new_def emit_seq_gaps_def send_gap_def i64_range_def

lemma ex_env_simps [simp]: "se_tickers ex_env = [''T'']" "se_open ex_env = (\<lambda>_. True)" "se_json ex_env = ex_json"
  by (simp_all add: ex_env_def)

lemma ex_run: "run_inputs (session_step ex_env) [IConnected 101 0, IText ''S'' 1, IText ''D'' 2] session_start =
    Some (ex_session [IConnected 101 0, IText ''S'' 1, IText ''D'' 2])"
  by (simp add: ex_defs)

lemma ex_sent: "map (\<lambda>e. (tracked e, gap_of e)) (ss_sent (ex_session [IConnected 101 0, IText ''S'' 1, IText ''D'' 2])) =
    [(Some (1, Some 5), None),
     (None, Some (''orderbook'', seq_jump_marker ''orderbook'' 1 (Some 5) 8 ''T'')),
     (Some (1, Some 8), None)]"
  by (simp add: ex_defs tracked_def gap_of_def gap_capture_event_def CHANNEL_ORDERBOOK_def)

section \<open>Properties\<close>



text \<open>
  C17. Nothing read is withheld: a text frame read by a reachable session is sent on, behind nothing but
  \<open>SeqJump\<close> markers, unless an event of the same subscription with the same number was sent
  before, or the consumer is gone and the session ends with that reason.
\<close>

theorem session_withholds_only_repeats:
  assumes "reachable (session_step env) session_start s"
    and "session_step env (IText tx ts) s = Some s'"
    and "e = \<lparr>ce_recv_ts = ts, ce_frame = decode_frame (se_json env) tx ts\<rparr>"
  shows "(\<exists>gs. ss_sent s' = ss_sent s @ gs @ [e] \<and>
       (\<forall>g \<in> set gs. \<exists>c m. gap_of g = Some (c, m) \<and> gm_reason m = SeqJump)) \<or>
     ss_sent s' = ss_sent s \<and>
       (\<exists>d \<in> set (ss_sent s). \<exists>sid n. tracked d = Some (sid, Some n) \<and> tracked e = Some (sid, Some n)) \<or>
     ss_phase s' = Ended \<and> sn_end (ss_stats s') = Some SinkClosed"
proof -
  have ph: "ss_phase s = Reading" and s': "s' = on_text env tx ts s"
    using assms(2) by (cases "ss_phase s"; simp add: session_step.simps)+
  note inv = session.inv_reachable [OF assms(1)]
  show ?thesis
  proof (cases rule: on_text_cases [where env = env and tx = tx and ts = ts and s = s])
    case (duplicate sid n st)
    with session_invD(5) [OF inv ph duplicate(2)] show ?thesis
      using s' assms(3) by auto
  next
    case (sent gs tr' st)
    then have "ss_sent s' = ss_sent s @ gs @ [e]"
      and "\<forall>g \<in> set gs. \<exists>c m. gap_of g = Some (c, m) \<and> gm_reason m = SeqJump"
      using s' assms(3) by auto
    then show ?thesis by blast
  next
    case (closed gs s1)
    then show ?thesis using s' by (simp add: end_session_def)
  qed
qed

theorem session_withholds_only_repeats_witness:
  "\<exists>s s' gs. reachable (session_step ex_env) session_start s \<and>
     session_step ex_env (IText ''D'' 2) s = Some s' \<and>
     ss_sent s' = ss_sent s @ gs @ [\<lparr>ce_recv_ts = 2, ce_frame = decode_frame ex_json ''D'' 2\<rparr>]"
proof -
  let ?s = "ex_session [IConnected 101 0, IText ''S'' 1]"
  let ?s' = "ex_session [IConnected 101 0, IText ''S'' 1, IText ''D'' 2]"
  have r: "reachable (session_step ex_env) session_start ?s"
    by (rule run_inputs_reachable [where ?is = "[IConnected 101 0, IText ''S'' 1]"]) (simp add: ex_defs)
  have st: "session_step ex_env (IText ''D'' 2) ?s = Some ?s'"
    by (simp add: ex_defs)
  have "length (ss_sent ?s') \<noteq> length (ss_sent ?s)" and "ss_phase ?s' \<noteq> Ended"
    by (simp_all add: ex_defs)
  with session_withholds_only_repeats [OF r st refl] r st show ?thesis by fastforce
qed

text \<open>
  The session survives everything but a shutdown: while the consumer is there, no failed
  connection, idle timeout, socket error, close or failed pong ends it, and from every reachable
  state that has not ended it can be reading again after at most one sleep and one connection.
\<close>

theorem session_survives:
  assumes "reachable (session_step env) session_start s" and "ss_phase s \<noteq> Ended"
    and "\<And>es. se_open env es"
  shows "(\<forall>i s'. session_step env i s = Some s' \<and> i \<noteq> IShutdown \<longrightarrow> ss_phase s' \<noteq> Ended) \<and>
     (\<exists>is s'. length is \<le> 2 \<and> IShutdown \<notin> set is \<and>
        run_inputs (session_step env) is s = Some s' \<and> ss_phase s' = Reading)"
proof
  show "\<forall>i s'. session_step env i s = Some s' \<and> i \<noteq> IShutdown \<longrightarrow> ss_phase s' \<noteq> Ended"
    using session_end_reason assms(3) by blast
  have conn: "ss_phase (on_connected env 101 0 x) = Reading" for x
    using on_connected_ended [of env 101 0 x] assms(3)
    by (cases rule: on_connected_cases [of x env 101 0]) (auto simp: end_session_def)
  show "\<exists>is s'. length is \<le> 2 \<and> IShutdown \<notin> set is \<and>
      run_inputs (session_step env) is s = Some s' \<and> ss_phase s' = Reading"
  proof (cases "ss_phase s")
    case Connecting
    then show ?thesis
      by (intro exI [of _ "[IConnected 101 0]"]) (simp add: session_step.simps conn)
  next
    case Reading
    then show ?thesis by (intro exI [of _ "[]"]) simp
  next
    case Sleeping
    then show ?thesis
      by (intro exI [of _ "[ISlept 0, IConnected 101 0]"]) (simp add: session_step.simps conn)
  qed (use assms(2) in simp)
qed

theorem session_survives_witness:
  "\<exists>is s'. length is \<le> 2 \<and> IShutdown \<notin> set is \<and>
     run_inputs (session_step ex_env) is session_start = Some s' \<and> ss_phase s' = Reading"
  by (rule session_survives [OF reachable.start, THEN conjunct2]) (simp_all add: session_start_def)

end
