(* ===== verification/Store.thy ===== *)
theory Store
  imports Ordered_Map Units
begin

text \<open>
  The append-only storage of \<^verbatim>\<open>crates/kdp-store\<close>: one JSON line per record, one file per stream and
  UTC day (\<^verbatim>\<open>lib.rs\<close>), a lazily filled set of writers (\<^verbatim>\<open>stream_set.rs\<close>) and the free-space guard
  (\<^verbatim>\<open>disk_guard.rs\<close>).

  A path is the list of its segments and the disk a partial map from paths to bytes. The outcomes of
  the calls to the operating system during one append are an \<open>append_io\<close>: the day the clock shows,
  the errors of creating the directory, of opening the file and of writing. A failed write has put
  some number of the bytes of its line on the disk. The writing of a date and of a path and the
  quoting of a text are the parameters \<open>store_lib\<close>. A record is the JSON text the serializer writes.

  The interface \<open>stream_log\<close> is what a client relies on: an append adds one line to one file and
  leaves every other file alone, and a failed append leaves a prefix of that line. It is
  interpreted on the model of \<^verbatim>\<open>StreamSet\<close>.
\<close>

section \<open>Errors and keys\<close>

type_synonym path = "string list"

datatype StoreError =
    SEIo string
  | SESerialize string
  | SEDiskFull path u64 u64
  | SEUnsafeKey string

text \<open>A failure is an error value, or the panic of \<^verbatim>\<open>expect\<close>.\<close>

datatype store_fail = Fails StoreError | Panics string

definition is_safe_segment :: "string \<Rightarrow> bool" where
  "is_safe_segment s \<longleftrightarrow>
     s \<noteq> [] \<and> s \<noteq> ''.'' \<and> s \<noteq> ''..'' \<and> CHR ''/'' \<notin> set s \<and> CHR 0x5C \<notin> set s \<and>
     CHR '':'' \<notin> set s \<and> CHR 0x00 \<notin> set s"

record store_lib =
  sl_show_day :: "int \<Rightarrow> string"
  sl_show_path :: "path \<Rightarrow> string"
  sl_debug :: "string \<Rightarrow> string"

section \<open>The writer of one stream\<close>

type_synonym disk = "path \<Rightarrow> string option"

record append_io =
  ai_today :: int
  ai_mkdir :: "string option"
  ai_open :: "string option"
  ai_write :: "(StoreError \<times> nat) option"

record JsonlWriter =
  jw_dir :: path
  jw_current_day :: "int option"
  jw_writer :: "path option"
  jw_current_path :: "path option"

definition JsonlWriter_new :: "append_io \<Rightarrow> path \<Rightarrow> string \<Rightarrow> string \<Rightarrow> StoreError + JsonlWriter" where
  "JsonlWriter_new io base_dir ticker channel =
     (if \<not> is_safe_segment ticker then Inl (SEUnsafeKey ticker)
      else if \<not> is_safe_segment channel then Inl (SEUnsafeKey channel)
      else case ai_mkdir io of
             Some e \<Rightarrow> Inl (SEIo e)
           | None \<Rightarrow>
               Inr \<lparr>jw_dir = base_dir @ [ticker, channel], jw_current_day = None, jw_writer = None,
                    jw_current_path = None\<rparr>)"

definition open_append :: "path \<Rightarrow> disk \<Rightarrow> disk" where
  "open_append p d = (case d p of None \<Rightarrow> d(p \<mapsto> []) | Some _ \<Rightarrow> d)"

definition rotate_if_needed ::
    "store_lib \<Rightarrow> append_io \<Rightarrow> JsonlWriter \<Rightarrow> disk \<Rightarrow> (StoreError + unit) \<times> JsonlWriter \<times> disk" where
  "rotate_if_needed L io w d =
     (let day = ai_today io in
      if jw_current_day w = Some day \<and> jw_writer w \<noteq> None then (Inr (), w, d)
      else
        let path = jw_dir w @ [sl_show_day L day @ ''.jsonl''] in
        case ai_open io of
          Some e \<Rightarrow> (Inl (SEIo e), w, d)
        | None \<Rightarrow>
            (Inr (), w\<lparr>jw_writer := Some path, jw_current_day := Some day, jw_current_path := Some path\<rparr>,
             open_append path d))"

definition line_of :: "string \<Rightarrow> string" where
  "line_of json = json @ [CHR 0x0A]"

definition bytes_at :: "disk \<Rightarrow> path \<Rightarrow> string" where
  "bytes_at d p = (case d p of Some b \<Rightarrow> b | None \<Rightarrow> [])"

definition jsonl_append ::
    "store_lib \<Rightarrow> append_io \<Rightarrow> string \<Rightarrow> JsonlWriter \<Rightarrow> disk \<Rightarrow> (store_fail + unit) \<times> JsonlWriter \<times> disk" where
  "jsonl_append L io json w d =
     (case rotate_if_needed L io w d of
        (Inl e, w', d') \<Rightarrow> (Inl (Fails e), w', d')
      | (Inr _, w', d') \<Rightarrow>
          (case jw_writer w' of
             None \<Rightarrow> (Inl (Panics ''writer is opened by rotate_if_needed''), w', d')
           | Some p \<Rightarrow>
               (case ai_write io of
                  None \<Rightarrow> (Inr (), w', d'(p \<mapsto> bytes_at d' p @ line_of json))
                | Some (e, n) \<Rightarrow> (Inl (Fails e), w', d'(p \<mapsto> bytes_at d' p @ take n (line_of json))))))"

section \<open>The set of streams\<close>

record StreamSet =
  sm_base_dir :: path
  sm_writers :: "(string \<times> string, JsonlWriter) omap"

definition StreamSet_new :: "path \<Rightarrow> StreamSet" where
  "StreamSet_new base_dir = \<lparr>sm_base_dir = base_dir, sm_writers = []\<rparr>"

definition writer_append ::
    "store_lib \<Rightarrow> append_io \<Rightarrow> string \<times> string \<Rightarrow> string \<Rightarrow> JsonlWriter \<Rightarrow> StreamSet \<times> disk \<Rightarrow>
     (store_fail + unit) \<times> StreamSet \<times> disk" where
  "writer_append L io key json w = (\<lambda>(s, d).
     let (r, w', d') = jsonl_append L io json w d
     in (r, s\<lparr>sm_writers := om_insert key w' (sm_writers s)\<rparr>, d'))"

definition stream_append ::
    "store_lib \<Rightarrow> append_io \<Rightarrow> string \<Rightarrow> string \<Rightarrow> string \<Rightarrow> StreamSet \<times> disk \<Rightarrow>
     (store_fail + unit) \<times> StreamSet \<times> disk" where
  "stream_append L io ticker channel json = (\<lambda>(s, d).
     case om_get (sm_writers s) (ticker, channel) of
       Some w \<Rightarrow> writer_append L io (ticker, channel) json w (s, d)
     | None \<Rightarrow>
         (case JsonlWriter_new io (sm_base_dir s) ticker channel of
            Inl e \<Rightarrow> (Inl (Fails e), s, d)
          | Inr w \<Rightarrow> writer_append L io (ticker, channel) json w (s, d)))"

definition active_stream_count :: "StreamSet \<Rightarrow> nat" where
  "active_stream_count s = length (sm_writers s)"

definition stream_close :: "string \<Rightarrow> string \<Rightarrow> StreamSet \<Rightarrow> bool \<times> StreamSet" where
  "stream_close ticker channel s =
     (om_get (sm_writers s) (ticker, channel) \<noteq> None,
      s\<lparr>sm_writers := om_remove (ticker, channel) (sm_writers s)\<rparr>)"

section \<open>The disk guard\<close>

definition DEFAULT_MIN_FREE_BYTES :: u64 where
  "DEFAULT_MIN_FREE_BYTES = 3 * 1024 * 1024 * 1024"

record DiskGuard =
  dg_path :: path
  dg_min_free_bytes :: u64

definition DiskGuard_new :: "path \<Rightarrow> u64 \<Rightarrow> DiskGuard" where
  "DiskGuard_new p min_free_bytes = \<lparr>dg_path = p, dg_min_free_bytes = min_free_bytes\<rparr>"

definition with_default_floor :: "path \<Rightarrow> DiskGuard" where
  "with_default_floor p = DiskGuard_new p DEFAULT_MIN_FREE_BYTES"

text \<open>\<open>available\<close> is what the file system answers: an error text or the number of free bytes.\<close>

definition guard_check :: "string + u64 \<Rightarrow> DiskGuard \<Rightarrow> StoreError + u64" where
  "guard_check available g =
     (case available of
        Inl e \<Rightarrow> Inl (SEIo e)
      | Inr free \<Rightarrow>
          if free < dg_min_free_bytes g then Inl (SEDiskFull (dg_path g) free (dg_min_free_bytes g))
          else Inr free)"

definition show_store_error :: "store_lib \<Rightarrow> StoreError \<Rightarrow> string" where
  "show_store_error L e =
     (case e of
        SEIo t \<Rightarrow> ''store io error: '' @ t
      | SESerialize t \<Rightarrow> ''store serialize error: '' @ t
      | SEDiskFull p available minimum \<Rightarrow>
          ''disk full: '' @ show_nat (unat available) @ '' bytes free at '' @ sl_show_path L p @
          '' is below the '' @ show_nat (unat minimum) @ ''-byte floor''
      | SEUnsafeKey key \<Rightarrow>
          ''unsafe stream key '' @ sl_debug L key @
          '': must be a single path segment (no separators, '' @ [CHR 0x27] @ ''.'' @ [CHR 0x27] @
          '', or '' @ [CHR 0x27] @ ''..'' @ [CHR 0x27] @ '')'')"

section \<open>What an append does to the disk\<close>

definition stream_file :: "store_lib \<Rightarrow> path \<Rightarrow> string \<Rightarrow> string \<Rightarrow> int \<Rightarrow> path" where
  "stream_file L base ticker channel day = base @ [ticker, channel, sl_show_day L day @ ''.jsonl'']"

definition writer_ok :: "store_lib \<Rightarrow> path \<Rightarrow> string \<times> string \<Rightarrow> JsonlWriter \<Rightarrow> bool" where
  "writer_ok L base key w \<longleftrightarrow>
     is_safe_segment (fst key) \<and> is_safe_segment (snd key) \<and> jw_dir w = base @ [fst key, snd key] \<and>
     (\<forall>day p. jw_current_day w = Some day \<and> jw_writer w = Some p \<longrightarrow>
        p = stream_file L base (fst key) (snd key) day)"

definition set_ok :: "store_lib \<Rightarrow> StreamSet \<Rightarrow> bool" where
  "set_ok L s \<longleftrightarrow> om_wf (sm_writers s) \<and>
     (\<forall>key w. om_get (sm_writers s) key = Some w \<longrightarrow> writer_ok L (sm_base_dir s) key w)"

lemma bytes_open_append [simp]: "bytes_at (open_append p d) q = bytes_at d q"
  by (simp add: bytes_at_def open_append_def split: option.split)

lemma open_append_other: "q \<noteq> p \<Longrightarrow> open_append p d q = d q"
  by (simp add: open_append_def split: option.split)

lemma bytes_at_upd: "bytes_at (d(p \<mapsto> b)) q = (if q = p then b else bytes_at d q)"
  by (simp add: bytes_at_def)

lemma rotate_opens:
  assumes "writer_ok L base key w" and "rotate_if_needed L io w d = (Inr u, w', d')"
  shows "jw_writer w' = Some (stream_file L base (fst key) (snd key) (ai_today io)) \<and> writer_ok L base key w' \<and>
     (\<forall>q. bytes_at d' q = bytes_at d q) \<and>
     (\<forall>q. q \<noteq> stream_file L base (fst key) (snd key) (ai_today io) \<longrightarrow> d' q = d q)"
  using assms
  by (auto simp: rotate_if_needed_def writer_ok_def stream_file_def Let_def open_append_other
      split: if_splits option.splits)

lemma rotate_fails:
  "rotate_if_needed L io w d = (Inl e, w', d') \<Longrightarrow> w' = w \<and> d' = d"
  by (auto simp: rotate_if_needed_def Let_def split: if_splits option.splits)

text \<open>The bytes of a line that reach its file, all of them when the append succeeds.\<close>

definition adds_line :: "disk \<Rightarrow> path \<Rightarrow> string \<Rightarrow> nat \<Rightarrow> disk \<Rightarrow> bool" where
  "adds_line d p json n d' \<longleftrightarrow>
     (\<forall>q. bytes_at d' q = bytes_at d q @ (if q = p then take n (line_of json) else [])) \<and>
     (\<forall>q. q \<noteq> p \<longrightarrow> d' q = d q)"

lemma adds_line_refl: "adds_line d p json 0 d"
  by (simp add: adds_line_def)

lemma jsonl_append_adds:
  assumes "writer_ok L base key w" and "jsonl_append L io json w d = (r, w', d')"
  shows "writer_ok L base key w' \<and>
     (\<exists>n. adds_line d (stream_file L base (fst key) (snd key) (ai_today io)) json n d' \<and>
        (r = Inr () \<longrightarrow> n = length (line_of json))) \<and> (\<forall>m. r \<noteq> Inl (Panics m))"
proof -
  obtain r1 w1 d1 where rot: "rotate_if_needed L io w d = (r1, w1, d1)" by (metis prod_cases3)
  show ?thesis
  proof (cases r1)
    case (Inl e)
    with rotate_fails rot assms show ?thesis
      using adds_line_refl by (fastforce simp: jsonl_append_def)
  next
    case (Inr u)
    note o = rotate_opens [OF assms(1) rot [unfolded Inr]]
    show ?thesis
    proof (cases "ai_write io")
      case None
      have "adds_line d (stream_file L base (fst key) (snd key) (ai_today io)) json (length (line_of json)) d'"
        using o None assms(2) rot Inr by (auto simp: jsonl_append_def adds_line_def bytes_at_upd)
      with o None assms(2) rot Inr show ?thesis by (auto simp: jsonl_append_def)
    next
      case (Some en)
      have "adds_line d (stream_file L base (fst key) (snd key) (ai_today io)) json (snd en) d'"
        using o Some assms(2) rot Inr by (cases en) (auto simp: jsonl_append_def adds_line_def bytes_at_upd)
      with o Some assms(2) rot Inr show ?thesis by (cases en) (auto simp: jsonl_append_def)
    qed
  qed
qed

lemma writer_append_adds:
  assumes "set_ok L s" and "writer_ok L (sm_base_dir s) (t, c) w"
    and "writer_append L io (t, c) json w (s, d) = (r, s', d')"
  shows "set_ok L s' \<and> sm_base_dir s' = sm_base_dir s \<and>
     (\<exists>n. adds_line d (stream_file L (sm_base_dir s) t c (ai_today io)) json n d' \<and>
        (r = Inr () \<longrightarrow> n = length (line_of json))) \<and> (\<forall>m. r \<noteq> Inl (Panics m))"
proof -
  obtain r1 w1 d1 where j: "jsonl_append L io json w d = (r1, w1, d1)" by (metis prod_cases3)
  with assms(3) have eqs: "r = r1" "d' = d1" "s' = s\<lparr>sm_writers := om_insert (t, c) w1 (sm_writers s)\<rparr>"
    by (auto simp: writer_append_def)
  from jsonl_append_adds [OF assms(2) j] show ?thesis
    using assms(1) by (auto simp: eqs set_ok_def om_get_insert)
qed

lemma stream_append_adds:
  assumes "set_ok L s" and "stream_append L io t c json (s, d) = (r, s', d')"
  shows "set_ok L s' \<and> sm_base_dir s' = sm_base_dir s \<and>
     (\<exists>n. adds_line d (stream_file L (sm_base_dir s) t c (ai_today io)) json n d' \<and>
        (r = Inr () \<longrightarrow> n = length (line_of json))) \<and> (\<forall>m. r \<noteq> Inl (Panics m)) \<and>
     (is_safe_segment t \<and> is_safe_segment c \<or> r \<noteq> Inr () \<and> d' = d)"
proof (cases "om_get (sm_writers s) (t, c)")
  case (Some w)
  then have w: "writer_ok L (sm_base_dir s) (t, c) w"
    using assms(1) by (auto simp: set_ok_def)
  with writer_append_adds [OF assms(1) w] Some assms(2) show ?thesis
    by (auto simp: stream_append_def writer_ok_def)
next
  case None
  show ?thesis
  proof (cases "JsonlWriter_new io (sm_base_dir s) t c")
    case (Inl e)
    with None assms adds_line_refl [of d] show ?thesis
      by (auto simp: stream_append_def)
  next
    case (Inr w)
    then have w: "writer_ok L (sm_base_dir s) (t, c) w"
      by (auto simp: JsonlWriter_new_def writer_ok_def split: if_splits option.splits)
    with writer_append_adds [OF assms(1) w] Inr None assms(2) show ?thesis
      by (auto simp: stream_append_def writer_ok_def)
  qed
qed

lemma set_ok_new: "set_ok L (StreamSet_new base)"
  by (simp add: set_ok_def StreamSet_new_def)

lemma set_ok_close: "set_ok L s \<Longrightarrow> set_ok L (snd (stream_close t c s))"
  by (auto simp: set_ok_def stream_close_def om_get_remove split: if_splits)

section \<open>The interface of a log of streams\<close>

text \<open>
  A client appends a record to a stream; the log of a stream and a day is a byte sequence. The
  first law says what an append adds and to which log, the second that it keeps the invariant.
\<close>

locale stream_log =
  fixes append_record :: "append_io \<Rightarrow> string \<Rightarrow> string \<Rightarrow> string \<Rightarrow> 's \<Rightarrow> (store_fail + unit) \<times> 's"
    and log_of :: "'s \<Rightarrow> string \<times> string \<times> int \<Rightarrow> string"
    and invar :: "'s \<Rightarrow> bool"
  assumes append_adds: "invar s \<Longrightarrow> append_record io t c json s = (r, s') \<Longrightarrow>
      \<exists>n. (\<forall>k. log_of s' k = log_of s k @ (if k = (t, c, ai_today io) then take n (line_of json) else [])) \<and>
          (r = Inr () \<longrightarrow> n = length (line_of json))"
    and append_invar: "invar s \<Longrightarrow> append_record io t c json s = (r, s') \<Longrightarrow> invar s'"
begin

fun append_all :: "(append_io \<times> string \<times> string \<times> string) list \<Rightarrow> 's \<Rightarrow> (store_fail + unit) \<times> 's" where
  "append_all [] s = (Inr (), s)"
| "append_all ((io, t, c, json) # rs) s =
     (case append_record io t c json s of
        (Inl e, s') \<Rightarrow> (Inl e, s')
      | (Inr _, s') \<Rightarrow> append_all rs s')"

definition lines_for :: "string \<times> string \<times> int \<Rightarrow> (append_io \<times> string \<times> string \<times> string) list \<Rightarrow> string" where
  "lines_for k rs = concat (map (\<lambda>(io, t, c, json). if (t, c, ai_today io) = k then line_of json else []) rs)"

lemma append_ok:
  "invar s \<Longrightarrow> append_record io t c json s = (Inr u, s') \<Longrightarrow>
     log_of s' k = log_of s k @ (if k = (t, c, ai_today io) then line_of json else [])"
  using append_adds [of s io t c json "Inr u" s'] by (cases k) auto

lemma append_all_log:
  "invar s \<Longrightarrow> append_all rs s = (Inr (), s') \<Longrightarrow>
     invar s' \<and> log_of s' k = log_of s k @ lines_for k rs"
proof (induction rs arbitrary: s)
  case Nil
  then show ?case by (simp add: lines_for_def)
next
  case (Cons x rs)
  obtain io t c json where x: "x = (io, t, c, json)" by (metis prod_cases4)
  obtain r s1 where a: "append_record io t c json s = (r, s1)" by fastforce
  with Cons.prems x obtain u where r: "r = Inr u" by (cases r) auto
  with Cons.prems x a have "append_all rs s1 = (Inr (), s')" by simp
  with Cons.IH [of s1] append_invar [OF Cons.prems(1) a] append_ok [OF Cons.prems(1) a [unfolded r], of k]
  show ?case by (simp add: lines_for_def x)
qed

end

text \<open>Distinct streams and days have distinct files, as long as a day determines its text.\<close>

lemma stream_file_inj:
  "inj (sl_show_day L) \<Longrightarrow>
     stream_file L base t c d = stream_file L base t' c' d' \<longleftrightarrow> t = t' \<and> c = c' \<and> d = d'"
  by (auto simp: stream_file_def inj_def)

definition disk_log :: "store_lib \<Rightarrow> StreamSet \<times> disk \<Rightarrow> string \<times> string \<times> int \<Rightarrow> string" where
  "disk_log L = (\<lambda>(s, d) (t, c, day). bytes_at d (stream_file L (sm_base_dir s) t c day))"

definition disk_ok :: "store_lib \<Rightarrow> StreamSet \<times> disk \<Rightarrow> bool" where
  "disk_ok L = (\<lambda>(s, d). set_ok L s \<and> inj (sl_show_day L))"

interpretation store: stream_log "stream_append L" "disk_log L" "disk_ok L" for L
proof
  fix s :: "StreamSet \<times> disk" and io t c json r s'
  assume inv: "disk_ok L s" and a: "stream_append L io t c json s = (r, s')"
  obtain m d where s: "s = (m, d)" by fastforce
  obtain m' d' where s': "s' = (m', d')" by fastforce
  have ok: "set_ok L m" "inj (sl_show_day L)"
    using inv by (simp_all add: disk_ok_def s)
  note adds = stream_append_adds [OF ok(1) a [unfolded s s']]
  then show "disk_ok L s'" using ok by (simp add: disk_ok_def s')
  from adds obtain n where n: "adds_line d (stream_file L (sm_base_dir m) t c (ai_today io)) json n d'"
    "r = Inr () \<longrightarrow> n = length (line_of json)" "sm_base_dir m' = sm_base_dir m" by blast
  then show "\<exists>n. (\<forall>k. disk_log L s' k = disk_log L s k @
      (if k = (t, c, ai_today io) then take n (line_of json) else [])) \<and>
      (r = Inr () \<longrightarrow> n = length (line_of json))"
    by (intro exI [of _ n]) (auto simp: disk_log_def s s' adds_line_def stream_file_inj [OF ok(2)])
qed

section \<open>Reachable stores\<close>

inductive store_reachable :: "store_lib \<Rightarrow> path \<Rightarrow> StreamSet \<times> disk \<Rightarrow> bool" for L base where
  opened: "store_reachable L base (StreamSet_new base, d)"
| appended: "store_reachable L base s \<Longrightarrow> stream_append L io t c json s = (r, s') \<Longrightarrow> store_reachable L base s'"
| closed: "store_reachable L base (m, d) \<Longrightarrow> store_reachable L base (snd (stream_close t c m), d)"

lemma store_reachable_ok: "store_reachable L base s \<Longrightarrow> set_ok L (fst s) \<and> sm_base_dir (fst s) = base"
proof (induction rule: store_reachable.induct)
  case (opened d)
  then show ?case by (simp add: set_ok_new) (simp add: StreamSet_new_def)
next
  case (appended s io t c json r s')
  then show ?case
    using stream_append_adds [of L "fst s" io t c json "snd s" r "fst s'" "snd s'"] by simp
next
  case (closed m d t c)
  then show ?case by (simp add: set_ok_close) (simp add: stream_close_def)
qed

section \<open>Properties\<close>


definition ex_store_lib :: store_lib where
  "ex_store_lib = \<lparr>sl_show_day = (\<lambda>d. replicate (nat d) CHR ''1''), sl_show_path = concat, sl_debug = id\<rparr>"

definition ex_io :: append_io where
  "ex_io = \<lparr>ai_today = 2, ai_mkdir = None, ai_open = None, ai_write = None\<rparr>"


end
