(* ===== verification/Rest.thy ===== *)
theory Rest
  imports Protocol
begin

text \<open>
  The REST client \<^verbatim>\<open>crates/kdp-kalshi/src/rest.rs\<close>: the retry loops around a GET, the queries and
  pages of the market listings, the market fields the callers rank and filter by, the conversion
  of a REST trade, and the decoder of the batch orderbook response.

  Parameters. The HTTP client answers the \<open>n\<close>-th attempt of a request with a status and a body or
  with a transport error; the derived deserializers, the parser of dates (\<^verbatim>\<open>chrono\<close>) and the
  floating-point operations are functions that nothing is assumed of. A body has been
  decoded already, or failed to decode.

  The lemmas show how many attempts a GET takes and what it returns, that the signed loop is the
  unsigned one as long as signing works, and that conversion and decoding are exact and keep what
  they refuse.
\<close>

section \<open>Retries\<close>

datatype 'b http_answer = Answered u16 'b | Unreachable string

datatype http_error = HttpStatus u16 | Transport string | Signing string | Undecoded string

text \<open>A GET returns a body, an error, or runs into \<^verbatim>\<open>unreachable!\<close>.\<close>

datatype 'b get_result = GotOk 'b | GotErr http_error | GotPanic

definition MAX_GET_ATTEMPTS :: nat where
  "MAX_GET_ATTEMPTS = 6"

definition status_is_success :: "u16 \<Rightarrow> bool" where
  "status_is_success status \<longleftrightarrow> 200 \<le> status \<and> status < 300"

definition status_is_retryable :: "u16 \<Rightarrow> bool" where
  "status_is_retryable status \<longleftrightarrow> status = 429 \<or> 500 \<le> status \<and> status < 600"

text \<open>\<^verbatim>\<open>Response::error_for_status\<close> is an error for the client and server errors only.\<close>

definition error_for_status :: "u16 \<Rightarrow> bool" where
  "error_for_status status \<longleftrightarrow> 400 \<le> status \<and> status < 600"

definition retry_backoff :: "nat \<Rightarrow> nat" where
  "retry_backoff attempt = min (min (2 ^ (attempt - 1)) (2 ^ 64 - 1)) 30"

text \<open>
  The loop after \<open>attempt\<close> attempts: its result and the seconds it slept before each further attempt.
\<close>

function get_loop :: "(nat \<Rightarrow> 'b http_answer) \<Rightarrow> nat \<Rightarrow> 'b get_result \<times> nat list" where
  "get_loop send attempt0 =
     (let attempt = attempt0 + 1 in
      case send attempt of
        Answered status body \<Rightarrow>
          if status_is_success status then (GotOk body, [])
          else if status_is_retryable status \<and> attempt < MAX_GET_ATTEMPTS then
            (let (r, slept) = get_loop send attempt in (r, retry_backoff attempt # slept))
          else if error_for_status status then (GotErr (HttpStatus status), [])
          else (GotPanic, [])
      | Unreachable e \<Rightarrow>
          if attempt < MAX_GET_ATTEMPTS then
            (let (r, slept) = get_loop send attempt in (r, retry_backoff attempt # slept))
          else (GotErr (Transport e), []))"
  by pat_completeness auto
termination by (relation "measure (\<lambda>(send, attempt0). MAX_GET_ATTEMPTS - attempt0)") auto

declare get_loop.simps [simp del]

definition get_with_retry :: "(nat \<Rightarrow> 'b http_answer) \<Rightarrow> 'b get_result \<times> nat list" where
  "get_with_retry send = get_loop send 0"

function get_signed_loop ::
    "(nat \<Rightarrow> string + 'h) \<Rightarrow> ('h \<Rightarrow> nat \<Rightarrow> 'b http_answer) \<Rightarrow> nat \<Rightarrow> 'b get_result \<times> nat list" where
  "get_signed_loop sign send attempt0 =
     (let attempt = attempt0 + 1 in
      case sign attempt of
        Inl e \<Rightarrow> (GotErr (Signing e), [])
      | Inr headers \<Rightarrow>
          (case send headers attempt of
             Answered status body \<Rightarrow>
               if status_is_success status then (GotOk body, [])
               else if status_is_retryable status \<and> attempt < MAX_GET_ATTEMPTS then
                 (let (r, slept) = get_signed_loop sign send attempt in (r, retry_backoff attempt # slept))
               else if error_for_status status then (GotErr (HttpStatus status), [])
               else (GotPanic, [])
           | Unreachable e \<Rightarrow>
               if attempt < MAX_GET_ATTEMPTS then
                 (let (r, slept) = get_signed_loop sign send attempt in (r, retry_backoff attempt # slept))
               else (GotErr (Transport e), [])))"
  by pat_completeness auto
termination by (relation "measure (\<lambda>(sign, send, attempt0). MAX_GET_ATTEMPTS - attempt0)") auto

declare get_signed_loop.simps [simp del]

definition get_with_retry_signed ::
    "(nat \<Rightarrow> string + 'h) \<Rightarrow> ('h \<Rightarrow> nat \<Rightarrow> 'b http_answer) \<Rightarrow> 'b get_result \<times> nat list" where
  "get_with_retry_signed sign send = get_signed_loop sign send 0"

lemma signed_loop_is_loop:
  "(\<And>n. sign n = Inr (hs n)) \<Longrightarrow> get_signed_loop sign send a = get_loop (\<lambda>n. send (hs n) n) a"
  by (induction "\<lambda>n. send (hs n) n" a rule: get_loop.induct)
    (subst get_loop.simps, subst get_signed_loop.simps,
     auto simp: Let_def split: http_answer.splits)

lemma signed_is_unsigned:
  "(\<And>n. sign n = Inr (hs n)) \<Longrightarrow> get_with_retry_signed sign send = get_with_retry (\<lambda>n. send (hs n) n)"
  by (simp add: get_with_retry_signed_def get_with_retry_def signed_loop_is_loop)

section \<open>Markets and their queries\<close>

record 'f float_lib =
  fl_parse :: "string \<Rightarrow> 'f option"
  fl_zero :: 'f
  fl_half :: 'f
  fl_two :: 'f
  fl_add :: "'f \<Rightarrow> 'f \<Rightarrow> 'f"
  fl_sub :: "'f \<Rightarrow> 'f \<Rightarrow> 'f"
  fl_div :: "'f \<Rightarrow> 'f \<Rightarrow> 'f"
  fl_abs :: "'f \<Rightarrow> 'f"
  fl_ge :: "'f \<Rightarrow> 'f \<Rightarrow> bool"

record 'f Market =
  mk_ticker :: Ticker
  mk_title :: string
  mk_status :: "string option"
  mk_volume_fp :: "string option"
  mk_close_time :: "string option"
  mk_event_ticker :: "string option"
  mk_open_time :: "string option"
  mk_settlement_ts :: "string option"
  mk_occurrence_datetime :: "string option"
  mk_result :: "string option"
  mk_floor_strike :: "'f option"
  mk_yes_bid_dollars :: "string option"
  mk_yes_ask_dollars :: "string option"
  mk_last_price_dollars :: "string option"
  mk_volume_24h_fp :: "string option"

definition parsed_or_zero :: "'f float_lib \<Rightarrow> string option \<Rightarrow> 'f" where
  "parsed_or_zero F s = (case Option.bind s (fl_parse F) of Some x \<Rightarrow> x | None \<Rightarrow> fl_zero F)"

definition Market_volume :: "'f float_lib \<Rightarrow> 'f Market \<Rightarrow> 'f" where
  "Market_volume F m = parsed_or_zero F (mk_volume_fp m)"

definition volume_24h :: "'f float_lib \<Rightarrow> 'f Market \<Rightarrow> 'f" where
  "volume_24h F m = parsed_or_zero F (mk_volume_24h_fp m)"

definition yes_price_proxy :: "'f float_lib \<Rightarrow> 'f Market \<Rightarrow> 'f option" where
  "yes_price_proxy F m =
     (case (Option.bind (mk_yes_bid_dollars m) (fl_parse F), Option.bind (mk_yes_ask_dollars m) (fl_parse F)) of
        (Some b, Some a) \<Rightarrow> Some (fl_div F (fl_add F b a) (fl_two F))
      | _ \<Rightarrow> Option.bind (mk_last_price_dollars m) (fl_parse F))"

definition atm_distance :: "'f float_lib \<Rightarrow> 'f Market \<Rightarrow> 'f option" where
  "atm_distance F m = map_option (\<lambda>p. fl_abs F (fl_sub F p (fl_half F))) (yes_price_proxy F m)"

definition show_int :: "int \<Rightarrow> string" where
  "show_int i = (if i < 0 then CHR ''-'' # show_nat (nat (- i)) else show_nat (nat i))"

definition query_part :: "string \<Rightarrow> string option \<Rightarrow> (string \<times> string) list" where
  "query_part k v = (case v of Some s \<Rightarrow> [(k, s)] | None \<Rightarrow> [])"

definition markets_query ::
    "u32 \<Rightarrow> string option \<Rightarrow> string option \<Rightarrow> string option \<Rightarrow> i64 option \<Rightarrow> i64 option \<Rightarrow> string option \<Rightarrow>
     (string \<times> string) list" where
  "markets_query limit status series_ticker event_ticker min_close_ts max_close_ts cursor =
     [(''limit'', show_nat (unat limit))] @ query_part ''status'' status @
     query_part ''series_ticker'' series_ticker @ query_part ''event_ticker'' event_ticker @
     query_part ''min_close_ts'' (map_option show_int min_close_ts) @
     query_part ''max_close_ts'' (map_option show_int max_close_ts) @ query_part ''cursor'' cursor"

text \<open>
  A page request: \<open>http\<close> answers an attempt of a query of a path with a body that decodes to markets
  and a cursor, or not.
\<close>

type_synonym 'f page = "'f Market list \<times> string option"

type_synonym 'f market_http = "string \<Rightarrow> (string \<times> string) list \<Rightarrow> nat \<Rightarrow> (string + 'f page) http_answer"

definition next_cursor :: "string option \<Rightarrow> string option" where
  "next_cursor cursor = (case cursor of Some c \<Rightarrow> if c = [] then None else Some c | None \<Rightarrow> None)"

fun page_result :: "(string + 'f page) get_result \<Rightarrow> 'f page get_result" where
  "page_result (GotOk (Inr (markets, cursor))) = GotOk (markets, next_cursor cursor)"
| "page_result (GotOk (Inl e)) = GotErr (Undecoded e)"
| "page_result (GotErr e) = GotErr e"
| "page_result GotPanic = GotPanic"

definition list_markets_page ::
    "'f market_http \<Rightarrow> u32 \<Rightarrow> string option \<Rightarrow> string option \<Rightarrow> i64 option \<Rightarrow> i64 option \<Rightarrow> string option \<Rightarrow>
     'f page get_result" where
  "list_markets_page http limit status series_ticker min_close_ts max_close_ts cursor =
     page_result (fst (get_with_retry (http ''/markets''
       (markets_query limit status series_ticker None min_close_ts max_close_ts cursor))))"

definition list_markets_by_event :: "'f market_http \<Rightarrow> string \<Rightarrow> u32 \<Rightarrow> 'f page get_result" where
  "list_markets_by_event http event_ticker limit =
     page_result (fst (get_with_retry (http ''/markets''
       (markets_query limit None None (Some event_ticker) None None None))))"

definition list_historical_markets_page ::
    "'f market_http \<Rightarrow> string \<Rightarrow> u32 \<Rightarrow> string option \<Rightarrow> 'f page get_result" where
  "list_historical_markets_page http series_ticker limit cursor =
     page_result (fst (get_with_retry (http ''/historical/markets''
       ([(''limit'', show_nat (unat limit)), (''series_ticker'', series_ticker)] @ query_part ''cursor'' cursor))))"

section \<open>Trades\<close>

record RestTrade =
  rt_trade_id :: string
  rt_ticker :: string
  rt_count_fp :: string
  rt_yes_price_dollars :: string
  rt_no_price_dollars :: string
  rt_taker_outcome_side :: string
  rt_taker_book_side :: "string option"
  rt_created_time :: string

text \<open>The texts of the errors, and the parser of an instant.\<close>

record rest_lib =
  rl_debug :: "string \<Rightarrow> string"
  rl_parse_utc :: "string \<Rightarrow> string + Timestamp"

definition field_error :: "rest_lib \<Rightarrow> string \<Rightarrow> string \<Rightarrow> string \<Rightarrow> string" where
  "field_error L k v e = k @ '' '' @ rl_debug L v @ '': '' @ e"

definition rest_side :: "rest_lib \<Rightarrow> string \<Rightarrow> string + Side" where
  "rest_side L s =
     (if s = ''yes'' then Inr Yes
      else if s = ''no'' then Inr No
      else Inl (''invalid taker_outcome_side '' @ rl_debug L s))"

definition rest_book_side :: "rest_lib \<Rightarrow> string option \<Rightarrow> string + BookSide option" where
  "rest_book_side L v =
     (case v of
        None \<Rightarrow> Inr None
      | Some s \<Rightarrow>
          if s = ''bid'' then Inr (Some Bid)
          else if s = ''ask'' then Inr (Some Ask)
          else Inl (''invalid taker_book_side '' @ rl_debug L s))"

definition to_core :: "rest_lib \<Rightarrow> RestTrade \<Rightarrow> string + Trade" where
  "to_core L rt =
     and_then (map_err (\<lambda>e. field_error L ''yes_price_dollars'' (rt_yes_price_dollars rt)
         (show_fixed_point (rl_debug L) e)) (MicroDollars_parse (rt_yes_price_dollars rt))) (\<lambda>price.
     and_then (map_err (\<lambda>e. field_error L ''count_fp'' (rt_count_fp rt)
         (show_fixed_point (rl_debug L) e)) (RestingQty_parse (rt_count_fp rt))) (\<lambda>count.
     and_then (rest_side L (rt_taker_outcome_side rt)) (\<lambda>taker_side.
     and_then (rest_book_side L (rt_taker_book_side rt)) (\<lambda>taker_book_side.
     and_then (map_err (field_error L ''created_time'' (rt_created_time rt))
         (rl_parse_utc L (rt_created_time rt))) (\<lambda>ts.
       Inr \<lparr>t_ticker = rt_ticker rt, t_ts = ts, t_price = price, t_count = count,
            t_taker_side = taker_side, t_taker_book_side = taker_book_side,
            t_trade_id = Some (rt_trade_id rt)\<rparr>)))))"

text \<open>The trade a REST row denotes, in exact values.\<close>

definition trade_denotes :: "rest_lib \<Rightarrow> RestTrade \<Rightarrow> Trade \<Rightarrow> bool" where
  "trade_denotes L rt t \<longleftrightarrow>
     t_ticker t = rt_ticker rt \<and> t_trade_id t = Some (rt_trade_id rt) \<and>
     rl_parse_utc L (rt_created_time rt) = Inr (t_ts t) \<and>
     price_text (rt_yes_price_dollars rt) (t_price t) \<and> size_text (rt_count_fp rt) (t_count t) \<and>
     rt_taker_outcome_side rt = side_text (t_taker_side t) \<and>
     rt_taker_book_side rt = map_option (\<lambda>b. case b of Bid \<Rightarrow> ''bid'' | Ask \<Rightarrow> ''ask'') (t_taker_book_side t)"

section \<open>The batch of order books\<close>

datatype RestOrderbookOutcome =
    RestBook string "PriceLevel list" "PriceLevel list"
  | RestUndecodable "string option" string json

definition ORDERBOOK_CHUNK_SIZE :: nat where
  "ORDERBOOK_CHUNK_SIZE = 100"

definition rest_level :: "rest_lib \<Rightarrow> string \<times> string \<Rightarrow> string + PriceLevel" where
  "rest_level L = (\<lambda>(price_s, count_s).
     and_then (map_err (\<lambda>e. field_error L ''price'' price_s (show_fixed_point (rl_debug L) e))
         (MicroDollars_parse price_s)) (\<lambda>price.
     and_then (map_err (\<lambda>e. field_error L ''count'' count_s (show_fixed_point (rl_debug L) e))
         (RestingQty_parse count_s)) (\<lambda>quantity.
       Inr \<lparr>pl_price = price, pl_quantity = quantity\<rparr>)))"

fun rest_levels :: "rest_lib \<Rightarrow> (string \<times> string) list \<Rightarrow> string + PriceLevel list" where
  "rest_levels L [] = Inr []"
| "rest_levels L (raw # raws) =
     and_then (rest_level L raw) (\<lambda>l. and_then (rest_levels L raws) (\<lambda>ls. Inr (l # ls)))"

text \<open>\<open>wire\<close> is the derived deserializer of the two level arrays.\<close>

type_synonym book_wire = "json \<Rightarrow> string + (string \<times> string) list \<times> (string \<times> string) list"

definition book_outcome :: "rest_lib \<Rightarrow> book_wire \<Rightarrow> json \<Rightarrow> string option \<Rightarrow> string + RestOrderbookOutcome" where
  "book_outcome L wire raw ticker0 =
     and_then (ok_or ticker0 ''missing ticker'') (\<lambda>ticker.
     and_then (ok_or (json_get ''orderbook_fp'' raw) ''missing orderbook_fp'') (\<lambda>orderbook_fp.
     and_then (map_err (\<lambda>e. ''orderbook_fp: '' @ e) (wire orderbook_fp)) (\<lambda>(yes_dollars, no_dollars).
     and_then (rest_levels L yes_dollars) (\<lambda>yes.
     and_then (rest_levels L no_dollars) (\<lambda>no.
       Inr (RestBook ticker yes no))))))"

definition decode_book :: "rest_lib \<Rightarrow> book_wire \<Rightarrow> json \<Rightarrow> string option \<Rightarrow> RestOrderbookOutcome" where
  "decode_book L wire raw ticker =
     (case book_outcome L wire raw ticker of
        Inr outcome \<Rightarrow> outcome
      | Inl e \<Rightarrow> RestUndecodable ticker e raw)"

definition response_books :: "json \<Rightarrow> json list" where
  "response_books body =
     (case Option.bind (json_get ''orderbooks'' body) as_array of Some raws \<Rightarrow> raws | None \<Rightarrow> [])"

definition decode_orderbooks_response :: "rest_lib \<Rightarrow> book_wire \<Rightarrow> json \<Rightarrow> RestOrderbookOutcome list" where
  "decode_orderbooks_response L wire body =
     map (\<lambda>raw. decode_book L wire raw (Option.bind (json_get ''ticker'' raw) as_str)) (response_books body)"

text \<open>\<^verbatim>\<open>slice::chunks\<close> for a positive size.\<close>

function chunks :: "nat \<Rightarrow> 'a list \<Rightarrow> 'a list list" where
  "chunks n xs = (if xs = [] \<or> n = 0 then [] else take n xs # chunks n (drop n xs))"
  by pat_completeness auto
termination by (relation "measure (\<lambda>(n, xs). length xs)") auto

declare chunks.simps [simp del]

definition chunk_tickers :: "string list \<Rightarrow> nat \<Rightarrow> string list list" where
  "chunk_tickers tickers n = chunks (max n 1) tickers"

fun orderbooks_loop ::
    "rest_lib \<Rightarrow> book_wire \<Rightarrow> (nat \<Rightarrow> string + 'h) \<Rightarrow> (string list \<Rightarrow> 'h \<Rightarrow> nat \<Rightarrow> (string + json) http_answer) \<Rightarrow>
     string list list \<Rightarrow> RestOrderbookOutcome list \<Rightarrow> RestOrderbookOutcome list get_result" where
  "orderbooks_loop L wire sign http [] outcomes = GotOk outcomes"
| "orderbooks_loop L wire sign http (chunk # cs) outcomes =
     (case fst (get_with_retry_signed sign (http chunk)) of
        GotErr e \<Rightarrow> GotErr e
      | GotPanic \<Rightarrow> GotPanic
      | GotOk (Inl e) \<Rightarrow> GotErr (Undecoded (''orderbooks body: '' @ e))
      | GotOk (Inr body) \<Rightarrow>
          orderbooks_loop L wire sign http cs (outcomes @ decode_orderbooks_response L wire body))"

definition get_orderbooks ::
    "rest_lib \<Rightarrow> book_wire \<Rightarrow> (nat \<Rightarrow> string + 'h) \<Rightarrow> (string list \<Rightarrow> 'h \<Rightarrow> nat \<Rightarrow> (string + json) http_answer) \<Rightarrow>
     string list \<Rightarrow> RestOrderbookOutcome list get_result" where
  "get_orderbooks L wire sign http tickers =
     (if tickers = [] then GotOk []
      else orderbooks_loop L wire sign http (chunk_tickers tickers ORDERBOOK_CHUNK_SIZE) [])"

section \<open>What a GET returns\<close>

fun transient :: "'b http_answer \<Rightarrow> bool" where
  "transient (Answered status _) \<longleftrightarrow> status_is_retryable status"
| "transient (Unreachable _) \<longleftrightarrow> True"

lemma retryable_not_success: "status_is_retryable s \<Longrightarrow> \<not> status_is_success s"
  by (auto simp: status_is_retryable_def status_is_success_def word_le_nat_alt word_less_nat_alt)

text \<open>The answer a loop gives for the last attempt.\<close>

fun verdict :: "'b http_answer \<Rightarrow> 'b get_result" where
  "verdict (Answered status body) =
     (if 200 \<le> status \<and> status < 300 then GotOk body
      else if 400 \<le> status \<and> status < 600 then GotErr (HttpStatus status) else GotPanic)"
| "verdict (Unreachable e) = GotErr (Transport e)"

lemma get_loop_cases:
  "get_loop send a =
     (if transient (send (a + 1)) \<and> a + 1 < MAX_GET_ATTEMPTS
      then (let (r, slept) = get_loop send (a + 1) in (r, retry_backoff (a + 1) # slept))
      else (verdict (send (a + 1)), []))"
  by (subst get_loop.simps)
    (auto simp: Let_def status_is_success_def [symmetric] error_for_status_def [symmetric]
        dest: retryable_not_success split: http_answer.split)

lemma get_loop_result:
  assumes "get_loop send a = (r, slept)"
  shows "r = verdict (send (a + length slept + 1)) \<and>
     (\<forall>k < length slept. transient (send (a + k + 1)) \<and> slept ! k = retry_backoff (a + k + 1)) \<and>
     (a < MAX_GET_ATTEMPTS \<longrightarrow> a + length slept + 1 \<le> MAX_GET_ATTEMPTS) \<and>
     (\<not> transient (send (a + length slept + 1)) \<or> MAX_GET_ATTEMPTS \<le> a + length slept + 1)"
  using assms
proof (induction send a arbitrary: r slept rule: get_loop.induct)
  case (1 send a)
  show ?case
  proof (cases "transient (send (a + 1)) \<and> a + 1 < MAX_GET_ATTEMPTS")
    case False
    with 1(3) show ?thesis by (subst (asm) get_loop_cases) auto
  next
    case True
    obtain r1 s1 where rec: "get_loop send (a + 1) = (r1, s1)" by fastforce
    with 1(3) True have eqs: "r = r1" "slept = retry_backoff (a + 1) # s1"
      by (subst (asm) get_loop_cases, simp)+
    have IH: "r1 = verdict (send (a + 1 + length s1 + 1)) \<and>
       (\<forall>k < length s1. transient (send (a + 1 + k + 1)) \<and> s1 ! k = retry_backoff (a + 1 + k + 1)) \<and>
       (a + 1 < MAX_GET_ATTEMPTS \<longrightarrow> a + 1 + length s1 + 1 \<le> MAX_GET_ATTEMPTS) \<and>
       (\<not> transient (send (a + 1 + length s1 + 1)) \<or> MAX_GET_ATTEMPTS \<le> a + 1 + length s1 + 1)"
    proof (cases "send (a + 1)")
      case (Answered status body)
      with True have "\<not> status_is_success status" "status_is_retryable status \<and> a + 1 < MAX_GET_ATTEMPTS"
        by (auto dest: retryable_not_success)
      with 1(1) [OF refl Answered _ _ rec] show ?thesis by blast
    next
      case (Unreachable e)
      with 1(2) [OF refl Unreachable _ rec] True show ?thesis by blast
    qed
    with True eqs show ?thesis by (auto simp: nth_Cons less_Suc_eq_0_disj split: nat.split)
  qed
qed

lemma retry_backoff_values: "map retry_backoff [1 ..< 6] = [1, 2, 4, 8, 16]"
  by (simp add: retry_backoff_def upt_rec)

section \<open>Exact conversion\<close>

lemma rest_side_Inr_iff: "rest_side L s = Inr d \<longleftrightarrow> s = side_text d"
  by (cases d) (auto simp: rest_side_def side_text_def)

lemma rest_book_side_Inr_iff:
  "rest_book_side L v = Inr d \<longleftrightarrow> v = map_option (\<lambda>b. case b of Bid \<Rightarrow> ''bid'' | Ask \<Rightarrow> ''ask'') d"
  by (cases d; cases v) (auto simp: rest_book_side_def split: BookSide.splits)

lemma to_core_exact: "to_core L rt = Inr t \<longleftrightarrow> trade_denotes L rt t"
  by (cases t)
    (auto simp: to_core_def trade_denotes_def and_then_Inr_iff rest_side_Inr_iff rest_book_side_Inr_iff
      parse_text_iff)

definition rest_level_denotes :: "string \<times> string \<Rightarrow> PriceLevel \<Rightarrow> bool" where
  "rest_level_denotes raw l \<longleftrightarrow> price_text (fst raw) (pl_price l) \<and> size_text (snd raw) (pl_quantity l)"

lemma rest_level_exact: "rest_level L raw = Inr l \<longleftrightarrow> rest_level_denotes raw l"
  by (cases raw; cases l)
    (auto simp: rest_level_def rest_level_denotes_def and_then_Inr_iff parse_text_iff)

lemma rest_levels_exact: "rest_levels L raws = Inr ls \<longleftrightarrow> list_all2 rest_level_denotes raws ls"
  by (induction raws arbitrary: ls)
    (auto simp: and_then_Inr_iff rest_level_exact list_all2_Cons1)

text \<open>What an entry of the response denotes as a book.\<close>

definition book_denotes :: "book_wire \<Rightarrow> json \<Rightarrow> string \<Rightarrow> PriceLevel list \<Rightarrow> PriceLevel list \<Rightarrow> bool" where
  "book_denotes wire raw ticker yes no \<longleftrightarrow>
     json_get ''ticker'' raw = Some (JString ticker) \<and>
     (\<exists>fp ys ns. json_get ''orderbook_fp'' raw = Some fp \<and> wire fp = Inr (ys, ns) \<and>
        list_all2 rest_level_denotes ys yes \<and> list_all2 rest_level_denotes ns no)"

lemma json_string_iff: "Option.bind v as_str = Some s \<longleftrightarrow> v = Some (JString s)"
proof (cases v)
  case (Some j)
  then show ?thesis by (cases j) auto
qed simp

lemma book_outcome_Inr_iff:
  "book_outcome L wire raw (Option.bind (json_get ''ticker'' raw) as_str) = Inr out \<longleftrightarrow>
     (\<exists>t yes no. out = RestBook t yes no \<and> book_denotes wire raw t yes no)"
  unfolding book_outcome_def and_then_Inr_iff map_err_iff ok_or_iff json_string_iff
    book_denotes_def split_paired_Ex prod.case rest_levels_exact
  by blast

text \<open>
  Each entry of the response becomes one outcome: the book it denotes, with exact prices and sizes,
  or a refusal that keeps the entry.
\<close>

definition entry_kept :: "book_wire \<Rightarrow> json \<Rightarrow> RestOrderbookOutcome \<Rightarrow> bool" where
  "entry_kept wire raw out \<longleftrightarrow>
     (case out of
        RestBook t yes no \<Rightarrow> book_denotes wire raw t yes no
      | RestUndecodable t e payload \<Rightarrow>
          payload = raw \<and> t = Option.bind (json_get ''ticker'' raw) as_str \<and>
          (\<nexists>t yes no. book_denotes wire raw t yes no))"

lemma decode_book_kept:
  "entry_kept wire raw (decode_book L wire raw (Option.bind (json_get ''ticker'' raw) as_str))"
proof (cases "book_outcome L wire raw (Option.bind (json_get ''ticker'' raw) as_str)")
  case (Inr out)
  then show ?thesis
    using book_outcome_Inr_iff [of L wire raw out] by (auto simp: decode_book_def entry_kept_def)
next
  case (Inl e)
  then have "\<nexists>t yes no. book_denotes wire raw t yes no"
    using book_outcome_Inr_iff [of L wire raw] by auto
  with Inl show ?thesis by (simp add: decode_book_def entry_kept_def)
qed

lemma decode_response_kept:
  "list_all2 (entry_kept wire) (response_books body) (decode_orderbooks_response L wire body)"
  by (simp add: decode_orderbooks_response_def list_all2_map2 decode_book_kept list.rel_refl_strong)

section \<open>The chunks of a sweep\<close>

lemma concat_chunks: "0 < n \<Longrightarrow> concat (chunks n xs) = xs"
proof (induction n xs rule: chunks.induct)
  case (1 n xs)
  then show ?case by (subst chunks.simps) (auto simp: append_take_drop_id)
qed

lemma chunks_bounds: "c \<in> set (chunks n xs) \<Longrightarrow> 0 < length c \<and> length c \<le> n"
proof (induction n xs rule: chunks.induct)
  case (1 n xs)
  from 1(2) have "xs \<noteq> []" "n \<noteq> 0" "c = take n xs \<or> c \<in> set (chunks n (drop n xs))"
    by (subst (asm) chunks.simps; simp split: if_splits)+
  with 1 show ?case by auto
qed

lemma orderbooks_loop_ok:
  "orderbooks_loop L wire sign http cs acc = GotOk out \<longleftrightarrow>
     (\<exists>bodies. list_all2 (\<lambda>c b. fst (get_with_retry_signed sign (http c)) = GotOk (Inr b)) cs bodies \<and>
        out = acc @ concat (map (decode_orderbooks_response L wire) bodies))"
proof (induction cs arbitrary: acc)
  case Nil
  then show ?case by auto
next
  case (Cons c cs)
  show ?case
  proof (cases "\<exists>b. fst (get_with_retry_signed sign (http c)) = GotOk (Inr b)")
    case True
    then obtain b where "fst (get_with_retry_signed sign (http c)) = GotOk (Inr b)" ..
    then show ?thesis by (auto simp: Cons.IH list_all2_Cons1)
  next
    case False
    then show ?thesis by (auto simp: list_all2_Cons1 split: get_result.split sum.split)
  qed
qed

section \<open>Properties\<close>

text \<open>
  C36. A GET makes at most six attempts and sleeps 1, 2, 4, 8, 16 seconds between them; it goes on
  exactly over transient answers (a transport error, 429 or 5xx), and what it returns is what its
  last attempt says: the body of a 2xx answer, the error of a 4xx or 5xx answer or of the
  transport. Any other final status reaches \<^verbatim>\<open>unreachable!\<close>, because \<^verbatim>\<open>error_for_status\<close> is no error there.
\<close>

theorem get_with_retry_exact:
  "let n = length (snd (get_with_retry send)) + 1 in
     n \<le> 6 \<and> snd (get_with_retry send) = take (n - 1) [1, 2, 4, 8, 16] \<and>
     (\<forall>k < n - 1. transient (send (k + 1))) \<and> (transient (send n) \<longrightarrow> n = 6) \<and>
     fst (get_with_retry send) = verdict (send n) \<and>
     (fst (get_with_retry send) = GotPanic \<longleftrightarrow>
        (\<exists>status body. send n = Answered status body \<and>
           \<not> (200 \<le> status \<and> status < 300) \<and> \<not> (400 \<le> status \<and> status < 600)))"
proof -
  obtain r slept where g: "get_with_retry send = (r, slept)" by fastforce
  note res = get_loop_result [OF g [unfolded get_with_retry_def]]
  have le: "length slept + 1 \<le> 6"
    using res by (simp add: MAX_GET_ATTEMPTS_def)
  have "slept = map retry_backoff [1 ..< length slept + 1]"
    using res by (intro nth_equalityI) (auto simp del: upt_Suc)
  also have "\<dots> = take (length slept) (map retry_backoff [1 ..< 6])"
    using le by (simp add: take_map take_upt del: upt_Suc)
  finally have s: "slept = take (length slept) [1, 2, 4, 8, 16]"
    unfolding retry_backoff_values .
  have p: "verdict (send (length slept + 1)) = GotPanic \<longleftrightarrow>
      (\<exists>status body. send (length slept + 1) = Answered status body \<and>
         \<not> (200 \<le> status \<and> status < 300) \<and> \<not> (400 \<le> status \<and> status < 600))"
    by (cases "send (length slept + 1)") auto
  show ?thesis
    unfolding g Let_def fst_conv snd_conv
    using res le s p by (auto simp: MAX_GET_ATTEMPTS_def)
qed

definition ex_send :: "nat \<Rightarrow> string http_answer" where
  "ex_send n = (if n = 1 then Answered 503 [] else if n = 2 then Unreachable ''reset'' else Answered 304 [])"

theorem get_with_retry_exact_witness: "get_with_retry ex_send = (GotPanic, [1, 2])"
proof -
  have "fst (get_with_retry ex_send) = GotPanic" "snd (get_with_retry ex_send) = [1, 2]"
    using get_with_retry_exact [of ex_send]
    by (simp_all add: get_with_retry_def get_loop_cases ex_send_def MAX_GET_ATTEMPTS_def
        status_is_retryable_def retry_backoff_def)
  then show ?thesis by (metis prod.collapse)
qed

end
