(* ===== verification/Command_Line.thy ===== *)
theory Command_Line
  imports Units
begin

text \<open>
  The command line of the capture tools: the flag parser \<^verbatim>\<open>crates/kdp-cli/src/args.rs\<close> and the two
  duration parsers and the verify interval of \<^verbatim>\<open>capture.rs\<close> and \<^verbatim>\<open>backfill.rs\<close>, over the integer parsers,
  \<^verbatim>\<open>trim\<close>, \<^verbatim>\<open>strip_suffix\<close>, \<^verbatim>\<open>lines\<close> and \<^verbatim>\<open>rsplit_once\<close> of the standard library, which other components share. An
  error is the text of its context.
\<close>

section \<open>The standard library on texts\<close>

definition is_space :: "char \<Rightarrow> bool" where
  "is_space c \<longleftrightarrow> (let n = (of_char c :: nat) in 9 \<le> n \<and> n \<le> 13 \<or> n = 32)"

definition trim_start :: "string \<Rightarrow> string" where
  "trim_start s = dropWhile is_space s"

definition trim :: "string \<Rightarrow> string" where
  "trim s = rev (trim_start (rev (trim_start s)))"

definition strip_suffix :: "char \<Rightarrow> string \<Rightarrow> string option" where
  "strip_suffix c s = (if s \<noteq> [] \<and> last s = c then Some (butlast s) else None)"

text \<open>\<^verbatim>\<open>str::parse\<close> of an unsigned type with greatest value \<open>mx\<close>, and of \<^verbatim>\<open>i64\<close>: a sign is optional.\<close>

definition parse_digits :: "string \<Rightarrow> nat option" where
  "parse_digits s = (if s = [] \<or> \<not> list_all is_ascii_digit s then None else Some (digits_value s))"

definition strip_plus :: "string \<Rightarrow> string" where
  "strip_plus s = (case s of c # rest \<Rightarrow> if c = CHR ''+'' then rest else s | [] \<Rightarrow> [])"

definition parse_unsigned :: "nat \<Rightarrow> string \<Rightarrow> nat option" where
  "parse_unsigned mx s =
     (case parse_digits (strip_plus s) of Some v \<Rightarrow> if v \<le> mx then Some v else None | None \<Rightarrow> None)"

definition u64_max :: nat where "u64_max = 2 ^ 64 - 1"

definition parse_i64 :: "string \<Rightarrow> i64 option" where
  "parse_i64 s =
     (case strip_minus s of
        (True, body) \<Rightarrow>
          (case parse_digits body of Some v \<Rightarrow> if v \<le> 2 ^ 63 then Some (- int v) else None | None \<Rightarrow> None)
      | (False, body) \<Rightarrow> map_option int (parse_unsigned (2 ^ 63 - 1) body))"

text \<open>\<^verbatim>\<open>BufRead::lines\<close>: a line ends at a newline, and a carriage return before it is dropped.\<close>

definition strip_cr :: "string \<Rightarrow> string" where
  "strip_cr l = (if l \<noteq> [] \<and> last l = CHR 0x0D then butlast l else l)"

function buf_lines :: "string \<Rightarrow> string list" where
  "buf_lines s =
     (if s = [] then []
      else case split_once (CHR 0x0A) s of
             None \<Rightarrow> [s]
           | Some (l, rest) \<Rightarrow> strip_cr l # buf_lines rest)"
  by pat_completeness auto
termination
proof (relation "measure length")
  fix s :: string and x l rest
  assume "split_once (CHR 0x0A) s = Some x" and "(l, rest) = x"
  then have "s = l @ CHR 0x0A # rest" by (auto dest: split_once_Some)
  then show "(rest, s) \<in> measure length" by simp
qed simp

declare buf_lines.simps [simp del]

text \<open>\<^verbatim>\<open>str::rsplit_once\<close> at the last occurrence of a character.\<close>

definition rsplit_once :: "char \<Rightarrow> string \<Rightarrow> (string \<times> string) option" where
  "rsplit_once c s = map_option (\<lambda>(a, b). (rev b, rev a)) (split_once c (rev s))"

section \<open>Flags\<close>

record Args =
  ar_command :: "string option"
  ar_flags :: "string \<rightharpoonup> string"

definition strip_dashes :: "string \<Rightarrow> string option" where
  "strip_dashes s = (if take 2 s = ''--'' then Some (drop 2 s) else None)"

fun parse_flags :: "(string \<rightharpoonup> string) \<Rightarrow> string list \<Rightarrow> (string \<rightharpoonup> string)" where
  "parse_flags flags [] = flags"
| "parse_flags flags (a # rest) =
     (case strip_dashes a of
        None \<Rightarrow> parse_flags flags rest
      | Some key \<Rightarrow>
          if key = [] then parse_flags flags rest
          else
            (case rest of
               [] \<Rightarrow> flags(key \<mapsto> ''true'')
             | v # rest' \<Rightarrow>
                 if strip_dashes v = None then parse_flags (flags(key \<mapsto> v)) rest'
                 else parse_flags (flags(key \<mapsto> ''true'')) rest))"

definition Args_parse :: "string list \<Rightarrow> Args" where
  "Args_parse argv =
     (case argv of
        [] \<Rightarrow> \<lparr>ar_command = None, ar_flags = Map.empty\<rparr>
      | c # rest \<Rightarrow> \<lparr>ar_command = Some c, ar_flags = parse_flags Map.empty rest\<rparr>)"

definition Args_get :: "Args \<Rightarrow> string \<Rightarrow> string option" where
  "Args_get args key = ar_flags args key"

definition get_or :: "Args \<Rightarrow> string \<Rightarrow> string \<Rightarrow> string" where
  "get_or args key d = (case Args_get args key of Some v \<Rightarrow> v | None \<Rightarrow> d)"

section \<open>Durations\<close>

definition duration_parts :: "string \<Rightarrow> string \<times> nat" where
  "duration_parts s =
     (case strip_suffix (CHR ''d'') s of Some n \<Rightarrow> (n, 86400) | None \<Rightarrow>
      case strip_suffix (CHR ''h'') s of Some n \<Rightarrow> (n, 3600) | None \<Rightarrow>
      case strip_suffix (CHR ''m'') s of Some n \<Rightarrow> (n, 60) | None \<Rightarrow>
      case strip_suffix (CHR ''s'') s of Some n \<Rightarrow> (n, 1) | None \<Rightarrow> (s, 1))"

text \<open>The seconds of a duration; \<open>bad\<close> and \<open>large\<close> are the texts around the quoted input.\<close>

definition seconds_of :: "(string \<Rightarrow> string) \<Rightarrow> (string \<Rightarrow> string) \<Rightarrow> string \<Rightarrow> string + nat" where
  "seconds_of bad large s0 =
     (let s = trim s0; (num, mult) = duration_parts s in
      case parse_unsigned u64_max (trim num) of
        None \<Rightarrow> Inl (bad s)
      | Some v \<Rightarrow> if v * mult \<le> u64_max then Inr (v * mult) else Inl (large s))"

definition parse_duration :: "(string \<Rightarrow> string) \<Rightarrow> string \<Rightarrow> string + nat" where
  "parse_duration dbg =
     seconds_of (\<lambda>s. ''invalid duration '' @ dbg s @ '' (use e.g. 90s, 5m, 1h, 2d)'')
       (\<lambda>s. ''duration '' @ dbg s @ '' is too large'')"

definition parse_duration_secs :: "(string \<Rightarrow> string) \<Rightarrow> string \<Rightarrow> string + nat" where
  "parse_duration_secs dbg =
     seconds_of (\<lambda>s. ''invalid --since '' @ dbg s @ '' (use e.g. 24h, 7d)'')
       (\<lambda>s. ''--since '' @ dbg s @ '' too large'')"

definition parse_verify_interval :: "Args \<Rightarrow> string + nat" where
  "parse_verify_interval args =
     (case parse_unsigned u64_max (get_or args ''verify-interval'' ''900'') of
        None \<Rightarrow> Inl ''--verify-interval must be a non-negative integer (seconds); 0 disables''
      | Some secs \<Rightarrow>
          if 1 \<le> secs \<and> secs < 10 then
            Inl (''--verify-interval must be 0 (disabled) or >= 10 seconds (it must exceed the 5s verify tolerance window; got '' @
                 show_nat secs @ '')'')
          else Inr secs)"

section \<open>Lemmas\<close>

text \<open>The flags of a command line of key and value pairs; a later pair wins.\<close>

lemma parse_flags_pairs:
  "list_all (\<lambda>(k, v). k \<noteq> [] \<and> strip_dashes v = None) kvs \<Longrightarrow>
     parse_flags flags (concat (map (\<lambda>(k, v). [''--'' @ k, v]) kvs)) = flags ++ map_of (rev kvs)"
  by (induction kvs arbitrary: flags)
    (auto simp: strip_dashes_def map_add_def fun_eq_iff split: option.splits)

lemma duration_parts_bound: "duration_parts s = (n, mult) \<Longrightarrow> mult \<in> {1, 60, 3600, 86400}"
  by (auto simp: duration_parts_def split: option.splits)

text \<open>A trimmed text has no space at its ends, and only such a text is its own trim.\<close>

lemma trim_id:
  assumes "s \<noteq> []" and "\<not> is_space (hd s)" and "\<not> is_space (last s)"
  shows "trim s = s"
proof -
  have "trim_start s = s" using assms(1,2) by (cases s) (auto simp: trim_start_def)
  moreover have "trim_start (rev s) = rev s"
    using assms(1,3) by (cases s rule: rev_cases) (auto simp: trim_start_def)
  ultimately show ?thesis by (simp add: trim_def)
qed

lemma trim_ends:
  assumes "trim s \<noteq> []"
  shows "\<not> is_space (hd (trim s)) \<and> \<not> is_space (last (trim s))"
proof -
  define u where "u = dropWhile is_space s"
  define v where "v = dropWhile is_space (rev u)"
  have t: "trim s = rev v" by (simp add: trim_def trim_start_def u_def v_def)
  then have v: "v \<noteq> []" using assms by simp
  then have u: "u \<noteq> []" by (auto simp: v_def)
  have "last (rev u) = last v"
    using v takeWhile_dropWhile_id [of is_space "rev u"] by (metis last_appendR v_def)
  then have "hd (rev v) = hd u" using v u by (simp add: hd_rev last_rev)
  moreover have "\<not> is_space (hd u)" using u by (simp add: u_def hd_dropWhile)
  moreover have "\<not> is_space (hd v)" using v by (simp add: v_def hd_dropWhile)
  ultimately show ?thesis using v by (simp add: t last_rev)
qed

lemma trim_trim [simp]: "trim (trim s) = trim s"
proof (cases "trim s = []")
  case True
  show ?thesis unfolding True by (simp add: trim_def trim_start_def)
next
  case False
  then show ?thesis using trim_ends [OF False] by (intro trim_id) auto
qed

lemma set_trim: "set (trim s) \<subseteq> set s"
proof
  fix c assume "c \<in> set (trim s)"
  then have "c \<in> set (dropWhile is_space (rev (dropWhile is_space s)))" by (simp add: trim_def trim_start_def)
  then have "c \<in> set (rev (dropWhile is_space s))" by (rule set_dropWhileD)
  then show "c \<in> set s" using set_dropWhileD [of c is_space s] by simp
qed

text \<open>A count with its unit denotes the seconds, as long as they fit.\<close>

lemma seconds_of_literal:
  assumes "(unit, mult) \<in> {(CHR ''s'', 1), (CHR ''m'', 60), (CHR ''h'', 3600), (CHR ''d'', 86400)}"
    and "n * mult \<le> u64_max"
  shows "seconds_of bad large (show_nat n @ [unit]) = Inr (n * mult)"
proof -
  have d: "all_digits (show_nat n)" "digits_value (show_nat n) = n"
    using digits_show_nat [of n] by simp_all
  then have ne: "show_nat n \<noteq> []" and dig: "\<forall>c \<in> set (show_nat n). is_ascii_digit c"
    by (auto simp: all_digits_def list_all_iff)
  have nsp: "is_ascii_digit c \<Longrightarrow> \<not> is_space c" for c
    by (auto simp: is_ascii_digit_def is_space_def Let_def)
  have usp: "\<not> is_space unit"
    using assms(1) by (auto simp: is_space_def)
  have t1: "trim (show_nat n @ [unit]) = show_nat n @ [unit]"
    using ne dig nsp usp by (intro trim_id) auto
  have t2: "trim (show_nat n) = show_nat n"
    using ne dig nsp by (intro trim_id) auto
  have parts: "duration_parts (show_nat n @ [unit]) = (show_nat n, mult)"
    using assms(1) by (auto simp: duration_parts_def strip_suffix_def)
  have "strip_plus (show_nat n) = show_nat n"
    using dig by (cases "show_nat n") (auto simp: strip_plus_def is_ascii_digit_def)
  then have "parse_unsigned u64_max (show_nat n) = Some n"
    using d ne assms by (auto simp: parse_unsigned_def parse_digits_def all_digits_def)
  then show ?thesis
    using assms(2) by (simp add: seconds_of_def t1 t2 parts Let_def)
qed

end
