(* ===== verification/Capture.thy ===== *)
theory Capture
  imports Session Store Process Rest Command_Line
begin

text \<open>
  The consumer half of a capture, \<^verbatim>\<open>crates/kdp-cli/src/capture.rs\<close>: the classification of an event
  into a write, the conversion of a REST order book of the verify sweep, one round of the sweep,
  and the writer task that drains both channels into the store under the eye of the disk guard.

  The writer is a machine: an input is what \<^verbatim>\<open>select!\<close> delivered, together with the outcomes of the
  operating system calls it leads to. After the channel of events is closed it drains the
  remaining verify writes, takes a last reading of the free space and is done. A record is the text
  \<open>wc_json\<close> writes for its envelope; log lines are left out, the printed report is in Cli_Main.

  The lemmas show that what the files hold is, stream by stream and in order, what was received;
  that a file read back gives the envelopes; and that the counters of the report count them.
\<close>

section \<open>Classification\<close>

definition RAW_CHANNEL :: string where "RAW_CHANNEL = ''_raw''"
definition UNROUTED_TICKER :: string where "UNROUTED_TICKER = ''_unrouted''"
definition UNSAFE_TICKER :: string where "UNSAFE_TICKER = ''_unsafe''"
definition DISK_CHECK_EVERY :: u64 where "DISK_CHECK_EVERY = 500"

definition safe_ticker :: "string \<Rightarrow> string" where
  "safe_ticker ticker = (if is_safe_segment ticker then ticker else UNSAFE_TICKER)"

record CaptureReport =
  cr_per_stream :: "(string \<times> string, u64) omap"
  cr_raw :: u64
  cr_gaps :: u64
  cr_verify :: u64
  cr_control :: u64
  cr_server_errors :: u64
  cr_free_bytes :: "u64 option"
  cr_halt_error :: "string option"

definition CaptureReport_default :: CaptureReport where
  "CaptureReport_default =
     \<lparr>cr_per_stream = [], cr_raw = 0, cr_gaps = 0, cr_verify = 0, cr_control = 0, cr_server_errors = 0,
      cr_free_bytes = None, cr_halt_error = None\<rparr>"

definition count_write :: "string \<Rightarrow> string \<Rightarrow> CaptureReport \<Rightarrow> CaptureReport" where
  "count_write ticker channel r =
     r\<lparr>cr_per_stream := om_insert (ticker, channel)
         ((case om_get (cr_per_stream r) (ticker, channel) of Some n \<Rightarrow> n | None \<Rightarrow> 0) + 1)
         (cr_per_stream r)\<rparr>"

definition total_written :: "CaptureReport \<Rightarrow> u64" where
  "total_written r = sum_list (map snd (cr_per_stream r))"

record WriteAction =
  wa_ticker :: string
  wa_channel :: string
  wa_envelope :: Envelope
  wa_is_raw :: bool

definition classify :: "CaptureEvent \<Rightarrow> CaptureReport \<Rightarrow> WriteAction option \<times> CaptureReport" where
  "classify event rep =
     (let recv_ts = ce_recv_ts event; frame = ce_frame event; sid = df_sid frame; seq = df_seq frame in
      case df_outcome frame of
        FData channel ticker rec \<Rightarrow>
          let rep = (case rec of Gap _ \<Rightarrow> rep\<lparr>cr_gaps := cr_gaps rep + 1\<rparr> | _ \<Rightarrow> rep);
              ticker = safe_ticker ticker
          in (Some \<lparr>wa_ticker = ticker, wa_channel = channel,
                    wa_envelope = Envelope_new recv_ts seq sid rec, wa_is_raw = False\<rparr>,
              count_write ticker channel rep)
      | FRaw channel ticker fallback \<Rightarrow>
          let rep = rep\<lparr>cr_raw := cr_raw rep + 1\<rparr>;
              channel = (case channel of Some c \<Rightarrow> c | None \<Rightarrow> RAW_CHANNEL);
              ticker = safe_ticker (case ticker of Some t \<Rightarrow> t | None \<Rightarrow> UNROUTED_TICKER)
          in (Some \<lparr>wa_ticker = ticker, wa_channel = channel,
                    wa_envelope = Envelope_new recv_ts seq sid (Raw fallback), wa_is_raw = True\<rparr>,
              count_write ticker channel rep)
      | FControl _ \<Rightarrow> (None, rep\<lparr>cr_control := cr_control rep + 1\<rparr>)
      | FServerError _ \<Rightarrow> (None, rep\<lparr>cr_server_errors := cr_server_errors rep + 1\<rparr>))"

section \<open>The verify sweep\<close>

record VerifyWrite =
  vw_ticker :: string
  vw_env :: Envelope

fun verify_envelope :: "RestOrderbookOutcome \<Rightarrow> Timestamp \<Rightarrow> string \<times> Envelope" where
  "verify_envelope (RestBook ticker yes no) now =
     (let ticker = safe_ticker ticker;
          snapshot = \<lparr>os_ticker = ticker, os_ts = now, os_yes = yes, os_no = no\<rparr>
      in (ticker, Envelope_new now None None (Verify snapshot)))"
| "verify_envelope (RestUndecodable ticker error payload) now =
     (safe_ticker (case ticker of Some t \<Rightarrow> t | None \<Rightarrow> UNROUTED_TICKER),
      Envelope_new now None None
        (Raw \<lparr>rf_raw_type = Some ''rest_orderbook'', rf_ticker = ticker, rf_error = error,
              rf_payload = payload\<rparr>))"

definition VERIFY_SWEEP_CHUNK_SIZE :: nat where "VERIFY_SWEEP_CHUNK_SIZE = 100"

text \<open>
  One round of the sweep: \<open>fetch\<close> is the answer to a chunk with the instant read after it, \<open>accepts\<close>
  tells whether the writer still takes the next write.
\<close>

fun sweep_outcomes ::
    "(VerifyWrite list \<Rightarrow> bool) \<Rightarrow> Timestamp \<Rightarrow> RestOrderbookOutcome list \<Rightarrow> VerifyWrite list \<Rightarrow> VerifyWrite list \<times> bool" where
  "sweep_outcomes accepts now [] sent = (sent, True)"
| "sweep_outcomes accepts now (outcome # outcomes) sent =
     (let (ticker, env) = verify_envelope outcome now in
      if accepts sent then sweep_outcomes accepts now outcomes (sent @ [\<lparr>vw_ticker = ticker, vw_env = env\<rparr>])
      else (sent, False))"

fun sweep_chunks ::
    "(VerifyWrite list \<Rightarrow> bool) \<Rightarrow> (string list \<Rightarrow> string + RestOrderbookOutcome list \<times> Timestamp) \<Rightarrow>
     string list list \<Rightarrow> VerifyWrite list \<Rightarrow> VerifyWrite list \<times> bool" where
  "sweep_chunks accepts fetch [] sent = (sent, True)"
| "sweep_chunks accepts fetch (chunk # cs) sent =
     (case fetch chunk of
        Inl e \<Rightarrow> sweep_chunks accepts fetch cs sent
      | Inr (outcomes, now) \<Rightarrow>
          (case sweep_outcomes accepts now outcomes sent of
             (sent', False) \<Rightarrow> (sent', False)
           | (sent', True) \<Rightarrow> sweep_chunks accepts fetch cs sent'))"

definition sweep_round ::
    "(VerifyWrite list \<Rightarrow> bool) \<Rightarrow> (string list \<Rightarrow> string + RestOrderbookOutcome list \<times> Timestamp) \<Rightarrow>
     string list \<Rightarrow> VerifyWrite list \<Rightarrow> VerifyWrite list \<times> bool" where
  "sweep_round accepts fetch tickers sent =
     sweep_chunks accepts fetch (chunks VERIFY_SWEEP_CHUNK_SIZE tickers) sent"

section \<open>The writer task\<close>

record writer_cfg =
  wc_json :: "Envelope \<Rightarrow> string"
  wc_store :: store_lib
  wc_base :: path
  wc_floor :: u64

datatype writer_phase = WLoop | WDraining | WFinish | WDone | WPanicked

record writer =
  w_streams :: StreamSet
  w_disk :: disk
  w_report :: CaptureReport
  w_since :: u64
  w_verify_open :: bool
  w_phase :: writer_phase

datatype writer_input =
    WEvent CaptureEvent append_io "string + u64"
  | WRxClosed
  | WVerify VerifyWrite append_io "string + u64"
  | WVerifyClosed
  | WDrain VerifyWrite append_io
  | WDrainEmpty
  | WFinal "string + u64"

definition writer_guard :: "writer_cfg \<Rightarrow> DiskGuard" where
  "writer_guard C = DiskGuard_new (wc_base C) (wc_floor C)"

definition writer_start :: "writer_cfg \<Rightarrow> string + u64 \<Rightarrow> disk \<Rightarrow> StoreError + writer" where
  "writer_start C available d =
     (case guard_check available (writer_guard C) of
        Inl e \<Rightarrow> Inl e
      | Inr _ \<Rightarrow>
          Inr \<lparr>w_streams = StreamSet_new (wc_base C), w_disk = d, w_report = CaptureReport_default,
               w_since = 0, w_verify_open = True, w_phase = WLoop\<rparr>)"

definition halt :: "string \<Rightarrow> writer \<Rightarrow> writer" where
  "halt msg w = w\<lparr>w_report := (w_report w)\<lparr>cr_halt_error := Some msg\<rparr>, w_phase := WFinish\<rparr>"

definition write_record ::
    "writer_cfg \<Rightarrow> string \<Rightarrow> string \<Rightarrow> Envelope \<Rightarrow> append_io \<Rightarrow> writer \<Rightarrow> (store_fail + unit) \<times> writer" where
  "write_record C ticker channel env io w =
     (let (r, s, d) = stream_append (wc_store C) io ticker channel (wc_json C env) (w_streams w, w_disk w)
      in case r of
           Inr _ \<Rightarrow> (Inr (), w\<lparr>w_streams := s, w_disk := d\<rparr>)
         | Inl (Fails e) \<Rightarrow>
             (Inl (Fails e), halt (show_store_error (wc_store C) e) (w\<lparr>w_streams := s, w_disk := d\<rparr>))
         | Inl (Panics m) \<Rightarrow>
             (Inl (Panics m), w\<lparr>w_streams := s, w_disk := d, w_phase := WPanicked\<rparr>))"

definition after_write :: "writer_cfg \<Rightarrow> string + u64 \<Rightarrow> (store_fail + unit) \<times> writer \<Rightarrow> writer" where
  "after_write C available rw =
     (case rw of
        (Inl _, w) \<Rightarrow> w
      | (Inr _, w) \<Rightarrow>
          let since = w_since w + 1 in
          if since \<ge> DISK_CHECK_EVERY then
            (case guard_check available (writer_guard C) of
               Inr free \<Rightarrow> w\<lparr>w_report := (w_report w)\<lparr>cr_free_bytes := Some free\<rparr>, w_since := 0\<rparr>
             | Inl e \<Rightarrow> halt (show_store_error (wc_store C) e) (w\<lparr>w_since := since\<rparr>))
          else w\<lparr>w_since := since\<rparr>)"

definition count_verify :: "string \<Rightarrow> writer \<Rightarrow> writer" where
  "count_verify ticker w =
     w\<lparr>w_report := count_write ticker ''orderbook''
         ((w_report w)\<lparr>cr_verify := cr_verify (w_report w) + 1\<rparr>)\<rparr>"

fun writer_step :: "writer_cfg \<Rightarrow> writer_input \<Rightarrow> writer \<Rightarrow> writer option" where
  "writer_step C i w =
     (case w_phase w of
        WLoop \<Rightarrow>
          (case i of
             WEvent event io available \<Rightarrow>
               (case classify event (w_report w) of
                  (None, rep) \<Rightarrow> Some (w\<lparr>w_report := rep\<rparr>)
                | (Some a, rep) \<Rightarrow>
                    Some (after_write C available
                      (write_record C (wa_ticker a) (wa_channel a) (wa_envelope a) io (w\<lparr>w_report := rep\<rparr>))))
           | WRxClosed \<Rightarrow> Some (w\<lparr>w_phase := WDraining\<rparr>)
           | WVerify vw io available \<Rightarrow>
               if w_verify_open w then
                 Some (after_write C available
                   (write_record C (vw_ticker vw) ''orderbook'' (vw_env vw) io (count_verify (vw_ticker vw) w)))
               else None
           | WVerifyClosed \<Rightarrow> if w_verify_open w then Some (w\<lparr>w_verify_open := False\<rparr>) else None
           | _ \<Rightarrow> None)
      | WDraining \<Rightarrow>
          (case i of
             WDrain vw io \<Rightarrow>
               Some (snd (write_record C (vw_ticker vw) ''orderbook'' (vw_env vw) io (count_verify (vw_ticker vw) w)))
           | WDrainEmpty \<Rightarrow> Some (w\<lparr>w_phase := WFinish\<rparr>)
           | _ \<Rightarrow> None)
      | WFinish \<Rightarrow>
          (case i of
             WFinal available \<Rightarrow>
               Some (case guard_check available (writer_guard C) of
                  Inr free \<Rightarrow> w\<lparr>w_report := (w_report w)\<lparr>cr_free_bytes := Some free\<rparr>, w_phase := WDone\<rparr>
                | Inl _ \<Rightarrow> w\<lparr>w_phase := WDone\<rparr>)
           | _ \<Rightarrow> None)
      | WDone \<Rightarrow> None
      | WPanicked \<Rightarrow> None)"

declare writer_step.simps [simp del]

section \<open>What the inputs write\<close>

type_synonym pending_write = "append_io \<times> string \<times> string \<times> Envelope"

definition event_action :: "CaptureEvent \<Rightarrow> WriteAction option" where
  "event_action event = fst (classify event CaptureReport_default)"

lemma classify_action: "fst (classify event rep) = event_action event"
  by (simp add: event_action_def classify_def Let_def split: FrameOutcome.split)

fun input_writes :: "writer_input \<Rightarrow> pending_write list" where
  "input_writes (WEvent event io _) =
     (case event_action event of
        None \<Rightarrow> []
      | Some a \<Rightarrow> [(io, wa_ticker a, wa_channel a, wa_envelope a)])"
| "input_writes (WVerify vw io _) = [(io, vw_ticker vw, ''orderbook'', vw_env vw)]"
| "input_writes (WDrain vw io) = [(io, vw_ticker vw, ''orderbook'', vw_env vw)]"
| "input_writes _ = []"

fun write_key :: "pending_write \<Rightarrow> string \<times> string \<times> int" where
  "write_key (io, t, c, env) = (t, c, ai_today io)"

fun write_env :: "pending_write \<Rightarrow> Envelope" where
  "write_env (io, t, c, env) = env"

definition write_line :: "writer_cfg \<Rightarrow> pending_write \<Rightarrow> string" where
  "write_line C x = line_of (wc_json C (write_env x))"

definition stream_lines :: "writer_cfg \<Rightarrow> string \<times> string \<times> int \<Rightarrow> pending_write list \<Rightarrow> string" where
  "stream_lines C k ws = concat (map (write_line C) (filter (\<lambda>x. write_key x = k) ws))"

lemma stream_lines_simps [simp]:
  "stream_lines C k [] = []"
  "stream_lines C k (x # ws) = (if write_key x = k then write_line C x else []) @ stream_lines C k ws"
  "stream_lines C k (ws @ ws') = stream_lines C k ws @ stream_lines C k ws'"
  by (simp_all add: stream_lines_def)

definition writer_log :: "writer_cfg \<Rightarrow> writer \<Rightarrow> string \<times> string \<times> int \<Rightarrow> string" where
  "writer_log C w = disk_log (wc_store C) (w_streams w, w_disk w)"

definition writer_inv :: "writer_cfg \<Rightarrow> writer \<Rightarrow> bool" where
  "writer_inv C w \<longleftrightarrow>
     disk_ok (wc_store C) (w_streams w, w_disk w) \<and> om_wf (cr_per_stream (w_report w)) \<and>
     w_phase w \<noteq> WPanicked \<and>
     (w_phase w \<in> {WLoop, WDraining} \<longrightarrow> cr_halt_error (w_report w) = None)"

text \<open>Two states that differ in nothing the log and the totals depend on.\<close>

definition same_files :: "writer \<Rightarrow> writer \<Rightarrow> bool" where
  "same_files w w' \<longleftrightarrow> w_streams w' = w_streams w \<and> w_disk w' = w_disk w \<and>
     cr_per_stream (w_report w') = cr_per_stream (w_report w)"

lemma same_files_log: "same_files w w' \<Longrightarrow> writer_log C w' = writer_log C w"
  by (simp add: same_files_def writer_log_def)

lemma write_record_log:
  assumes inv: "writer_inv C w" and wr: "write_record C t c env io w = (r, w')"
  shows "writer_inv C w' \<and> cr_per_stream (w_report w') = cr_per_stream (w_report w) \<and>
     (\<exists>n. (\<forall>k. writer_log C w' k = writer_log C w k @
            (if write_key (io, t, c, env) = k then take n (write_line C (io, t, c, env)) else [])) \<and>
        (r = Inr () \<longrightarrow> n = length (write_line C (io, t, c, env)))) \<and>
     (r = Inr () \<longrightarrow> w_report w' = w_report w \<and> w_phase w' = w_phase w) \<and>
     (r \<noteq> Inr () \<longrightarrow> cr_halt_error (w_report w') \<noteq> None \<and> w_phase w' = WFinish)"
proof -
  obtain r1 s d where a: "stream_append (wc_store C) io t c (wc_json C env) (w_streams w, w_disk w) = (r1, s, d)"
    by (metis prod_cases3)
  have ok: "disk_ok (wc_store C) (w_streams w, w_disk w)"
    using inv by (simp add: writer_inv_def)
  note law = store.append_adds [OF ok a] store.append_invar [OF ok a]
  have np: "r1 \<noteq> Inl (Panics m)" for m
    using stream_append_adds [OF _ a] ok by (auto simp: disk_ok_def)
  from law(1) obtain n where n: "\<forall>k. disk_log (wc_store C) (s, d) k = disk_log (wc_store C) (w_streams w, w_disk w) k @
      (if k = (t, c, ai_today io) then take n (line_of (wc_json C env)) else [])"
    "r1 = Inr () \<longrightarrow> n = length (line_of (wc_json C env))" by blast
  have log: "writer_log C w' k = disk_log (wc_store C) (s, d) k" for k
    using wr a by (auto simp: write_record_def writer_log_def halt_def split: sum.splits store_fail.splits)
  have "\<forall>k. writer_log C w' k = writer_log C w k @
      (if write_key (io, t, c, env) = k then take n (write_line C (io, t, c, env)) else [])"
    unfolding log using n(1) by (auto simp: writer_log_def write_line_def)
  moreover have "r = Inr () \<longrightarrow> n = length (write_line C (io, t, c, env))"
    using n(2) wr a by (auto simp: write_record_def write_line_def split: sum.splits store_fail.splits)
  moreover have "writer_inv C w' \<and> cr_per_stream (w_report w') = cr_per_stream (w_report w) \<and>
     (r = Inr () \<longrightarrow> w_report w' = w_report w \<and> w_phase w' = w_phase w) \<and>
     (r \<noteq> Inr () \<longrightarrow> cr_halt_error (w_report w') \<noteq> None \<and> w_phase w' = WFinish)"
    using wr a np law(2) inv
    by (auto simp: write_record_def halt_def writer_inv_def split: sum.splits store_fail.splits)
  ultimately show ?thesis by blast
qed

lemma om_get_less_None: "om_wf (e # m) \<Longrightarrow> k \<le> fst e \<Longrightarrow> om_get m k = None"
proof -
  assume "om_wf (e # m)" and "k \<le> fst e"
  then have "k \<notin> fst ` set m" by (auto simp: om_wf_Cons)
  then show ?thesis using dom_om_get [of m] by blast
qed

lemma count_sum:
  "om_wf m \<Longrightarrow> sum_list (map snd (om_insert k ((case om_get m k of Some n \<Rightarrow> n | None \<Rightarrow> 0) + (1 :: u64)) m)) =
     sum_list (map snd m) + 1"
proof (induction m)
  case (Cons e m)
  then have IH: "sum_list (map snd (om_insert k ((case om_get m k of Some n \<Rightarrow> n | None \<Rightarrow> 0) + 1) m)) = sum_list (map snd m) + 1"
    by (simp add: om_wf_Cons)
  show ?case
    using IH om_get_less_None [OF Cons.prems, of k] by (cases e) (auto simp: om_get_Cons)
qed simp

lemma total_count_write:
  "om_wf (cr_per_stream r) \<Longrightarrow> total_written (count_write t c r) = total_written r + 1"
  by (simp add: total_written_def count_write_def count_sum)

lemma om_wf_count_write: "om_wf (cr_per_stream r) \<Longrightarrow> om_wf (cr_per_stream (count_write t c r))"
  by (simp add: count_write_def)

lemma total_written_cong: "cr_per_stream r' = cr_per_stream r \<Longrightarrow> total_written r' = total_written r"
  by (simp add: total_written_def)

lemma classify_total:
  assumes "om_wf (cr_per_stream r)" and "classify event r = (a, r')"
  shows "om_wf (cr_per_stream r') \<and> cr_halt_error r' = cr_halt_error r \<and>
     total_written r' = total_written r + (if a = None then 0 else 1)"
proof -
  have "om_wf (cr_per_stream r1) \<Longrightarrow> cr_per_stream r1 = cr_per_stream r \<Longrightarrow>
      total_written (count_write t c r1) = total_written r + 1" for r1 t c
    using total_count_write [of r1 t c] by (simp add: total_written_def)
  with assms show ?thesis
    by (auto simp: classify_def Let_def om_wf_count_write total_written_def count_write_def
        split: FrameOutcome.splits RecordKind.splits)
qed

text \<open>One step of the writer: the bytes it adds, the record it counts, and whether it halts.\<close>

definition step_writes :: "writer_cfg \<Rightarrow> writer \<Rightarrow> pending_write list \<Rightarrow> writer \<Rightarrow> bool" where
  "step_writes C w ws w' \<longleftrightarrow>
     total_written (w_report w') = total_written (w_report w) + of_nat (length ws) \<and>
     (ws = [] \<and> (\<forall>k. writer_log C w' k = writer_log C w k) \<and>
        cr_halt_error (w_report w') = cr_halt_error (w_report w) \<or>
      (\<exists>x n. ws = [x] \<and> w_phase w \<in> {WLoop, WDraining} \<and>
        (\<forall>k. writer_log C w' k = writer_log C w k @ (if write_key x = k then take n (write_line C x) else [])) \<and>
        (cr_halt_error (w_report w') = None \<longrightarrow> n = length (write_line C x)) \<and>
        (cr_halt_error (w_report w') \<noteq> None \<longrightarrow> w_phase w' = WFinish)))"

lemma after_write_facts:
  assumes "w1 = after_write C av (r, w)" and "r = Inr () \<Longrightarrow> cr_halt_error (w_report w) = None"
    and "r \<noteq> Inr () \<Longrightarrow> cr_halt_error (w_report w) \<noteq> None \<and> w_phase w = WFinish" and "writer_inv C w"
  shows "writer_inv C w1 \<and> same_files w w1 \<and> (cr_halt_error (w_report w1) = None \<longrightarrow> r = Inr ()) \<and>
     (cr_halt_error (w_report w1) \<noteq> None \<longrightarrow> w_phase w1 = WFinish)"
  using assms
  by (cases r) (auto simp: after_write_def halt_def same_files_def writer_inv_def Let_def split: sum.splits)

lemma record_step:
  assumes inv: "writer_inv C w" and ph: "w_phase w \<in> {WLoop, WDraining}"
    and w1: "w_streams w1 = w_streams w" "w_disk w1 = w_disk w" "w_phase w1 = w_phase w"
    and rep: "om_wf (cr_per_stream (w_report w1))" "cr_halt_error (w_report w1) = None"
      "total_written (w_report w1) = total_written (w_report w) + 1"
    and wr: "write_record C t c env io w1 = (r, w2)"
    and w': "w' = w2 \<or> w' = after_write C av (r, w2)"
  shows "writer_inv C w' \<and> step_writes C w [(io, t, c, env)] w'"
proof -
  have inv1: "writer_inv C w1"
    using inv ph w1 rep by (auto simp: writer_inv_def)
  note f = write_record_log [OF inv1 wr]
  have af: "writer_inv C w' \<and> same_files w2 w' \<and> (cr_halt_error (w_report w') = None \<longrightarrow> r = Inr ()) \<and>
     (cr_halt_error (w_report w') \<noteq> None \<longrightarrow> w_phase w' = WFinish)"
    using w'
  proof
    assume "w' = w2"
    with f rep show ?thesis by (auto simp: same_files_def)
  next
    assume "w' = after_write C av (r, w2)"
    then show ?thesis
      by (rule after_write_facts) (use f rep in auto)
  qed
  from f obtain n where n: "\<forall>k. writer_log C w2 k = writer_log C w1 k @
      (if write_key (io, t, c, env) = k then take n (write_line C (io, t, c, env)) else [])"
    "r = Inr () \<longrightarrow> n = length (write_line C (io, t, c, env))" by blast
  have "writer_log C w1 = writer_log C w" using w1 by (simp add: writer_log_def)
  moreover have "writer_log C w' = writer_log C w2" using af by (intro same_files_log) blast
  moreover have "total_written (w_report w') = total_written (w_report w) + 1"
    using af f rep(3) by (simp add: total_written_def same_files_def)
  ultimately show ?thesis
    unfolding step_writes_def using n af ph by auto
qed

lemma writer_step_writes:
  assumes inv: "writer_inv C w" and st: "writer_step C i w = Some w'"
  shows "writer_inv C w' \<and> step_writes C w (input_writes i) w'"
proof (cases "w_phase w = WLoop \<or> w_phase w = WDraining")
  case False
  then have "w_phase w = WFinish" "input_writes i = []" "same_files w w'" "w_phase w' = WDone"
    "cr_halt_error (w_report w') = cr_halt_error (w_report w)"
    using st by (cases "w_phase w"; cases i; auto simp: writer_step.simps same_files_def split: sum.splits)+
  then show ?thesis
    using inv by (simp add: step_writes_def same_files_log) (simp add: same_files_def writer_inv_def total_written_def)
next
  case True
  have wf: "om_wf (cr_per_stream (w_report w))" and h: "cr_halt_error (w_report w) = None"
    using inv True by (auto simp: writer_inv_def)
  have verify: "writer_inv C w' \<and> step_writes C w [(io, vw_ticker vw, ''orderbook'', vw_env vw)] w'"
    if "write_record C (vw_ticker vw) ''orderbook'' (vw_env vw) io (count_verify (vw_ticker vw) w) = (r, w2)"
      and "w' = w2 \<or> w' = after_write C av (r, w2)" for vw io av r w2
    using that
    by (intro record_step [OF inv _ _ _ _ _ _ _ that])
      (use True wf h in \<open>auto simp: count_verify_def om_wf_count_write total_count_write\<close>,
        auto simp: count_write_def total_written_def)
  show ?thesis
  proof (cases i)
    case (WEvent event io av)
    obtain a rep' where cl: "classify event (w_report w) = (a, rep')" by fastforce
    note ct = classify_total [OF wf cl]
    have act: "event_action event = a"
      using cl classify_action [of event "w_report w"] by simp
    have lp: "w_phase w = WLoop" using st WEvent True by (auto simp: writer_step.simps)
    show ?thesis
    proof (cases a)
      case None
      then show ?thesis
        using st WEvent lp cl act ct inv h
        by (auto simp: writer_step.simps step_writes_def writer_log_def writer_inv_def)
    next
      case (Some x)
      obtain r w2 where wr: "write_record C (wa_ticker x) (wa_channel x) (wa_envelope x) io (w\<lparr>w_report := rep'\<rparr>) = (r, w2)"
        by fastforce
      have "w' = after_write C av (r, w2)"
        using st WEvent lp cl Some wr by (simp add: writer_step.simps)
      then have "writer_inv C w' \<and> step_writes C w [(io, wa_ticker x, wa_channel x, wa_envelope x)] w'"
        by (intro record_step [OF inv _ _ _ _ _ _ _ wr, where av = av]) (use True ct Some h in auto)
      then show ?thesis using WEvent act Some by simp
    qed
  next
    case (WVerify vw io av)
    obtain r w2 where "write_record C (vw_ticker vw) ''orderbook'' (vw_env vw) io (count_verify (vw_ticker vw) w) = (r, w2)"
      by fastforce
    with verify [OF this, of av] st WVerify True show ?thesis
      by (auto simp: writer_step.simps split: if_splits)
  next
    case (WDrain vw io)
    obtain r w2 where "write_record C (vw_ticker vw) ''orderbook'' (vw_env vw) io (count_verify (vw_ticker vw) w) = (r, w2)"
      by fastforce
    with verify [OF this] st WDrain True show ?thesis
      by (auto simp: writer_step.simps)
  qed (use st True inv h in \<open>auto simp: writer_step.simps step_writes_def writer_log_def writer_inv_def split: if_splits\<close>)
qed

section \<open>A run of the writer\<close>

definition all_writes :: "writer_input list \<Rightarrow> pending_write list" where
  "all_writes is = concat (map input_writes is)"

lemma all_writes_simps [simp]:
  "all_writes [] = []" "all_writes (i # is) = input_writes i @ all_writes is"
  "all_writes (is @ js) = all_writes is @ all_writes js"
  by (simp_all add: all_writes_def)

lemma finished_run:
  "writer_inv C w \<Longrightarrow> w_phase w \<in> {WFinish, WDone} \<Longrightarrow> run_inputs (writer_step C) is w = Some w' \<Longrightarrow>
     all_writes is = [] \<and> writer_log C w' = writer_log C w \<and>
     cr_halt_error (w_report w') = cr_halt_error (w_report w) \<and>
     total_written (w_report w') = total_written (w_report w)"
proof (induction "is" arbitrary: w)
  case (Cons i "is")
  from Cons.prems(3) obtain w1 where w1: "writer_step C i w = Some w1" "run_inputs (writer_step C) is w1 = Some w'"
    by (auto split: option.splits)
  note st = writer_step_writes [OF Cons.prems(1) w1(1)]
  have "w_phase w1 = WDone"
    using w1(1) Cons.prems(2) by (cases i) (auto simp: writer_step.simps split: sum.splits)
  with Cons.IH [of w1] st w1(2) Cons.prems(2) show ?case
    by (auto simp: step_writes_def)
qed simp

lemma writer_run:
  "writer_inv C w \<Longrightarrow> cr_halt_error (w_report w) = None \<Longrightarrow> run_inputs (writer_step C) is w = Some w' \<Longrightarrow>
     total_written (w_report w') = total_written (w_report w) + of_nat (length (all_writes is)) \<and>
     (if cr_halt_error (w_report w') = None
      then \<forall>k. writer_log C w' k = writer_log C w k @ stream_lines C k (all_writes is)
      else \<exists>ws x n. all_writes is = ws @ [x] \<and>
        (\<forall>k. writer_log C w' k = writer_log C w k @ stream_lines C k ws @
           (if write_key x = k then take n (write_line C x) else [])))"
proof (induction "is" arbitrary: w)
  case Nil
  then show ?case by simp
next
  case (Cons i "is")
  from Cons.prems(3) obtain w1 where w1: "writer_step C i w = Some w1" "run_inputs (writer_step C) is w1 = Some w'"
    by (auto split: option.splits)
  from writer_step_writes [OF Cons.prems(1) w1(1)] have inv: "writer_inv C w1"
    and st: "step_writes C w (input_writes i) w1" by blast+
  show ?case
  proof (cases "cr_halt_error (w_report w1) = None")
    case True
    with Cons.IH [OF inv True w1(2)] st show ?thesis
    proof (cases "cr_halt_error (w_report w') = None")
      case h: True
      with Cons.IH [OF inv True w1(2)] st True show ?thesis
        by (auto simp: step_writes_def)
    next
      case False
      note IH = Cons.IH [OF inv True w1(2)]
      from IH [THEN conjunct2, unfolded if_not_P [OF False]] obtain ws x n where t: "all_writes is = ws @ [x]"
        "\<forall>k. writer_log C w' k = writer_log C w1 k @ stream_lines C k ws @
           (if write_key x = k then take n (write_line C x) else [])"
        by (elim exE conjE)
      have l1: "writer_log C w1 k = writer_log C w k @ stream_lines C k (input_writes i)" for k
        using st True unfolding step_writes_def by (cases k, elim conjE disjE exE) (simp_all add: stream_lines_def)
      have "total_written (w_report w') = total_written (w_report w) + of_nat (length (all_writes (i # is)))"
        using st IH by (simp add: step_writes_def)
      moreover have "\<forall>k. writer_log C w' k = writer_log C w k @ stream_lines C k (input_writes i @ ws) @
           (if write_key x = k then take n (write_line C x) else [])"
        unfolding t(2) [rule_format] l1 by simp
      moreover have "all_writes (i # is) = (input_writes i @ ws) @ [x]"
        using t(1) by simp
      ultimately show ?thesis using False by (simp only: if_False) blast
    qed
  next
    case False
    with st Cons.prems(2) have "\<exists>x n. input_writes i = [x] \<and> w_phase w1 = WFinish \<and>
        (\<forall>k. writer_log C w1 k = writer_log C w k @ (if write_key x = k then take n (write_line C x) else []))"
      unfolding step_writes_def by (simp only:) blast
    then obtain x n where x: "input_writes i = [x]" "w_phase w1 = WFinish"
      "\<forall>k. writer_log C w1 k = writer_log C w k @ (if write_key x = k then take n (write_line C x) else [])"
      by (elim exE conjE)
    have fin: "all_writes is = []" "writer_log C w' = writer_log C w1"
      "cr_halt_error (w_report w') \<noteq> None" "total_written (w_report w') = total_written (w_report w1)"
      using finished_run [OF inv _ w1(2)] x(2) False by simp_all
    have "total_written (w_report w') = total_written (w_report w) + of_nat (length (all_writes (i # is)))"
      using st fin x(1) by (simp add: step_writes_def)
    moreover have "all_writes (i # is) = [] @ [x]" using fin x(1) by simp
    moreover have "\<forall>k. writer_log C w' k = writer_log C w k @ stream_lines C k [] @
        (if write_key x = k then take n (write_line C x) else [])"
      unfolding fin(2) stream_lines_simps(1) append_Nil by (rule x(3))
    ultimately show ?thesis using fin(3) by (simp only: if_False) blast
  qed
qed

lemma writer_start_inv:
  "inj (sl_show_day (wc_store C)) \<Longrightarrow> writer_start C av d = Inr w \<Longrightarrow>
     writer_inv C w \<and> cr_halt_error (w_report w) = None \<and> w_report w = CaptureReport_default \<and>
     writer_log C w = disk_log (wc_store C) (StreamSet_new (wc_base C), d)"
  by (auto simp: writer_start_def writer_inv_def disk_ok_def set_ok_new CaptureReport_default_def writer_log_def
      split: sum.splits)

section \<open>Reading a file back\<close>

definition json_line :: "string \<Rightarrow> bool" where
  "json_line j \<longleftrightarrow> CHR 0x0A \<notin> set j \<and> (j \<noteq> [] \<longrightarrow> last j \<noteq> CHR 0x0D) \<and> \<not> list_all is_whitespace j"

lemma buf_lines_lines:
  "list_all json_line js \<Longrightarrow> buf_lines (concat (map line_of js)) = js"
proof (induction js)
  case Nil
  then show ?case by (simp add: buf_lines.simps)
next
  case (Cons j js)
  then have "split_once (CHR 0x0A) (line_of j @ concat (map line_of js)) = Some (j, concat (map line_of js))"
    using split_once_append [of "CHR 0x0A" j "concat (map line_of js)"] by (simp add: json_line_def line_of_def)
  moreover have "strip_cr j = j" using Cons.prems by (auto simp: strip_cr_def json_line_def)
  ultimately show ?case
    using Cons by (simp add: buf_lines.simps [of "line_of j @ _"]) (simp add: line_of_def)
qed

text \<open>What the capture relies on in the codec of the envelope.\<close>

definition codec_ok :: "(Envelope \<Rightarrow> string) \<Rightarrow> (string \<Rightarrow> string + Envelope) \<Rightarrow> Envelope \<Rightarrow> bool" where
  "codec_ok to_json from_json env \<longleftrightarrow> json_line (to_json env) \<and> from_json (to_json env) = Inr env"

lemma read_from_written:
  "list_all (codec_ok to_json from_json) es \<Longrightarrow> list_all (\<lambda>env. e_v env \<le> ENVELOPE_VERSION) es \<Longrightarrow>
     read_from from_json i (map (Inr \<circ> to_json) es) = map Inr es"
  by (induction es arbitrary: i)
    (auto simp: codec_ok_def json_line_def Let_def validate_ok_iff [THEN iffD2])

lemma action_version: "event_action ev = Some a \<Longrightarrow> e_v (wa_envelope a) = ENVELOPE_VERSION"
  by (auto simp: event_action_def classify_def Let_def split: FrameOutcome.splits)

definition day_file :: "writer_cfg \<Rightarrow> string \<times> string \<times> int \<Rightarrow> path" where
  "day_file C = (\<lambda>(t, c, day). wc_base C @ [t, c, sl_show_day (wc_store C) day @ ''.jsonl''])"

lemma base_dir_kept:
  assumes "writer_step C i w = Some w'" and "writer_inv C w"
  shows "sm_base_dir (w_streams w') = sm_base_dir (w_streams w)"
proof -
  have wr: "sm_base_dir (w_streams (snd (write_record C t c env io v))) = sm_base_dir (w_streams v)"
    if ok: "disk_ok (wc_store C) (w_streams v, w_disk v)" for t c env io v
  proof -
    obtain r s d where a: "stream_append (wc_store C) io t c (wc_json C env) (w_streams v, w_disk v) = (r, s, d)"
      by (metis prod_cases3)
    have "sm_base_dir s = sm_base_dir (w_streams v)"
      using stream_append_adds [OF _ a] ok by (simp add: disk_ok_def)
    with a show ?thesis
      by (simp add: write_record_def halt_def split: sum.split store_fail.split)
  qed
  have aw: "w_streams (after_write C av rw) = w_streams (snd rw)" for av rw
    by (cases rw) (simp add: after_write_def halt_def Let_def split: sum.split)
  have ok: "disk_ok (wc_store C) (w_streams w, w_disk w)"
    using assms(2) by (simp add: writer_inv_def)
  show ?thesis
    using assms(1) wr ok unfolding writer_step.simps
    by (cases "w_phase w"; cases i) (auto simp: aw count_verify_def split: option.splits prod.splits if_splits sum.splits)
qed

lemma run_base_dir:
  "run_inputs (writer_step C) is w = Some w' \<Longrightarrow> writer_inv C w \<Longrightarrow>
     sm_base_dir (w_streams w') = sm_base_dir (w_streams w)"
proof (induction "is" arbitrary: w)
  case (Cons i "is")
  then show ?case
    using base_dir_kept [of C i w] writer_step_writes [of C w i] by (fastforce split: option.splits)
qed simp

lemma run_log_bytes:
  assumes "writer_start C av d0 = Inr w0" and "inj (sl_show_day (wc_store C))"
    and "run_inputs (writer_step C) is w0 = Some w"
  shows "writer_log C w k = bytes_at (w_disk w) (day_file C k)"
    and "writer_log C w0 k = bytes_at d0 (day_file C k)"
proof -
  have "sm_base_dir (w_streams w0) = wc_base C" "w_disk w0 = d0"
    using assms(1) by (auto simp: writer_start_def StreamSet_new_def split: sum.splits)
  moreover have "sm_base_dir (w_streams w) = sm_base_dir (w_streams w0)"
    using run_base_dir [OF assms(3)] writer_start_inv [OF assms(2,1)] by blast
  ultimately show "writer_log C w k = bytes_at (w_disk w) (day_file C k)"
    "writer_log C w0 k = bytes_at d0 (day_file C k)"
    by (cases k; simp add: writer_log_def disk_log_def day_file_def stream_file_def)+
qed

lemma written_files:
  assumes "writer_start C av d0 = Inr w0" and "inj (sl_show_day (wc_store C))"
    and "run_inputs (writer_step C) is w0 = Some w" and "cr_halt_error (w_report w) = None"
  shows "bytes_at (w_disk w) (day_file C k) = bytes_at d0 (day_file C k) @ stream_lines C k (all_writes is)"
proof -
  have "writer_inv C w0" and "cr_halt_error (w_report w0) = None"
    using writer_start_inv [OF assms(2,1)] by blast+
  note run = writer_run [OF this assms(3)]
  have "writer_log C w k = writer_log C w0 k @ stream_lines C k (all_writes is)"
    by (rule run [THEN conjunct2, unfolded if_P [OF assms(4)], rule_format])
  then show ?thesis unfolding run_log_bytes [OF assms(1-3)] .
qed

lemma all_writes_version: "x \<in> set (all_writes is) \<Longrightarrow> \<forall>vw. (\<exists>io av. WVerify vw io av \<in> set is \<or> WDrain vw io \<in> set is) \<longrightarrow>
    e_v (vw_env vw) \<le> ENVELOPE_VERSION \<Longrightarrow> e_v (write_env x) \<le> ENVELOPE_VERSION"
proof -
  assume x: "x \<in> set (all_writes is)" and v: "\<forall>vw. (\<exists>io av. WVerify vw io av \<in> set is \<or> WDrain vw io \<in> set is) \<longrightarrow>
    e_v (vw_env vw) \<le> ENVELOPE_VERSION"
  then obtain i where i: "i \<in> set is" "x \<in> set (input_writes i)"
    by (auto simp: all_writes_def)
  with v show ?thesis
    by (cases i) (auto dest: action_version action_version [OF sym] split: option.splits)
qed

lemma file_reads_back:
  assumes "bytes_at d p = stream_lines C k ws"
    and "\<And>x. x \<in> set ws \<Longrightarrow> write_key x = k \<Longrightarrow> codec_ok (wc_json C) from_json (write_env x)"
    and "\<And>x. x \<in> set ws \<Longrightarrow> write_key x = k \<Longrightarrow> e_v (write_env x) \<le> ENVELOPE_VERSION"
  shows "read_envelopes from_json (map Inr (buf_lines (bytes_at d p))) =
     map (\<lambda>x. Inr (write_env x)) (filter (\<lambda>x. write_key x = k) ws)"
proof -
  let ?ws = "filter (\<lambda>x. write_key x = k) ws"
  have b: "bytes_at d p = concat (map line_of (map (\<lambda>x. wc_json C (write_env x)) ?ws))"
    unfolding assms(1) stream_lines_def by (simp add: write_line_def [abs_def] comp_def)
  have "buf_lines (bytes_at d p) = map (\<lambda>x. wc_json C (write_env x)) ?ws"
    unfolding b by (rule buf_lines_lines) (use assms(2) in \<open>auto simp: list_all_iff codec_ok_def\<close>)
  moreover have "read_from from_json 0 (map (Inr \<circ> wc_json C) (map write_env ?ws)) = map Inr (map write_env ?ws)"
    by (rule read_from_written) (use assms(2,3) in \<open>auto simp: list_all_iff\<close>)
  ultimately show ?thesis
    by (simp add: read_envelopes_def comp_def)
qed

section \<open>A concrete run\<close>

text \<open>A writer that receives one gap marker and is then closed.\<close>

definition ex_day :: "int \<Rightarrow> string" where
  "ex_day d = replicate (nat (if 0 \<le> d then 2 * d else - 2 * d - 1)) (CHR ''1'')"

lemma inj_ex_day: "inj ex_day"
proof (rule injI)
  fix x y
  assume "ex_day x = ex_day y"
  then have "nat (if 0 \<le> x then 2 * x else - 2 * x - 1) = nat (if 0 \<le> y then 2 * y else - 2 * y - 1)"
    unfolding ex_day_def by (metis length_replicate)
  then have "(if 0 \<le> x then 2 * x else - 2 * x - 1) = (if 0 \<le> y then 2 * y else - 2 * y - 1)"
    by (subst (asm) eq_nat_nat_iff) (auto split: if_splits)
  then show "x = y" by (simp split: if_splits) presburger+
qed

definition ex_gap :: CaptureEvent where
  "ex_gap = gap_capture_event 0 None ''orderbook'' (reconnect_marker ''T'' ''orderbook'')"

definition ex_gap_env :: Envelope where
  "ex_gap_env = Envelope_new 0 None None (Gap (reconnect_marker ''T'' ''orderbook''))"

definition ex_cfg :: writer_cfg where
  "ex_cfg = \<lparr>wc_json = (\<lambda>_. ''{}''),
     wc_store = \<lparr>sl_show_day = ex_day, sl_show_path = concat, sl_debug = id\<rparr>,
     wc_base = [''data''], wc_floor = 1\<rparr>"

definition ex_writer_inputs :: "writer_input list" where
  "ex_writer_inputs = [WEvent ex_gap ex_io (Inr 9), WRxClosed, WDrainEmpty, WFinal (Inr 9)]"

definition ex_writer :: writer where
  "ex_writer = \<lparr>w_streams = StreamSet_new [''data''], w_disk = (\<lambda>_. None), w_report = CaptureReport_default,
     w_since = 0, w_verify_open = True, w_phase = WLoop\<rparr>"

lemma ex_cfg_simps [simp]: "sl_show_day (wc_store ex_cfg) = ex_day" "wc_json ex_cfg = (\<lambda>_. ''{}'')"
  by (simp_all add: ex_cfg_def)

lemma ex_writer_start: "writer_start ex_cfg (Inr 9) (\<lambda>_. None) = Inr ex_writer"
  by (simp add: writer_start_def ex_cfg_def guard_check_def writer_guard_def DiskGuard_new_def ex_writer_def)

lemma ex_gap_action: "classify ex_gap rep =
    (Some \<lparr>wa_ticker = ''T'', wa_channel = ''orderbook'', wa_envelope = ex_gap_env, wa_is_raw = False\<rparr>,
     count_write ''T'' ''orderbook'' (rep\<lparr>cr_gaps := cr_gaps rep + 1\<rparr>))"
  by (simp add: classify_def ex_gap_def gap_capture_event_def reconnect_marker_def safe_ticker_def
      is_safe_segment_def ex_gap_env_def Let_def)

lemma ex_writes: "all_writes ex_writer_inputs = [(ex_io, ''T'', ''orderbook'', ex_gap_env)]"
  by (simp add: ex_writer_inputs_def event_action_def ex_gap_action)

lemma ex_writer_run: "\<exists>w. run_inputs (writer_step ex_cfg) ex_writer_inputs ex_writer = Some w \<and>
    cr_halt_error (w_report w) = None"
  by (simp add: ex_writer_inputs_def writer_step.simps ex_writer_def ex_gap_action write_record_def stream_append_def
      StreamSet_new_def JsonlWriter_new_def is_safe_segment_def ex_io_def ex_cfg_def writer_append_def
      jsonl_append_def rotate_if_needed_def after_write_def Let_def guard_check_def writer_guard_def
      DiskGuard_new_def DISK_CHECK_EVERY_def count_write_def CaptureReport_default_def)

section \<open>Properties\<close>

text \<open>
  C4. The files hold what was received: after a run of the writer that did not halt, every file is what
  it was before, followed by one line for each event and verify write received for its stream on
  its day, in the order they were received, and the report counts each of them once. After a halt
  only the last line of a single file may be incomplete.
\<close>

theorem writer_files_exact:
  assumes "writer_start C av d0 = Inr w0" and "inj (sl_show_day (wc_store C))"
    and "run_inputs (writer_step C) is w0 = Some w"
  shows "total_written (w_report w) = of_nat (length (all_writes is)) \<and>
     (if cr_halt_error (w_report w) = None
      then \<forall>k. bytes_at (w_disk w) (day_file C k) =
             bytes_at d0 (day_file C k) @ stream_lines C k (all_writes is)
      else \<exists>ws x n. all_writes is = ws @ [x] \<and>
        (\<forall>k. bytes_at (w_disk w) (day_file C k) =
           bytes_at d0 (day_file C k) @ stream_lines C k ws @
           (if write_key x = k then take n (write_line C x) else [])))"
proof -
  have inv: "writer_inv C w0" "cr_halt_error (w_report w0) = None" and "w_report w0 = CaptureReport_default"
    using writer_start_inv [OF assms(2,1)] by blast+
  then have zero: "total_written (w_report w0) = 0"
    by (simp add: total_written_def CaptureReport_default_def)
  show ?thesis
    using writer_run [OF inv assms(3)] unfolding run_log_bytes [OF assms] zero add_0_left .
qed

theorem writer_files_exact_witness:
  "\<exists>w. run_inputs (writer_step ex_cfg) ex_writer_inputs ex_writer = Some w \<and>
     total_written (w_report w) = 1 \<and>
     bytes_at (w_disk w) (day_file ex_cfg (''T'', ''orderbook'', 2)) = ''{}'' @ [CHR 0x0A]"
proof -
  obtain w where w: "run_inputs (writer_step ex_cfg) ex_writer_inputs ex_writer = Some w"
    "cr_halt_error (w_report w) = None" using ex_writer_run by blast
  have "total_written (w_report w) = of_nat (length (all_writes ex_writer_inputs))"
    and "\<forall>k. bytes_at (w_disk w) (day_file ex_cfg k) = bytes_at (\<lambda>_. None) (day_file ex_cfg k) @
           stream_lines ex_cfg k (all_writes ex_writer_inputs)"
    using writer_files_exact [OF ex_writer_start _ w(1)] w(2) inj_ex_day by simp_all
  with w(1) show ?thesis
    by (auto simp: ex_writes bytes_at_def write_line_def line_of_def ex_io_def)
qed

text \<open>
  C30. What is captured can be read: a day file that did not exist before a run without a halt, read back
  line by line with the decoder of the processor, gives exactly the envelopes written for its stream
  and day, in order and without a single unreadable line.
\<close>

theorem captured_file_reads_back:
  assumes "writer_start C av d0 = Inr w0" and "inj (sl_show_day (wc_store C))"
    and "run_inputs (writer_step C) is w0 = Some w" and "cr_halt_error (w_report w) = None"
    and "d0 (day_file C k) = None"
    and "\<And>x. x \<in> set (all_writes is) \<Longrightarrow> write_key x = k \<Longrightarrow>
       codec_ok (wc_json C) from_json (write_env x) \<and> e_v (write_env x) \<le> ENVELOPE_VERSION"
  shows "read_envelopes from_json (map Inr (buf_lines (bytes_at (w_disk w) (day_file C k)))) =
     map (\<lambda>x. Inr (write_env x)) (filter (\<lambda>x. write_key x = k) (all_writes is))"
proof (rule file_reads_back)
  show "bytes_at (w_disk w) (day_file C k) = stream_lines C k (all_writes is)"
    using written_files [OF assms(1-4), of k] assms(5) by (simp add: bytes_at_def)
qed (use assms(6) in blast)+

theorem captured_file_reads_back_witness:
  "\<exists>w. run_inputs (writer_step ex_cfg) ex_writer_inputs ex_writer = Some w \<and>
     read_envelopes (\<lambda>_. Inr ex_gap_env)
       (map Inr (buf_lines (bytes_at (w_disk w) (day_file ex_cfg (''T'', ''orderbook'', 2))))) = [Inr ex_gap_env]"
proof -
  obtain w where w: "run_inputs (writer_step ex_cfg) ex_writer_inputs ex_writer = Some w"
    "cr_halt_error (w_report w) = None" using ex_writer_run by blast
  have "read_envelopes (\<lambda>_. Inr ex_gap_env)
       (map Inr (buf_lines (bytes_at (w_disk w) (day_file ex_cfg (''T'', ''orderbook'', 2))))) =
     map (\<lambda>x. Inr (write_env x))
       (filter (\<lambda>x. write_key x = (''T'', ''orderbook'', 2)) (all_writes ex_writer_inputs))"
    by (rule captured_file_reads_back [OF ex_writer_start _ w])
      (auto simp: inj_ex_day ex_writes codec_ok_def json_line_def is_whitespace_def ex_gap_env_def)
  then show ?thesis using w(1) by (auto simp: ex_writes ex_io_def)
qed

text \<open>
  The counters run ahead of the files: a record whose append fails is counted as written, so the
  report of a halted capture names one record more than the files hold.
\<close>

theorem failed_append_is_counted:
  "\<exists>w. run_inputs (writer_step ex_cfg) [WEvent ex_gap (ex_io\<lparr>ai_open := Some ''denied''\<rparr>) (Inr 9)] ex_writer = Some w \<and>
     cr_halt_error (w_report w) = Some ''store io error: denied'' \<and>
     total_written (w_report w) = 1 \<and> w_disk w = (\<lambda>_. None)"
  by (simp add: writer_step.simps ex_writer_def ex_gap_action write_record_def stream_append_def
      StreamSet_new_def JsonlWriter_new_def is_safe_segment_def ex_io_def ex_cfg_def writer_append_def
      jsonl_append_def rotate_if_needed_def after_write_def Let_def halt_def show_store_error_def
      count_write_def CaptureReport_default_def total_written_def)

end
