(* ===== verification/Pipeline.thy ===== *)
theory Pipeline
  imports Lossless Capture
begin

text \<open>
  The whole path of the data: the events a session emits (\<open>Session\<close>), the files the writer makes of
  them (\<open>Capture\<close>), the conversion of these files (\<open>Process\<close>) and the replay of the tables
  (\<open>Lossless\<close>). The lemmas bring the files of a stream back into one sequence of envelopes and pick
  the book messages of a ticker out of it.
\<close>

section \<open>The day files of a stream\<close>

text \<open>The files of a stream as the converter is given them: those that exist, day by day.\<close>

definition stream_files :: "writer_cfg \<Rightarrow> disk \<Rightarrow> string \<Rightarrow> string \<Rightarrow> int list \<Rightarrow> jsonl_file list" where
  "stream_files C d t c days =
     map (\<lambda>day. (sl_show_day (wc_store C) day @ ''.jsonl'',
                 map Inr (buf_lines (bytes_at d (day_file C (t, c, day))))))
       (filter (\<lambda>day. d (day_file C (t, c, day)) \<noteq> None) days)"

fun write_day :: "pending_write \<Rightarrow> int" where
  "write_day (io, t, c, env) = ai_today io"

fun write_stream :: "pending_write \<Rightarrow> string \<times> string" where
  "write_stream (io, t, c, env) = (t, c)"

lemma write_key_split: "write_key x = (t, c, day) \<longleftrightarrow> write_stream x = (t, c) \<and> write_day x = day"
  by (cases x) auto

lemma concat_by_day:
  "sorted (map f xs) \<Longrightarrow> sorted days \<Longrightarrow> distinct days \<Longrightarrow> f ` set xs \<subseteq> set days \<Longrightarrow>
     concat (map (\<lambda>d. filter (\<lambda>x. f x = d) xs) days) = (xs :: 'a list)" for f :: "'a \<Rightarrow> int"
proof (induction days arbitrary: xs)
  case (Cons d days)
  have first: "f x \<ge> d" if "x \<in> set xs" for x
    using Cons.prems that by auto
  have split: "xs = filter (\<lambda>x. f x = d) xs @ filter (\<lambda>x. f x \<noteq> d) xs"
    using Cons.prems(1) first
  proof (induction xs)
    case (Cons y ys)
    show ?case
    proof (cases "f y = d")
      case True
      with Cons show ?thesis by simp
    next
      case False
      then have "filter (\<lambda>x. f x = d) ys = []"
        using Cons.prems by (fastforce simp: filter_empty_conv)
      with False Cons show ?thesis by simp
    qed
  qed simp
  let ?ys = "filter (\<lambda>x. f x \<noteq> d) xs"
  have "sorted (map f ?ys)"
    using Cons.prems(1) by (simp add: sorted_map sorted_wrt_filter)
  then have IH: "concat (map (\<lambda>d. filter (\<lambda>x. f x = d) ?ys) days) = ?ys"
    using Cons.prems by (intro Cons.IH) auto
  have "concat (map (\<lambda>d'. filter (\<lambda>x. f x = d') xs) days) = concat (map (\<lambda>d. filter (\<lambda>x. f x = d) ?ys) days)"
    using Cons.prems(3) by (intro arg_cong [of _ _ concat] map_cong refl) (auto intro: filter_cong)
  then show ?case
    using IH split by simp
qed simp

lemma concat_filter_empty:
  "(\<And>x. x \<in> set xs \<Longrightarrow> \<not> P x \<Longrightarrow> g x = []) \<Longrightarrow> concat (map g (filter P xs)) = concat (map g xs)"
  by (induction xs) auto

lemma stream_files_read:
  assumes bytes: "\<And>day. bytes_at d (day_file C (t, c, day)) = stream_lines C (t, c, day) ws"
    and days: "sorted days" "distinct days" "write_day ` set ws \<subseteq> set days"
    and clock: "sorted (map write_day ws)"
    and codec: "\<And>x. x \<in> set ws \<Longrightarrow> codec_ok (wc_json C) from_json (write_env x) \<and> e_v (write_env x) \<le> ENVELOPE_VERSION"
  shows "concat (map (\<lambda>f. read_envelopes from_json (snd f)) (stream_files C d t c days)) =
     map (\<lambda>x. Inr (write_env x)) (filter (\<lambda>x. write_stream x = (t, c)) ws)"
proof -
  let ?read = "\<lambda>day. read_envelopes from_json (map Inr (buf_lines (bytes_at d (day_file C (t, c, day)))))"
  let ?ws = "filter (\<lambda>x. write_stream x = (t, c)) ws"
  have read: "?read day = map (\<lambda>x. Inr (write_env x)) (filter (\<lambda>x. write_day x = day) ?ws)" for day
    using file_reads_back [OF bytes, where from_json = from_json] codec
    by (simp add: write_key_split conj_commute)
  have "concat (map (\<lambda>f. read_envelopes from_json (snd f)) (stream_files C d t c days)) =
      concat (map ?read (filter (\<lambda>day. d (day_file C (t, c, day)) \<noteq> None) days))"
    by (simp add: stream_files_def comp_def)
  also have "\<dots> = concat (map ?read days)"
    by (rule concat_filter_empty) (simp add: bytes_at_def buf_lines.simps read_envelopes_def)
  also have "\<dots> = map (\<lambda>x. Inr (write_env x)) (concat (map (\<lambda>day. filter (\<lambda>x. write_day x = day) ?ws) days))"
    unfolding read by (simp add: map_concat comp_def)
  also have "concat (map (\<lambda>day. filter (\<lambda>x. write_day x = day) ?ws) days) = ?ws"
    using days clock by (intro concat_by_day) (auto simp: sorted_map sorted_wrt_filter)
  finally show ?thesis .
qed

section \<open>The book messages of a ticker\<close>

text \<open>The snapshots and deltas the session emitted for a ticker, as they are stored.\<close>

definition is_book_msg :: "Envelope \<Rightarrow> bool" where
  "is_book_msg env = (case e_kind env of Snapshot _ \<Rightarrow> True | Delta _ \<Rightarrow> True | _ \<Rightarrow> False)"

fun book_msg_of :: "string \<Rightarrow> CaptureEvent \<Rightarrow> Envelope list" where
  "book_msg_of t e =
     (case event_action e of
        None \<Rightarrow> []
      | Some a \<Rightarrow> if wa_ticker a = t \<and> is_book_msg (wa_envelope a) then [wa_envelope a] else [])"

definition captured_msgs :: "string \<Rightarrow> CaptureEvent list \<Rightarrow> Envelope list" where
  "captured_msgs t es = concat (map (book_msg_of t) es)"

fun input_event :: "writer_input \<Rightarrow> CaptureEvent list" where
  "input_event (WEvent e _ _) = [e]"
| "input_event _ = []"

definition input_events :: "writer_input list \<Rightarrow> CaptureEvent list" where
  "input_events is = concat (map input_event is)"

text \<open>A verify write carries a REST book or a raw fallback.\<close>

fun verify_write_ok :: "writer_input \<Rightarrow> bool" where
  "verify_write_ok (WVerify vw _ _) \<longleftrightarrow> (\<exists>outcome now. (vw_ticker vw, vw_env vw) = verify_envelope outcome now)"
| "verify_write_ok (WDrain vw _) \<longleftrightarrow> (\<exists>outcome now. (vw_ticker vw, vw_env vw) = verify_envelope outcome now)"
| "verify_write_ok _ \<longleftrightarrow> True"

lemma verify_not_book: "(tk, env) = verify_envelope outcome now \<Longrightarrow> \<not> is_book_msg env \<and> e_v env \<le> ENVELOPE_VERSION"
  by (cases outcome) (simp_all add: is_book_msg_def Let_def)

lemma item_msgs_filter: "item_msgs (ch, Inr env) = (if is_book_msg env then [env] else [])"
  by (simp add: is_book_msg_def split: RecordKind.split)

lemma of_items_msgs:
  "of_items item_msgs (map (Pair ch) (map (\<lambda>x. Inr (write_env x)) ws)) = filter is_book_msg (map write_env ws)"
  by (induction ws) (simp_all add: item_msgs_filter del: item_msgs.simps)

lemma event_action_msg:
  assumes "event_action e = Some a" and "event_kind_ok e" and "is_book_msg (wa_envelope a)"
  shows "wa_channel a = ''orderbook''"
  using assms
  by (auto simp: event_action_def classify_def event_kind_ok_def is_book_msg_def Let_def
      split: FrameOutcome.splits RecordKind.splits)

lemma writes_of_stream:
  assumes "list_all event_kind_ok (input_events is)" and "list_all verify_write_ok is"
  shows "filter is_book_msg (map write_env (filter (\<lambda>x. write_stream x = (t, ''orderbook'')) (all_writes is))) =
       captured_msgs t (input_events is)"
    and "filter is_book_msg (map write_env (filter (\<lambda>x. write_stream x = (t, ''trade'')) (all_writes is))) = []"
  using assms
proof (induction "is")
  case Nil
  case 1 show ?case by (simp add: captured_msgs_def input_events_def)
  case 2 show ?case by simp
next
  case (Cons i "is")
  have "filter is_book_msg (map write_env (filter (\<lambda>x. write_stream x = (t, ''orderbook'')) (input_writes i))) =
       captured_msgs t (input_event i) \<and>
     filter is_book_msg (map write_env (filter (\<lambda>x. write_stream x = (t, ''trade'')) (input_writes i))) = []"
    if ok: "list_all event_kind_ok (input_event i)" "verify_write_ok i"
  proof (cases i)
    case (WEvent e io av)
    then show ?thesis
      using ok event_action_msg [of e] by (auto simp: captured_msgs_def split: option.split)
  qed (use ok verify_not_book in \<open>auto simp: captured_msgs_def\<close>)
  note step = this
  case 1
  then show ?case
    using Cons.IH(1) step by (simp add: input_events_def captured_msgs_def)
  case 2
  then show ?case
    using Cons.IH(2) step by (simp add: input_events_def)
qed

lemma write_version:
  assumes "list_all verify_write_ok is" and "x \<in> set (all_writes is)"
  shows "e_v (write_env x) \<le> ENVELOPE_VERSION"
proof (rule all_writes_version [OF assms(2)])
  show "\<forall>vw. (\<exists>io av. WVerify vw io av \<in> set is \<or> WDrain vw io \<in> set is) \<longrightarrow> e_v (vw_env vw) \<le> ENVELOPE_VERSION"
    using assms(1) verify_not_book by (fastforce simp: list_all_iff)
qed

section \<open>The whole path\<close>

lemma wire_to_tables:
  assumes sess: "reachable (session_step env) session_start s"
    and start: "writer_start C av d0 = Inr w0" "inj (sl_show_day (wc_store C))" "\<And>k. d0 (day_file C k) = None"
    and run: "run_inputs (writer_step C) is w0 = Some w" "cr_halt_error (w_report w) = None"
    and events: "input_events is = ss_sent s" "list_all verify_write_ok is"
    and days: "sorted days" "distinct days" "write_day ` set (all_writes is) \<subseteq> set days"
    and clock: "sorted (map write_day (all_writes is))"
    and codec: "\<And>x. x \<in> set (all_writes is) \<Longrightarrow> codec_ok (wc_json C) (ep_from_str P) (write_env x)"
  shows "of_items item_msgs (input_items P (stream_files C (w_disk w) t ''orderbook'' days)
       (stream_files C (w_disk w) t ''trade'' days)) = captured_msgs t (ss_sent s)"
proof -
  have kinds: "list_all event_kind_ok (input_events is)"
    using session_kinds.inv_reachable [OF sess] by (simp add: events kinds_ok_def)
  have bytes: "bytes_at (w_disk w) (day_file C k) = stream_lines C k (all_writes is)" for k
    using written_files [OF start(1,2) run] start(3) by (simp add: bytes_at_def)
  note rd = stream_files_read [OF bytes days clock conjI [OF codec write_version [OF events(2)]]]
  have "input_items P (stream_files C (w_disk w) t ''orderbook'' days) (stream_files C (w_disk w) t ''trade'' days) =
      map (Pair ''orderbook'') (map (\<lambda>x. Inr (write_env x)) (filter (\<lambda>x. write_stream x = (t, ''orderbook'')) (all_writes is))) @
      map (Pair ''trade'') (map (\<lambda>x. Inr (write_env x)) (filter (\<lambda>x. write_stream x = (t, ''trade'')) (all_writes is)))"
    unfolding input_items_def by (simp only: rd)
  then show ?thesis
    by (simp only: of_items_simps of_items_msgs writes_of_stream [OF kinds events(2)] append_Nil2) (simp add: events(1))
qed

end
