(* ===== verification/Python_Loader.thy ===== *)
theory Python_Loader
  imports Replay
begin

text \<open>
  The Python bindings over the loader, \<^verbatim>\<open>crates/kdp-load-py/src/lib.rs\<close>: the translation of events and
  errors, the loader object, the event stream, and \<^verbatim>\<open>book_at\<close>, the only operation of the bindings that is
  more than a translation. A Python dict is the list of its items in the order they are set.

  The lemmas show that \<^verbatim>\<open>book_at\<close> returns the book that replaying everything before the instant gives.
\<close>

section \<open>Values and errors\<close>

datatype py =
    PyNone
  | PyBool bool
  | PyInt int
  | PyStr string
  | PyLadder "(int \<times> int) list"
  | PyList "py list"
  | PyDict "(string \<times> py) list"

text \<open>\<open>LoaderError\<close> carries the error whose text is the message.\<close>

datatype py_error = IncompleteData string | LoaderError LoadError | RuntimeError string

fun to_py_err :: "LoadError \<Rightarrow> py_error" where
  "to_py_err (Incomplete reasons) = IncompleteData (''incomplete capture: '' @ join_with ''; '' reasons)"
| "to_py_err e = LoaderError e"

fun py_side :: "Side \<Rightarrow> string" where
  "py_side Yes = ''yes''"
| "py_side No = ''no''"

definition py_levels :: "Level list \<Rightarrow> py" where
  "py_levels ls = PyLadder (map (\<lambda>l. (uint (lv_price l), uint (lv_qty l))) ls)"

fun py_opt_str :: "string option \<Rightarrow> py" where
  "py_opt_str None = PyNone"
| "py_opt_str (Some s) = PyStr s"

fun py_book_side :: "BookSide \<Rightarrow> string" where
  "py_book_side Bid = ''bid''"
| "py_book_side Ask = ''ask''"

fun py_source :: "TradeSource \<Rightarrow> string" where
  "py_source Ws = ''ws''"
| "py_source RestBackfill = ''rest_backfill''"

fun ev_items :: "ReplayEvent \<Rightarrow> (string \<times> py) list" where
  "ev_items (SnapshotEv ts event_idx yes no synthetic) =
     [(''kind'', PyStr ''snapshot''), (''event_idx'', PyInt event_idx), (''yes'', py_levels yes), (''no'', py_levels no),
      (''synthetic'', PyBool synthetic)]"
| "ev_items (DeltaEv ts event_idx side price delta) =
     [(''kind'', PyStr ''delta''), (''event_idx'', PyInt event_idx), (''side'', PyStr (py_side side)),
      (''price_micro'', PyInt (uint price)), (''delta_centi'', PyInt delta)]"
| "ev_items (TradeEv ts price cnt taker_side taker_book_side trade_id source) =
     [(''kind'', PyStr ''trade''), (''price_micro'', PyInt (uint price)), (''count_centi'', PyInt (uint cnt)),
      (''taker_side'', PyStr (py_side taker_side)),
      (''taker_book_side'', py_opt_str (map_option py_book_side taker_book_side)),
      (''trade_id'', py_opt_str trade_id), (''source'', PyStr (py_source source))]"
| "ev_items (GapEv ts reason detail) =
     [(''kind'', PyStr ''gap''), (''reason'', PyStr reason), (''detail'', PyStr detail)]"

definition ev_to_py :: "ReplayEvent \<Rightarrow> py" where
  "ev_to_py ev = PyDict ((''ts_us'', PyInt (ev_ts ev)) # ev_items ev)"

section \<open>The loader and its streams\<close>

fun py_result :: "LoadError + 'a \<Rightarrow> py_error + 'a" where
  "py_result (Inl e) = Inl (to_py_err e)"
| "py_result (Inr x) = Inr x"

definition py_Loader_new ::
    "string \<Rightarrow> bool \<Rightarrow> string + string \<Rightarrow> (string \<Rightarrow> string + LoadManifest) \<Rightarrow> py_error + Loader" where
  "py_Loader_new dir acknowledge file parse =
     and_then (py_result (Loader_open dir file parse)) (\<lambda>inner.
       Inr (if acknowledge then allow_incomplete inner else inner))"

definition py_complete :: "Loader \<Rightarrow> bool" where
  "py_complete ld \<longleftrightarrow> ld_completeness ld = Complete"

definition py_reasons :: "Loader \<Rightarrow> string list" where
  "py_reasons ld = (case ld_completeness ld of Complete \<Rightarrow> [] | IncompleteBecause reasons \<Rightarrow> reasons)"

definition py_events :: "'b arrow \<Rightarrow> (string \<Rightarrow> LoadError + (string + 'b) list) \<Rightarrow> Loader \<Rightarrow> py_error + EventIter" where
  "py_events A tables ld = py_result (Loader_events A tables ld)"

definition py_between ::
    "'b arrow \<Rightarrow> (string \<Rightarrow> LoadError + (string + 'b) list) \<Rightarrow> i64 \<Rightarrow> i64 \<Rightarrow> Loader \<Rightarrow> py_error + RangeIter" where
  "py_between A tables t0 t1 ld = py_result (Loader_between A tables t0 t1 ld)"

text \<open>\<^verbatim>\<open>__next__\<close> of a stream over an iterator with the step \<open>advance\<close>.\<close>

definition py_next :: "('i \<Rightarrow> (LoadError + ReplayEvent) option \<times> 'i) \<Rightarrow> 'i \<Rightarrow> (py_error + py option) \<times> 'i" where
  "py_next advance it =
     (let (x, it') = advance it in
      (case x of
         None \<Rightarrow> Inr None
       | Some (Inl e) \<Rightarrow> Inl (to_py_err e)
       | Some (Inr ev) \<Rightarrow> Inr (Some (ev_to_py ev)), it'))"

section \<open>The book at an instant\<close>

definition no_opener :: py_error where
  "no_opener = RuntimeError ''range replay ended before the synthetic opener (empty directory?)''"

lemma range_next_Nil: "range_items it = [] \<Longrightarrow> fst (RangeIter_next it) = None"
  by (rule ranged.at_end) simp

lemma range_next_Cons:
  "range_items it = x # xs \<Longrightarrow> \<exists>it'. RangeIter_next it = (Some x, it') \<and> range_items it' = xs"
  using ranged.at_item [of it x xs] by (cases "RangeIter_next it") simp

lemma range_next_shrinks:
  assumes "RangeIter_next it = (Some x, it')"
  shows "length (range_items it') < length (range_items it)"
proof (cases "range_items it")
  case Nil
  then show ?thesis using range_next_Nil [OF Nil] assms by simp
next
  case (Cons y ys)
  then show ?thesis using range_next_Cons [OF Cons] assms by auto
qed

function book_at_loop :: "i64 \<Rightarrow> RangeIter \<Rightarrow> py list \<Rightarrow> py_error + py" where
  "book_at_loop t_us it gaps =
     (case RangeIter_next it of
        (None, _) \<Rightarrow> Inl no_opener
      | (Some (Inl e), _) \<Rightarrow> Inl (to_py_err e)
      | (Some (Inr ev), it') \<Rightarrow>
          (case ev of
             GapEv ts reason detail \<Rightarrow> book_at_loop t_us it' (gaps @ [ev_to_py ev])
           | SnapshotEv ts event_idx yes no True \<Rightarrow>
               Inr (PyDict [(''ts_us'', PyInt t_us), (''yes'', py_levels yes), (''no'', py_levels no),
                            (''suspect_gaps'', PyList gaps)])
           | _ \<Rightarrow> Inl no_opener))"
  by pat_completeness auto
termination
  by (relation "measure (\<lambda>(t_us, it, gaps). length (range_items it))")
    (auto dest!: range_next_shrinks [OF sym])

declare book_at_loop.simps [simp del]

definition book_at ::
    "'b arrow \<Rightarrow> (string \<Rightarrow> LoadError + (string + 'b) list) \<Rightarrow> i64 \<Rightarrow> Loader \<Rightarrow> py_error + py" where
  "book_at A tables t_us ld =
     and_then (py_result (Loader_between A tables t_us (i64_add t_us 1) ld)) (\<lambda>it. book_at_loop t_us it [])"

section \<open>The opener is always found\<close>

definition is_gap :: "ReplayEvent \<Rightarrow> bool" where
  "is_gap ev \<longleftrightarrow> (\<exists>ts reason detail. ev = GapEv ts reason detail)"

lemma pending_gaps: "list_all is_gap (rp_pending_gaps r) \<Longrightarrow> list_all is_gap (rp_pending_gaps (fold replayer_apply evs r))"
proof (induction evs arbitrary: r)
  case (Cons ev evs)
  then show ?case by (cases ev) (simp_all add: is_gap_def)
qed simp

lemma book_at_loop_opener:
  assumes "list_all is_gap lead"
    and "range_items it = map Inr (lead @ [SnapshotEv ts k yes no True]) @ rest"
  shows "book_at_loop t it gaps =
     Inr (PyDict [(''ts_us'', PyInt t), (''yes'', py_levels yes), (''no'', py_levels no),
                  (''suspect_gaps'', PyList (gaps @ map ev_to_py lead))])"
  using assms
proof (induction lead arbitrary: it gaps)
  case Nil
  then obtain it' where "RangeIter_next it = (Some (Inr (SnapshotEv ts k yes no True)), it')"
    using range_next_Cons [of it] by fastforce
  then show ?case by (subst book_at_loop.simps) simp
next
  case (Cons g lead)
  then obtain it' where it': "RangeIter_next it = (Some (Inr g), it')"
      "range_items it' = map Inr (lead @ [SnapshotEv ts k yes no True]) @ rest"
    using range_next_Cons [of it] by fastforce
  obtain a b c where "g = GapEv a b c" using Cons.prems(1) by (auto simp: is_gap_def)
  with it'(1) Cons.IH [OF _ it'(2)] Cons.prems(1) show ?case
    by (subst book_at_loop.simps) simp
qed

lemma EventIter_open_sources: "EventIter_open A tables = Inr it \<Longrightarrow> \<exists>gaps book trades. from_sources gaps book trades = Inr it"
  by (auto simp: EventIter_open_def and_then_Inr_iff)

lemma between_refused: "gate ld = Inl e \<Longrightarrow> t0 < t1 \<Longrightarrow> Loader_between A tables t0 t1 ld = Inl e"
  by (simp add: Loader_between_def)

section \<open>Properties\<close>

text \<open>
  C29. \<^verbatim>\<open>book_at\<close> is right for every instant below the largest one: on an accepted directory whose stream has no
  error it returns the positive levels of the book that replaying all events before the instant gives, with the
  gaps pending there as suspect, also when the directory holds no event at all: the error it keeps for a missing
  opener is never raised. At the largest instant the upper end of the range wraps around, and the call is
  refused as an invalid range. An incomplete directory that was not acknowledged raises \<^verbatim>\<open>IncompleteData\<close>.
\<close>

theorem book_at_exact:
  assumes "EventIter_open A tables = Inr it" and "no_errors (event_items it)"
    and "gate ld = Inr ()" and "i64_range t"
  shows "(t < 2 ^ 63 - 1 \<longrightarrow>
      (let r = fold replayer_apply (filter (\<lambda>ev. ev_ts ev < t) (rights (event_items it))) BookReplayer_default in
       book_at A tables t ld =
         Inr (PyDict [(''ts_us'', PyInt t),
           (''yes'', py_levels (synthetic_side (b_yes (rp_book r)))),
           (''no'', py_levels (synthetic_side (b_no (rp_book r)))),
           (''suspect_gaps'', PyList (map ev_to_py (rp_pending_gaps r)))]))) \<and>
    (t = 2 ^ 63 - 1 \<longrightarrow> book_at A tables t ld = Inl (LoaderError (InvalidRange t (- (2 ^ 63))))) \<and>
    (\<forall>reasons. book_at A tables t (ld\<lparr>ld_completeness := IncompleteBecause reasons, ld_acknowledged := False\<rparr>) =
       (if t < 2 ^ 63 - 1 then Inl (IncompleteData (''incomplete capture: '' @ join_with ''; '' reasons))
        else Inl (LoaderError (InvalidRange t (- (2 ^ 63))))))"
proof -
  have last: "i64_add t 1 = - (2 ^ 63)" if "\<not> t < 2 ^ 63 - 1"
  proof -
    have "t = 2 ^ 63 - 1" using that assms(4) by (simp add: i64_range_def)
    then show ?thesis by (simp add: i64_add_def i64_wrap_def)
  qed
  have step: "i64_add t 1 = t + 1" if "t < 2 ^ 63 - 1"
    using that assms(4) by (intro i64_add_exact) (simp add: i64_range_def)
  have wrapped: "book_at A tables t l = Inl (LoaderError (InvalidRange t (- (2 ^ 63))))" if "\<not> t < 2 ^ 63 - 1" for l
    using last [OF that] assms(4) by (simp add: book_at_def Loader_between_def i64_range_def)
  have refused: "book_at A tables t (ld\<lparr>ld_completeness := IncompleteBecause reasons, ld_acknowledged := False\<rparr>) =
      Inl (IncompleteData (''incomplete capture: '' @ join_with ''; '' reasons))" if "t < 2 ^ 63 - 1" for reasons
  proof -
    have "gate (ld\<lparr>ld_completeness := IncompleteBecause reasons, ld_acknowledged := False\<rparr>) = Inl (Incomplete reasons)"
      by (simp add: gate_def)
    then show ?thesis using step [OF that] by (simp add: book_at_def between_refused)
  qed
  have found: "book_at A tables t ld =
         Inr (PyDict [(''ts_us'', PyInt t),
           (''yes'', py_levels (synthetic_side (b_yes (rp_book r)))),
           (''no'', py_levels (synthetic_side (b_no (rp_book r)))),
           (''suspect_gaps'', PyList (map ev_to_py (rp_pending_gaps r)))])"
    if "t < 2 ^ 63 - 1"
      and r: "r = fold replayer_apply (filter (\<lambda>ev. ev_ts ev < t) (rights (event_items it))) BookReplayer_default" for r
  proof -
    have srt: "sorted (map ev_ts (rights (event_items it)))"
      using EventIter_open_sources [OF assms(1)] opened_sorted by blast
    obtain rg where rg: "RangeIter_build it t (t + 1) = Inr rg"
      "range_items rg = map Inr (rp_pending_gaps r @ [synthetic_snapshot t r] @
          filter (\<lambda>ev. t \<le> ev_ts ev \<and> ev_ts ev < t + 1) (rights (event_items it)))"
      using range_events [OF assms(2) srt, of t "t + 1"] by (auto simp: Let_def r)
    have gaps: "list_all is_gap (rp_pending_gaps r)"
      unfolding r by (rule pending_gaps) (simp add: BookReplayer_default_def)
    have "Loader_between A tables t (t + 1) ld = Inr rg"
      using assms(1,3) rg(1) by (simp add: Loader_between_def)
    then show ?thesis
      using step [OF that(1)] book_at_loop_opener [OF gaps, of rg t "- 1"] rg(2)
      by (simp add: book_at_def synthetic_snapshot_def)
  qed
  show ?thesis
    using found refused wrapped by (auto simp: Let_def)
qed

definition ex_open_dir :: Loader where
  "ex_open_dir = \<lparr>ld_dir = [], ld_completeness = Complete, ld_acknowledged = False\<rparr>"

theorem book_at_exact_witness:
  "book_at plain_arrow (\<lambda>_. Inr []) 5 ex_open_dir =
     Inr (PyDict [(''ts_us'', PyInt 5), (''yes'', PyLadder []), (''no'', PyLadder []), (''suspect_gaps'', PyList [])])"
proof -
  have rows: "row_items plain_arrow (RowIter_open name decode []) = []" for name decode
    by (simp add: row_items_def RowIter_open_def)
  obtain it where it: "EventIter_open plain_arrow (\<lambda>_. Inr []) = Inr it" "from_sources [] [] [] = Inr it"
    by (auto simp: EventIter_open_def open_table_def rows from_sources_def)
  have items: "event_items it = []"
    using it(2)
    by (auto simp: from_sources_def dedup_trades_def event_items.simps EventIter_next_def fill_lanes_def fill_gap_eq
        fill_trade_eq fill_book_eq lane_order_def Lane_empty_def)
  have "gate ex_open_dir = Inr ()" by (simp add: gate_def ex_open_dir_def)
  from book_at_exact [OF it(1) _ this, of 5] items show ?thesis
    by (simp add: i64_range_def BookReplayer_default_def Book_default_def synthetic_side_def py_levels_def)
qed

end
