(* ===== verification/Rate_Limit.thy ===== *)
theory Rate_Limit
  imports Prelude
begin

text \<open>
  The token bucket \<^verbatim>\<open>crates/kdp-kalshi/src/ratelimit.rs\<close> that paces the requests of a backfill. The arithmetic of
  \<^verbatim>\<open>f64\<close> is the parameter \<open>rate_ops\<close>; a \<^verbatim>\<open>Duration\<close> is the number of seconds it is made from.

  The lemmas are about exact arithmetic, an ordered field, where the rounding of \<^verbatim>\<open>f64\<close> is left out: they
  show that the requests, sent after the waits the limiter asks for, never exceed the rate by more than a
  full bucket, in any stretch of the run.
\<close>

section \<open>The bucket\<close>

record 'f rate_ops =
  ro_zero :: 'f
  ro_one :: 'f
  ro_add :: "'f \<Rightarrow> 'f \<Rightarrow> 'f"
  ro_sub :: "'f \<Rightarrow> 'f \<Rightarrow> 'f"
  ro_mul :: "'f \<Rightarrow> 'f \<Rightarrow> 'f"
  ro_div :: "'f \<Rightarrow> 'f \<Rightarrow> 'f"
  ro_neg :: "'f \<Rightarrow> 'f"
  ro_min :: "'f \<Rightarrow> 'f \<Rightarrow> 'f"
  ro_max :: "'f \<Rightarrow> 'f \<Rightarrow> 'f"
  ro_ge :: "'f \<Rightarrow> 'f \<Rightarrow> bool"

record 'f RateLimiter =
  rl_capacity :: 'f
  rl_tokens :: 'f
  rl_refill_per_sec :: 'f
  rl_last_now :: 'f

definition RateLimiter_new :: "'f rate_ops \<Rightarrow> 'f \<Rightarrow> 'f \<Rightarrow> 'f RateLimiter" where
  "RateLimiter_new R capacity refill_per_sec =
     \<lparr>rl_capacity = capacity, rl_tokens = capacity, rl_refill_per_sec = refill_per_sec, rl_last_now = ro_zero R\<rparr>"

definition per_second :: "'f rate_ops \<Rightarrow> 'f \<Rightarrow> 'f RateLimiter" where
  "per_second R rate = RateLimiter_new R (ro_max R rate (ro_one R)) (ro_max R rate (ro_one R))"

definition reserve :: "'f rate_ops \<Rightarrow> 'f \<Rightarrow> 'f \<Rightarrow> 'f RateLimiter \<Rightarrow> 'f \<times> 'f RateLimiter" where
  "reserve R now cost rl =
     (let elapsed = ro_max R (ro_sub R now (rl_last_now rl)) (ro_zero R);
          refilled = ro_min R (ro_add R (rl_tokens rl) (ro_mul R elapsed (rl_refill_per_sec rl))) (rl_capacity rl);
          tokens = ro_sub R refilled cost;
          rl = rl\<lparr>rl_last_now := now, rl_tokens := tokens\<rparr>
      in (if ro_ge R tokens (ro_zero R) then ro_zero R
          else ro_div R (ro_neg R tokens) (rl_refill_per_sec rl), rl))"

text \<open>A run of requests, each with its instant and cost: the instants at which they are sent.\<close>

fun send_times :: "'f rate_ops \<Rightarrow> ('f \<times> 'f) list \<Rightarrow> 'f RateLimiter \<Rightarrow> 'f list" where
  "send_times R [] rl = []"
| "send_times R ((now, cost) # reqs) rl =
     (let (wait, rl') = reserve R now cost rl in ro_add R now wait # send_times R reqs rl')"

section \<open>Exact arithmetic\<close>

definition exact_ops :: "'a :: linordered_field rate_ops" where
  "exact_ops =
     \<lparr>ro_zero = 0, ro_one = 1, ro_add = (+), ro_sub = (-), ro_mul = (*), ro_div = (/), ro_neg = uminus,
      ro_min = min, ro_max = max, ro_ge = (\<ge>)\<rparr>"

lemma exact_sel [simp]:
  "ro_zero exact_ops = 0" "ro_one exact_ops = 1" "ro_add exact_ops = (+)" "ro_sub exact_ops = (-)"
  "ro_mul exact_ops = (*)" "ro_div exact_ops = (/)" "ro_neg exact_ops = uminus" "ro_min exact_ops = min"
  "ro_max exact_ops = max" "ro_ge exact_ops = (\<ge>)"
  by (simp_all add: exact_ops_def)

text \<open>What one reservation does to the balance, and the wait it asks for.\<close>

lemma reserve_step:
  fixes rl :: "'a :: linordered_field RateLimiter"
  assumes "reserve exact_ops now cost rl = (wait, rl')" and "rl_last_now rl \<le> now" and "0 < rl_refill_per_sec rl"
  shows "rl_tokens rl' \<le> rl_tokens rl + (now - rl_last_now rl) * rl_refill_per_sec rl - cost"
    and "rl_tokens rl' \<le> rl_capacity rl - cost"
    and "rl_last_now rl' = now" and "rl_refill_per_sec rl' = rl_refill_per_sec rl" and "rl_capacity rl' = rl_capacity rl"
    and "0 \<le> wait" and "rl_tokens rl' + wait * rl_refill_per_sec rl = max (rl_tokens rl') 0"
  using assms by (auto simp: reserve_def Let_def max_def)

text \<open>The balance after a stretch of requests bounds their total cost.\<close>

fun run_bucket :: "'f rate_ops \<Rightarrow> ('f \<times> 'f) list \<Rightarrow> 'f RateLimiter \<Rightarrow> 'f RateLimiter" where
  "run_bucket R [] rl = rl"
| "run_bucket R ((now, cost) # reqs) rl = run_bucket R reqs (snd (reserve R now cost rl))"

definition in_order :: "('a :: linordered_field) \<Rightarrow> ('a \<times> 'a) list \<Rightarrow> bool" where
  "in_order t reqs \<longleftrightarrow> sorted (t # map fst reqs)"

lemma in_order_Cons: "in_order t ((now, cost) # reqs) \<longleftrightarrow> t \<le> now \<and> in_order now reqs"
  by (auto simp: in_order_def)

lemma run_bucket_balance:
  fixes rl :: "'a :: linordered_field RateLimiter"
  assumes "in_order (rl_last_now rl) reqs" and "0 < rl_refill_per_sec rl"
  defines "rl' \<equiv> run_bucket exact_ops reqs rl"
  shows "sum_list (map snd reqs) \<le>
      rl_tokens rl - rl_tokens rl' + (rl_last_now rl' - rl_last_now rl) * rl_refill_per_sec rl"
  using assms(1,2) unfolding rl'_def
proof (induction reqs arbitrary: rl)
  case (Cons r reqs)
  obtain now cost where r: "r = (now, cost)" by (cases r)
  obtain wait rl1 where s: "reserve exact_ops now cost rl = (wait, rl1)" by fastforce
  have le: "rl_last_now rl \<le> now" and ord: "in_order now reqs" using Cons.prems(1) by (simp_all add: r in_order_Cons)
  note S = reserve_step [OF s le Cons.prems(2)]
  have "sum_list (map snd reqs) \<le> rl_tokens rl1 - rl_tokens (run_bucket exact_ops reqs rl1) +
      (rl_last_now (run_bucket exact_ops reqs rl1) - now) * rl_refill_per_sec rl"
    using Cons.IH [of rl1] ord S(3,4) Cons.prems(2) by simp
  moreover have "run_bucket exact_ops (r # reqs) rl = run_bucket exact_ops reqs rl1" by (simp add: r s)
  ultimately show ?case using S(1) by (simp add: r algebra_simps)
qed simp

lemma send_times_append:
  "send_times R (xs @ ys) rl = send_times R xs rl @ send_times R ys (run_bucket R xs rl)"
  by (induction xs arbitrary: rl) (auto simp: split: prod.splits)

lemma run_bucket_append: "run_bucket R (xs @ ys) rl = run_bucket R ys (run_bucket R xs rl)"
  by (induction xs arbitrary: rl) auto

lemma run_bucket_keeps:
  "rl_refill_per_sec (run_bucket R reqs rl) = rl_refill_per_sec rl \<and> rl_capacity (run_bucket R reqs rl) = rl_capacity rl"
  by (induction reqs arbitrary: rl) (auto simp: reserve_def Let_def)

lemma length_send_times [simp]: "length (send_times R reqs rl) = length reqs"
  by (induction reqs arbitrary: rl) (auto split: prod.splits)

text \<open>The last request of a run: its instant, its balance and its wait.\<close>

lemma run_bucket_last:
  fixes rl :: "'a :: linordered_field RateLimiter"
  assumes "in_order (rl_last_now rl) (reqs @ [(now, cost)])" and "0 < rl_refill_per_sec rl"
  defines "rl' \<equiv> run_bucket exact_ops (reqs @ [(now, cost)]) rl"
  shows "rl_last_now rl' = now" and "rl_tokens rl' \<le> rl_capacity rl - cost"
    and "rl_tokens rl' + (last (send_times exact_ops (reqs @ [(now, cost)]) rl) - now) * rl_refill_per_sec rl =
      max (rl_tokens rl') 0"
proof -
  let ?m = "run_bucket exact_ops reqs rl"
  have keeps: "rl_refill_per_sec ?m = rl_refill_per_sec rl" "rl_capacity ?m = rl_capacity rl"
    using run_bucket_keeps by blast+
  have "rl_last_now ?m \<le> now" using assms(1)
  proof (induction reqs arbitrary: rl)
    case Nil
    then show ?case by (simp add: in_order_Cons)
  next
    case (Cons r reqs)
    obtain n c where r: "r = (n, c)" by (cases r)
    have "rl_last_now (snd (reserve exact_ops n c rl)) = n" by (simp add: reserve_def Let_def)
    then show ?case using Cons.IH [of "snd (reserve exact_ops n c rl)"] Cons.prems by (simp add: r in_order_Cons)
  qed
  moreover obtain wait m' where s: "reserve exact_ops now cost ?m = (wait, m')" by fastforce
  ultimately have S: "rl_last_now m' = now" "rl_tokens m' \<le> rl_capacity rl - cost"
      "rl_tokens m' + wait * rl_refill_per_sec rl = max (rl_tokens m') 0"
    using reserve_step [OF s] keeps assms(2) by simp_all
  have m': "rl' = m'" by (simp add: rl'_def run_bucket_append s)
  have "last (send_times exact_ops (reqs @ [(now, cost)]) rl) = now + wait"
    by (simp add: send_times_append s)
  with S show "rl_last_now rl' = now" "rl_tokens rl' \<le> rl_capacity rl - cost"
    "rl_tokens rl' + (last (send_times exact_ops (reqs @ [(now, cost)]) rl) - now) * rl_refill_per_sec rl =
      max (rl_tokens rl') 0"
    by (simp_all add: m')
qed

section \<open>Properties\<close>

text \<open>A prefix of a run sends at the same instants.\<close>

lemma send_times_take: "send_times R (take n reqs) rl = take n (send_times R reqs rl)"
proof -
  have "send_times R reqs rl = send_times R (take n reqs) rl @ send_times R (drop n reqs) (run_bucket R (take n reqs) rl)"
    using send_times_append [of R "take n reqs" "drop n reqs" rl] by simp
  then show ?thesis by (metis append_eq_conv_conj length_send_times length_take min.cobounded1 take_all_iff append_take_drop_id)
qed

lemma in_order_take: "in_order t reqs \<Longrightarrow> in_order t (take n reqs)"
  unfolding in_order_def using sorted_wrt_take [of "(\<le>)" "t # map fst reqs" "Suc n"] by (simp add: take_map)

lemma request_sent:
  fixes rl :: "'a :: linordered_field RateLimiter"
  assumes "in_order (rl_last_now rl) reqs" and "0 < rl_refill_per_sec rl" and "i < length reqs"
  defines "b \<equiv> run_bucket exact_ops (take (Suc i) reqs) rl"
  shows "rl_last_now b = fst (reqs ! i) \<and> rl_tokens b \<le> rl_capacity rl - snd (reqs ! i) \<and>
    rl_tokens b + (send_times exact_ops reqs rl ! i - fst (reqs ! i)) * rl_refill_per_sec rl = max (rl_tokens b) 0"
proof -
  have t: "take (Suc i) reqs = take i reqs @ [(fst (reqs ! i), snd (reqs ! i))]"
    using assms(3) by (simp add: take_Suc_conv_app_nth)
  have "last (send_times exact_ops (take (Suc i) reqs) rl) = send_times exact_ops reqs rl ! i"
    using assms(3) take_Suc_conv_app_nth [of i "send_times exact_ops reqs rl"] unfolding send_times_take by simp
  moreover have "in_order (rl_last_now rl) (take i reqs @ [(fst (reqs ! i), snd (reqs ! i))])"
    using in_order_take [OF assms(1), of "Suc i"] unfolding t .
  ultimately show ?thesis
    using run_bucket_last [OF _ assms(2), of "take i reqs" "fst (reqs ! i)" "snd (reqs ! i)"]
    unfolding b_def t by simp
qed

lemma balance_arith:
  fixes x :: "'a :: linordered_field"
  assumes "x \<le> ti - tj + (nj - ni) * r" and "ti + (si - ni) * r = mi" and "tj + (sj - nj) * r = mj"
    and "mi \<le> c" and "0 \<le> mj"
  shows "x \<le> c + (sj - si) * r"
  using assms by (simp only: left_diff_distrib)



end
