(* ===== verification/Table_Types.thy ===== *)
theory Table_Types
  imports Process
begin

text \<open>
  The types of the files the conversion writes. \<open>table_schemas\<close> gives, for each of the six tables of
  \<^verbatim>\<open>crates/kdp-process/src/tables.rs\<close>, its columns in order with their type and whether they may be null. A table
  is typed when it has exactly these columns, all of one length, no null where none may be, every integer cell
  within 64 bits and every floating-point cell a quotient of two such integers by a divisor that is not zero.

  The model keeps an \<^verbatim>\<open>i64\<close> as an integer, so the range of the cells is a fact to prove: it holds because the counters
  and the totals wrap, the sizes that are loaded are checked, and there are fewer prices than levels could overflow.
\<close>

section \<open>Schemas\<close>

datatype cell_type = TInt64 | TBoolean | TFloat64 | TUtf8

type_synonym table_schema = "(string \<times> cell_type \<times> bool) list"

definition table_schemas :: "(string \<times> table_schema) list" where
  "table_schemas =
     [(''book_events'',
        [(''event_idx'', TInt64, False), (''recv_ts_us'', TInt64, False), (''event_ts_us'', TInt64, False),
         (''seq'', TInt64, True), (''sid'', TInt64, True), (''is_snapshot'', TBoolean, False), (''side'', TUtf8, True),
         (''price_micro'', TInt64, True), (''qty_centi'', TInt64, True)]),
      (''book_top'',
        [(''event_idx'', TInt64, False), (''recv_ts_us'', TInt64, False), (''event_ts_us'', TInt64, False),
         (''seq'', TInt64, True), (''event'', TUtf8, False), (''yes_bid_micro'', TInt64, True),
         (''yes_bid_sz_centi'', TInt64, False), (''yes_ask_micro'', TInt64, True), (''yes_ask_sz_centi'', TInt64, False),
         (''mid_micro'', TInt64, True), (''spread_micro'', TInt64, True), (''yes_total_centi'', TInt64, False),
         (''no_total_centi'', TInt64, False), (''yes_levels'', TInt64, False), (''no_levels'', TInt64, False),
         (''imbalance'', TFloat64, True), (''yes_bid'', TFloat64, True), (''yes_ask'', TFloat64, True),
         (''mid'', TFloat64, True)]),
      (''trades'',
        [(''recv_ts_us'', TInt64, False), (''event_ts_us'', TInt64, False), (''seq'', TInt64, True),
         (''price_micro'', TInt64, False), (''count_centi'', TInt64, False), (''yes_price'', TFloat64, False),
         (''count'', TFloat64, False), (''taker_side'', TUtf8, False), (''taker_book_side'', TUtf8, True),
         (''trade_id'', TUtf8, True)]),
      (''gaps'',
        [(''recv_ts_us'', TInt64, False), (''seq'', TInt64, True), (''reason'', TUtf8, False), (''channel'', TUtf8, False),
         (''last_seq'', TInt64, True), (''observed_seq'', TInt64, True), (''detail'', TUtf8, False)]),
      (''raw'',
        [(''recv_ts_us'', TInt64, False), (''seq'', TInt64, True), (''channel'', TUtf8, False), (''raw_type'', TUtf8, True),
         (''ticker'', TUtf8, True), (''error'', TUtf8, False), (''payload_json'', TUtf8, False)]),
      (''verify'',
        [(''recv_ts_us'', TInt64, False), (''outcome'', TUtf8, False), (''match_lag_us'', TInt64, True),
         (''yes_levels_json'', TUtf8, False), (''no_levels_json'', TUtf8, False), (''detail'', TUtf8, False)])]"

fun array_type :: "ArrayRef \<Rightarrow> cell_type" where
  "array_type (Int64Array _) = TInt64"
| "array_type (BooleanArray _) = TBoolean"
| "array_type (Float64Array _) = TFloat64"
| "array_type (StringArray _) = TUtf8"

fun quotient_ok :: "f64 \<Rightarrow> bool" where
  "quotient_ok (FDiv a b) \<longleftrightarrow> i64_range a \<and> i64_range b \<and> b \<noteq> 0"

fun cells_ok :: "ArrayRef \<Rightarrow> bool" where
  "cells_ok (Int64Array v) \<longleftrightarrow> list_all (pred_option i64_range) v"
| "cells_ok (Float64Array v) \<longleftrightarrow> list_all (pred_option quotient_ok) v"
| "cells_ok _ \<longleftrightarrow> True"

definition columns_ok :: "columns \<Rightarrow> bool" where
  "columns_ok cols \<longleftrightarrow> list_all (\<lambda>(name, a, nullable). cells_ok a) cols"

definition table_typed :: "table_schema \<Rightarrow> nat \<Rightarrow> columns \<Rightarrow> bool" where
  "table_typed schema n cols \<longleftrightarrow>
     map (\<lambda>(name, a, nullable). (name, array_type a, nullable)) cols = schema \<and>
     list_all (\<lambda>(name, a, nullable). col_len a = n \<and> (nullable \<or> no_nulls a) \<and> cells_ok a) cols"

lemma table_typedI:
  "batch_wf n cols \<Longrightarrow> columns_ok cols \<Longrightarrow>
     map (\<lambda>(name, a, nullable). (name, array_type a, nullable)) cols = schema \<Longrightarrow> table_typed schema n cols"
  by (auto simp: table_typed_def batch_wf_def columns_ok_def list_all_iff)

lemma array_type_cols [simp]:
  "array_type (i64_col v) = TInt64" "array_type (opt_i64_col w) = TInt64" "array_type (bool_col b) = TBoolean"
  "array_type (f64_col f) = TFloat64" "array_type (opt_f64_col g) = TFloat64" "array_type (str_col s) = TUtf8"
  "array_type (opt_str_col u) = TUtf8"
  by (simp_all add: col_defs)

lemma cells_ok_cols [simp]:
  "cells_ok (i64_col v) \<longleftrightarrow> list_all i64_range v" "cells_ok (opt_i64_col w) \<longleftrightarrow> list_all (pred_option i64_range) w"
  "cells_ok (bool_col b)" "cells_ok (f64_col f) \<longleftrightarrow> list_all quotient_ok f"
  "cells_ok (opt_f64_col g) \<longleftrightarrow> list_all (pred_option quotient_ok) g" "cells_ok (str_col s)" "cells_ok (opt_str_col u)"
  by (auto simp: col_defs list_all_iff)

section \<open>Cells in range\<close>

lemma i64_range_u32 [simp]: "i64_range (uint (p :: u32))"
  using uint_lt2p [of p] by (simp add: i64_range_def order_trans [of _ 0])

lemma i64_range_seq [simp]: "pred_option i64_range (seq_i64 q)"
  by (cases q) (simp_all add: seq_i64_def)

lemma i64_range_qty: "uint (q :: u64) < 2 ^ 63 \<Longrightarrow> i64_range (uint q)"
  by (simp add: i64_range_def order_trans [of _ 0])

lemma dollars_ok [simp]: "pred_option quotient_ok (micro_to_dollars m)"
  by (cases m) (simp_all add: micro_to_dollars_def MICRO_PER_DOLLAR_def i64_range_def [of 1000000])

text \<open>The machine types of the records read: times in 64-bit microseconds, 64-bit ids and changes.\<close>

definition env_typed :: "Envelope \<Rightarrow> bool" where
  "env_typed env \<longleftrightarrow> i64_range (timestamp_micros (e_recv_ts env)) \<and> pred_option i64_range (e_sid env) \<and>
     (case e_kind env of
        Snapshot s \<Rightarrow> i64_range (timestamp_micros (os_ts s))
      | Delta d \<Rightarrow> i64_range (timestamp_micros (od_ts d)) \<and> i64_range (od_delta d)
      | TradeRec t \<Rightarrow> i64_range (timestamp_micros (t_ts t))
      | _ \<Rightarrow> True)"

fun item_typed :: "item \<Rightarrow> bool" where
  "item_typed (ch, Inl e) \<longleftrightarrow> True"
| "item_typed (ch, Inr env) \<longleftrightarrow> env_typed env"

section \<open>The mutation log\<close>

definition brow_typed :: "brow \<Rightarrow> bool" where
  "brow_typed r \<longleftrightarrow> i64_range (br_event_idx r) \<and> i64_range (br_recv r) \<and> i64_range (br_evt r) \<and>
     pred_option i64_range (br_seq r) \<and> pred_option i64_range (br_sid r) \<and>
     pred_option i64_range (br_price r) \<and> pred_option i64_range (br_qty r)"

lemma be_columns_ok: "list_all brow_typed rs \<Longrightarrow> columns_ok (be_columns (be_of_rows rs))"
  by (simp add: columns_ok_def be_columns_def be_of_rows_def list_all_iff brow_typed_def)

definition msg_typed :: "Envelope \<Rightarrow> bool" where
  "msg_typed env \<longleftrightarrow> env_typed env \<and>
     (case e_kind env of Snapshot s \<Rightarrow> list_all qty_fits (os_yes s @ os_no s) | _ \<Rightarrow> True)"

lemma level_row_ok:
  "msg_typed env \<Longrightarrow> e_kind env = Snapshot s \<Longrightarrow> qty_fits l \<Longrightarrow> i64_range i \<Longrightarrow> brow_typed (level_row i env s side l)"
  by (simp add: brow_typed_def level_row_def msg_typed_def env_typed_def qty_fits_def ts_us_def i64_range_qty)

lemma msg_rows_typed: "msg_typed env \<Longrightarrow> i64_range i \<Longrightarrow> list_all brow_typed (msg_rows i env)"
proof (cases "e_kind env")
  case (Snapshot s)
  assume ok: "msg_typed env" "i64_range i"
  have "brow_typed (boundary_row i env s)"
    using ok Snapshot by (simp add: brow_typed_def boundary_row_def msg_typed_def env_typed_def ts_us_def)
  moreover have "list_all qty_fits (os_yes s @ os_no s)" using ok(1) Snapshot by (simp add: msg_typed_def)
  ultimately show ?thesis
    using level_row_ok [OF ok(1) Snapshot _ ok(2)] Snapshot by (auto simp: msg_rows_def snapshot_rows_def list_all_iff)
qed (auto simp: msg_rows_def brow_typed_def delta_row_def msg_typed_def env_typed_def ts_us_def)

lemma log_rows_typed: "list_all msg_typed envs \<Longrightarrow> list_all brow_typed (log_rows k envs)"
  by (induction envs arbitrary: k) (simp_all add: msg_rows_typed)

section \<open>The top of the book\<close>

definition top_ok :: "Top \<Rightarrow> bool" where
  "top_ok t \<longleftrightarrow> i64_range (top_yes_bid_sz_centi t) \<and> i64_range (top_yes_ask_sz_centi t) \<and>
     i64_range (top_yes_levels t) \<and> i64_range (top_no_levels t) \<and>
     i64_range (top_yes_total_centi t) \<and> i64_range (top_no_total_centi t)"

lemma om_length_range: "om_wf (m :: levels) \<Longrightarrow> i64_range (int (length m))"
proof -
  assume wf: "om_wf m"
  have "length m = card (fst ` set m)"
    using om_wf_distinct [OF wf] distinct_card [of "map fst m"] by simp
  also have "\<dots> \<le> CARD(u32)" by (rule card_mono) simp_all
  finally show ?thesis by (simp add: card_word i64_range_def)
qed

lemma om_last_range: "side_inv m t \<Longrightarrow> i64_range (case om_last m of Some (_, q) \<Rightarrow> q | None \<Rightarrow> 0)"
  by (cases m rule: rev_cases) (auto simp: side_inv_def om_last_def)

lemma Book_top_ok: "book_inv b \<Longrightarrow> top_ok (Book_top b)"
  using om_last_range om_length_range
  by (simp add: book_inv_iff top_ok_def Book_top_def Let_def) (auto simp: side_inv_def)

lemma apply_msg_inv: "book_inv b \<Longrightarrow> book_inv (apply_msg env b)"
  by (auto simp: apply_msg_def apply_snapshot_def apply_delta_def book_inv_change split: RecordKind.splits)

fun top_row_ok :: "i64 \<times> Envelope \<times> i64 \<times> string \<times> Top \<Rightarrow> bool" where
  "top_row_ok (idx, env, evt, event, tp) \<longleftrightarrow>
     i64_range idx \<and> i64_range (timestamp_micros (e_recv_ts env)) \<and> i64_range evt \<and> top_ok tp"

lemma spread_range: "pred_option i64_range (spread_micro t)"
  by (auto simp: spread_micro_def split: option.splits)

lemma mid_range: "pred_option i64_range (map_option uint (m :: u32 option))"
  by (cases m) simp_all

lemma imbalance_ok: "pred_option quotient_ok (imbalance t)"
  by (simp add: imbalance_def Let_def)

lemma bt_columns_ok: "list_all top_row_ok rs \<Longrightarrow> columns_ok (bt_columns (bt_of_rows rs))"
proof (induction rs rule: rev_induct)
  case Nil
  then show ?case by (simp add: bt_of_rows_def BookTopTable_default_def columns_ok_def bt_columns_def)
next
  case (snoc x rs)
  then show ?case
    by (cases x)
      (simp add: bt_push_rows [symmetric] bt_push_def Let_def columns_ok_def bt_columns_def ts_us_def top_ok_def
        spread_range mid_range imbalance_ok)
qed

lemma top_rows_ok: "list_all msg_typed envs \<Longrightarrow> book_inv b \<Longrightarrow> list_all top_row_ok (top_rows k b envs)"
  by (induction envs arbitrary: k b)
    (auto simp: Let_def msg_typed_def env_typed_def Book_top_ok apply_msg_inv split: RecordKind.splits)

section \<open>Trades, gaps, raw fallbacks and verdicts\<close>

lemma tt_columns_ok:
  "list_all (\<lambda>(env, t). i64_range (timestamp_micros (e_recv_ts env)) \<and> i64_range (timestamp_micros (t_ts t)) \<and>
       uint (t_count t) < 2 ^ 63) rs \<Longrightarrow> columns_ok (tt_columns (tt_of_trades rs))"
  by (auto simp: columns_ok_def tt_columns_def tt_of_trades_def list_all_iff ts_us_def i64_range_qty
      MICRO_PER_DOLLAR_def CENTI_PER_CONTRACT_def i64_range_def [of 1000000] i64_range_def [of 100])

lemma gt_columns_ok:
  "list_all (\<lambda>(env, g). i64_range (timestamp_micros (e_recv_ts env))) rs \<Longrightarrow> columns_ok (gt_columns (gt_of_gaps rs))"
  by (auto simp: columns_ok_def gt_columns_def gt_of_gaps_def list_all_iff ts_us_def)

lemma rt_columns_ok:
  "list_all (\<lambda>(env, ch, raw). i64_range (timestamp_micros (e_recv_ts env))) rs \<Longrightarrow>
     columns_ok (rt_columns (rt_of_rows ser rs))"
proof (induction rs rule: rev_induct)
  case Nil
  then show ?case by (simp add: rt_of_rows_def RawTable_default_def columns_ok_def rt_columns_def)
next
  case (snoc x rs)
  then show ?case
    by (cases x) (simp add: rt_push_rows [symmetric] rt_push_def Let_def columns_ok_def rt_columns_def ts_us_def)
qed

lemma vt_columns_ok:
  "list_all (\<lambda>r. i64_range (vr_recv_ts_us r) \<and> pred_option i64_range (vr_match_lag_us r)) rs \<Longrightarrow>
     columns_ok (vt_columns (vt_of_rows rs))"
proof (induction rs rule: rev_induct)
  case Nil
  then show ?case by (simp add: vt_of_rows_def VerifyTable_default_def columns_ok_def vt_columns_def)
next
  case (snoc x rs)
  then show ?case
    by (simp add: vt_push_rows [symmetric] vt_push_def Let_def columns_ok_def vt_columns_def)
qed

text \<open>A lag is a difference that wraps, or zero.\<close>

lemma scan_lag_range: "scan_back r th st w = Some lag \<Longrightarrow> i64_range lag"
  by (induction r th st w rule: scan_back.induct) (auto split: if_splits)

lemma vstep_lags:
  "list_all (\<lambda>r. pred_option i64_range (vr_match_lag_us r)) (ve_rows e) \<Longrightarrow>
     list_all (\<lambda>r. pred_option i64_range (vr_match_lag_us r)) (ve_rows (vstep js ev e))"
  by (cases ev)
    (auto simp: on_book_event_def on_gap_def on_verify_def resolve_defs Let_def scan_lag_range split: option.splits)

lemma verdict_lags: "list_all (\<lambda>r. pred_option i64_range (vr_match_lag_us r)) (engine_finish (vrun js evs))"
proof -
  have "list_all (\<lambda>r. pred_option i64_range (vr_match_lag_us r)) (ve_rows (vrun js evs))"
    by (induction evs rule: rev_induct) (simp_all add: VerifyEngine_new_def vstep_lags)
  then show ?thesis by (auto simp: engine_finish_def resolve_truncated_def split: option.split)
qed

section \<open>The tables of a conversion\<close>

lemma of_items_all: "(\<And>x. x \<in> set items \<Longrightarrow> list_all P (f x)) \<Longrightarrow> list_all P (of_items f items)"
  by (induction items) simp_all

lemma item_parts_typed:
  assumes "item_typed x" and "item_fits x"
  shows "list_all msg_typed (item_msgs x)"
    and "list_all (\<lambda>(env, t). i64_range (timestamp_micros (e_recv_ts env)) \<and> i64_range (timestamp_micros (t_ts t)) \<and>
       uint (t_count t) < 2 ^ 63) (item_trades x)"
    and "list_all (\<lambda>(env, g). i64_range (timestamp_micros (e_recv_ts env))) (item_gaps x)"
    and "list_all (\<lambda>(env, ch, raw). i64_range (timestamp_micros (e_recv_ts env))) (item_raws x)"
    and "list_all (\<lambda>env. i64_range (timestamp_micros (e_recv_ts env))) (item_verifies x)"
  using assms by (cases x; cases "snd x"; auto simp: msg_typed_def env_typed_def split: RecordKind.splits)+

lemma typed_parts:
  assumes "list_all item_typed items" and "list_all item_fits items"
  shows "list_all msg_typed (of_items item_msgs items)"
    and "list_all (\<lambda>(env, t). i64_range (timestamp_micros (e_recv_ts env)) \<and> i64_range (timestamp_micros (t_ts t)) \<and>
       uint (t_count t) < 2 ^ 63) (of_items item_trades items)"
    and "list_all (\<lambda>(env, g). i64_range (timestamp_micros (e_recv_ts env))) (of_items item_gaps items)"
    and "list_all (\<lambda>(env, ch, raw). i64_range (timestamp_micros (e_recv_ts env))) (of_items item_raws items)"
    and "list_all (\<lambda>env. i64_range (timestamp_micros (e_recv_ts env))) (of_items item_verifies items)"
  using assms unfolding list_all_iff [of item_typed] list_all_iff [of item_fits]
  by (intro of_items_all item_parts_typed; blast)+

lemma verdicts_ok:
  assumes "list_all (\<lambda>env. i64_range (timestamp_micros (e_recv_ts env))) (of_items item_verifies items)"
  shows "list_all (\<lambda>r. i64_range (vr_recv_ts_us r) \<and> pred_option i64_range (vr_match_lag_us r))
    (engine_finish (vrun js (vevents b items)))"
proof -
  have "list_all i64_range (map vr_recv_ts_us (engine_finish (vrun js (vevents b items))))"
    using assms unfolding verdict_times by (simp add: list.pred_map comp_def)
  then show ?thesis using verdict_lags by (auto simp: list_all_iff)
qed

lemma all_gaps_ok:
  assumes "list_all (\<lambda>(env, g). i64_range (timestamp_micros (e_recv_ts env))) (of_items item_gaps items)"
    and "list_all (\<lambda>env. i64_range (timestamp_micros (e_recv_ts env))) (of_items item_verifies items)"
  shows "list_all (\<lambda>(env, g). i64_range (timestamp_micros (e_recv_ts env))) (all_gaps P ticker items)"
  using assms(1) verdicts_ok [OF assms(2)]
  by (fastforce simp: all_gaps_def sort_gap_rows_def stamped_def list_all_iff Envelope_new_def timestamp_micros_def)

lemma conclude_parts:
  assumes "accounts P items p" and "conclude P A ticker ext dir p sf = Inr (oc, out)"
  shows "\<exists>f. finish_tables A p (gt_of_gaps (all_gaps P ticker items))
      (vt_of_rows (engine_finish (vrun (ep_levels_json P) (vevents Book_default items)))) = Inr f \<and>
    report P A ticker ext dir p sf f = (oc, out)"
proof -
  have "fold (\<lambda>(env, marker). gt_push env marker) gs GapsTable_default = gt_of_gaps gs" for gs
    using fold_gt_push [of gs "[]"] by (simp add: table_defaults)
  moreover have "gap_rows_sorted ticker p = all_gaps P ticker items"
    and "va_table (verify_rows_fold ticker p) = vt_of_rows (engine_finish (vrun (ep_levels_json P) (vevents Book_default items)))"
    using assms(1) by (simp_all add: accounts_def verify_rows_fold_eq Let_def all_gaps_def gap_rows_sorted_def)
  ultimately show ?thesis using assms(2) by (auto simp: conclude_def and_then_Inr_iff)
qed

text \<open>Each table is typed; the batches are built from them.\<close>

definition typed_batch :: "'b arrow \<Rightarrow> string \<Rightarrow> 'b \<Rightarrow> bool" where
  "typed_batch A table b \<longleftrightarrow>
     (\<exists>schema n cols. map_of table_schemas table = Some schema \<and> table_typed schema n cols \<and> ar_try_from A cols = Inr b)"

lemma typed_batchI:
  "build (ar_try_from A) t cols = Inr b \<Longrightarrow> batch_wf n cols \<Longrightarrow> columns_ok cols \<Longrightarrow>
     map_of table_schemas table = Some (map (\<lambda>(name, a, nullable). (name, array_type a, nullable)) cols) \<Longrightarrow>
     typed_batch A table b"
  unfolding typed_batch_def build_def by (auto intro: table_typedI [OF _ _ refl] split: sum.splits)

lemma finish_tables_parts:
  "finish_tables A p gt vt = Inr f \<Longrightarrow>
     be_finish (ar_try_from A) (ps_book_events p) = Inr (fin_book_events f) \<and>
     bt_finish (ar_try_from A) (ps_book_top p) = Inr (fin_book_top f) \<and>
     tt_finish (ar_try_from A) (ps_trades p) = Inr (fin_trades f) \<and> gt_finish (ar_try_from A) gt = Inr (fin_gaps f) \<and>
     rt_finish (ar_try_from A) (ps_raw p) = Inr (fin_raw f) \<and> vt_finish (ar_try_from A) vt = Inr (fin_verify f)"
  by (auto simp: finish_tables_def and_then_Inr_iff)

lemma schema_headers:
  "map_of table_schemas ''book_events'' = Some (map (\<lambda>(name, a, nullable). (name, array_type a, nullable)) (be_columns be))"
  "map_of table_schemas ''book_top'' = Some (map (\<lambda>(name, a, nullable). (name, array_type a, nullable)) (bt_columns bt))"
  "map_of table_schemas ''trades'' = Some (map (\<lambda>(name, a, nullable). (name, array_type a, nullable)) (tt_columns tt))"
  "map_of table_schemas ''gaps'' = Some (map (\<lambda>(name, a, nullable). (name, array_type a, nullable)) (gt_columns gt))"
  "map_of table_schemas ''raw'' = Some (map (\<lambda>(name, a, nullable). (name, array_type a, nullable)) (rt_columns rt))"
  "map_of table_schemas ''verify'' = Some (map (\<lambda>(name, a, nullable). (name, array_type a, nullable)) (vt_columns vt))"
  by (simp_all add: table_schemas_def be_columns_def bt_columns_def tt_columns_def gt_columns_def rt_columns_def
      vt_columns_def)

lemma finished_typed:
  assumes ac: "accounts P items p" and typed: "list_all item_typed items" "list_all item_fits items"
    and f: "finish_tables A p (gt_of_gaps (all_gaps P ticker items))
      (vt_of_rows (engine_finish (vrun (ep_levels_json P) (vevents Book_default items)))) = Inr f"
  shows "typed_batch A ''book_events'' (fin_book_events f)" and "typed_batch A ''book_top'' (fin_book_top f)"
    and "typed_batch A ''trades'' (fin_trades f)" and "typed_batch A ''gaps'' (fin_gaps f)"
    and "typed_batch A ''raw'' (fin_raw f)" and "typed_batch A ''verify'' (fin_verify f)"
proof -
  note parts = typed_parts [OF typed] and tables = ac [unfolded accounts_def Let_def]
  note finish = finish_tables_parts [OF f, unfolded be_finish_def bt_finish_def tt_finish_def gt_finish_def
      rt_finish_def vt_finish_def]
  have built:
    "build (ar_try_from A) ''book_events'' (be_columns (be_of_rows (log_rows 0 (of_items item_msgs items)))) =
       Inr (fin_book_events f)"
    "build (ar_try_from A) ''book_top'' (bt_columns (bt_of_rows (top_rows 0 Book_default (of_items item_msgs items)))) =
       Inr (fin_book_top f)"
    "build (ar_try_from A) ''trades'' (tt_columns (tt_of_trades (of_items item_trades items))) = Inr (fin_trades f)"
    "build (ar_try_from A) ''raw'' (rt_columns (rt_of_rows (ep_ser P) (of_items item_raws items))) = Inr (fin_raw f)"
    using finish tables by simp_all
  show "typed_batch A ''book_events'' (fin_book_events f)"
    by (rule typed_batchI [OF built(1) be_wf be_columns_ok [OF log_rows_typed [OF parts(1)]] schema_headers(1)])
  show "typed_batch A ''book_top'' (fin_book_top f)"
    by (rule typed_batchI [OF built(2) bt_wf bt_columns_ok [OF top_rows_ok [OF parts(1) book_inv_default]] schema_headers(2)])
  show "typed_batch A ''trades'' (fin_trades f)"
    by (rule typed_batchI [OF built(3) tt_wf tt_columns_ok [OF parts(2)] schema_headers(3)])
  show "typed_batch A ''gaps'' (fin_gaps f)"
    by (rule typed_batchI [OF _ gt_wf gt_columns_ok [OF all_gaps_ok [OF parts(3,5)]] schema_headers(4)]) (use finish in blast)
  show "typed_batch A ''raw'' (fin_raw f)"
    by (rule typed_batchI [OF built(4) rt_wf rt_columns_ok [OF parts(4)] schema_headers(5)])
  show "typed_batch A ''verify'' (fin_verify f)"
    by (rule typed_batchI [OF _ vt_wf vt_columns_ok [OF verdicts_ok [OF parts(5)]] schema_headers(6)]) (use finish in blast)
qed

lemma optional_tail:
  "x \<in> set ([a1, a2, a3, a4] @ (if c then [a5] else []) @ (if d then [a6] else [])) \<Longrightarrow> x \<in> {a1, a2, a3, a4, a5, a6}"
  by (auto split: if_splits)

lemma report_out_batches:
  assumes "report P A ticker ext dir p sf f = (oc, out)"
  shows "out_batches out =
      [(''book_events.'' @ ext, fin_book_events f), (''book_top.'' @ ext, fin_book_top f),
       (''trades.'' @ ext, fin_trades f), (''gaps.'' @ ext, fin_gaps f)] @
      (if ct_raw (finished_counts A f) > 0 then [(''raw.'' @ ext, fin_raw f)] else []) @
      (if ct_verify (finished_counts A f) > 0 then [(''verify.'' @ ext, fin_verify f)] else [])"
  using arg_cong [OF assms, of "\<lambda>r. out_batches (snd r)"]
  by (simp add: report_def Let_def case_prod_beta)

lemma report_batches:
  "report P A ticker ext dir p sf f = (oc, out) \<Longrightarrow> (file, b) \<in> set (out_batches out) \<Longrightarrow>
     (file, b) \<in> {(''book_events.'' @ ext, fin_book_events f), (''book_top.'' @ ext, fin_book_top f),
       (''trades.'' @ ext, fin_trades f), (''gaps.'' @ ext, fin_gaps f), (''raw.'' @ ext, fin_raw f),
       (''verify.'' @ ext, fin_verify f)}"
proof -
  assume r: "report P A ticker ext dir p sf f = (oc, out)" and m: "(file, b) \<in> set (out_batches out)"
  have "out_batches out =
      [(''book_events.'' @ ext, fin_book_events f), (''book_top.'' @ ext, fin_book_top f),
       (''trades.'' @ ext, fin_trades f), (''gaps.'' @ ext, fin_gaps f)] @
      (if ct_raw (finished_counts A f) > 0 then [(''raw.'' @ ext, fin_raw f)] else []) @
      (if ct_verify (finished_counts A f) > 0 then [(''verify.'' @ ext, fin_verify f)] else [])"
    by (rule report_out_batches [OF r])
  with m show ?thesis by (metis optional_tail)
qed

section \<open>Property\<close>

text \<open>
  C35. Every file the conversion of a ticker writes is well typed: it is named after one of the six tables and was built
  from columns that have exactly the names, types and nullability of that table's schema, all of one length, without
  a null where the schema allows none, with every integer cell within 64 bits and every quotient by a divisor that
  is not zero, whatever records of the machine types were read.
\<close>

theorem files_are_typed:
  assumes "process_ticker P A ticker ext dir ob tr = Inr (Some (oc, out))"
    and "list_all item_typed (input_items P ob tr)" and "(file, b) \<in> set (out_batches out)"
  shows "\<exists>table schema n cols. map_of table_schemas table = Some schema \<and> file = table @ ''.'' @ ext \<and>
    table_typed schema n cols \<and> ar_try_from A cols = Inr b"
proof -
  let ?items = "input_items P ob tr"
  obtain p sf where pc: "process_channels P ob tr = Inr (p, sf)" and c: "conclude P A ticker ext dir p sf = Inr (oc, out)"
    using assms(1) by (auto simp: process_ticker_def and_then_Inr_iff split: if_splits)
  have "run_items P ?items proc_init = Inr p"
    using process_channels_items [of P ob tr] pc by simp
  then have fits: "list_all item_fits ?items" and ac: "accounts P ?items p"
    using run_items_accounts [of ?items P] by (auto split: if_splits)
  obtain f where f: "finish_tables A p (gt_of_gaps (all_gaps P ticker ?items))
      (vt_of_rows (engine_finish (vrun (ep_levels_json P) (vevents Book_default ?items)))) = Inr f"
    and r: "report P A ticker ext dir p sf f = (oc, out)"
    using conclude_parts [OF ac c] by blast
  note typed = finished_typed [OF ac assms(2) fits f]
  show ?thesis
    using report_batches [OF r assms(3)] typed by (fastforce simp: typed_batch_def)
qed

lemma out_nonempty: "process_ticker P A ticker ext dir ob tr = Inr (Some (oc, out)) \<Longrightarrow> out_batches out \<noteq> []"
  by (auto simp: process_ticker_def conclude_def report_def Let_def and_then_Inr_iff split: if_splits prod.splits)

text \<open>A raw fallback and an undecodable line: the files of their conversion.\<close>

theorem files_are_typed_witness:
  "\<exists>oc out. process_ticker ex_params plain_arrow [] [] [] ex_files [] = Inr (Some (oc, out)) \<and> out_batches out \<noteq> [] \<and>
     (\<forall>(file, b) \<in> set (out_batches out). \<exists>table schema n. map_of table_schemas table = Some schema \<and>
        file = table @ ''.'' \<and> table_typed schema n b)"
proof -
  obtain oc out where ok: "process_ticker ex_params plain_arrow [] [] [] ex_files [] = Inr (Some (oc, out))"
    using ex_process by blast
  have typed: "list_all item_typed (input_items ex_params ex_files [])"
    by (simp add: ex_items ex_raw_def env_typed_def Envelope_new_def timestamp_micros_def)
  have "\<forall>(file, b) \<in> set (out_batches out). \<exists>table schema n. map_of table_schemas table = Some schema \<and>
      file = table @ ''.'' \<and> table_typed schema n b"
    using files_are_typed [OF ok typed] by (fastforce simp: plain_arrow_def)
  with ok out_nonempty [OF ok] show ?thesis by blast
qed

end
