(* ===== verification/Sorted_By.thy ===== *)
theory Sorted_By
  imports Prelude "HOL-Library.Multiset"
begin

text \<open>
  Sorting and minima under a comparator, \<^verbatim>\<open>sort_by\<close> and \<^verbatim>\<open>min_by\<close> of the Rust standard library, as the
  rankings and the strike band use them. The lemmas show that the results are sorted permutations and least
  elements when the comparator is that of a total preorder, and that a sort by a strict total order does not
  depend on the order of its input.
\<close>

section \<open>The operations\<close>

text \<open>
  \<^verbatim>\<open>sort_by\<close> is a stable sort and \<^verbatim>\<open>min_by\<close> returns the first of the least elements; \<open>lt x y\<close> is the outcome
  \<^verbatim>\<open>Less\<close> of the comparison.
\<close>

fun insert_by :: "('a \<Rightarrow> 'a \<Rightarrow> bool) \<Rightarrow> 'a \<Rightarrow> 'a list \<Rightarrow> 'a list" where
  "insert_by lt x [] = [x]"
| "insert_by lt x (y # ys) = (if lt y x then y # insert_by lt x ys else x # y # ys)"

definition sort_by :: "('a \<Rightarrow> 'a \<Rightarrow> bool) \<Rightarrow> 'a list \<Rightarrow> 'a list" where
  "sort_by lt xs = foldr (insert_by lt) xs []"

fun min_by :: "('a \<Rightarrow> 'a \<Rightarrow> bool) \<Rightarrow> 'a list \<Rightarrow> 'a option" where
  "min_by lt [] = None"
| "min_by lt (x # xs) = Some (foldl (\<lambda>best y. if lt y best then y else best) x xs)"

section \<open>Sorting and minima under a comparator\<close>

text \<open>
  \<open>R a b\<close> says that \<open>b\<close> comes no later than \<open>a\<close>; on \<open>A\<close> it is a total preorder. The comparator of \<open>R\<close> answers
  \<^verbatim>\<open>Less\<close> on \<open>a\<close> and \<open>b\<close> when \<open>R b a\<close> and not \<open>R a b\<close>.
\<close>

definition total_preorder :: "('a \<Rightarrow> 'a \<Rightarrow> bool) \<Rightarrow> 'a set \<Rightarrow> bool" where
  "total_preorder R A \<longleftrightarrow>
     (\<forall>a \<in> A. \<forall>b \<in> A. R a b \<or> R b a) \<and> (\<forall>a \<in> A. \<forall>b \<in> A. \<forall>c \<in> A. R a b \<longrightarrow> R b c \<longrightarrow> R a c)"

lemma total_preorder_trans: "total_preorder R A \<Longrightarrow> a \<in> A \<Longrightarrow> b \<in> A \<Longrightarrow> c \<in> A \<Longrightarrow> R a b \<Longrightarrow> R b c \<Longrightarrow> R a c"
  unfolding total_preorder_def by blast

lemma total_preorder_total: "total_preorder R A \<Longrightarrow> a \<in> A \<Longrightarrow> b \<in> A \<Longrightarrow> R a b \<or> R b a"
  unfolding total_preorder_def by blast

lemma total_preorder_subset: "total_preorder R A \<Longrightarrow> B \<subseteq> A \<Longrightarrow> total_preorder R B"
  unfolding total_preorder_def by blast

lemma mset_insert_by: "mset (insert_by lt x ys) = add_mset x (mset ys)"
  by (induction ys) auto

lemma mset_sort_by [simp]: "mset (sort_by lt xs) = mset xs"
  by (induction xs) (auto simp: sort_by_def mset_insert_by)

lemma sort_by_Cons: "sort_by lt (x # xs) = insert_by lt x (sort_by lt xs)"
  by (simp add: sort_by_def)

lemma set_insert_by [simp]: "set (insert_by lt x ys) = insert x (set ys)"
  by (induction ys) auto

lemma set_sort_by [simp]: "set (sort_by lt xs) = set xs"
  by (induction xs) (auto simp: sort_by_def)

lemma insert_by_sorted:
  assumes "total_preorder R (set (x # ys))" and "sorted_wrt (\<lambda>a b. R b a) ys"
  shows "sorted_wrt (\<lambda>a b. R b a) (insert_by (\<lambda>a b. R b a \<and> \<not> R a b) x ys)"
  using assms
proof (induction ys)
  case (Cons y ys)
  have tot: "total_preorder R (set (x # ys))"
    using Cons.prems(1) by (rule total_preorder_subset) auto
  show ?case
  proof (cases "R x y \<and> \<not> R y x")
    case True
    with Cons.prems(2) Cons.IH [OF tot] show ?thesis by auto
  next
    case False
    then have ge: "R y x"
      using total_preorder_total [OF Cons.prems(1), of x y] by auto
    have "R z x" if "z \<in> set ys" for z
      using total_preorder_trans [OF Cons.prems(1), of z y x] ge that Cons.prems(2) by simp
    with False ge Cons.prems(2) show ?thesis by auto
  qed
qed simp

lemma sort_by_sorted:
  "total_preorder R (set xs) \<Longrightarrow> sorted_wrt (\<lambda>a b. R b a) (sort_by (\<lambda>a b. R b a \<and> \<not> R a b) xs)"
proof (induction xs)
  case (Cons x xs)
  have "total_preorder R (set xs)"
    using Cons.prems by (rule total_preorder_subset) auto
  then show ?case
    using insert_by_sorted [of R x "sort_by (\<lambda>a b. R b a \<and> \<not> R a b) xs"] Cons by (simp add: sort_by_Cons)
qed (simp add: sort_by_def)

lemma min_by_least:
  assumes "total_preorder R (set xs)" and "xs \<noteq> []"
  shows "\<exists>m. min_by (\<lambda>a b. R b a \<and> \<not> R a b) xs = Some m \<and> m \<in> set xs \<and> (\<forall>x \<in> set xs. R x m)"
proof -
  define pick where "pick = (\<lambda>best y. if R best y \<and> \<not> R y best then y else best)"
  have fold: "foldl pick x ys \<in> insert x (set ys) \<and> (\<forall>z \<in> insert x (set ys). R z (foldl pick x ys))"
    if "total_preorder R (set (x # ys))" for x ys
    using that
  proof (induction ys arbitrary: x)
    case Nil
    then show ?case by (auto simp: total_preorder_def)
  next
    case (Cons y ys)
    have b: "pick x y \<in> {x, y}" "R x (pick x y)" "R y (pick x y)"
      using Cons.prems by (auto simp: pick_def total_preorder_def)
    have "total_preorder R (set (pick x y # ys))"
      using Cons.prems by (rule total_preorder_subset) (use b(1) in auto)
    then have m: "foldl pick (pick x y) ys \<in> insert (pick x y) (set ys)"
        "\<forall>z \<in> insert (pick x y) (set ys). R z (foldl pick (pick x y) ys)"
      using Cons.IH by blast+
    have "R z (foldl pick (pick x y) ys)" if "z \<in> {x, y}" for z
      using total_preorder_trans [OF Cons.prems, of z "pick x y" "foldl pick (pick x y) ys"] b m that by auto
    with m b(1) show ?case by auto
  qed
  obtain x ys where "xs = x # ys" using assms(2) by (cases xs) auto
  with fold [of x ys] assms(1) show ?thesis by (simp add: pick_def)
qed

text \<open>A strict total order, as \<^verbatim>\<open>total_cmp\<close> is on floating-point numbers; the comparator of a ranking
  breaks its ties by a name.\<close>

definition strict_total :: "('a \<Rightarrow> 'a \<Rightarrow> bool) \<Rightarrow> bool" where
  "strict_total lt \<longleftrightarrow>
     (\<forall>a. \<not> lt a a) \<and> (\<forall>a b c. lt a b \<longrightarrow> lt b c \<longrightarrow> lt a c) \<and> (\<forall>a b. lt a b \<or> a = b \<or> lt b a)"

lemma strict_total_irrefl: "strict_total lt \<Longrightarrow> \<not> lt a a"
  by (simp add: strict_total_def)

lemma strict_total_trans: "strict_total lt \<Longrightarrow> lt a b \<Longrightarrow> lt b c \<Longrightarrow> lt a c"
  unfolding strict_total_def by blast

lemma strict_total_cases: "strict_total lt \<Longrightarrow> lt a b \<or> a = b \<or> lt b a"
  unfolding strict_total_def by blast

lemma strict_total_asym: "strict_total lt \<Longrightarrow> lt a b \<Longrightarrow> \<not> lt b a"
  using strict_total_trans strict_total_irrefl by metis

lemma strict_total_comparator: "strict_total lt \<Longrightarrow> (\<lambda>a b. \<not> lt (f b) (f a) \<and> \<not> \<not> lt (f a) (f b)) = (\<lambda>a b. lt (f a) (f b))"
  using strict_total_asym [of lt] by (auto simp: fun_eq_iff)

lemma strict_total_preorder: "strict_total lt \<Longrightarrow> total_preorder (\<lambda>a b. \<not> lt (f a) (f b)) A"
  unfolding total_preorder_def using strict_total_asym [of lt] strict_total_trans [of lt] strict_total_cases [of lt]
  by metis

text \<open>A sort by a strict total order of a key is sorted by it, and depends only on the elements when the
  keys are distinct.\<close>

lemma sort_by_strict:
  assumes "strict_total lt"
  shows "sorted_wrt (\<lambda>a b. \<not> lt (f b) (f a)) (sort_by (\<lambda>a b. lt (f a) (f b)) xs)"
  using sort_by_sorted [OF strict_total_preorder [OF assms, of f "set xs"]]
  by (simp only: strict_total_comparator [OF assms])

lemma strict_sorted_unique:
  assumes "strict_total lt"
  shows "sorted_wrt (\<lambda>a b. lt (f a) (f b)) xs \<Longrightarrow> sorted_wrt (\<lambda>a b. lt (f a) (f b)) ys \<Longrightarrow> set xs = set ys \<Longrightarrow> xs = ys"
proof (induction xs arbitrary: ys)
  case (Cons x xs)
  then obtain y ys' where ys: "ys = y # ys'" by (cases ys) auto
  have xy: "x = y"
  proof (rule ccontr)
    assume "x \<noteq> y"
    with Cons.prems(3) ys have "x \<in> set ys'" "y \<in> set xs" by auto
    with Cons.prems(1,2) ys have "lt (f y) (f x)" "lt (f x) (f y)" by auto
    then show False using strict_total_asym [OF assms] by blast
  qed
  have "x \<notin> set xs" "x \<notin> set ys'"
    using Cons.prems(1,2) strict_total_irrefl [OF assms] unfolding ys xy by auto
  with Cons.prems(3) have "set xs = set ys'" unfolding ys xy by auto
  with Cons.IH [of ys'] Cons.prems(1,2) show ?case unfolding ys xy by simp
qed simp

lemma sort_by_strict_distinct:
  assumes "strict_total lt" and "distinct (map f xs)"
  shows "sorted_wrt (\<lambda>a b. lt (f a) (f b)) (sort_by (\<lambda>a b. lt (f a) (f b)) xs)"
proof -
  let ?s = "sort_by (\<lambda>a b. lt (f a) (f b)) xs"
  have "mset (map f ?s) = mset (map f xs)" by simp
  then have d: "distinct (map f ?s)" using assms(2) mset_eq_imp_distinct_iff by blast
  show ?thesis
    unfolding sorted_wrt_iff_nth_less
  proof (intro allI impI)
    fix i j assume ij: "i < j" "j < length ?s"
    have "\<not> lt (f (?s ! j)) (f (?s ! i))"
      using sort_by_strict [OF assms(1), of f xs] ij by (simp add: sorted_wrt_iff_nth_less)
    moreover have "f (?s ! i) \<noteq> f (?s ! j)"
      using d ij by (auto simp: distinct_conv_nth)
    ultimately show "lt (f (?s ! i)) (f (?s ! j))"
      using strict_total_cases [OF assms(1), of "f (?s ! i)" "f (?s ! j)"] by auto
  qed
qed

lemma sort_by_unique:
  assumes "strict_total lt" and "mset xs = mset ys" and "distinct (map f xs)"
  shows "sort_by (\<lambda>a b. lt (f a) (f b)) xs = sort_by (\<lambda>a b. lt (f a) (f b)) ys"
proof -
  have "mset (map f xs) = mset (map f ys)" using assms(2) by simp
  then have "distinct (map f ys)" using assms(3) mset_eq_imp_distinct_iff by blast
  then show ?thesis
    using sort_by_strict_distinct [OF assms(1)] assms(2,3) mset_eq_setD [OF assms(2)]
    by (intro strict_sorted_unique [OF assms(1), of f]) simp_all
qed

text \<open>A stable sort: elements with the same key keep their order.\<close>

lemma sort_by_stable:
  assumes "strict_total lt"
  shows "filter (\<lambda>x. f x = v) (sort_by (\<lambda>a b. lt (f b) (f a)) xs) = filter (\<lambda>x. f x = v) xs"
proof -
  have ins: "filter (\<lambda>x. f x = v) (insert_by (\<lambda>a b. lt (f b) (f a)) x ys) = filter (\<lambda>x. f x = v) (x # ys)" for x ys
    by (induction ys) (auto simp: strict_total_irrefl [OF assms])
  show ?thesis
    by (induction xs) (simp_all add: sort_by_Cons ins, simp add: sort_by_def)
qed

lemma strict_total_flip: "strict_total lt \<Longrightarrow> strict_total (\<lambda>a b. lt b a)"
  unfolding strict_total_def by blast

end
