(* ===== verification/Catalog.thy ===== *)
theory Catalog
  imports Rest Command_Line Sorted_By "HOL-Library.AList"
begin

text \<open>
  Browsing the venue: the series, trade-page and cutoff requests and \<^verbatim>\<open>discover_markets\<close> of
  \<^verbatim>\<open>crates/kdp-kalshi/src/rest.rs\<close>, and the commands \<^verbatim>\<open>catalog.rs\<close> and \<^verbatim>\<open>discover.rs\<close> of \<^verbatim>\<open>crates/kdp-cli\<close> up to
  their printed output.

  Parameters: the answers to the requests (the \<open>n\<close>-th request of a walk has its own), floating-point
  arithmetic and \<^verbatim>\<open>total_cmp\<close> (\<open>tc\<close>), the lower-case mapping of texts and \<^verbatim>\<open>char::is_alphanumeric\<close>, and the order in
  which a hash map is traversed. The lemmas show which pages a bounded walk reads, that a rollup depends
  neither on that order nor on a tie, and what the name derived from a series is.
\<close>

section \<open>Requests\<close>

text \<open>The body of a successful answer; \<open>ctx\<close> is the text put before a decoding error.\<close>

fun body_result :: "string \<Rightarrow> (string + 'b) get_result \<Rightarrow> 'b get_result" where
  "body_result ctx (GotOk (Inr b)) = GotOk b"
| "body_result ctx (GotOk (Inl e)) = GotErr (Undecoded (ctx @ e))"
| "body_result ctx (GotErr e) = GotErr e"
| "body_result ctx GotPanic = GotPanic"

type_synonym 'b http = "string \<Rightarrow> (string \<times> string) list \<Rightarrow> nat \<Rightarrow> (string + 'b) http_answer"

definition list_markets :: "'f market_http \<Rightarrow> u32 \<Rightarrow> 'f Market list get_result" where
  "list_markets http limit =
     (case body_result [] (fst (get_with_retry (http ''/markets'' [(''limit'', show_nat (unat limit))]))) of
        GotOk (markets, cursor) \<Rightarrow> GotOk markets
      | GotErr e \<Rightarrow> GotErr e
      | GotPanic \<Rightarrow> GotPanic)"

record Series =
  sr_ticker :: string
  sr_title :: string
  sr_category :: string
  sr_frequency :: string
  sr_tags :: "string list option"
  sr_volume_fp :: "string option"

definition Series_volume :: "'f float_lib \<Rightarrow> Series \<Rightarrow> 'f" where
  "Series_volume F s = parsed_or_zero F (sr_volume_fp s)"

definition series_query :: "string option \<Rightarrow> (string \<times> string) list" where
  "series_query category = [(''include_volume'', ''true'')] @ query_part ''category'' category"

definition get_series_list :: "Series list http \<Rightarrow> string option \<Rightarrow> Series list get_result" where
  "get_series_list http category =
     body_result ''series list: '' (fst (get_with_retry (http ''/series'' (series_query category))))"

definition get_series :: "Series http \<Rightarrow> string \<Rightarrow> Series get_result" where
  "get_series http ticker =
     body_result (''series '' @ ticker @ '': '')
       (fst (get_with_retry (http (''/series/'' @ ticker) (series_query None))))"

type_synonym trades_page = "RestTrade list \<times> string option"

definition trades_query ::
    "string \<Rightarrow> i64 option \<Rightarrow> i64 option \<Rightarrow> u32 \<Rightarrow> string option \<Rightarrow> (string \<times> string) list" where
  "trades_query ticker min_ts max_ts limit cursor =
     [(''ticker'', ticker), (''limit'', show_nat (unat limit))] @ query_part ''min_ts'' (map_option show_int min_ts) @
     query_part ''max_ts'' (map_option show_int max_ts) @ query_part ''cursor'' cursor"

definition fetch_trades_page ::
    "trades_page http \<Rightarrow> string \<Rightarrow> string \<Rightarrow> i64 option \<Rightarrow> i64 option \<Rightarrow> u32 \<Rightarrow> string option \<Rightarrow> trades_page get_result" where
  "fetch_trades_page http path ticker min_ts max_ts limit cursor =
     body_result ''trades page: ''
       (fst (get_with_retry (http path (trades_query ticker min_ts max_ts limit cursor))))"

definition get_trades ::
    "trades_page http \<Rightarrow> string \<Rightarrow> i64 option \<Rightarrow> i64 option \<Rightarrow> u32 \<Rightarrow> string option \<Rightarrow> trades_page get_result" where
  "get_trades http = fetch_trades_page http ''/markets/trades''"

definition get_historical_trades ::
    "trades_page http \<Rightarrow> string \<Rightarrow> i64 option \<Rightarrow> i64 option \<Rightarrow> u32 \<Rightarrow> string option \<Rightarrow> trades_page get_result" where
  "get_historical_trades http = fetch_trades_page http ''/historical/trades''"

record Cutoff =
  cf_market_settled_ts :: string
  cf_trades_created_ts :: string
  cf_orders_updated_ts :: string

definition get_cutoff :: "Cutoff http \<Rightarrow> Cutoff get_result" where
  "get_cutoff http = body_result ''cutoff: '' (fst (get_with_retry (http ''/historical/cutoff'' [])))"

section \<open>Discovery\<close>

fun contains :: "string \<Rightarrow> string \<Rightarrow> bool" where
  "contains needle [] \<longleftrightarrow> needle = []"
| "contains needle (c # cs) \<longleftrightarrow> take (length needle) (c # cs) = needle \<or> contains needle cs"

definition discovered :: "(string \<Rightarrow> string) \<Rightarrow> string \<Rightarrow> 'f Market \<Rightarrow> bool" where
  "discovered lower needle m \<longleftrightarrow>
     needle = [] \<or> contains needle (lower (mk_ticker m)) \<or> contains needle (lower (mk_title m))"

fun discover_pages ::
    "(nat \<Rightarrow> string option \<Rightarrow> 'f page get_result) \<Rightarrow> ('f Market \<Rightarrow> bool) \<Rightarrow> nat \<Rightarrow> nat \<Rightarrow> string option \<Rightarrow> 'f Market list \<Rightarrow>
     'f Market list get_result" where
  "discover_pages get keep n 0 cursor found = GotOk found"
| "discover_pages get keep n (Suc left) cursor found =
     (case get n cursor of
        GotErr e \<Rightarrow> GotErr e
      | GotPanic \<Rightarrow> GotPanic
      | GotOk (markets, next) \<Rightarrow>
          (case next of
             Some c \<Rightarrow> discover_pages get keep (n + 1) left (Some c) (found @ filter keep markets)
           | None \<Rightarrow> GotOk (found @ filter keep markets)))"

definition open_page ::
    "(nat \<Rightarrow> 'f market_http) \<Rightarrow> string option \<Rightarrow> string option \<Rightarrow> nat \<Rightarrow> string option \<Rightarrow> 'f page get_result" where
  "open_page http status series n cursor = list_markets_page (http n) 1000 status series None None cursor"

definition discover_markets ::
    "'f float_lib \<Rightarrow> ('f \<Rightarrow> 'f \<Rightarrow> bool) \<Rightarrow> (string \<Rightarrow> string) \<Rightarrow> (nat \<Rightarrow> 'f market_http) \<Rightarrow> string \<Rightarrow> string option \<Rightarrow>
     string option \<Rightarrow> u32 \<Rightarrow> 'f Market list get_result" where
  "discover_markets F tc lower http query series status max_pages =
     (case discover_pages (open_page http status series) (discovered lower (lower query)) 0 (unat max_pages) None [] of
        GotOk found \<Rightarrow> GotOk (sort_by (\<lambda>a b. tc (Market_volume F b) (Market_volume F a)) found)
      | e \<Rightarrow> e)"

section \<open>Rankings\<close>

text \<open>The greater value first, the smaller name first among equal values.\<close>

definition rank_lt :: "('f \<Rightarrow> 'f \<Rightarrow> bool) \<Rightarrow> 'f \<times> string \<Rightarrow> 'f \<times> string \<Rightarrow> bool" where
  "rank_lt tc a b \<longleftrightarrow>
     tc (fst b) (fst a) \<or> (\<not> tc (fst b) (fst a) \<and> \<not> tc (fst a) (fst b) \<and> snd a < snd b)"

definition add_series :: "'f float_lib \<Rightarrow> Series \<Rightarrow> (string \<times> nat \<times> 'f) list \<Rightarrow> (string \<times> nat \<times> 'f) list" where
  "add_series F s by_category =
     (case map_of by_category (sr_category s) of
        Some (n, volume) \<Rightarrow>
          AList.update (sr_category s) (n + 1, fl_add F volume (Series_volume F s)) by_category
      | None \<Rightarrow> AList.update (sr_category s) (1, fl_add F (fl_zero F) (Series_volume F s)) by_category)"

text \<open>\<open>order\<close> is the order in which the hash map is traversed.\<close>

definition category_rollup ::
    "'f float_lib \<Rightarrow> ('f \<Rightarrow> 'f \<Rightarrow> bool) \<Rightarrow>
     ((string \<times> nat \<times> 'f) list \<Rightarrow> (string \<times> nat \<times> 'f) list) \<Rightarrow> Series list \<Rightarrow> (string \<times> nat \<times> 'f) list" where
  "category_rollup F tc order series =
     sort_by (\<lambda>a b. rank_lt tc (snd (snd a), fst a) (snd (snd b), fst b)) (order (fold (add_series F) series []))"

definition rank_series :: "'f float_lib \<Rightarrow> ('f \<Rightarrow> 'f \<Rightarrow> bool) \<Rightarrow> Series list \<Rightarrow> Series list" where
  "rank_series F tc series =
     sort_by (\<lambda>a b. rank_lt tc (Series_volume F a, sr_ticker a) (Series_volume F b, sr_ticker b)) series"

definition top_by_24h :: "'f float_lib \<Rightarrow> ('f \<Rightarrow> 'f \<Rightarrow> bool) \<Rightarrow> 'f Market list \<Rightarrow> nat \<Rightarrow> 'f Market list" where
  "top_by_24h F tc markets n =
     take n (sort_by (\<lambda>a b. rank_lt tc (volume_24h F a, mk_ticker a) (volume_24h F b, mk_ticker b)) markets)"

section \<open>The name of a series\<close>

definition to_ascii_lowercase :: "char \<Rightarrow> char" where
  "to_ascii_lowercase c = (let n = (of_char c :: nat) in if 65 \<le> n \<and> n \<le> 90 then char_of (n + 32) else c)"

fun name_loop :: "(char \<Rightarrow> bool) \<Rightarrow> string \<Rightarrow> string \<Rightarrow> bool \<Rightarrow> string" where
  "name_loop alnum [] out last_was_dash = out"
| "name_loop alnum (c # cs) out last_was_dash =
     (if alnum c then name_loop alnum cs (out @ [to_ascii_lowercase c]) False
      else if \<not> last_was_dash then name_loop alnum cs (out @ [CHR ''-'']) True
      else name_loop alnum cs out last_was_dash)"

definition trim_dashes :: "string \<Rightarrow> string" where
  "trim_dashes s = rev (dropWhile (\<lambda>c. c = CHR ''-'') (rev (dropWhile (\<lambda>c. c = CHR ''-'') s)))"

definition universe_name :: "(char \<Rightarrow> bool) \<Rightarrow> string \<Rightarrow> string" where
  "universe_name alnum series_ticker = trim_dashes (name_loop alnum series_ticker [] False)"

section \<open>The commands\<close>

text \<open>What a catalog call goes on to show.\<close>

datatype catalog_view = Rollup nat | InCategory string nat | Drilldown string nat

definition catalog_limit :: "Args \<Rightarrow> string \<Rightarrow> string + nat" where
  "catalog_limit args d =
     (case parse_unsigned u64_max (get_or args ''limit'' d) of
        Some n \<Rightarrow> Inr n
      | None \<Rightarrow> Inl ''--limit must be an integer'')"

definition catalog_args :: "Args \<Rightarrow> string + catalog_view" where
  "catalog_args args =
     (case (Args_get args ''category'', Args_get args ''series'') of
        (Some _, Some _) \<Rightarrow> Inl ''--category and --series are mutually exclusive''
      | (None, Some ticker) \<Rightarrow> and_then (catalog_limit args ''5'') (\<lambda>n. Inr (Drilldown ticker n))
      | (None, None) \<Rightarrow> and_then (catalog_limit args ''25'') (\<lambda>n. Inr (Rollup n))
      | (Some name, None) \<Rightarrow> and_then (catalog_limit args ''25'') (\<lambda>n. Inr (InCategory name n)))"

definition DRILLDOWN_MAX_PAGES :: nat where "DRILLDOWN_MAX_PAGES = 10"

fun drilldown_pages ::
    "(nat \<Rightarrow> string option \<Rightarrow> 'f page get_result) \<Rightarrow> nat \<Rightarrow> nat \<Rightarrow> string option \<Rightarrow> 'f Market list \<Rightarrow>
     ('f Market list \<times> bool) get_result" where
  "drilldown_pages get n 0 cursor markets = GotOk (markets, True)"
| "drilldown_pages get n (Suc left) cursor markets =
     (case get n cursor of
        GotErr e \<Rightarrow> GotErr e
      | GotPanic \<Rightarrow> GotPanic
      | GotOk (page, next) \<Rightarrow>
          (case next of
             Some c \<Rightarrow> drilldown_pages get (n + 1) left (Some c) (markets @ page)
           | None \<Rightarrow> GotOk (markets @ page, False)))"

text \<open>Volumes and top movers are shown when there are markets; the sign of a zero that starts a sum is left out.\<close>

record 'f drilldown =
  dd_series :: Series
  dd_truncated :: bool
  dd_count :: nat
  dd_shown :: "('f \<times> 'f \<times> 'f Market list) option"

definition run_series_drilldown ::
    "'f float_lib \<Rightarrow> ('f \<Rightarrow> 'f \<Rightarrow> bool) \<Rightarrow> Series http \<Rightarrow> (nat \<Rightarrow> 'f market_http) \<Rightarrow> string \<Rightarrow> nat \<Rightarrow>
     'f drilldown get_result" where
  "run_series_drilldown F tc series_http http ticker limit =
     (case get_series series_http ticker of
        GotErr e \<Rightarrow> GotErr e
      | GotPanic \<Rightarrow> GotPanic
      | GotOk found \<Rightarrow>
          (case drilldown_pages (open_page http (Some ''open'') (Some ticker)) 0 DRILLDOWN_MAX_PAGES None [] of
             GotErr e \<Rightarrow> GotErr e
           | GotPanic \<Rightarrow> GotPanic
           | GotOk (markets, truncated) \<Rightarrow>
               GotOk \<lparr>dd_series = found, dd_truncated = truncated, dd_count = length markets,
                 dd_shown =
                   (if markets = [] then None
                    else Some (foldl (fl_add F) (fl_zero F) (map (Market_volume F) markets),
                      foldl (fl_add F) (fl_zero F) (map (volume_24h F) markets), top_by_24h F tc markets limit))\<rparr>))"

record discover_args =
  da_query :: string
  da_series :: "string option"
  da_status :: "string option"
  da_pages :: u32
  da_limit :: nat

definition discover_args_of :: "Args \<Rightarrow> string + discover_args" where
  "discover_args_of args =
     (let query = (case Args_get args ''query'' of Some q \<Rightarrow> q | None \<Rightarrow> []) in
      if query = [] \<and> Args_get args ''series'' = None
      then Inl ''discover requires --query SUBSTRING and/or --series TICKER''
      else
        case parse_unsigned (2 ^ 32 - 1) (get_or args ''pages'' ''5'') of
          None \<Rightarrow> Inl ''--pages must be an integer''
        | Some pages \<Rightarrow>
            (case parse_unsigned u64_max (get_or args ''limit'' ''40'') of
               None \<Rightarrow> Inl ''--limit must be an integer''
             | Some limit \<Rightarrow>
                 Inr \<lparr>da_query = query, da_series = Args_get args ''series'', da_status = Args_get args ''status'',
                   da_pages = word_of_nat pages, da_limit = limit\<rparr>))"

section \<open>Bounded walks over pages\<close>

text \<open>
  \<open>page_walk get n left cursor pages fin\<close>: from the \<open>n\<close>-th request on, at most \<open>left\<close> pages are read, each with the
  cursor of the one before; \<open>pages\<close> are those read, and \<open>fin\<close> is how the walk ended.
\<close>

datatype walk_end = Exhausted | CutOff | Failed http_error | Panicked

inductive page_walk ::
    "(nat \<Rightarrow> string option \<Rightarrow> 'f page get_result) \<Rightarrow> nat \<Rightarrow> nat \<Rightarrow> string option \<Rightarrow> 'f Market list list \<Rightarrow> walk_end \<Rightarrow> bool" where
  cut_off: "page_walk get n 0 cursor [] CutOff"
| failed: "get n cursor = GotErr e \<Longrightarrow> page_walk get n (Suc left) cursor [] (Failed e)"
| panicked: "get n cursor = GotPanic \<Longrightarrow> page_walk get n (Suc left) cursor [] Panicked"
| last_page: "get n cursor = GotOk (ms, None) \<Longrightarrow> page_walk get n (Suc left) cursor [ms] Exhausted"
| next_page: "get n cursor = GotOk (ms, Some c) \<Longrightarrow> page_walk get (n + 1) left (Some c) pages fin \<Longrightarrow>
    page_walk get n (Suc left) cursor (ms # pages) fin"

inductive_cases page_walk_SucE: "page_walk get n (Suc left) cursor pages fin"

lemma page_walk_total: "\<exists>pages fin. page_walk get n left cursor pages fin"
proof (induction left arbitrary: n cursor)
  case (Suc left)
  show ?case
  proof (cases "get n cursor")
    case (GotOk p)
    obtain ms nxt where p: "p = (ms, nxt)" by (cases p)
    show ?thesis
    proof (cases nxt)
      case None
      then show ?thesis using GotOk p page_walk.last_page by blast
    next
      case (Some c)
      then show ?thesis using GotOk p Suc.IH [of "n + 1" "Some c"] page_walk.next_page by blast
    qed
  qed (blast intro: page_walk.intros)+
qed (blast intro: page_walk.cut_off)

lemma page_walk_pages: "page_walk get n left cursor pages fin \<Longrightarrow> length pages \<le> left"
  by (induction rule: page_walk.induct) simp_all

lemma page_walk_cut: "page_walk get n left cursor pages CutOff \<Longrightarrow> length pages = left"
  by (induction get n left cursor pages "CutOff :: walk_end" rule: page_walk.induct) simp_all

text \<open>The result of a loop that collects \<open>v\<close> of the pages.\<close>

fun walk_result :: "walk_end \<Rightarrow> 'a \<Rightarrow> 'a get_result" where
  "walk_result Exhausted v = GotOk v"
| "walk_result CutOff v = GotOk v"
| "walk_result (Failed e) v = GotErr e"
| "walk_result Panicked v = GotPanic"

lemma discover_pages_walk:
  "page_walk get n left cursor pages fin \<Longrightarrow>
     discover_pages get keep n left cursor found = walk_result fin (found @ filter keep (concat pages))"
  by (induction arbitrary: found rule: page_walk.induct) simp_all

lemma drilldown_pages_walk:
  "page_walk get n left cursor pages fin \<Longrightarrow>
     drilldown_pages get n left cursor markets = walk_result fin (markets @ concat pages, fin = CutOff)"
  by (induction arbitrary: markets rule: page_walk.induct) simp_all

section \<open>Rankings are total\<close>

lemma rank_lt_iff:
  assumes "strict_total tc"
  shows "rank_lt tc a b \<longleftrightarrow> tc (fst b) (fst a) \<or> (fst a = fst b \<and> snd a < snd b)"
  unfolding rank_lt_def using strict_total_irrefl [OF assms] strict_total_cases [OF assms, of "fst a" "fst b"] by auto

lemma rank_lt_strict_total:
  assumes "strict_total tc"
  shows "strict_total (rank_lt tc)"
proof -
  have "rank_lt tc a b \<or> a = b \<or> rank_lt tc b a" for a b
    using strict_total_cases [OF assms, of "fst a" "fst b"] less_linear [of "snd a" "snd b"]
    by (auto simp: rank_lt_iff [OF assms] prod_eq_iff)
  moreover have "rank_lt tc a b \<Longrightarrow> rank_lt tc b c \<Longrightarrow> rank_lt tc a c" for a b c
    by (auto simp: rank_lt_iff [OF assms] dest: strict_total_trans [OF assms])
  moreover have "\<not> rank_lt tc a a" for a
    using strict_total_irrefl [OF assms] by (simp add: rank_lt_iff [OF assms])
  ultimately show ?thesis
    unfolding strict_total_def [of "rank_lt tc"] by blast
qed

definition category_total :: "'f float_lib \<Rightarrow> Series list \<Rightarrow> string \<Rightarrow> nat \<times> 'f" where
  "category_total F series c =
     (let ss = filter (\<lambda>s. sr_category s = c) series in
      (length ss, foldl (fl_add F) (fl_zero F) (map (Series_volume F) ss)))"

lemma rollup_rows:
  "distinct (map fst (fold (add_series F) series [])) \<and>
   (\<forall>c. map_of (fold (add_series F) series []) c =
      (if c \<in> sr_category ` set series then Some (category_total F series c) else None))"
proof (induction series rule: rev_induct)
  case (snoc s series)
  let ?rows = "fold (add_series F) series []"
  have rows: "fold (add_series F) (series @ [s]) [] = add_series F s ?rows" by simp
  let ?c = "sr_category s"
  have total: "category_total F (series @ [s]) c =
      (if c = ?c then (fst (category_total F series c) + 1,
          fl_add F (snd (category_total F series c)) (Series_volume F s))
       else category_total F series c)" for c
    by (simp add: category_total_def Let_def)
  have "add_series F s ?rows = AList.update ?c (category_total F (series @ [s]) ?c) ?rows"
  proof (cases "?c \<in> sr_category ` set series")
    case True
    then have "map_of ?rows ?c = Some (category_total F series ?c)" using snoc.IH by simp
    then show ?thesis unfolding total by (simp add: add_series_def split: prod.split)
  next
    case False
    then have "filter (\<lambda>r. sr_category r = ?c) series = []" by (auto simp: filter_empty_conv image_iff)
    then have "category_total F series ?c = (0, fl_zero F)" by (simp add: category_total_def)
    moreover have "map_of ?rows ?c = None" using snoc.IH False by simp
    ultimately show ?thesis unfolding total by (simp add: add_series_def)
  qed
  then show ?case
    unfolding rows using snoc.IH by (auto simp: update_conv' distinct_update total)
qed simp

section \<open>The words of a series\<close>

text \<open>The maximal runs of alphanumeric characters.\<close>

function runs :: "(char \<Rightarrow> bool) \<Rightarrow> string \<Rightarrow> string list" where
  "runs alnum [] = []"
| "runs alnum (c # cs) =
     (if alnum c then (c # takeWhile alnum cs) # runs alnum (dropWhile alnum cs) else runs alnum cs)"
  by pat_completeness auto
termination by (relation "measure (\<lambda>(alnum, s). length s)") (auto simp: length_dropWhile_le le_imp_less_Suc)

fun name_tail :: "(char \<Rightarrow> bool) \<Rightarrow> bool \<Rightarrow> string \<Rightarrow> string" where
  "name_tail alnum d [] = []"
| "name_tail alnum d (c # cs) =
     (if alnum c then to_ascii_lowercase c # name_tail alnum False cs
      else if d then name_tail alnum True cs else CHR ''-'' # name_tail alnum True cs)"

lemma name_loop_tail: "name_loop alnum s out d = out @ name_tail alnum d s"
  by (induction alnum s out d rule: name_loop.induct) auto

abbreviation lowered :: "string \<Rightarrow> string" where "lowered w \<equiv> map to_ascii_lowercase w"

lemma name_tail_run:
  "name_tail alnum False s = lowered (takeWhile alnum s) @ name_tail alnum False (dropWhile alnum s)"
  by (induction s) auto

lemma name_tail_skip: "s \<noteq> [] \<Longrightarrow> \<not> alnum (hd s) \<Longrightarrow> name_tail alnum False s = CHR ''-'' # name_tail alnum True s"
  by (cases s) auto

lemma runs_empty: "runs alnum s = [] \<longleftrightarrow> list_all (\<lambda>c. \<not> alnum c) s"
  by (induction alnum s rule: runs.induct) auto

lemma name_tail_runs:
  "name_tail alnum True s = join_with ''-'' (map lowered (runs alnum s)) @
     (if runs alnum s \<noteq> [] \<and> \<not> alnum (last s) then ''-'' else [])"
proof (induction alnum s rule: runs.induct)
  case (2 alnum c cs)
  show ?case
  proof (cases "alnum c")
    case True
    define rest where "rest = dropWhile alnum cs"
    have cs: "cs = takeWhile alnum cs @ rest" by (simp add: rest_def)
    have word: "name_tail alnum True (c # cs) = lowered (c # takeWhile alnum cs) @ name_tail alnum False rest"
      using True name_tail_run [of alnum cs] by (simp add: rest_def)
    show ?thesis
    proof (cases "rest = []")
      case empty: True
      then have "set cs \<subseteq> {x. alnum x}" by (auto simp: rest_def dropWhile_eq_Nil_conv)
      with True have "alnum (last (c # cs))" by (cases cs) (auto dest: last_in_set)
      with True empty word show ?thesis by (simp add: rest_def [symmetric])
    next
      case False
      then have hd: "\<not> alnum (hd rest)" by (simp add: rest_def hd_dropWhile)
      have last: "last (c # cs) = last rest"
        using False cs by (metis last_ConsR last_appendR append_is_Nil_conv)
      have "\<not> alnum (last rest)" if "runs alnum rest = []"
        using that False last_in_set [OF False] by (auto simp: runs_empty list_all_iff)
      then show ?thesis
        using True word name_tail_skip [of rest alnum, OF False hd] "2.IH"(1) last
        by (cases "runs alnum rest") (auto simp: rest_def [symmetric])
    qed
  next
    case False
    then show ?thesis using "2.IH"(2) by (cases cs) auto
  qed
qed simp

lemma name_tail_start:
  "name_tail alnum False s =
     (if s \<noteq> [] \<and> \<not> alnum (hd s) then ''-'' else []) @ name_tail alnum True s"
  by (cases s) auto

lemma lowercase_dash: "to_ascii_lowercase c = CHR ''-'' \<longleftrightarrow> c = CHR ''-''"
proof
  assume a: "to_ascii_lowercase c = CHR ''-''"
  show "c = CHR ''-''"
  proof (cases "65 \<le> (of_char c :: nat) \<and> (of_char c :: nat) \<le> 90")
    case True
    then have "of_char (to_ascii_lowercase c) = (of_char c + 32 :: nat)"
      by (simp add: to_ascii_lowercase_def)
    with a True show ?thesis by simp
  qed (use a in \<open>auto simp: to_ascii_lowercase_def Let_def\<close>)
qed (simp add: to_ascii_lowercase_def)

lemma lowercase_twice: "to_ascii_lowercase (to_ascii_lowercase c) = to_ascii_lowercase c"
  by (auto simp: to_ascii_lowercase_def Let_def)

definition plain_word :: "(char \<Rightarrow> bool) \<Rightarrow> string \<Rightarrow> bool" where
  "plain_word alnum w \<longleftrightarrow> w \<noteq> [] \<and> list_all alnum w"

lemma runs_plain: "list_all (plain_word alnum) (runs alnum s)"
proof (induction alnum s rule: runs.induct)
  case (2 alnum c cs)
  have "list_all alnum (takeWhile alnum cs)" by (auto simp: list_all_iff dest: set_takeWhileD)
  with 2 show ?case by (simp add: plain_word_def)
qed simp

lemma join_ends:
  "ws \<noteq> [] \<Longrightarrow> list_all (\<lambda>w. w \<noteq> []) ws \<Longrightarrow>
     join_with sep ws \<noteq> [] \<and> hd (join_with sep ws) = hd (hd ws) \<and> last (join_with sep ws) = last (last ws)"
  by (induction sep ws rule: join_with.induct) auto

lemma trim_dashes_between:
  assumes "set a \<subseteq> {CHR ''-''}" and "set b \<subseteq> {CHR ''-''}"
    and "x \<noteq> [] \<Longrightarrow> hd x \<noteq> CHR ''-'' \<and> last x \<noteq> CHR ''-''"
  shows "trim_dashes (a @ x @ b) = x"
proof (cases "x = []")
  case True
  have "dropWhile (\<lambda>c. c = CHR ''-'') (a @ b) = []" using assms(1,2) by (auto simp: dropWhile_eq_Nil_conv)
  then show ?thesis unfolding trim_dashes_def True append_Nil by (simp only: rev.simps dropWhile.simps)
next
  case False
  then have "dropWhile (\<lambda>c. c = CHR ''-'') (a @ x @ b) = x @ b"
    using assms(1,3) by (subst dropWhile_append2) (auto simp: neq_Nil_conv)
  moreover have "dropWhile (\<lambda>c. c = CHR ''-'') (rev b @ rev x) = rev x"
    using False assms(2,3) by (subst dropWhile_append2) (auto, cases x rule: rev_cases, auto)
  ultimately show ?thesis by (simp add: trim_dashes_def)
qed

lemma name_of_runs:
  assumes "\<not> alnum (CHR ''-'')"
  shows "universe_name alnum s = join_with ''-'' (map lowered (runs alnum s))"
proof -
  let ?ws = "map lowered (runs alnum s)"
  have plain: "\<forall>w \<in> set (runs alnum s). w \<noteq> [] \<and> CHR ''-'' \<notin> set w"
    using runs_plain [of alnum s] assms by (auto simp: plain_word_def list_all_iff)
  have "hd (join_with ''-'' ?ws) \<noteq> CHR ''-'' \<and> last (join_with ''-'' ?ws) \<noteq> CHR ''-''"
    if "join_with ''-'' ?ws \<noteq> []"
  proof -
    have ne: "runs alnum s \<noteq> []" using that by auto
    have "hd (runs alnum s) \<in> set (runs alnum s)" "last (runs alnum s) \<in> set (runs alnum s)" using ne by simp_all
    with plain have "hd (hd (runs alnum s)) \<noteq> CHR ''-''" "last (last (runs alnum s)) \<noteq> CHR ''-''"
        "hd (runs alnum s) \<noteq> []" "last (runs alnum s) \<noteq> []"
      by (metis hd_in_set, metis last_in_set, auto)
    moreover have "list_all (\<lambda>w. w \<noteq> []) ?ws" using plain by (auto simp: list_all_iff)
    ultimately show ?thesis
      using join_ends [of ?ws "''-''"] ne by (simp add: hd_map last_map lowercase_dash)
  qed
  then show ?thesis
    unfolding universe_name_def name_loop_tail append_Nil name_tail_start [of alnum s] name_tail_runs
    by (intro trim_dashes_between) auto
qed

lemma runs_word:
  assumes "plain_word alnum w" and "rest = [] \<or> \<not> alnum (hd rest)"
  shows "runs alnum (w @ rest) = w # runs alnum rest"
proof -
  have "dropWhile alnum rest = rest" "takeWhile alnum rest = []" using assms(2) by (cases rest; auto)+
  with assms(1) show ?thesis
    by (cases w) (auto simp: plain_word_def list_all_iff takeWhile_append dropWhile_append takeWhile_eq_all_conv)
qed

lemma runs_join:
  assumes "\<not> alnum (CHR ''-'')"
  shows "list_all (plain_word alnum) ws \<Longrightarrow> runs alnum (join_with ''-'' ws) = ws"
proof (induction "''-'' :: string" ws rule: join_with.induct)
  case (2 w)
  then show ?case using runs_word [of alnum w "[]"] by simp
next
  case (3 w v vs)
  have "runs alnum (CHR ''-'' # join_with ''-'' (v # vs)) = v # vs"
    using 3 assms by simp
  with 3 runs_word [of alnum w "CHR ''-'' # join_with ''-'' (v # vs)"] assms show ?case by simp
qed simp

section \<open>Properties\<close>

text \<open>Two markets on one page, and two series of one category, with natural numbers as volumes.\<close>

definition ex_volumes :: "nat float_lib" where
  "ex_volumes =
     \<lparr>fl_parse = parse_digits, fl_zero = 0, fl_half = 0, fl_two = 2, fl_add = (+),
      fl_sub = (\<lambda>a b. (a - b) + (b - a)), fl_div = (div), fl_abs = id, fl_ge = (\<ge>)\<rparr>"

definition ex_traded :: "string \<Rightarrow> string \<Rightarrow> nat Market" where
  "ex_traded t v =
     \<lparr>mk_ticker = t, mk_title = [], mk_status = None, mk_volume_fp = Some v, mk_close_time = None,
      mk_event_ticker = None, mk_open_time = None, mk_settlement_ts = None, mk_occurrence_datetime = None,
      mk_result = None, mk_floor_strike = None, mk_yes_bid_dollars = None, mk_yes_ask_dollars = None,
      mk_last_price_dollars = None, mk_volume_24h_fp = None\<rparr>"

definition ex_listing :: "nat \<Rightarrow> nat market_http" where
  "ex_listing n path q i = Answered 200 (Inr ([ex_traded ''A-1'' ''5'', ex_traded ''B-1'' ''7'', ex_traded ''A-2'' ''9''], None))"

definition ex_series_list :: "Series list" where
  "ex_series_list =
     [\<lparr>sr_ticker = ''S1'', sr_title = [], sr_category = ''c'', sr_frequency = [], sr_tags = None, sr_volume_fp = Some ''4''\<rparr>,
      \<lparr>sr_ticker = ''S2'', sr_title = [], sr_category = ''c'', sr_frequency = [], sr_tags = None, sr_volume_fp = Some ''6''\<rparr>]"

lemma ex_open_page:
  "open_page ex_listing None None 0 None = GotOk ([ex_traded ''A-1'' ''5'', ex_traded ''B-1'' ''7'', ex_traded ''A-2'' ''9''], None)"
  by (simp add: open_page_def list_markets_page_def get_with_retry_def get_loop.simps [of _ 0] ex_listing_def
      status_is_success_def next_cursor_def)

lemma strict_total_nat: "strict_total ((<) :: nat \<Rightarrow> nat \<Rightarrow> bool)"
  by (auto simp: strict_total_def)

text \<open>
  C38. Discovery reads the pages of a walk bounded by the page limit, and its result holds exactly the markets of
  those pages whose ticker or title contains the text, greatest volume first, markets of the same volume in
  the order received. It fails exactly when one of the requests fails. A walk cut off at the limit gives a
  result that looks like a complete one.
\<close>

theorem discover_markets_exact:
  assumes "strict_total tc"
  shows "\<exists>pages fin. page_walk (open_page http status series) 0 (unat max_pages) None pages fin \<and>
    (let kept = filter (discovered lower (lower query)) (concat pages);
         result = discover_markets F tc lower http query series status max_pages
     in case fin of
          Failed e \<Rightarrow> result = GotErr e
        | Panicked \<Rightarrow> result = GotPanic
        | _ \<Rightarrow> \<exists>out. result = GotOk out \<and> mset out = mset kept \<and>
            sorted_wrt (\<lambda>a b. \<not> tc (Market_volume F a) (Market_volume F b)) out \<and>
            (\<forall>v. filter (\<lambda>m. Market_volume F m = v) out = filter (\<lambda>m. Market_volume F m = v) kept))"
proof -
  obtain pages fin where w: "page_walk (open_page http status series) 0 (unat max_pages) None pages fin"
    using page_walk_total by blast
  have "sorted_wrt (\<lambda>a b. \<not> tc (Market_volume F a) (Market_volume F b))
      (sort_by (\<lambda>a b. tc (Market_volume F b) (Market_volume F a)) xs)" for xs
    using sort_by_strict [OF strict_total_flip [OF assms], of "Market_volume F" xs] by simp
  with w show ?thesis
    by (intro exI [of _ pages] exI [of _ fin])
      (auto simp: discover_markets_def discover_pages_walk [OF w] sort_by_stable [OF assms] Let_def split: walk_end.split)
qed

theorem discover_markets_exact_witness:
  "\<exists>out. discover_markets ex_volumes (<) id ex_listing ''A'' None None 3 = GotOk out \<and>
     mset (map mk_ticker out) = {#''A-1'', ''A-2''#} \<and>
     sorted_wrt (\<lambda>a b. Market_volume ex_volumes b \<le> Market_volume ex_volumes a) out"
proof -
  obtain pages fin where w: "page_walk (open_page ex_listing None None) 0 (unat (3 :: u32)) None pages fin"
    and r: "let kept = filter (discovered id (id ''A'')) (concat pages);
         result = discover_markets ex_volumes (<) id ex_listing ''A'' None None 3
     in case fin of
          Failed e \<Rightarrow> result = GotErr e
        | Panicked \<Rightarrow> result = GotPanic
        | _ \<Rightarrow> \<exists>out. result = GotOk out \<and> mset out = mset kept \<and>
            sorted_wrt (\<lambda>a b. \<not> Market_volume ex_volumes a < Market_volume ex_volumes b) out \<and>
            (\<forall>v. filter (\<lambda>m. Market_volume ex_volumes m = v) out = filter (\<lambda>m. Market_volume ex_volumes m = v) kept)"
    using discover_markets_exact [OF strict_total_nat, of ex_listing None None 3 id "''A''" ex_volumes] by blast
  have "unat (3 :: u32) = Suc 2" by simp
  with w have w': "page_walk (open_page ex_listing None None) 0 (Suc 2) None pages fin" by (simp only:)
  have "pages = [[ex_traded ''A-1'' ''5'', ex_traded ''B-1'' ''7'', ex_traded ''A-2'' ''9'']] \<and> fin = Exhausted"
    by (rule page_walk_SucE [OF w']) (simp_all add: ex_open_page)
  then have p: "pages = [[ex_traded ''A-1'' ''5'', ex_traded ''B-1'' ''7'', ex_traded ''A-2'' ''9'']]" "fin = Exhausted"
    by simp_all
  have kept: "filter (discovered id (id ''A'')) (concat pages) = [ex_traded ''A-1'' ''5'', ex_traded ''A-2'' ''9'']"
    unfolding p by code_simp
  obtain out where o: "discover_markets ex_volumes (<) id ex_listing ''A'' None None 3 = GotOk out"
      "mset out = mset [ex_traded ''A-1'' ''5'', ex_traded ''A-2'' ''9'']"
      "sorted_wrt (\<lambda>a b. \<not> Market_volume ex_volumes a < Market_volume ex_volumes b) out"
    using r unfolding Let_def kept p(2) by auto
  have "mset (map mk_ticker out) = image_mset mk_ticker (mset out)" by simp
  also have "\<dots> = {#''A-1'', ''A-2''#}" unfolding o(2) by (simp add: ex_traded_def)
  finally show ?thesis using o(1,3) by (auto simp: not_less)
qed

text \<open>
  The rollup of the catalog lists every category once, with the number of its series and the sum of their volumes
  taken in the order listed, greatest volume first and equal volumes by name; it does not depend on the order
  in which the hash map behind it is traversed.
\<close>

theorem category_rollup_exact:
  assumes "strict_total tc" and "\<And>rows. mset (order rows) = mset rows"
  shows "(let out = category_rollup F tc order series in
    distinct (map fst out) \<and>
    (\<forall>c. map_of out c = (if c \<in> sr_category ` set series then Some (category_total F series c) else None)) \<and>
    sorted_wrt (\<lambda>(c, n, v) (c', n', v'). tc v' v \<or> (v = v' \<and> c < c')) out \<and>
    out = category_rollup F tc id series)"
proof -
  define key where "key = (\<lambda>r :: string \<times> nat \<times> 'a. (snd (snd r), fst r))"
  define rows where "rows = fold (add_series F) series []"
  let ?out = "category_rollup F tc order series"
  note tc = rank_lt_strict_total [OF assms(1)]
  have out: "?out = sort_by (\<lambda>a b. rank_lt tc (key a) (key b)) (order rows)"
    by (simp add: category_rollup_def key_def rows_def)
  have mset: "mset ?out = mset rows" by (simp add: out assms(2))
  have dist: "distinct (map fst rows)" unfolding rows_def using rollup_rows by blast
  have d: "distinct (map fst ?out)"
    using dist mset by (metis mset_eq_imp_distinct_iff mset_map)
  have m: "map_of ?out = map_of rows"
    using map_of_inject_set [OF d dist] mset_eq_setD [OF mset] by simp
  have "mset (map fst (order rows)) = mset (map fst ?out)" unfolding out by simp
  then have "distinct (map fst (order rows))" using d mset_eq_imp_distinct_iff by blast
  then have keys: "distinct (map key (order rows))"
    by (auto simp: key_def distinct_map inj_on_def)
  have "distinct (map key ?out)"
    using d by (auto simp: key_def distinct_map inj_on_def)
  then have "sorted_wrt (\<lambda>a b. rank_lt tc (key a) (key b)) ?out"
    unfolding out using sort_by_strict_distinct [OF tc, of key "order rows"] keys by simp
  then have "sorted_wrt (\<lambda>(c, n, v) (c', n', v'). tc v' v \<or> (v = v' \<and> c < c')) ?out"
    by (simp add: rank_lt_iff [OF assms(1)] key_def case_prod_unfold)
  moreover have "?out = category_rollup F tc id series"
    unfolding out using sort_by_unique [OF tc, of "order rows" rows key] assms(2) keys
    by (simp add: category_rollup_def key_def rows_def)
  ultimately show ?thesis
    using d m rollup_rows [of F series] by (simp add: Let_def rows_def)
qed

theorem category_rollup_exact_witness:
  "category_rollup ex_volumes (<) rev ex_series_list = category_rollup ex_volumes (<) id ex_series_list \<and>
   map_of (category_rollup ex_volumes (<) rev ex_series_list) ''c'' = Some (2, 10)"
proof -
  have total: "category_total ex_volumes ex_series_list ''c'' = (2, 10)" by code_simp
  have mem: "''c'' \<in> sr_category ` set ex_series_list" by (simp add: ex_series_list_def)
  note T = category_rollup_exact [OF strict_total_nat mset_rev, of ex_volumes ex_series_list, unfolded Let_def]
  from T [THEN conjunct2, THEN conjunct1] mem total
  have "map_of (category_rollup ex_volumes (<) rev ex_series_list) ''c'' = Some (2, 10)" by simp
  then show ?thesis using T [THEN conjunct2, THEN conjunct2, THEN conjunct2] by (intro conjI)
qed

text \<open>
  The name derived from a series is the sequence of its alphanumeric runs in lower case, joined by single
  dashes, and deriving a name from a name changes nothing.
\<close>

theorem universe_name_exact:
  assumes "\<not> alnum (CHR ''-'')" and "\<And>c. alnum c \<Longrightarrow> alnum (to_ascii_lowercase c)"
  shows "universe_name alnum s = join_with ''-'' (map lowered (runs alnum s)) \<and>
    universe_name alnum (universe_name alnum s) = universe_name alnum s"
proof -
  have "list_all (plain_word alnum) (map lowered (runs alnum s))"
    using runs_plain [of alnum s] assms(2) by (auto simp: list_all_iff plain_word_def)
  then have "runs alnum (universe_name alnum s) = map lowered (runs alnum s)"
    unfolding name_of_runs [of alnum, OF assms(1)] by (rule runs_join [of alnum, OF assms(1)])
  then show ?thesis
    using name_of_runs [of alnum "universe_name alnum s", OF assms(1)] name_of_runs [of alnum s, OF assms(1)]
    by (simp add: lowercase_twice comp_def)
qed

definition ex_alnum :: "char \<Rightarrow> bool" where
  "ex_alnum c \<longleftrightarrow>
     (let n = (of_char c :: nat) in 48 \<le> n \<and> n \<le> 57 \<or> 65 \<le> n \<and> n \<le> 90 \<or> 97 \<le> n \<and> n \<le> 122)"

theorem universe_name_exact_witness:
  "universe_name ex_alnum ''KDPTEST-A.B12'' = ''kdptest-a-b12'' \<and>
   universe_name ex_alnum (universe_name ex_alnum ''KDPTEST-A.B12'') = ''kdptest-a-b12''"
proof -
  have words: "join_with ''-'' (map lowered (runs ex_alnum ''KDPTEST-A.B12'')) = ''kdptest-a-b12''" by code_simp
  have "\<not> ex_alnum (CHR ''-'')" by (simp add: ex_alnum_def)
  moreover have "ex_alnum (to_ascii_lowercase c)" if "ex_alnum c" for c
    using that by (auto simp: ex_alnum_def to_ascii_lowercase_def Let_def)
  ultimately have T: "universe_name ex_alnum ''KDPTEST-A.B12'' = ''kdptest-a-b12'' \<and>
      universe_name ex_alnum (universe_name ex_alnum ''KDPTEST-A.B12'') = universe_name ex_alnum ''KDPTEST-A.B12''"
    using universe_name_exact [of ex_alnum "''KDPTEST-A.B12''", unfolded words] by blast
  from T [THEN conjunct2] show ?thesis unfolding T [THEN conjunct1] by (intro conjI refl)
qed

end
