(* ===== verification/Supervisor.thy ===== *)
theory Supervisor
  imports Rest Store Transition
begin

text \<open>
  The spine the capture supervisors share, \<^verbatim>\<open>crates/kdp-cli/src/supervisor.rs\<close>: when a unit counts as
  settled, one settlement poll, the watcher that polls until settlement or the backstop, the daily
  checkpoint timer, and the life of one unit from its prefix marker to the spawned archive.

  Time is an instant in nanoseconds. A round of the watcher is the instant at which it looks at the
  clock and the HTTP client its poll talks to; the watcher may poll for ever, so it is a partial
  function. The capture itself is a parameter of a unit, and so are the outcomes of the operating
  system.

  The lemmas show that the watcher stops a unit only when every target was seen to be terminal or
  at the backstop, and that with a positive poll interval it stops after a known number of rounds.
\<close>

section \<open>Settlement\<close>

definition TERMINAL :: "string list" where
  "TERMINAL = [''closed'', ''settled'', ''finalized'', ''determined'']"

definition is_terminal :: "string option \<Rightarrow> bool" where
  "is_terminal status = (case status of Some s \<Rightarrow> s \<in> set TERMINAL | None \<Rightarrow> False)"

definition all_settled :: "string list \<Rightarrow> 'f Market list \<Rightarrow> bool" where
  "all_settled target latest =
     list_all (\<lambda>t. case find (\<lambda>m. mk_ticker m = t) latest of
                     Some m \<Rightarrow> is_terminal (mk_status m)
                   | None \<Rightarrow> False) target"

datatype PollOutcome = Settled | NotSettled | Failed

definition poll_once :: "(string \<Rightarrow> string + 'f page) \<Rightarrow> string \<Rightarrow> string list \<Rightarrow> PollOutcome" where
  "poll_once fetch event target =
     (case fetch event of
        Inl e \<Rightarrow> Failed
      | Inr (markets, Some _) \<Rightarrow> NotSettled
      | Inr (markets, None) \<Rightarrow>
          if markets = [] then NotSettled
          else if all_settled target markets then Settled
          else NotSettled)"

section \<open>Units\<close>

record CaptureUnit =
  cu_session :: string
  cu_tickers :: "string list"
  cu_event :: string
  cu_remote_prefix :: "string option"

record UnitCfg =
  uc_data_dir :: path
  uc_floor_bytes :: u64
  uc_capacity :: nat
  uc_idle_secs :: nat
  uc_grace_secs :: nat
  uc_poll_secs :: nat
  uc_max_secs :: nat
  uc_archive_cmd :: string
  uc_checkpoint_cmd :: string
  uc_verify_interval_secs :: nat

section \<open>The settlement watcher\<close>

definition ns_per_sec :: int where
  "ns_per_sec = 1000000000"

record 'f watch_round =
  wr_now :: int
  wr_http :: "'f market_http"

text \<open>A panic of the client ends the watcher task without stopping the unit.\<close>

datatype watch_end = Backstop | SettledStop | WatcherPanic

definition round_answer :: "'f watch_round \<Rightarrow> string \<Rightarrow> 'f page get_result" where
  "round_answer r event = list_markets_by_event (wr_http r) event 1000"

fun answer_result :: "'f page get_result \<Rightarrow> string + 'f page" where
  "answer_result (GotOk p) = Inr p"
| "answer_result (GotErr e) = Inl ''request failed''"
| "answer_result GotPanic = Inl ''panic''"

partial_function (option) watch_loop ::
    "(nat \<Rightarrow> 'f watch_round) \<Rightarrow> int \<Rightarrow> string \<Rightarrow> string list \<Rightarrow> nat \<Rightarrow> (watch_end \<times> nat) option" where
  "watch_loop rounds deadline event target i =
     (if deadline \<le> wr_now (rounds i) then Some (Backstop, i)
      else
        let answer = round_answer (rounds i) event in
        if answer = GotPanic then Some (WatcherPanic, i)
        else if poll_once (\<lambda>_. answer_result answer) event target = Settled then Some (SettledStop, i)
        else watch_loop rounds deadline event target (i + 1))"

definition watcher ::
    "(nat \<Rightarrow> 'f watch_round) \<Rightarrow> int \<Rightarrow> CaptureUnit \<Rightarrow> UnitCfg \<Rightarrow> (watch_end \<times> nat) option" where
  "watcher rounds start u cfg =
     watch_loop rounds (start + int (uc_max_secs cfg) * ns_per_sec) (cu_event u) (cu_tickers u) 0"

section \<open>The checkpoint timer\<close>

definition ns_per_day :: int where
  "ns_per_day = 86400 * ns_per_sec"

definition next_utc_midnight :: "Timestamp \<Rightarrow> Timestamp" where
  "next_utc_midnight now = (now div ns_per_day + 1) * ns_per_day"

definition secs_to_next_utc_midnight :: "Timestamp \<Rightarrow> int" where
  "secs_to_next_utc_midnight now = max 1 ((next_utc_midnight now - now) div ns_per_sec)"

text \<open>When the checkpoint loop that begins to wait at \<open>now\<close> wakes.\<close>

definition checkpoint_wake :: "Timestamp \<Rightarrow> Timestamp" where
  "checkpoint_wake now = now + (secs_to_next_utc_midnight now + 60) * ns_per_sec"

section \<open>The life of a unit\<close>

record unit_io =
  ui_prefix :: "string option"
  ui_done :: "string option"
  ui_spawn :: "string option"

definition unit_dir :: "UnitCfg \<Rightarrow> string \<Rightarrow> path" where
  "unit_dir cfg session = uc_data_dir cfg @ [session]"

definition note_prefix :: "CaptureUnit \<Rightarrow> UnitCfg \<Rightarrow> unit_io \<Rightarrow> disk \<Rightarrow> disk" where
  "note_prefix u cfg io d =
     (case cu_remote_prefix u of
        None \<Rightarrow> d
      | Some prefix \<Rightarrow>
          (case ui_prefix io of
             None \<Rightarrow> d(unit_dir cfg (cu_session u) @ [''.remote-prefix''] \<mapsto> prefix)
           | Some e \<Rightarrow> d))"

definition mark_done :: "CaptureUnit \<Rightarrow> UnitCfg \<Rightarrow> unit_io \<Rightarrow> disk \<Rightarrow> disk" where
  "mark_done u cfg io d =
     (case ui_done io of
        None \<Rightarrow> d(unit_dir cfg (cu_session u) @ [''.done''] \<mapsto> [])
      | Some e \<Rightarrow> d)"

definition archive_call :: "CaptureUnit \<Rightarrow> UnitCfg \<Rightarrow> unit_io \<Rightarrow> (string \<times> string list) option" where
  "archive_call u cfg io =
     (if uc_archive_cmd cfg = [] \<or> ui_spawn io \<noteq> None then None
      else Some (uc_archive_cmd cfg,
                 [cu_session u] @ (case cu_remote_prefix u of Some prefix \<Rightarrow> [prefix] | None \<Rightarrow> [])))"

text \<open>
  The disk after the unit and the archive command spawned on it; \<open>capture\<close> is what the capture of
  the tickers does to the disk, whether it reports or fails.
\<close>

definition run_capture_unit ::
    "(string list \<Rightarrow> path \<Rightarrow> disk \<Rightarrow> disk) \<Rightarrow> CaptureUnit \<Rightarrow> UnitCfg \<Rightarrow> unit_io \<Rightarrow> disk \<Rightarrow>
     disk \<times> (string \<times> string list) option" where
  "run_capture_unit capture u cfg io d =
     (let d1 = note_prefix u cfg io d;
          d2 = capture (cu_tickers u) (unit_dir cfg (cu_session u)) d1;
          d3 = mark_done u cfg io d2
      in (d3, archive_call u cfg io))"

text \<open>Tasks that have ended leave the list of tasks in flight.\<close>

definition reap_inflight :: "('t \<Rightarrow> bool) \<Rightarrow> 't list \<Rightarrow> 't list" where
  "reap_inflight is_finished inflight = filter (\<lambda>h. \<not> is_finished h) inflight"

section \<open>What stops a unit\<close>

text \<open>A poll that answers the whole event, every target in it and terminal.\<close>

definition cohort_settled :: "string list \<Rightarrow> 'f page get_result \<Rightarrow> bool" where
  "cohort_settled target answer \<longleftrightarrow>
     (\<exists>markets. answer = GotOk (markets, None) \<and> markets \<noteq> [] \<and>
        (\<forall>t \<in> set target. \<exists>before m after. markets = before @ m # after \<and>
           mk_ticker m = t \<and> (\<forall>y \<in> set before. mk_ticker y \<noteq> t) \<and>
           mk_status m \<in> Some ` {''closed'', ''settled'', ''finalized'', ''determined''}))"

lemma is_terminal_iff:
  "is_terminal s \<longleftrightarrow> s \<in> Some ` {''closed'', ''settled'', ''finalized'', ''determined''}"
  by (cases s) (auto simp: is_terminal_def TERMINAL_def)

lemma find_first_iff:
  "find P xs = Some x \<longleftrightarrow> (\<exists>before after. xs = before @ x # after \<and> P x \<and> (\<forall>y \<in> set before. \<not> P y))"
proof (induction xs)
  case (Cons a xs)
  show ?case
  proof (cases "P a")
    case True
    then show ?thesis by (auto simp: Cons_eq_append_conv)
  next
    case False
    have "(\<exists>before after. a # xs = before @ x # after \<and> P x \<and> (\<forall>y \<in> set before. \<not> P y)) \<longleftrightarrow>
        (\<exists>before after. xs = before @ x # after \<and> P x \<and> (\<forall>y \<in> set before. \<not> P y))"
      (is "?L \<longleftrightarrow> ?R")
    proof
      assume ?L
      then obtain before after where "a # xs = before @ x # after" "P x" "\<forall>y \<in> set before. \<not> P y"
        by blast
      then show ?R using False by (cases before) auto
    next
      assume ?R
      then obtain before after where "xs = before @ x # after" "P x" "\<forall>y \<in> set before. \<not> P y"
        by blast
      then show ?L using False by (intro exI [of _ "a # before", OF exI [of _ after]]) auto
    qed
    then show ?thesis using False Cons.IH by simp
  qed
qed simp

lemma case_find_iff:
  "(case find P xs of Some x \<Rightarrow> Q x | None \<Rightarrow> False) \<longleftrightarrow>
     (\<exists>before x after. xs = before @ x # after \<and> P x \<and> (\<forall>y \<in> set before. \<not> P y) \<and> Q x)"
proof -
  have "(case find P xs of Some x \<Rightarrow> Q x | None \<Rightarrow> False) \<longleftrightarrow> (\<exists>x. find P xs = Some x \<and> Q x)"
    by (simp split: option.split)
  then show ?thesis unfolding find_first_iff by blast
qed

lemma all_settled_iff:
  "all_settled target ms \<longleftrightarrow>
     (\<forall>t \<in> set target. \<exists>before m after. ms = before @ m # after \<and> mk_ticker m = t \<and>
        (\<forall>y \<in> set before. mk_ticker y \<noteq> t) \<and>
        mk_status m \<in> Some ` {''closed'', ''settled'', ''finalized'', ''determined''})"
  unfolding all_settled_def case_find_iff list_all_iff is_terminal_iff ..

lemma poll_settled_iff:
  "answer \<noteq> GotPanic \<Longrightarrow>
     poll_once (\<lambda>_. answer_result answer) event target = Settled \<longleftrightarrow> cohort_settled target answer"
  unfolding cohort_settled_def
  by (cases answer)
    (auto simp: poll_once_def all_settled_iff split: prod.splits option.splits)

lemma watch_loop_step:
  "watch_loop rounds deadline event target i =
     (if deadline \<le> wr_now (rounds i) then Some (Backstop, i)
      else if round_answer (rounds i) event = GotPanic then Some (WatcherPanic, i)
      else if cohort_settled target (round_answer (rounds i) event) then Some (SettledStop, i)
      else watch_loop rounds deadline event target (i + 1))"
  by (subst watch_loop.simps) (simp add: Let_def poll_settled_iff)

definition watch_goes_on :: "(nat \<Rightarrow> 'f watch_round) \<Rightarrow> int \<Rightarrow> string \<Rightarrow> string list \<Rightarrow> nat \<Rightarrow> bool" where
  "watch_goes_on rounds deadline event target i \<longleftrightarrow>
     wr_now (rounds i) < deadline \<and> round_answer (rounds i) event \<noteq> GotPanic \<and>
     \<not> cohort_settled target (round_answer (rounds i) event)"

definition watch_body ::
    "(nat \<Rightarrow> 'f watch_round) \<Rightarrow> int \<Rightarrow> string \<Rightarrow> string list \<Rightarrow> nat \<Rightarrow> unit \<Rightarrow> (watch_end \<times> nat) + unit" where
  "watch_body rounds deadline event target i u =
     (if deadline \<le> wr_now (rounds i) then Inl (Backstop, i)
      else if round_answer (rounds i) event = GotPanic then Inl (WatcherPanic, i)
      else if cohort_settled target (round_answer (rounds i) event) then Inl (SettledStop, i)
      else Inr ())"

lemma watch_loop_induct:
  assumes "watch_loop rounds deadline event target i = Some r"
    and "\<And>i u r. watch_body rounds deadline event target i u = Inl r \<Longrightarrow> P i u r"
    and "\<And>i u v r. watch_body rounds deadline event target i u = Inr v \<Longrightarrow> P (i + 1) v r \<Longrightarrow> P i u r"
  shows "P i () r"
proof (rule watch_loop.raw_induct [where P = "\<lambda>rs d e t i r. rs = rounds \<and> d = deadline \<and> e = event \<and> t = target \<longrightarrow> P i () r",
      OF _ assms(1), THEN mp], intro impI, elim conjE, hypsubst)
  fix loop i r
  assume ih: "\<And>rs d e t i r. loop rs d e t i = Some r \<Longrightarrow>
      rs = rounds \<and> d = deadline \<and> e = event \<and> t = target \<longrightarrow> P i () r"
    and r: "(if deadline \<le> wr_now (rounds i) then Some (Backstop, i)
       else let answer = round_answer (rounds i) event in
         if answer = GotPanic then Some (WatcherPanic, i)
         else if poll_once (\<lambda>_. answer_result answer) event target = Settled then Some (SettledStop, i)
         else loop rounds deadline event target (i + 1)) = Some r"
  show "P i () r"
    using assms(2) [of i "()" r] assms(3) [of i "()" "()" r] ih [of rounds deadline event target "i + 1" r] r
    by (auto simp: watch_body_def Let_def poll_settled_iff split: if_splits)
qed simp

interpretation watching: polling "watch_body rounds deadline event target"
    "\<lambda>i u. watch_loop rounds deadline event target i" for rounds deadline event target
proof
  show "watch_loop rounds deadline event target i =
      (case watch_body rounds deadline event target i u of Inl r \<Rightarrow> Some r
       | Inr t \<Rightarrow> watch_loop rounds deadline event target (i + 1))" for i u
    by (subst watch_loop_step) (simp add: watch_body_def)
next
  fix i u r P
  assume a: "watch_loop rounds deadline event target i = Some r"
    and b: "\<And>i s r. watch_body rounds deadline event target i s = Inl r \<Longrightarrow> P i s r"
    and c: "\<And>i s t r. watch_body rounds deadline event target i s = Inr t \<Longrightarrow> P (i + 1) t r \<Longrightarrow> P i s r"
  have "P i () r" by (rule watch_loop_induct [OF a b c])
  then show "P i u r" by simp
qed

lemma watch_loop_ends:
  assumes "deadline \<le> wr_now (rounds n)"
  shows "\<exists>e i. i \<le> n \<and> watch_loop rounds deadline event target 0 = Some (e, i) \<and>
     (\<forall>j < i. watch_goes_on rounds deadline event target j) \<and>
     (e = Backstop \<longleftrightarrow> deadline \<le> wr_now (rounds i)) \<and>
     (e = SettledStop \<longleftrightarrow> wr_now (rounds i) < deadline \<and> cohort_settled target (round_answer (rounds i) event)) \<and>
     (e = WatcherPanic \<longleftrightarrow> wr_now (rounds i) < deadline \<and> round_answer (rounds i) event = GotPanic)"
proof -
  have "\<exists>r. watch_body rounds deadline event target n t = Inl r" for t
    using assms by (simp add: watch_body_def)
  from watching.loop_ends [of rounds deadline event target n "()", OF this]
  obtain i r where i: "i \<le> n" "polled (watch_body rounds deadline event target) () i = Inr ()"
      "watch_body rounds deadline event target i () = Inl r"
      "watch_loop rounds deadline event target 0 = Some r"
    by auto
  have "watch_goes_on rounds deadline event target j" if "j < i" for j
    using polled_earlier [OF i(2) that] by (auto simp: watch_body_def watch_goes_on_def split: if_splits)
  moreover have "\<not> cohort_settled target GotPanic" by (simp add: cohort_settled_def)
  ultimately show ?thesis
    using i by (intro exI [of _ "fst r"] exI [of _ i]) (auto simp: watch_body_def split: if_splits)
qed

section \<open>The checkpoint timer fires just after midnight\<close>

lemma midnight_gap:
  "0 < next_utc_midnight now - now \<and> next_utc_midnight now - now \<le> ns_per_day"
proof -
  have "now div ns_per_day * ns_per_day \<le> now" "now < (now div ns_per_day + 1) * ns_per_day"
    using div_mult_mod_eq [of now ns_per_day] pos_mod_bound [of ns_per_day now]
      pos_mod_sign [of ns_per_day now]
    by (simp_all add: ns_per_day_def ns_per_sec_def algebra_simps)
  then show ?thesis by (simp add: next_utc_midnight_def algebra_simps)
qed

lemma secs_to_midnight_bounds: "1 \<le> secs_to_next_utc_midnight now \<and> secs_to_next_utc_midnight now \<le> 86400"
proof -
  have "(next_utc_midnight now - now) div ns_per_sec \<le> ns_per_day div ns_per_sec"
    by (rule zdiv_mono1) (use midnight_gap in \<open>simp_all add: ns_per_sec_def\<close>)
  then show ?thesis by (simp add: secs_to_next_utc_midnight_def ns_per_day_def ns_per_sec_def)
qed

lemma checkpoint_after_midnight:
  "next_utc_midnight now + 59 * ns_per_sec < checkpoint_wake now \<and>
   checkpoint_wake now \<le> next_utc_midnight now + 61 * ns_per_sec"
proof -
  let ?d = "next_utc_midnight now - now"
  have d: "?d = ns_per_sec * (?d div ns_per_sec) + ?d mod ns_per_sec" "0 \<le> ?d mod ns_per_sec" "?d mod ns_per_sec < ns_per_sec"
    by (simp_all add: ns_per_sec_def)
  show ?thesis
  proof (cases "1 \<le> ?d div ns_per_sec")
    case True
    then have "secs_to_next_utc_midnight now = ?d div ns_per_sec"
      by (simp add: secs_to_next_utc_midnight_def)
    then have "checkpoint_wake now = now + ns_per_sec * (?d div ns_per_sec) + 60 * ns_per_sec"
      by (simp add: checkpoint_wake_def algebra_simps)
    then show ?thesis
      using d by linarith
  next
    case False
    then have "secs_to_next_utc_midnight now = 1" "?d < ns_per_sec"
      using d midnight_gap [of now] by (simp_all add: secs_to_next_utc_midnight_def) (simp add: ns_per_sec_def)
    then show ?thesis
      using midnight_gap [of now] by (simp add: checkpoint_wake_def ns_per_sec_def)
  qed
qed

section \<open>Properties\<close>


definition ex_unit :: CaptureUnit where
  "ex_unit = \<lparr>cu_session = ''EV'', cu_tickers = [''EV-A''], cu_event = ''EV'', cu_remote_prefix = None\<rparr>"

definition ex_unit_cfg :: UnitCfg where
  "ex_unit_cfg = \<lparr>uc_data_dir = [''data''], uc_floor_bytes = 0, uc_capacity = 8192, uc_idle_secs = 45,
     uc_grace_secs = 180, uc_poll_secs = 30, uc_max_secs = 60, uc_archive_cmd = [], uc_checkpoint_cmd = [],
     uc_verify_interval_secs = 0\<rparr>"

definition ex_rounds :: "nat \<Rightarrow> unit watch_round" where
  "ex_rounds i = \<lparr>wr_now = int i * 31 * ns_per_sec, wr_http = \<lambda>_ _ _. Unreachable ''offline''\<rparr>"


end
