(* ===== verification/Event_Time.thy ===== *)
theory Event_Time
  imports Records Command_Line
begin

text \<open>
  The start time a match-style event ticker encodes, \<^verbatim>\<open>crates/kdp-cli/src/event_time.rs\<close>: the first
  segment of the shape \<^verbatim>\<open>YYMONDDHHMM\<close> after the first dash, an Eastern wall-clock time turned into
  UTC by the American daylight-saving rule.

  The proleptic calendar (\<^verbatim>\<open>chrono::NaiveDate\<close>) is the parameter \<open>calendar\<close>: a day is the number of
  days since the epoch, and the calendar gives the day of a date, the year of a day and its weekday
  counted from Monday.
\<close>

record calendar =
  cal_ymd :: "int \<Rightarrow> nat \<Rightarrow> nat \<Rightarrow> int option"
  cal_year :: "int \<Rightarrow> int"
  cal_weekday :: "int \<Rightarrow> nat"
  cal_parse_date :: "string \<Rightarrow> int option"

definition MONTHS :: "string list" where
  "MONTHS = [''JAN'', ''FEB'', ''MAR'', ''APR'', ''MAY'', ''JUN'', ''JUL'', ''AUG'', ''SEP'', ''OCT'', ''NOV'', ''DEC'']"

definition position :: "string \<Rightarrow> string list \<Rightarrow> nat option" where
  "position x xs = (let i = length (takeWhile (\<lambda>y. y \<noteq> x) xs) in if i < length xs then Some i else None)"

definition hour_ns :: int where "hour_ns = 3600 * 1000000000"

definition Sun :: nat where "Sun = 6"

definition nth_weekday :: "calendar \<Rightarrow> int \<Rightarrow> nat \<Rightarrow> nat \<Rightarrow> nat \<Rightarrow> int option" where
  "nth_weekday K year month wd n =
     Option.bind (cal_ymd K year month 1) (\<lambda>first.
       let offset = (7 + int wd - int (cal_weekday K first)) mod 7
       in cal_ymd K year month (1 + nat offset + (n - 1) * 7))"

definition us_eastern_offset_hours :: "calendar \<Rightarrow> int \<Rightarrow> int" where
  "us_eastern_offset_hours K d =
     (case (nth_weekday K (cal_year K d) 3 Sun 2, nth_weekday K (cal_year K d) 11 Sun 1) of
        (Some dst_start, Some dst_end) \<Rightarrow> if dst_start \<le> d \<and> d < dst_end then 4 else 5
      | _ \<Rightarrow> 5)"

text \<open>\<^verbatim>\<open>str::get\<close> of a range of bytes, and whether an index is the start of a character.\<close>

definition continuation :: "char \<Rightarrow> bool" where
  "continuation c \<longleftrightarrow> (let n = (of_char c :: nat) in 128 \<le> n \<and> n < 192)"

definition is_char_boundary :: "string \<Rightarrow> nat \<Rightarrow> bool" where
  "is_char_boundary s i \<longleftrightarrow> i = 0 \<or> i = length s \<or> i < length s \<and> \<not> continuation (s ! i)"

definition str_get :: "string \<Rightarrow> nat \<Rightarrow> nat \<Rightarrow> string option" where
  "str_get s i j =
     (if i \<le> j \<and> j \<le> length s \<and> is_char_boundary s i \<and> is_char_boundary s j
      then Some (take (j - i) (drop i s)) else None)"

definition u32_max :: nat where "u32_max = 2 ^ 32 - 1"

definition parse_field :: "string \<Rightarrow> nat \<Rightarrow> nat \<Rightarrow> nat option" where
  "parse_field seg i j = Option.bind (str_get seg i j) (parse_unsigned u32_max)"

definition parse_segment :: "calendar \<Rightarrow> string \<Rightarrow> Timestamp option" where
  "parse_segment K seg =
     (if length seg < 11 \<or> \<not> is_char_boundary seg 11 then None
      else
        Option.bind (Option.bind (str_get seg 0 2) parse_i64) (\<lambda>yy.
        Option.bind (Option.bind (str_get seg 2 5) (\<lambda>mon_str. position mon_str MONTHS)) (\<lambda>mon.
        Option.bind (parse_field seg 5 7) (\<lambda>dd.
        Option.bind (parse_field seg 7 9) (\<lambda>hh.
        Option.bind (parse_field seg 9 11) (\<lambda>mm.
          if 11 < length seg \<and> is_ascii_digit (seg ! 11) then None
          else if hh > 23 \<or> mm > 59 then None
          else
            Option.bind (cal_ymd K (2000 + yy) (mon + 1) dd) (\<lambda>date.
              Some (date * (24 * hour_ns) + int hh * hour_ns + int mm * (60 * 1000000000) +
                    us_eastern_offset_hours K date * hour_ns))))))))"

text \<open>\<^verbatim>\<open>str::split\<close> at a character.\<close>

fun split_on :: "char \<Rightarrow> string \<Rightarrow> string list" where
  "split_on c [] = [[]]"
| "split_on c (x # xs) =
     (if x = c then [] # split_on c xs
      else (case split_on c xs of [] \<Rightarrow> [[x]] | s # ss \<Rightarrow> (x # s) # ss))"

fun find_map :: "('a \<Rightarrow> 'b option) \<Rightarrow> 'a list \<Rightarrow> 'b option" where
  "find_map f [] = None"
| "find_map f (x # xs) = (case f x of Some y \<Rightarrow> Some y | None \<Rightarrow> find_map f xs)"

definition parse_event_start :: "calendar \<Rightarrow> string \<Rightarrow> Timestamp option" where
  "parse_event_start K event_ticker = find_map (parse_segment K) (drop 1 (split_on (CHR ''-'') event_ticker))"

section \<open>Lemmas\<close>

lemma split_on_nonempty: "split_on c s \<noteq> []"
  by (induction s) (auto split: list.split)

lemma split_on_pieces: "p \<in> set (split_on c s) \<Longrightarrow> c \<notin> set p"
proof (induction s arbitrary: p)
  case (Cons x s)
  then show ?case by (cases "split_on c s") (auto split: if_splits)
qed simp

text \<open>A start is never read from the series, the part before the first dash.\<close>

lemma no_dash_no_start: "CHR ''-'' \<notin> set e \<Longrightarrow> parse_event_start K e = None"
proof -
  assume "CHR ''-'' \<notin> set e"
  then have "split_on (CHR ''-'') e = [e]" by (induction e) auto
  then show ?thesis by (simp add: parse_event_start_def)
qed

text \<open>The UTC start is four or five hours after the Eastern wall-clock time read as UTC.\<close>

lemma parse_segment_shape:
  assumes "parse_segment K seg = Some t"
  shows "\<exists>date h m e. t = date * (24 * hour_ns) + int h * hour_ns + int m * (60 * 1000000000) + e * hour_ns \<and>
     h \<le> 23 \<and> m \<le> 59 \<and> (e = 4 \<or> e = 5)"
proof -
  have off: "us_eastern_offset_hours K d = 4 \<or> us_eastern_offset_hours K d = 5" for d
    by (auto simp: us_eastern_offset_hours_def split: option.split)
  from assms obtain date hh mm where "\<not> (hh > 23 \<or> mm > 59)"
    "t = date * (24 * hour_ns) + int hh * hour_ns + int mm * (60 * 1000000000) +
       us_eastern_offset_hours K date * hour_ns"
    by (auto simp: parse_segment_def bind_eq_Some_conv split: if_splits)
  then show ?thesis using off [of date] by (intro exI) auto
qed

end
