(* ===== verification/Universe.thy ===== *)
theory Universe
  imports Supervisor Event_Time Transition
begin

text \<open>
  The breadth supervisor \<^verbatim>\<open>crates/kdp-cli/src/universe.rs\<close>: the sweep of every series and status, the
  grouping of markets into settlement cohorts, the admission gate, the plan of one sweep under the
  unit cap, and the arming loop as a machine over sweeps and the ends of units.

  Parameters: the HTTP client, the parser of instants, the calendar, the floating-point volume
  filter, and what a capture does to the disk. Warnings are the sets of events warned of once.

  The specification of a plan is \<open>plan_spec\<close>, a reading of the design as filters over the cohorts; the
  lemmas show that the budgeted loop computes it, that grouping loses no market, and that the
  arming loop keeps within its cap and does not arm an event twice as long as its marker stands.
\<close>

section \<open>Cohorts\<close>

record Cohort =
  co_series :: string
  co_tickers :: "string list"
  co_open :: "Timestamp option"
  co_close :: "Timestamp option"
  co_inferred_start :: "Timestamp option"

datatype Cadence = Hourly | Daily | Weekly | Long | Other

definition num_minutes :: "int \<Rightarrow> int" where
  "num_minutes d = sgn d * (\<bar>d\<bar> div (60 * ns_per_sec))"

definition cadence :: "Timestamp option \<Rightarrow> Timestamp option \<Rightarrow> Cadence" where
  "cadence open_time close_time =
     (case (open_time, close_time) of
        (Some op, Some cl) \<Rightarrow>
          let mins = num_minutes (cl - op) in
          if 50 \<le> mins \<and> mins \<le> 70 then Hourly
          else if 1380 \<le> mins \<and> mins \<le> 1620 then Daily
          else if 9360 \<le> mins \<and> mins \<le> 10860 then Weekly
          else if mins > 10860 then Long
          else Other
      | _ \<Rightarrow> Other)"

definition parse_rfc3339 :: "rest_lib \<Rightarrow> string option \<Rightarrow> Timestamp option" where
  "parse_rfc3339 L s =
     Option.bind s (\<lambda>x. case rl_parse_utc L x of Inr t \<Rightarrow> Some t | Inl _ \<Rightarrow> None)"

fun dedup_loop :: "string set \<Rightarrow> 'f Market list \<Rightarrow> 'f Market list" where
  "dedup_loop seen [] = []"
| "dedup_loop seen (m # ms) =
     (if mk_ticker m \<in> seen then dedup_loop seen ms
      else m # dedup_loop (insert (mk_ticker m) seen) ms)"

definition dedup_by_ticker :: "'f Market list \<Rightarrow> 'f Market list" where
  "dedup_by_ticker markets = dedup_loop {} markets"

definition market_event :: "'f Market \<Rightarrow> string option" where
  "market_event m = opt_or (mk_event_ticker m) (map_option fst (rsplit_once (CHR ''-'') (mk_ticker m)))"

definition opt_merge :: "('a \<Rightarrow> 'a \<Rightarrow> 'a) \<Rightarrow> 'a option \<Rightarrow> 'a option \<Rightarrow> 'a option" where
  "opt_merge f a b =
     (case (a, b) of (Some x, Some y) \<Rightarrow> Some (f x y) | _ \<Rightarrow> opt_or a b)"

definition new_cohort :: "calendar \<Rightarrow> string \<Rightarrow> string \<Rightarrow> Cohort" where
  "new_cohort K series event =
     \<lparr>co_series = series, co_tickers = [], co_open = None, co_close = None,
      co_inferred_start = parse_event_start K event\<rparr>"

definition add_market :: "rest_lib \<Rightarrow> 'f Market \<Rightarrow> Cohort \<Rightarrow> Cohort" where
  "add_market L m c =
     c\<lparr>co_open := opt_merge min (co_open c) (parse_rfc3339 L (mk_open_time m)),
       co_close := opt_merge max (co_close c) (parse_rfc3339 L (mk_close_time m)),
       co_tickers := co_tickers c @ [mk_ticker m]\<rparr>"

definition group_market ::
    "rest_lib \<Rightarrow> calendar \<Rightarrow> string \<Rightarrow> 'f Market \<Rightarrow> (string, Cohort) omap \<Rightarrow> (string, Cohort) omap" where
  "group_market L K series m groups =
     (if is_terminal (mk_status m) then groups
      else
        case market_event m of
          None \<Rightarrow> groups
        | Some event \<Rightarrow>
            let entry = (case om_get groups event of Some c \<Rightarrow> c | None \<Rightarrow> new_cohort K series event)
            in om_insert event (add_market L m entry) groups)"

definition group_by_event ::
    "rest_lib \<Rightarrow> calendar \<Rightarrow> string \<Rightarrow> 'f Market list \<Rightarrow> (string, Cohort) omap" where
  "group_by_event L K series markets = fold (group_market L K series) markets []"

section \<open>The plan of a sweep\<close>

record ArmPlan =
  ap_arm :: "(string \<times> Cohort) list"
  ap_capped :: "string list"
  ap_deferred :: "string list"
  ap_skipped :: "string list"
  ap_no_start :: "string list"

definition ArmPlan_default :: ArmPlan where
  "ArmPlan_default = \<lparr>ap_arm = [], ap_capped = [], ap_deferred = [], ap_skipped = [], ap_no_start = []\<rparr>"

record GateCfg =
  gc_now :: Timestamp
  gc_arm_lead :: int
  gc_clash_sub :: bool
  gc_until :: "Timestamp option"

text \<open>\<open>Admit True\<close> arms with the loud fallback of a windowed run.\<close>

datatype admission = Admit bool | Defer | Skip

definition admission_gate :: "GateCfg \<Rightarrow> Cohort \<Rightarrow> admission" where
  "admission_gate gate cohort =
     (case co_inferred_start cohort of
        Some start \<Rightarrow> if gc_now gate < start - gc_arm_lead gate then Defer else Admit False
      | None \<Rightarrow>
          let cad = cadence (co_open cohort) (co_close cohort) in
          if cad = Daily \<or> cad = Weekly then
            (if gc_clash_sub gate then
               (case co_close cohort of
                  Some c \<Rightarrow> if gc_now gate \<ge> c - 70 * 60 * ns_per_sec then Admit False else Defer
                | None \<Rightarrow> Admit False)
             else Skip)
          else if cad = Long then Skip
          else if (case co_open cohort of Some op \<Rightarrow> gc_now gate < op - gc_arm_lead gate | None \<Rightarrow> False)
          then Defer
          else Admit (cad = Other \<and> gc_until gate \<noteq> None))"

definition marked :: "disk \<Rightarrow> path \<Rightarrow> string \<Rightarrow> bool" where
  "marked d data_dir event \<longleftrightarrow>
     d (data_dir @ [event, ''.done'']) \<noteq> None \<or> d (data_dir @ [event, ''.archived'']) \<noteq> None"

fun plan_loop ::
    "string set \<Rightarrow> disk \<Rightarrow> path \<Rightarrow> GateCfg \<Rightarrow> (string \<times> Cohort) list \<Rightarrow> nat \<Rightarrow> ArmPlan \<Rightarrow> ArmPlan" where
  "plan_loop in_flight d data_dir gate [] budget plan = plan"
| "plan_loop in_flight d data_dir gate ((event, cohort) # groups) budget plan =
     (if event \<in> in_flight then plan_loop in_flight d data_dir gate groups budget plan
      else if marked d data_dir event then plan_loop in_flight d data_dir gate groups budget plan
      else
        case admission_gate gate cohort of
          Defer \<Rightarrow>
            plan_loop in_flight d data_dir gate groups budget (plan\<lparr>ap_deferred := ap_deferred plan @ [event]\<rparr>)
        | Skip \<Rightarrow>
            plan_loop in_flight d data_dir gate groups budget (plan\<lparr>ap_skipped := ap_skipped plan @ [event]\<rparr>)
        | Admit is_no_start \<Rightarrow>
            let plan = (if is_no_start then plan\<lparr>ap_no_start := ap_no_start plan @ [event]\<rparr> else plan) in
            if budget = 0 then
              plan_loop in_flight d data_dir gate groups budget (plan\<lparr>ap_capped := ap_capped plan @ [event]\<rparr>)
            else
              plan_loop in_flight d data_dir gate groups (budget - 1)
                (plan\<lparr>ap_arm := ap_arm plan @ [(event, cohort)]\<rparr>))"

definition plan_arms ::
    "(string, Cohort) omap \<Rightarrow> string set \<Rightarrow> disk \<Rightarrow> path \<Rightarrow> nat \<Rightarrow> GateCfg \<Rightarrow> ArmPlan" where
  "plan_arms groups in_flight d data_dir max_units gate =
     plan_loop in_flight d data_dir gate groups (max_units - card in_flight) ArmPlan_default"

section \<open>The window\<close>

definition parse_window ::
    "(string \<Rightarrow> string) \<Rightarrow> rest_lib \<Rightarrow> calendar \<Rightarrow> Args \<Rightarrow> Timestamp \<Rightarrow> string + Timestamp option" where
  "parse_window dbg L K args now =
     (case (Args_get args ''until'', Args_get args ''for'') of
        (Some _, Some _) \<Rightarrow> Inl ''--until and --for are mutually exclusive''
      | (None, None) \<Rightarrow> Inr None
      | (Some s, None) \<Rightarrow>
          (case rl_parse_utc L s of
             Inr dt \<Rightarrow> Inr (Some dt)
           | Inl _ \<Rightarrow>
               (case cal_parse_date K s of
                  Some day \<Rightarrow>
                    let next = (day + 1) * ns_per_day in
                    if micros_ok (next div 1000) then Inr (Some next)
                    else Inl (''--until must be RFC3339 or YYYY-MM-DD (got '' @ s @ '')'')
                | None \<Rightarrow> Inl (''--until must be RFC3339 or YYYY-MM-DD (got '' @ s @ '')'')))
      | (None, Some s) \<Rightarrow>
          (case parse_duration dbg s of
             Inl e \<Rightarrow> Inl ''--for must be a duration like 14d / 36h''
           | Inr d \<Rightarrow>
               if d = 0 then Inl ''--for must be a positive duration''
               else
                 let bound = now + int d * ns_per_sec in
                 if micros_ok (bound div 1000) then Inr (Some bound)
                 else Inl ''--for is out of range''))"

text \<open>\<open>env_remote\<close> is the environment variable; a prefix is refused only when something uploads.\<close>

definition strip_slashes :: "string \<Rightarrow> string" where
  "strip_slashes s = rev (dropWhile (\<lambda>c. c = CHR ''/'') (rev s))"

definition resolve_remote_prefix :: "string option \<Rightarrow> string \<Rightarrow> string \<Rightarrow> string \<Rightarrow> string + string option" where
  "resolve_remote_prefix env_remote name archive_cmd checkpoint_cmd =
     (case Option.bind (map_option trim env_remote) (\<lambda>s. if s = [] then None else Some s) of
        Some r \<Rightarrow> Inr (Some (strip_slashes r @ ''/universe-'' @ name))
      | None \<Rightarrow>
          if archive_cmd = [] \<and> checkpoint_cmd = [] then Inr None
          else Inl ''KDP_RCLONE_REMOTE must be set when --archive-cmd/--checkpoint-cmd are enabled (the universe namespace is $KDP_RCLONE_REMOTE/universe-<name>); set it, or pass --archive-cmd \"\" for a local-only run'')"

section \<open>The sweep\<close>

record 'f universe_cfg =
  vc_series :: "string list"
  vc_statuses :: "string list"
  vc_min_volume :: 'f
  vc_rediscover :: nat
  vc_max_units :: nat
  vc_unit :: UnitCfg
  vc_arm_lead_min :: int
  vc_clash_sub :: bool
  vc_until :: "Timestamp option"
  vc_remote_prefix :: "string option"

type_synonym 'f sweep_http = "string \<Rightarrow> string \<Rightarrow> nat \<Rightarrow> 'f market_http"

definition MAX_PAGES :: nat where "MAX_PAGES = 30"

fun sweep_pages ::
    "'f sweep_http \<Rightarrow> string \<Rightarrow> string \<Rightarrow> nat \<Rightarrow> string option \<Rightarrow> 'f Market list \<Rightarrow> 'f Market list get_result" where
  "sweep_pages http series status 0 cursor found = GotOk found"
| "sweep_pages http series status (Suc left) cursor found =
     (case list_markets_page (http series status (MAX_PAGES - left)) 1000 (Some status) (Some series) None None cursor of
        GotErr e \<Rightarrow> GotErr e
      | GotPanic \<Rightarrow> GotPanic
      | GotOk (markets, next) \<Rightarrow>
          (case next of
             Some c \<Rightarrow> sweep_pages http series status left (Some c) (found @ markets)
           | None \<Rightarrow> GotOk (found @ markets)))"

definition sweep_series :: "'f sweep_http \<Rightarrow> string \<Rightarrow> string \<Rightarrow> 'f Market list get_result" where
  "sweep_series http series status = sweep_pages http series status MAX_PAGES None []"

text \<open>A panic of the client ends the sweep, and the supervisor with it.\<close>

fun sweep_statuses ::
    "'f float_lib \<Rightarrow> 'f universe_cfg \<Rightarrow> 'f sweep_http \<Rightarrow> string \<Rightarrow> string list \<Rightarrow> 'f Market list \<Rightarrow>
     'f Market list option" where
  "sweep_statuses F C http s [] markets = Some markets"
| "sweep_statuses F C http s (st # statuses) markets =
     (case sweep_series http s st of
        GotPanic \<Rightarrow> None
      | GotErr e \<Rightarrow> sweep_statuses F C http s statuses markets
      | GotOk ms \<Rightarrow>
          sweep_statuses F C http s statuses
            (markets @ (if st \<noteq> ''unopened'' then filter (\<lambda>m. fl_ge F (Market_volume F m) (vc_min_volume C)) ms
                        else ms)))"

fun sweep_all ::
    "'f float_lib \<Rightarrow> rest_lib \<Rightarrow> calendar \<Rightarrow> 'f universe_cfg \<Rightarrow> 'f sweep_http \<Rightarrow> string list \<Rightarrow>
     (string, Cohort) omap \<Rightarrow> (string, Cohort) omap option" where
  "sweep_all F L K C http [] groups = Some groups"
| "sweep_all F L K C http (s # series) groups =
     (case sweep_statuses F C http s (vc_statuses C) [] of
        None \<Rightarrow> None
      | Some markets \<Rightarrow>
          sweep_all F L K C http series
            (fold (\<lambda>(event, cohort). om_insert event cohort)
               (group_by_event L K s (dedup_by_ticker markets)) groups))"

section \<open>The arming loop\<close>

record unit_task =
  ut_unit :: CaptureUnit
  ut_cfg :: UnitCfg
  ut_finished :: bool

datatype universe_phase = Arming | Bounded | ShutDown | Crashed

text \<open>
  \<open>us_armed\<close> and \<open>us_unmarked\<close> are history: the sessions armed so far, and those whose marker could not
  be written or was removed from outside.
\<close>

record universe =
  us_inflight :: "unit_task list"
  us_disk :: disk
  us_warned_skip :: "string list"
  us_warned_no_start :: "string list"
  us_phase :: universe_phase
  us_armed :: "string list"
  us_unmarked :: "string set"

text \<open>
  One turn of the loop reads the shutdown flag and the clock; \<open>URound\<close> carries them with the answers
  of the sweep, the instant the gate reads and the instant read before each unit is armed.
\<close>

datatype 'f universe_input =
    URound bool Timestamp "'f sweep_http" Timestamp "nat \<Rightarrow> Timestamp"
  | UUnitEnds string unit_io
  | UArchived string
  | UMarkersRemoved string

definition universe_start :: "disk \<Rightarrow> universe" where
  "universe_start d =
     \<lparr>us_inflight = [], us_disk = d, us_warned_skip = [], us_warned_no_start = [], us_phase = Arming,
      us_armed = [], us_unmarked = {}\<rparr>"

definition session_of :: "unit_task \<Rightarrow> string" where
  "session_of t = cu_session (ut_unit t)"

definition unit_task_for :: "'f universe_cfg \<Rightarrow> Timestamp \<Rightarrow> string \<times> Cohort \<Rightarrow> unit_task" where
  "unit_task_for C now = (\<lambda>(session, cohort).
     \<lparr>ut_unit = \<lparr>cu_session = session, cu_tickers = co_tickers cohort, cu_event = session,
                 cu_remote_prefix = vc_remote_prefix C\<rparr>,
      ut_cfg = (case vc_until C of
                  None \<Rightarrow> vc_unit C
                | Some u \<Rightarrow> (vc_unit C)\<lparr>uc_max_secs := nat (max 60 (sgn (u - now) * (\<bar>u - now\<bar> div ns_per_sec)))\<rparr>),
      ut_finished = False\<rparr>)"

definition warn_once :: "string list \<Rightarrow> string list \<Rightarrow> string list" where
  "warn_once events warned = fold (\<lambda>e w. if e \<in> set w then w else w @ [e]) events warned"

definition arm_all :: "'f universe_cfg \<Rightarrow> (nat \<Rightarrow> Timestamp) \<Rightarrow> (string \<times> Cohort) list \<Rightarrow> unit_task list" where
  "arm_all C clock arms = map (\<lambda>(i, a). unit_task_for C (clock i) a) (enumerate 0 arms)"

definition gate_of :: "'f universe_cfg \<Rightarrow> Timestamp \<Rightarrow> GateCfg" where
  "gate_of C now =
     \<lparr>gc_now = now, gc_arm_lead = vc_arm_lead_min C * 60 * ns_per_sec, gc_clash_sub = vc_clash_sub C,
      gc_until = vc_until C\<rparr>"

definition universe_round ::
    "'f float_lib \<Rightarrow> rest_lib \<Rightarrow> calendar \<Rightarrow> 'f universe_cfg \<Rightarrow> 'f sweep_http \<Rightarrow> Timestamp \<Rightarrow> (nat \<Rightarrow> Timestamp) \<Rightarrow>
     universe \<Rightarrow> universe" where
  "universe_round F L K C http now clock s =
     (let kept = reap_inflight ut_finished (us_inflight s) in
      case sweep_all F L K C http (vc_series C) [] of
        None \<Rightarrow> s\<lparr>us_inflight := kept, us_phase := Crashed\<rparr>
      | Some groups \<Rightarrow>
          let plan = plan_arms groups (set (map session_of kept)) (us_disk s) (uc_data_dir (vc_unit C))
                       (vc_max_units C) (gate_of C now)
          in s\<lparr>us_inflight := kept @ arm_all C clock (ap_arm plan),
               us_warned_skip := warn_once (ap_skipped plan) (us_warned_skip s),
               us_warned_no_start := warn_once (ap_no_start plan) (us_warned_no_start s),
               us_armed := us_armed s @ map fst (ap_arm plan)\<rparr>)"

definition remove_markers :: "path \<Rightarrow> string \<Rightarrow> disk \<Rightarrow> disk" where
  "remove_markers data_dir event d =
     d(data_dir @ [event, ''.done''] := None, data_dir @ [event, ''.archived''] := None)"

definition end_unit ::
    "(string list \<Rightarrow> path \<Rightarrow> disk \<Rightarrow> disk) \<Rightarrow> 'f universe_cfg \<Rightarrow> string \<Rightarrow> unit_io \<Rightarrow> unit_task \<Rightarrow> universe \<Rightarrow> universe" where
  "end_unit capture C session io t s =
     s\<lparr>us_disk := fst (run_capture_unit capture (ut_unit t) (ut_cfg t) io (us_disk s)),
       us_inflight := map (\<lambda>u. if session_of u = session then u\<lparr>ut_finished := True\<rparr> else u) (us_inflight s),
       us_unmarked := (if ui_done io = None then us_unmarked s else insert session (us_unmarked s))\<rparr>"

fun universe_step ::
    "(string list \<Rightarrow> path \<Rightarrow> disk \<Rightarrow> disk) \<Rightarrow> 'f float_lib \<Rightarrow> rest_lib \<Rightarrow> calendar \<Rightarrow> 'f universe_cfg \<Rightarrow>
     'f universe_input \<Rightarrow> universe \<Rightarrow> universe option" where
  "universe_step capture F L K C (URound shutdown now0 http now clock) s =
     (if us_phase s \<noteq> Arming then None
      else if shutdown then Some (s\<lparr>us_phase := ShutDown\<rparr>)
      else if (case vc_until C of Some u \<Rightarrow> u \<le> now0 | None \<Rightarrow> False) then Some (s\<lparr>us_phase := Bounded\<rparr>)
      else Some (universe_round F L K C http now clock s))"
| "universe_step capture F L K C (UUnitEnds session io) s =
     (case find (\<lambda>t. session_of t = session \<and> \<not> ut_finished t) (us_inflight s) of
        None \<Rightarrow> None
      | Some t \<Rightarrow> Some (end_unit capture C session io t s))"
| "universe_step capture F L K C (UArchived session) s =
     Some (s\<lparr>us_disk := (us_disk s)(uc_data_dir (vc_unit C) @ [session, ''.archived''] \<mapsto> [])\<rparr>)"
| "universe_step capture F L K C (UMarkersRemoved session) s =
     Some (s\<lparr>us_disk := remove_markers (uc_data_dir (vc_unit C)) session (us_disk s),
             us_unmarked := insert session (us_unmarked s)\<rparr>)"

text \<open>The seconds the loop sleeps at \<open>now\<close>: the interval, or the time to the bound rounded up.\<close>

definition sleep_secs :: "'f universe_cfg \<Rightarrow> Timestamp \<Rightarrow> nat" where
  "sleep_secs C now =
     (case vc_until C of
        None \<Rightarrow> vc_rediscover C
      | Some u \<Rightarrow>
          let ms = sgn (u - now) * (\<bar>u - now\<bar> div 1000000);
              to_bound = sgn (ms + 999) * (\<bar>ms + 999\<bar> div 1000)
          in min (vc_rediscover C) (nat (max 1 to_bound)))"

section \<open>Grouping\<close>

text \<open>The markets of a sweep that belong to an event.\<close>

definition own_markets :: "string \<Rightarrow> 'f Market list \<Rightarrow> 'f Market list" where
  "own_markets event ms = filter (\<lambda>m. \<not> is_terminal (mk_status m) \<and> market_event m = Some event) ms"

lemma opt_merge_simps [simp]:
  "opt_merge f None b = b" "opt_merge f a None = a" "opt_merge f (Some x) (Some y) = Some (f x y)"
  by (cases a) (auto simp: opt_merge_def split: option.split)

definition merged :: "('a \<Rightarrow> 'a \<Rightarrow> 'a) \<Rightarrow> ('m \<Rightarrow> 'a option) \<Rightarrow> 'm list \<Rightarrow> 'a option" where
  "merged f g ms = fold (\<lambda>m a. opt_merge f a (g m)) ms None"

definition cohort_of :: "rest_lib \<Rightarrow> calendar \<Rightarrow> string \<Rightarrow> string \<Rightarrow> 'f Market list \<Rightarrow> Cohort" where
  "cohort_of L K series event own =
     \<lparr>co_series = series, co_tickers = map mk_ticker own,
      co_open = merged min (parse_rfc3339 L \<circ> mk_open_time) own,
      co_close = merged max (parse_rfc3339 L \<circ> mk_close_time) own,
      co_inferred_start = parse_event_start K event\<rparr>"

lemma add_market_cohort:
  "add_market L m (cohort_of L K series event own) = cohort_of L K series event (own @ [m])"
  by (simp add: add_market_def cohort_of_def merged_def)

lemma add_market_new: "add_market L m (new_cohort K series event) = cohort_of L K series event [m]"
  by (simp add: add_market_def new_cohort_def cohort_of_def merged_def)

lemma group_get_wf:
  "om_wf (group_by_event L K series ms) \<and>
   om_get (group_by_event L K series ms) event =
     (if own_markets event ms = [] then None else Some (cohort_of L K series event (own_markets event ms)))"
proof (induction ms arbitrary: event rule: rev_induct)
  case Nil
  then show ?case by (simp add: group_by_event_def own_markets_def)
next
  case (snoc m ms)
  let ?g = "group_by_event L K series ms"
  have step: "group_by_event L K series (ms @ [m]) = group_market L K series m ?g"
    by (simp add: group_by_event_def)
  show ?case
  proof (cases "is_terminal (mk_status m) \<or> market_event m = None")
    case True
    then show ?thesis using snoc step by (auto simp: group_market_def own_markets_def)
  next
    case False
    then obtain e where e: "market_event m = Some e" "\<not> is_terminal (mk_status m)" by auto
    have wf: "om_wf ?g" using snoc by blast
    have own: "own_markets event (ms @ [m]) = own_markets event ms @ (if e = event then [m] else [])"
      using e by (simp add: own_markets_def)
    from snoc [of event] show ?thesis
      using e wf by (auto simp: step group_market_def own om_get_insert add_market_cohort add_market_new)
  qed
qed

text \<open>The merged instants are the earliest and the latest.\<close>

lemma map_filter_snoc:
  "List.map_filter g (ms @ [m]) = List.map_filter g ms @ (case g m of Some x \<Rightarrow> [x] | None \<Rightarrow> [])"
  by (simp add: List.map_filter_def split: option.split)

lemma merged_fold:
  assumes "\<And>x y. f x y = f y x"
  shows "merged f g ms = (case List.map_filter g ms of [] \<Rightarrow> None | t # ts \<Rightarrow> Some (fold f ts t))"
proof (induction ms rule: rev_induct)
  case Nil
  then show ?case by (simp add: merged_def List.map_filter_def)
next
  case (snoc m ms)
  have "merged f g (ms @ [m]) = opt_merge f (merged f g ms) (g m)" by (simp add: merged_def)
  then show ?case
    using snoc assms by (cases "g m"; cases "List.map_filter g ms") (simp_all add: map_filter_snoc)
qed

lemma merged_min:
  fixes g :: "'m \<Rightarrow> ('a :: linorder) option"
  shows "merged min g ms = (let ts = List.map_filter g ms in if ts = [] then None else Some (Min (set ts)))"
  by (subst merged_fold) (auto simp: Min.set_eq_fold min.commute simp del: set_simps split: list.split)

lemma merged_max:
  fixes g :: "'m \<Rightarrow> ('a :: linorder) option"
  shows "merged max g ms = (let ts = List.map_filter g ms in if ts = [] then None else Some (Max (set ts)))"
  by (subst merged_fold) (auto simp: Max.set_eq_fold max.commute simp del: set_simps split: list.split)

text \<open>Each ticker keeps its first market.\<close>

lemma dedup_tickers: "mk_ticker ` set (dedup_loop seen ms) = mk_ticker ` set ms - seen"
  by (induction seen ms rule: dedup_loop.induct) auto

lemma dedup_distinct: "distinct (map mk_ticker (dedup_loop seen ms))"
  by (induction seen ms rule: dedup_loop.induct) (auto simp: dedup_tickers)

lemma dedup_find:
  "find (\<lambda>m. mk_ticker m = t) (dedup_loop seen ms) =
     (if t \<in> seen then None else find (\<lambda>m. mk_ticker m = t) ms)"
  by (induction seen ms rule: dedup_loop.induct) auto

section \<open>The plan\<close>

definition eligible ::
    "(string, Cohort) omap \<Rightarrow> string set \<Rightarrow> disk \<Rightarrow> path \<Rightarrow> GateCfg \<Rightarrow> admission set \<Rightarrow> (string \<times> Cohort) list" where
  "eligible groups in_flight d data_dir gate verdicts =
     filter (\<lambda>(event, cohort). event \<notin> in_flight \<and> \<not> marked d data_dir event \<and>
        admission_gate gate cohort \<in> verdicts) groups"

text \<open>The plan as the design states it.\<close>

definition plan_spec ::
    "(string, Cohort) omap \<Rightarrow> string set \<Rightarrow> disk \<Rightarrow> path \<Rightarrow> nat \<Rightarrow> GateCfg \<Rightarrow> ArmPlan" where
  "plan_spec groups in_flight d data_dir budget gate =
     (let admitted = eligible groups in_flight d data_dir gate {Admit True, Admit False} in
      \<lparr>ap_arm = take budget admitted,
       ap_capped = map fst (drop budget admitted),
       ap_deferred = map fst (eligible groups in_flight d data_dir gate {Defer}),
       ap_skipped = map fst (eligible groups in_flight d data_dir gate {Skip}),
       ap_no_start = map fst (eligible groups in_flight d data_dir gate {Admit True})\<rparr>)"

definition plan_add :: "ArmPlan \<Rightarrow> ArmPlan \<Rightarrow> ArmPlan" where
  "plan_add p q =
     \<lparr>ap_arm = ap_arm p @ ap_arm q, ap_capped = ap_capped p @ ap_capped q,
      ap_deferred = ap_deferred p @ ap_deferred q, ap_skipped = ap_skipped p @ ap_skipped q,
      ap_no_start = ap_no_start p @ ap_no_start q\<rparr>"

lemma eligible_simps [simp]:
  "eligible [] in_flight d data_dir gate vs = []"
  "eligible ((event, cohort) # groups) in_flight d data_dir gate vs =
     (if event \<notin> in_flight \<and> \<not> marked d data_dir event \<and> admission_gate gate cohort \<in> vs
      then [(event, cohort)] else []) @ eligible groups in_flight d data_dir gate vs"
  by (simp_all add: eligible_def)

lemma plan_loop_spec:
  "plan_loop in_flight d data_dir gate groups budget plan =
     plan_add plan (plan_spec groups in_flight d data_dir budget gate)"
proof (induction groups arbitrary: budget plan)
  case Nil
  then show ?case by (simp add: plan_spec_def plan_add_def)
next
  case (Cons g groups)
  obtain event cohort where g: "g = (event, cohort)" by fastforce
  show ?case
  proof (cases "event \<in> in_flight \<or> marked d data_dir event")
    case True
    then show ?thesis by (auto simp: g Cons.IH plan_spec_def Let_def)
  next
    case False
    show ?thesis
    proof (cases "admission_gate gate cohort")
      case (Admit b)
      with False show ?thesis
        by (cases budget; cases b) (simp_all add: g Cons.IH plan_spec_def plan_add_def Let_def)
    qed (use False in \<open>simp_all add: g Cons.IH plan_spec_def plan_add_def Let_def\<close>)
  qed
qed

lemma plan_arms_spec:
  "plan_arms groups in_flight d data_dir max_units gate =
     plan_spec groups in_flight d data_dir (max_units - card in_flight) gate"
  by (simp add: plan_arms_def plan_loop_spec ArmPlan_default_def plan_add_def)

lemma eligible_sub: "set (map fst (eligible groups in_flight d data_dir gate vs)) \<subseteq> fst ` set groups"
  by (auto simp: eligible_def)

lemma eligible_distinct: "om_wf groups \<Longrightarrow> distinct (map fst (eligible groups in_flight d data_dir gate vs))"
  unfolding eligible_def by (intro distinct_map_filter om_wf_distinct)

lemma eligible_fresh:
  "(e, c) \<in> set (eligible groups in_flight d data_dir gate vs) \<Longrightarrow>
     e \<notin> in_flight \<and> \<not> marked d data_dir e \<and> (e, c) \<in> set groups \<and> admission_gate gate c \<in> vs"
  by (auto simp: eligible_def)

lemma plan_armed:
  assumes "om_wf groups" and "plan = plan_arms groups in_flight d data_dir max_units gate"
  shows "length (ap_arm plan) \<le> max_units - card in_flight \<and> distinct (map fst (ap_arm plan)) \<and>
     (\<forall>e \<in> set (map fst (ap_arm plan)). e \<notin> in_flight \<and> \<not> marked d data_dir e)"
proof -
  let ?adm = "eligible groups in_flight d data_dir gate {Admit True, Admit False}"
  have arm: "ap_arm plan = take (max_units - card in_flight) ?adm"
    by (simp add: assms(2) plan_arms_spec plan_spec_def Let_def)
  have "distinct (map fst (ap_arm plan))"
    using eligible_distinct [OF assms(1)] by (simp add: arm flip: take_map)
  then show ?thesis
    by (auto simp: arm dest!: in_set_takeD eligible_fresh)
qed

section \<open>The arming loop keeps within its cap\<close>

lemma om_wf_fold_insert: "om_wf m \<Longrightarrow> om_wf (fold (\<lambda>(k, v). om_insert k v) es m)"
  by (induction es arbitrary: m) auto

lemma sweep_all_wf: "om_wf groups \<Longrightarrow> sweep_all F L K C http series groups = Some out \<Longrightarrow> om_wf out"
  by (induction series arbitrary: groups) (auto split: option.splits intro: om_wf_fold_insert)

definition keeps_markers :: "(string list \<Rightarrow> path \<Rightarrow> disk \<Rightarrow> disk) \<Rightarrow> bool" where
  "keeps_markers capture \<longleftrightarrow>
     (\<forall>ts base d p m. m \<in> {''.done'', ''.archived''} \<longrightarrow> capture ts base d (p @ [m]) = d (p @ [m]))"

definition universe_inv :: "'f universe_cfg \<Rightarrow> universe \<Rightarrow> bool" where
  "universe_inv C s \<longleftrightarrow>
     length (us_inflight s) \<le> vc_max_units C \<and> distinct (map session_of (us_inflight s)) \<and>
     (\<forall>t \<in> set (us_inflight s). uc_data_dir (ut_cfg t) = uc_data_dir (vc_unit C)) \<and>
     (\<forall>e \<in> set (us_armed s). e \<in> us_unmarked s \<or>
        e \<in> session_of ` set (reap_inflight ut_finished (us_inflight s)) \<or>
        marked (us_disk s) (uc_data_dir (vc_unit C)) e) \<and>
     distinct (filter (\<lambda>e. e \<notin> us_unmarked s) (us_armed s))"

lemma universe_invI:
  assumes "length (us_inflight s) \<le> vc_max_units C" and "distinct (map session_of (us_inflight s))"
    and "\<And>t. t \<in> set (us_inflight s) \<Longrightarrow> uc_data_dir (ut_cfg t) = uc_data_dir (vc_unit C)"
    and "\<And>e. e \<in> set (us_armed s) \<Longrightarrow> e \<in> us_unmarked s \<or>
        e \<in> session_of ` set (reap_inflight ut_finished (us_inflight s)) \<or>
        marked (us_disk s) (uc_data_dir (vc_unit C)) e"
    and "distinct (filter (\<lambda>e. e \<notin> us_unmarked s) (us_armed s))"
  shows "universe_inv C s"
  using assms by (auto simp: universe_inv_def)

lemma universe_invD:
  assumes "universe_inv C s"
  shows "length (us_inflight s) \<le> vc_max_units C" and "distinct (map session_of (us_inflight s))"
    and "t \<in> set (us_inflight s) \<Longrightarrow> uc_data_dir (ut_cfg t) = uc_data_dir (vc_unit C)"
    and "e \<in> set (us_armed s) \<Longrightarrow> e \<in> us_unmarked s \<or>
        e \<in> session_of ` set (reap_inflight ut_finished (us_inflight s)) \<or>
        marked (us_disk s) (uc_data_dir (vc_unit C)) e"
    and "distinct (filter (\<lambda>e. e \<notin> us_unmarked s) (us_armed s))"
  using assms by (auto simp: universe_inv_def)

lemma distinct_filter_insert:
  assumes "distinct (filter (\<lambda>e. e \<notin> U) xs)"
  shows "distinct (filter (\<lambda>e. e \<notin> insert x U) xs)"
proof -
  have "filter (\<lambda>e. e \<notin> insert x U) xs = filter (\<lambda>e. e \<noteq> x) (filter (\<lambda>e. e \<notin> U) xs)"
    by (simp add: conj_commute)
  then show ?thesis using distinct_filter [OF assms, of "\<lambda>e. e \<noteq> x"] by simp
qed

lemma universe_inv_disk:
  assumes inv: "universe_inv C s" and "us_inflight s' = us_inflight s" and "us_armed s' = us_armed s"
    and "us_unmarked s \<subseteq> us_unmarked s'" and "distinct (filter (\<lambda>e. e \<notin> us_unmarked s') (us_armed s))"
    and "\<And>e. e \<notin> us_unmarked s' \<Longrightarrow> marked (us_disk s) (uc_data_dir (vc_unit C)) e \<Longrightarrow>
        marked (us_disk s') (uc_data_dir (vc_unit C)) e"
  shows "universe_inv C s'"
proof (rule universe_invI, unfold assms(2,3))
  fix e
  assume "e \<in> set (us_armed s)"
  from universe_invD(4) [OF inv this] show "e \<in> us_unmarked s' \<or>
      e \<in> session_of ` set (reap_inflight ut_finished (us_inflight s)) \<or>
      marked (us_disk s') (uc_data_dir (vc_unit C)) e"
    using assms(4,6) by blast
qed (use universe_invD [OF inv] assms(5) in auto)

lemma universe_inv_start: "universe_inv C (universe_start d)"
  by (simp add: universe_inv_def universe_start_def)

lemma arm_all_sessions: "map session_of (arm_all C clock arms) = map fst arms"
  by (rule nth_equalityI)
    (auto simp: arm_all_def session_of_def unit_task_for_def nth_enumerate_eq split: prod.split)

lemma arm_all_task:
  "t \<in> set (arm_all C clock arms) \<Longrightarrow> \<not> ut_finished t \<and> uc_data_dir (ut_cfg t) = uc_data_dir (vc_unit C)"
  by (auto simp: arm_all_def unit_task_for_def split: option.split)

lemma reap_arm_all: "reap_inflight ut_finished (arm_all C clock arms) = arm_all C clock arms"
  by (auto simp: reap_inflight_def intro!: filter_True dest: arm_all_task)

lemma universe_inv_round:
  assumes inv: "universe_inv C s"
  shows "universe_inv C (universe_round F L K C http now clock s)"
proof -
  define kept where "kept = reap_inflight ut_finished (us_inflight s)"
  have kept_sub: "set kept \<subseteq> set (us_inflight s)" and kept_len: "length kept \<le> length (us_inflight s)"
    by (auto simp: kept_def reap_inflight_def)
  have kept_dist: "distinct (map session_of kept)"
    using inv by (auto simp: kept_def reap_inflight_def universe_inv_def intro: distinct_map_filter)
  have kept_reap: "reap_inflight ut_finished kept = kept"
    by (simp add: kept_def reap_inflight_def)
  show ?thesis
  proof (cases "sweep_all F L K C http (vc_series C) []")
    case None
    then have eq: "universe_round F L K C http now clock s = s\<lparr>us_inflight := kept, us_phase := Crashed\<rparr>"
      by (simp add: universe_round_def kept_def)
    show ?thesis
      unfolding eq
    proof (rule universe_invI)
      fix e
      assume "e \<in> set (us_armed (s\<lparr>us_inflight := kept, us_phase := Crashed\<rparr>))"
      then show "e \<in> us_unmarked (s\<lparr>us_inflight := kept, us_phase := Crashed\<rparr>) \<or>
          e \<in> session_of ` set (reap_inflight ut_finished (us_inflight (s\<lparr>us_inflight := kept, us_phase := Crashed\<rparr>))) \<or>
          marked (us_disk (s\<lparr>us_inflight := kept, us_phase := Crashed\<rparr>)) (uc_data_dir (vc_unit C)) e"
        using universe_invD(4) [OF inv, of e] kept_reap by (simp add: kept_def)
    qed (use universe_invD [OF inv] kept_sub kept_len kept_dist in auto)
  next
    case (Some groups)
    have wf: "om_wf groups" using sweep_all_wf [OF om_wf_Nil Some] .
    let ?dir = "uc_data_dir (vc_unit C)"
    define arms where "arms = ap_arm (plan_arms groups (set (map session_of kept)) (us_disk s) ?dir
      (vc_max_units C) (gate_of C now))"
    note plan = plan_armed [OF wf refl, of "set (map session_of kept)" "us_disk s" ?dir "vc_max_units C" "gate_of C now",
      folded arms_def]
    have card: "card (set (map session_of kept)) = length kept"
      using distinct_card [OF kept_dist] by simp
    have len: "length kept + length arms \<le> vc_max_units C"
    proof -
      have "length (us_inflight s) \<le> vc_max_units C" using inv by (simp add: universe_inv_def)
      moreover have "length arms \<le> vc_max_units C - length kept" using plan unfolding card by blast
      ultimately show ?thesis using kept_len by linarith
    qed
    have old: "e \<in> us_unmarked s" if "e \<in> set (us_armed s)" "e \<in> set (map fst arms)" for e
      using that inv plan by (auto simp: universe_inv_def kept_def [symmetric])
    have d1: "distinct (filter (\<lambda>e. e \<notin> us_unmarked s) (us_armed s @ map fst arms))"
      using universe_invD(5) [OF inv] plan old by auto
    have d2: "distinct (map session_of (kept @ arm_all C clock arms))"
      using kept_dist plan by (auto simp: arm_all_sessions simp flip: set_map)
    have d3: "length (kept @ arm_all C clock arms) \<le> vc_max_units C"
      using len by (simp add: arm_all_def)
    have d4: "uc_data_dir (ut_cfg t) = ?dir" if "t \<in> set (kept @ arm_all C clock arms)" for t
      using that universe_invD(3) [OF inv] kept_sub by (auto dest: arm_all_task)
    have reaped: "reap_inflight ut_finished (kept @ arm_all C clock arms) = kept @ arm_all C clock arms"
      using kept_reap reap_arm_all by (simp add: reap_inflight_def)
    have fields: "us_inflight (universe_round F L K C http now clock s) = kept @ arm_all C clock arms"
      "us_armed (universe_round F L K C http now clock s) = us_armed s @ map fst arms"
      "us_unmarked (universe_round F L K C http now clock s) = us_unmarked s"
      "us_disk (universe_round F L K C http now clock s) = us_disk s"
      using Some by (simp_all add: universe_round_def Let_def kept_def arms_def)
    have armed: "e \<in> us_unmarked s \<or> e \<in> session_of ` set (kept @ arm_all C clock arms) \<or> marked (us_disk s) ?dir e"
      if "e \<in> set (us_armed s @ map fst arms)" for e
    proof (cases "e \<in> set (map fst arms)")
      case True
      then show ?thesis using arm_all_sessions [of C clock arms] by (metis UnCI image_Un set_append set_map)
    next
      case False
      with that have "e \<in> set (us_armed s)" by simp
      from universe_invD(4) [OF inv this] show ?thesis by (auto simp: kept_def)
    qed
    show ?thesis
    proof (rule universe_invI, unfold fields reaped)
      show "length (kept @ arm_all C clock arms) \<le> vc_max_units C" by (rule d3)
      show "distinct (map session_of (kept @ arm_all C clock arms))" by (rule d2)
      show "distinct (filter (\<lambda>e. e \<notin> us_unmarked s) (us_armed s @ map fst arms))" by (rule d1)
    qed (rule d4, assumption, rule armed, assumption)
  qed
qed

lemma marked_mono:
  "(\<And>m. m \<in> {''.done'', ''.archived''} \<Longrightarrow> d (dir @ [e, m]) \<noteq> None \<Longrightarrow> d' (dir @ [e, m]) \<noteq> None) \<Longrightarrow>
     marked d dir e \<Longrightarrow> marked d' dir e"
  by (auto simp: marked_def)

lemma run_unit_marks:
  assumes "keeps_markers capture"
  shows "marked d dir e \<Longrightarrow> marked (fst (run_capture_unit capture u cfg io d)) dir e"
    and "ui_done io = None \<Longrightarrow> uc_data_dir cfg = dir \<Longrightarrow>
      marked (fst (run_capture_unit capture u cfg io d)) dir (cu_session u)"
proof -
  have cap: "capture ts base d0 (dir @ [e, m]) = d0 (dir @ [e, m])" if "m \<in> {''.done'', ''.archived''}" for ts base d0 m
    using assms that unfolding keeps_markers_def by (metis append_Cons append_Nil append_assoc)
  have np: "note_prefix u cfg io d (dir @ [e, m]) = d (dir @ [e, m])" if "m \<in> {''.done'', ''.archived''}" for m
    using that by (auto simp: note_prefix_def unit_dir_def split: option.split)
  have "fst (run_capture_unit capture u cfg io d) (dir @ [e, m]) \<noteq> None"
    if "m \<in> {''.done'', ''.archived''}" "d (dir @ [e, m]) \<noteq> None" for m
  proof -
    have "mark_done u cfg io d0 (dir @ [e, m]) \<noteq> None" if "d0 (dir @ [e, m]) \<noteq> None" for d0
      using that by (simp add: mark_done_def split: option.split)
    then show ?thesis
      using cap [OF that(1)] np [OF that(1)] that(2) by (simp add: run_capture_unit_def Let_def)
  qed
  then show "marked d dir e \<Longrightarrow> marked (fst (run_capture_unit capture u cfg io d)) dir e"
    by (rule marked_mono)
  show "ui_done io = None \<Longrightarrow> uc_data_dir cfg = dir \<Longrightarrow>
      marked (fst (run_capture_unit capture u cfg io d)) dir (cu_session u)"
    by (simp add: run_capture_unit_def Let_def mark_done_def marked_def unit_dir_def)
qed

lemma finish_sessions:
  "map session_of (map (\<lambda>u. if session_of u = x then u\<lparr>ut_finished := True\<rparr> else u) ts) = map session_of ts"
  by (auto simp: session_of_def)

lemma finish_reaped:
  "session_of ` set (reap_inflight ut_finished (map (\<lambda>u. if session_of u = x then u\<lparr>ut_finished := True\<rparr> else u) ts)) =
     session_of ` set (reap_inflight ut_finished ts) - {x}"
  by (induction ts) (auto simp: reap_inflight_def session_of_def)

lemma universe_inv_end:
  assumes "keeps_markers capture" and inv: "universe_inv C s"
    and "find (\<lambda>t. session_of t = x \<and> \<not> ut_finished t) (us_inflight s) = Some t"
  shows "universe_inv C (end_unit capture C x io t s)"
proof -
  let ?dir = "uc_data_dir (vc_unit C)"
  have t: "t \<in> set (us_inflight s)" "cu_session (ut_unit t) = x"
    using find_Some_set [OF assms(3)] by (auto simp: session_of_def)
  then have dir: "uc_data_dir (ut_cfg t) = ?dir" using inv by (simp add: universe_inv_def)
  note marks = run_unit_marks [OF assms(1), where dir = ?dir and u = "ut_unit t" and cfg = "ut_cfg t" and io = io
      and d = "us_disk s"]
  let ?s = "end_unit capture C x io t s"
  have fields: "map session_of (us_inflight ?s) = map session_of (us_inflight s)"
    "us_armed ?s = us_armed s" "us_unmarked s \<subseteq> us_unmarked ?s" "ui_done io \<noteq> None \<Longrightarrow> x \<in> us_unmarked ?s"
    "us_disk ?s = fst (run_capture_unit capture (ut_unit t) (ut_cfg t) io (us_disk s))"
    "session_of ` set (reap_inflight ut_finished (us_inflight ?s)) =
       session_of ` set (reap_inflight ut_finished (us_inflight s)) - {x}"
    "us_unmarked ?s = (if ui_done io = None then us_unmarked s else insert x (us_unmarked s))"
    by (auto simp: end_unit_def finish_sessions finish_reaped simp del: map_map)
  show ?thesis
  proof (rule universe_invI)
    show "length (us_inflight ?s) \<le> vc_max_units C"
      using universe_invD(1) [OF inv] by (simp add: end_unit_def)
    show "distinct (map session_of (us_inflight ?s))"
      unfolding fields by (rule universe_invD(2) [OF inv])
    show "uc_data_dir (ut_cfg u) = ?dir" if "u \<in> set (us_inflight ?s)" for u
      using that universe_invD(3) [OF inv] by (auto simp: end_unit_def)
    show "distinct (filter (\<lambda>e. e \<notin> us_unmarked ?s) (us_armed ?s))"
      using universe_invD(5) [OF inv] distinct_filter_insert [OF universe_invD(5) [OF inv], of x]
      unfolding fields by (cases "ui_done io = None") simp_all
    show "e \<in> us_unmarked ?s \<or> e \<in> session_of ` set (reap_inflight ut_finished (us_inflight ?s)) \<or>
        marked (us_disk ?s) ?dir e" if "e \<in> set (us_armed ?s)" for e
    proof (cases "e = x")
      case True
      then show ?thesis
        using marks(2) [OF _ dir] t(2) fields(4) by (cases "ui_done io") (auto simp: fields(5))
    next
      case False
      from that have "e \<in> set (us_armed s)" by (simp add: fields(2))
      from universe_invD(4) [OF inv this] show ?thesis
        using False fields(3) marks(1) unfolding fields(5,6) by blast
    qed
  qed
qed

lemma universe_inv_step:
  assumes "keeps_markers capture" and inv: "universe_inv C s"
    and "universe_step capture F L K C i s = Some s'"
  shows "universe_inv C s'"
proof (cases i)
  case (URound shutdown now0 http now clock)
  have "universe_inv C (s\<lparr>us_phase := p\<rparr>)" for p
    using inv by (simp add: universe_inv_def)
  moreover have "s' = s\<lparr>us_phase := ShutDown\<rparr> \<or> s' = s\<lparr>us_phase := Bounded\<rparr> \<or>
      s' = universe_round F L K C http now clock s"
    using assms(3) unfolding URound universe_step.simps by (simp split: if_split_asm)
  ultimately show ?thesis using universe_inv_round [OF inv] by metis
next
  case (UUnitEnds x io)
  then obtain t where "find (\<lambda>t. session_of t = x \<and> \<not> ut_finished t) (us_inflight s) = Some t"
    "s' = end_unit capture C x io t s"
    using assms(3) by (auto split: option.splits)
  with universe_inv_end [OF assms(1) inv] show ?thesis by simp
next
  case (UArchived x)
  have "marked (us_disk s) dir e \<Longrightarrow> marked ((us_disk s)(p \<mapsto> b)) dir e" for dir e p b
    by (rule marked_mono) auto
  moreover have "s' = s\<lparr>us_disk := (us_disk s)(uc_data_dir (vc_unit C) @ [x, ''.archived''] \<mapsto> [])\<rparr>"
    using assms(3) by (simp add: UArchived)
  ultimately show ?thesis
    using universe_invD(5) [OF inv] by (intro universe_inv_disk [OF inv]) simp_all
next
  case (UMarkersRemoved x)
  let ?dir = "uc_data_dir (vc_unit C)"
  have "marked (us_disk s) ?dir e \<Longrightarrow> marked (remove_markers ?dir x (us_disk s)) ?dir e" if "e \<noteq> x" for e
    by (rule marked_mono) (use that in \<open>auto simp: remove_markers_def\<close>)
  note marks = this
  have eq: "us_inflight s' = us_inflight s" "us_armed s' = us_armed s" "us_unmarked s' = insert x (us_unmarked s)"
      "us_disk s' = remove_markers ?dir x (us_disk s)"
    using assms(3) by (auto simp: UMarkersRemoved)
  show ?thesis
  proof (rule universe_inv_disk [OF inv eq(1,2)], unfold eq(3,4))
    show "us_unmarked s \<subseteq> insert x (us_unmarked s)" by blast
    show "distinct (filter (\<lambda>e. e \<notin> insert x (us_unmarked s)) (us_armed s))"
      by (rule distinct_filter_insert [OF universe_invD(5) [OF inv]])
    show "marked (remove_markers ?dir x (us_disk s)) ?dir e"
      if "e \<notin> insert x (us_unmarked s)" "marked (us_disk s) ?dir e" for e
      using marks [of e] that by blast
  qed
qed

lemma universe_stepwise:
  "keeps_markers capture \<Longrightarrow>
     stepwise_invariant (universe_step capture F L K C) (universe_start d) (universe_inv C)"
  by unfold_locales (auto intro: universe_inv_start universe_inv_step)

section \<open>Properties\<close>

text \<open>
  C19. Grouping loses no market: the cohort of an event holds exactly the tickers of the non-terminal
  markets of that event, in listing order, with the earliest opening and the latest closing time
  that parse, and no event without such a market has a cohort.
\<close>

theorem group_by_event_exact:
  "om_get (group_by_event L K series ms) event =
     (let own = filter (\<lambda>m. \<not> is_terminal (mk_status m) \<and> market_event m = Some event) ms;
          opens = List.map_filter (parse_rfc3339 L \<circ> mk_open_time) own;
          closes = List.map_filter (parse_rfc3339 L \<circ> mk_close_time) own in
      if own = [] then None
      else Some \<lparr>co_series = series, co_tickers = map mk_ticker own,
                 co_open = (if opens = [] then None else Some (Min (set opens))),
                 co_close = (if closes = [] then None else Some (Max (set closes))),
                 co_inferred_start = parse_event_start K event\<rparr>)"
  using group_get_wf [of L K series ms event]
  by (simp add: own_markets_def cohort_of_def merged_min merged_max Let_def)

text \<open>
  C18. The plan of a sweep is exactly what the design says. Among the cohorts that are neither in flight
  nor marked on the disk, those the gate defers are deferred, those it skips are skipped, and those
  it admits are armed in event order up to the remaining budget and capped beyond it; the fallback
  warning names every admitted cohort without a start in a windowed run, capped or not.
\<close>

theorem plan_arms_exact:
  "plan_arms groups in_flight d data_dir max_units gate =
     (let fresh = filter (\<lambda>(event, cohort). event \<notin> in_flight \<and> \<not> marked d data_dir event) groups;
          gated = (\<lambda>vs. filter (\<lambda>(event, cohort). admission_gate gate cohort \<in> vs) fresh);
          budget = max_units - card in_flight in
      \<lparr>ap_arm = take budget (gated {Admit True, Admit False}),
       ap_capped = map fst (drop budget (gated {Admit True, Admit False})),
       ap_deferred = map fst (gated {Defer}),
       ap_skipped = map fst (gated {Skip}),
       ap_no_start = map fst (gated {Admit True})\<rparr>)"
proof -
  have "eligible groups in_flight d data_dir gate vs =
      filter (\<lambda>(event, cohort). admission_gate gate cohort \<in> vs)
        (filter (\<lambda>(event, cohort). event \<notin> in_flight \<and> \<not> marked d data_dir event) groups)" for vs
    by (auto simp: eligible_def intro: filter_cong)
  then show ?thesis by (simp add: plan_arms_spec plan_spec_def Let_def)
qed

text \<open>
  C8. The arming loop never has more units in flight than its cap, never two units of one event at a
  time, and arms an event at most once, unless the marker of an ended unit could not be written or
  was removed from outside. Every event once armed is in flight, marked, or one of those.
\<close>

theorem universe_within_cap:
  assumes "keeps_markers capture" and "reachable (universe_step capture F L K C) (universe_start d) s"
  shows "length (us_inflight s) \<le> vc_max_units C \<and> distinct (map session_of (us_inflight s)) \<and>
     distinct (filter (\<lambda>e. e \<notin> us_unmarked s) (us_armed s)) \<and>
     (\<forall>e \<in> set (us_armed s). e \<in> us_unmarked s \<or> e \<in> session_of ` set (us_inflight s) \<or>
        marked (us_disk s) (uc_data_dir (vc_unit C)) e)"
proof -
  have "universe_inv C s"
    using stepwise_invariant.inv_reachable [OF universe_stepwise [OF assms(1)] assms(2)] .
  then show ?thesis by (auto simp: universe_inv_def reap_inflight_def)
qed

section \<open>A run\<close>

definition ex_market :: "string \<Rightarrow> string \<Rightarrow> nat Market" where
  "ex_market ticker event =
     \<lparr>mk_ticker = ticker, mk_title = [], mk_status = Some ''active'', mk_volume_fp = None, mk_close_time = None,
      mk_event_ticker = Some event, mk_open_time = None, mk_settlement_ts = None, mk_occurrence_datetime = None,
      mk_result = None, mk_floor_strike = None, mk_yes_bid_dollars = None, mk_yes_ask_dollars = None,
      mk_last_price_dollars = None, mk_volume_24h_fp = None\<rparr>"

definition ex_sweep :: "nat sweep_http" where
  "ex_sweep s st n path query k =
     Answered 200 (Inr ([ex_market ''E1-A'' ''E1'', ex_market ''E2-A'' ''E2''], None))"

definition ex_floats :: "nat float_lib" where
  "ex_floats = \<lparr>fl_parse = (\<lambda>_. None), fl_zero = 0, fl_half = 0, fl_two = 2, fl_add = (+), fl_sub = (-),
     fl_div = (div), fl_abs = id, fl_ge = (\<ge>)\<rparr>"

definition ex_rest_lib :: rest_lib where
  "ex_rest_lib = \<lparr>rl_debug = id, rl_parse_utc = (\<lambda>_. Inl [])\<rparr>"

definition ex_calendar :: calendar where
  "ex_calendar = \<lparr>cal_ymd = (\<lambda>_ _ _. None), cal_year = id, cal_weekday = (\<lambda>_. 0), cal_parse_date = (\<lambda>_. None)\<rparr>"

definition ex_universe_cfg :: "nat universe_cfg" where
  "ex_universe_cfg =
     \<lparr>vc_series = [''S''], vc_statuses = [''open''], vc_min_volume = 0, vc_rediscover = 300, vc_max_units = 1,
      vc_unit = ex_unit_cfg, vc_arm_lead_min = 30, vc_clash_sub = True, vc_until = None, vc_remote_prefix = None\<rparr>"

definition ex_run :: "nat universe_input list" where
  "ex_run =
     [URound False 0 ex_sweep 0 (\<lambda>_. 0),
      UUnitEnds ''E1'' \<lparr>ui_prefix = None, ui_done = None, ui_spawn = None\<rparr>,
      URound False 1 ex_sweep 1 (\<lambda>_. 1)]"

definition ex_universe :: universe where
  "ex_universe =
     (case run_inputs (universe_step (\<lambda>_ _ d. d) ex_floats ex_rest_lib ex_calendar ex_universe_cfg) ex_run
         (universe_start Map.empty) of Some s \<Rightarrow> s | None \<Rightarrow> universe_start Map.empty)"

lemma ex_series: "sweep_series ex_sweep s st = GotOk [ex_market ''E1-A'' ''E1'', ex_market ''E2-A'' ''E2'']"
proof -
  have "list_markets_page (ex_sweep s st n) l a b c d e =
      GotOk ([ex_market ''E1-A'' ''E1'', ex_market ''E2-A'' ''E2''], None)" for n l a b c d e
    by (simp add: list_markets_page_def get_with_retry_def get_loop_cases ex_sweep_def status_is_retryable_def
        next_cursor_def)
  then show ?thesis by (simp add: sweep_series_def MAX_PAGES_def eval_nat_numeral)
qed

definition ex_cohort :: "string \<Rightarrow> Cohort" where
  "ex_cohort ticker = \<lparr>co_series = ''S'', co_tickers = [ticker], co_open = None, co_close = None,
     co_inferred_start = None\<rparr>"

lemma ex_groups:
  "sweep_all ex_floats ex_rest_lib ex_calendar ex_universe_cfg ex_sweep [''S''] [] =
     Some [(''E1'', ex_cohort ''E1-A''), (''E2'', ex_cohort ''E2-A'')]"
  by (simp add: ex_universe_cfg_def ex_series ex_floats_def Market_volume_def parsed_or_zero_def
      ex_market_def dedup_by_ticker_def group_by_event_def group_market_def is_terminal_def TERMINAL_def
      market_event_def add_market_def new_cohort_def parse_rfc3339_def no_dash_no_start om_get_Cons
      ex_cohort_def)

lemma ex_plan:
  "plan_arms [(''E1'', ex_cohort ''E1-A''), (''E2'', ex_cohort ''E2-A'')] {} d dir (Suc 0) (gate_of ex_universe_cfg t) =
     (if marked d dir ''E1'' then
        (if marked d dir ''E2'' then ArmPlan_default else ArmPlan_default\<lparr>ap_arm := [(''E2'', ex_cohort ''E2-A'')]\<rparr>)
      else ArmPlan_default\<lparr>ap_arm := [(''E1'', ex_cohort ''E1-A'')],
             ap_capped := (if marked d dir ''E2'' then [] else [''E2''])\<rparr>)"
  by (simp add: plan_arms_def ArmPlan_default_def admission_gate_def ex_cohort_def cadence_def gate_of_def
      ex_universe_cfg_def Let_def)

lemma ex_universe_run:
  "run_inputs (universe_step (\<lambda>_ _ d. d) ex_floats ex_rest_lib ex_calendar ex_universe_cfg) ex_run
     (universe_start Map.empty) = Some ex_universe \<and>
   us_armed ex_universe = [''E1'', ''E2''] \<and> map session_of (us_inflight ex_universe) = [''E2'']"
proof -
  have c: "vc_max_units ex_universe_cfg = 1" "vc_series ex_universe_cfg = [''S'']" "vc_until ex_universe_cfg = None"
    "vc_unit ex_universe_cfg = ex_unit_cfg" "vc_remote_prefix ex_universe_cfg = None"
    "uc_data_dir ex_unit_cfg = [''data'']" "uc_archive_cmd ex_unit_cfg = []"
    by (simp_all add: ex_universe_cfg_def ex_unit_cfg_def)
  show ?thesis
    by (simp add: ex_universe_def ex_run_def universe_start_def universe_round_def c ex_groups ex_plan
        reap_inflight_def marked_def ArmPlan_default_def arm_all_def unit_task_for_def session_of_def
        end_unit_def run_capture_unit_def mark_done_def note_prefix_def unit_dir_def warn_once_def
        Let_def del: sweep_all.simps)
qed

theorem universe_within_cap_witness:
  "us_armed ex_universe = [''E1'', ''E2''] \<and> length (us_inflight ex_universe) \<le> 1 \<and>
   distinct (filter (\<lambda>e. e \<notin> us_unmarked ex_universe) (us_armed ex_universe))"
proof -
  have "keeps_markers (\<lambda>_ _ d. d)" by (simp add: keeps_markers_def)
  moreover have "reachable (universe_step (\<lambda>_ _ d. d) ex_floats ex_rest_lib ex_calendar ex_universe_cfg)
      (universe_start Map.empty) ex_universe"
    by (rule run_inputs_reachable [OF conjunct1 [OF ex_universe_run]])
  ultimately show ?thesis
    using universe_within_cap [of "\<lambda>_ _ d. d" ex_floats ex_rest_lib ex_calendar ex_universe_cfg "Map.empty" ex_universe]
      ex_universe_run by (simp add: ex_universe_cfg_def)
qed

end
