(* ===== verification/Scheduled.thy ===== *)
theory Scheduled
  imports Universe "HOL-Library.Sublist" "HOL-Library.Multiset"
begin

text \<open>
  The scheduled supervisor: the schedule file of \<^verbatim>\<open>crates/kdp-cli/src/schedule.rs\<close> and the arming of its
  entries, \<^verbatim>\<open>crates/kdp-cli/src/scheduled.rs\<close>: which markets belong to an entry, the polling
  that resolves it, the order of arming, and the run over all entries as a machine.

  The span arithmetic of \<^verbatim>\<open>chrono\<close> panics outside its range, and the model keeps that: a value that
  would panic is \<open>None\<close>. Parameters: the derived deserializer of an entry, the upper-case mapping of
  Unicode, the range of \<^verbatim>\<open>DateTime\<close>, the HTTP client and the clock.

  The lemmas show what the matching finds, that the resolution ends, exactly when the ordering of a
  schedule panics and what it returns otherwise, and that a run handles the entries in arm order,
  never arms one early and leaves only on a shutdown.
\<close>

section \<open>The schedule\<close>

record ScheduleEntry =
  se_id :: string
  se_label :: string
  se_series :: string
  se_event_ticker :: "string option"
  se_teams :: "string list"
  se_start_utc :: Timestamp
  se_arm_lead_min :: "i64 option"
  se_max_hours :: "u64 option"
  se_remote_prefix :: "string option"

record sched_lib =
  sc_in_range :: "int \<Rightarrow> bool"
  sc_upper :: "string \<Rightarrow> string"
  sc_entry :: "string \<Rightarrow> ScheduleEntry option"

text \<open>A span of \<open>n\<close> units of \<open>ms\<close> milliseconds, and the addition of a span to an instant.\<close>

definition time_span :: "int \<Rightarrow> i64 \<Rightarrow> int option" where
  "time_span ms n = (if \<bar>n\<bar> \<le> (2 ^ 63 - 1) div ms then Some (n * ms * 1000000) else None)"

definition date_add :: "sched_lib \<Rightarrow> Timestamp \<Rightarrow> int \<Rightarrow> Timestamp option" where
  "date_add D t d = (if sc_in_range D (t + d) then Some (t + d) else None)"

definition arm_at :: "sched_lib \<Rightarrow> ScheduleEntry \<Rightarrow> i64 \<Rightarrow> Timestamp option" where
  "arm_at D e default_lead_min =
     (let lead = max 0 (case se_arm_lead_min e of Some l \<Rightarrow> l | None \<Rightarrow> default_lead_min)
      in Option.bind (time_span 60000 lead) (\<lambda>d. date_add D (se_start_utc e) (- d)))"

definition is_resolvable :: "ScheduleEntry \<Rightarrow> bool" where
  "is_resolvable e \<longleftrightarrow> se_event_ticker e \<noteq> None \<or> se_teams e \<noteq> []"

definition strip_bom :: "string \<Rightarrow> string" where
  "strip_bom s = (if take 3 s = [CHR 0xEF, CHR 0xBB, CHR 0xBF] then drop 3 s else s)"

fun schedule_loop :: "sched_lib \<Rightarrow> string list \<Rightarrow> ScheduleEntry list \<Rightarrow> ScheduleEntry list" where
  "schedule_loop D [] out = out"
| "schedule_loop D (line # ls) out =
     (if trim line = [] then schedule_loop D ls out
      else
        case sc_entry D (trim line) of
          Some entry \<Rightarrow> if is_resolvable entry then schedule_loop D ls (out @ [entry]) else schedule_loop D ls out
        | None \<Rightarrow> schedule_loop D ls out)"

definition parse_schedule :: "sched_lib \<Rightarrow> string \<Rightarrow> ScheduleEntry list" where
  "parse_schedule D text = schedule_loop D (buf_lines (strip_bom text)) []"

definition load_schedule :: "sched_lib \<Rightarrow> string + string \<Rightarrow> string + ScheduleEntry list" where
  "load_schedule D content = and_then content (\<lambda>text. Inr (parse_schedule D text))"

section \<open>Resolving an entry\<close>

record SchedCfg =
  sf_data_dir :: path
  sf_floor_bytes :: u64
  sf_capacity :: nat
  sf_idle_secs :: nat
  sf_grace_secs :: nat
  sf_poll_secs :: nat
  sf_arm_lead_min :: i64
  sf_default_max_hours :: u64
  sf_resolve_grace :: u64
  sf_archive_cmd :: string
  sf_verify_interval_secs :: nat

definition predicted_hits :: "ScheduleEntry \<Rightarrow> 'f Market list \<Rightarrow> string list" where
  "predicted_hits entry markets =
     (case se_event_ticker entry of
        Some ev \<Rightarrow> map mk_ticker (filter (\<lambda>m. mk_event_ticker m = Some ev) markets)
      | None \<Rightarrow> [])"

definition team_match :: "sched_lib \<Rightarrow> string list \<Rightarrow> 'f Market \<Rightarrow> bool" where
  "team_match D codes m =
     (let hay = sc_upper D ((case mk_event_ticker m of Some e \<Rightarrow> e | None \<Rightarrow> []) @ '' '' @ mk_ticker m)
      in list_all (\<lambda>c. sublist c hay) codes)"

definition match_event_markets :: "sched_lib \<Rightarrow> ScheduleEntry \<Rightarrow> 'f Market list \<Rightarrow> string list" where
  "match_event_markets D entry markets =
     (if predicted_hits entry markets \<noteq> [] then remdups_adj (sort (predicted_hits entry markets))
      else if se_teams entry = [] then []
      else
        let codes = map (sc_upper D) (se_teams entry)
        in remdups_adj (sort (map mk_ticker (filter (team_match D codes) markets))))"

definition discovery_window :: "sched_lib \<Rightarrow> Timestamp \<Rightarrow> u64 \<Rightarrow> (i64 \<times> i64) option" where
  "discovery_window D start_utc max_hours =
     Option.bind (time_span 3600000 2) (\<lambda>two_hours.
     Option.bind (date_add D start_utc (- two_hours)) (\<lambda>lo.
     Option.bind (time_span 3600000 (u64_as_i64 max_hours)) (\<lambda>backstop.
     Option.bind (date_add D start_utc backstop) (\<lambda>stop.
     Option.bind (time_span 86400000 4) (\<lambda>four_days.
     Option.bind (date_add D stop four_days) (\<lambda>hi.
       Some (lo div ns_per_sec, hi div ns_per_sec)))))))"

definition session_name :: "ScheduleEntry \<Rightarrow> string list \<Rightarrow> string" where
  "session_name entry tickers =
     (case se_event_ticker entry of
        Some ev \<Rightarrow> ev
      | None \<Rightarrow>
          (case tickers of
             t # _ \<Rightarrow> (case rsplit_once (CHR ''-'') t of Some (ev, _) \<Rightarrow> ev | None \<Rightarrow> se_id entry)
           | [] \<Rightarrow> se_id entry))"

text \<open>
  One round of the resolution: whether a shutdown is seen, the answers of the client, the clock after
  the poll, and whether the sleep is cut short by a shutdown.
\<close>

record 'f resolve_round =
  rv_shutdown :: bool
  rv_http :: "'f market_http"
  rv_now :: Timestamp
  rv_interrupted :: bool

datatype resolve_end = Resolved CaptureUnit | Unresolved | ResolvePanic

definition resolve_unit_of :: "ScheduleEntry \<Rightarrow> string list \<Rightarrow> CaptureUnit" where
  "resolve_unit_of entry tickers =
     (let session = session_name entry tickers
      in \<lparr>cu_session = session, cu_tickers = tickers, cu_event = session,
          cu_remote_prefix = se_remote_prefix entry\<rparr>)"

definition resolve_answer :: "ScheduleEntry \<Rightarrow> i64 \<times> i64 \<Rightarrow> 'f resolve_round \<Rightarrow> 'f page get_result" where
  "resolve_answer entry w r =
     list_markets_page (rv_http r) 1000 None (Some (se_series entry)) (Some (fst w)) (Some (snd w)) None"

definition resolve_tickers :: "sched_lib \<Rightarrow> ScheduleEntry \<Rightarrow> i64 \<times> i64 \<Rightarrow> 'f resolve_round \<Rightarrow> string list" where
  "resolve_tickers D entry w r =
     (case resolve_answer entry w r of
        GotOk (markets, _) \<Rightarrow> match_event_markets D entry markets
      | _ \<Rightarrow> [])"

partial_function (option) resolve_loop ::
    "sched_lib \<Rightarrow> ScheduleEntry \<Rightarrow> i64 \<times> i64 \<Rightarrow> Timestamp \<Rightarrow> (nat \<Rightarrow> 'f resolve_round) \<Rightarrow> nat \<Rightarrow>
     (resolve_end \<times> nat) option" where
  "resolve_loop D entry w deadline rounds i =
     (if rv_shutdown (rounds i) then Some (Unresolved, i)
      else if resolve_answer entry w (rounds i) = GotPanic then Some (ResolvePanic, i)
      else
        let tickers = resolve_tickers D entry w (rounds i) in
        if tickers \<noteq> [] then Some (Resolved (resolve_unit_of entry tickers), i)
        else if deadline \<le> rv_now (rounds i) then Some (Unresolved, i)
        else if rv_interrupted (rounds i) then Some (Unresolved, i)
        else resolve_loop D entry w deadline rounds (i + 1))"

definition resolve_deadline :: "sched_lib \<Rightarrow> SchedCfg \<Rightarrow> Timestamp \<Rightarrow> Timestamp option" where
  "resolve_deadline D cfg now =
     Option.bind (time_span 1000 (u64_as_i64 (sf_resolve_grace cfg))) (date_add D now)"

definition max_hours_of :: "SchedCfg \<Rightarrow> ScheduleEntry \<Rightarrow> u64" where
  "max_hours_of cfg e = (case se_max_hours e of Some h \<Rightarrow> h | None \<Rightarrow> sf_default_max_hours cfg)"

definition resolve_unit ::
    "sched_lib \<Rightarrow> SchedCfg \<Rightarrow> ScheduleEntry \<Rightarrow> Timestamp \<Rightarrow> (nat \<Rightarrow> 'f resolve_round) \<Rightarrow> (resolve_end \<times> nat) option" where
  "resolve_unit D cfg entry now rounds =
     (case (discovery_window D (se_start_utc entry) (max_hours_of cfg entry), resolve_deadline D cfg now) of
        (Some w, Some deadline) \<Rightarrow> resolve_loop D entry w deadline rounds 0
      | _ \<Rightarrow> Some (ResolvePanic, 0))"

section \<open>The order of arming\<close>

definition window_ahead :: "sched_lib \<Rightarrow> SchedCfg \<Rightarrow> Timestamp \<Rightarrow> ScheduleEntry \<Rightarrow> bool option" where
  "window_ahead D cfg now e =
     Option.bind (time_span 3600000 (u64_as_i64 (max_hours_of cfg e))) (\<lambda>d.
       map_option (\<lambda>window_end. now < window_end) (date_add D (se_start_utc e) d))"

fun retain_entries :: "(ScheduleEntry \<Rightarrow> bool option) \<Rightarrow> ScheduleEntry list \<Rightarrow> ScheduleEntry list option" where
  "retain_entries keep [] = Some []"
| "retain_entries keep (e # es) =
     (case keep e of
        None \<Rightarrow> None
      | Some b \<Rightarrow> map_option (\<lambda>kept. if b then e # kept else kept) (retain_entries keep es))"

text \<open>A sort of at most one element does not look at its key.\<close>

definition arm_sort :: "sched_lib \<Rightarrow> SchedCfg \<Rightarrow> ScheduleEntry list \<Rightarrow> ScheduleEntry list option" where
  "arm_sort D cfg es =
     (if length es \<le> 1 then Some es
      else if list_all (\<lambda>e. arm_at D e (sf_arm_lead_min cfg) \<noteq> None) es
      then Some (sort_key (\<lambda>e. the (arm_at D e (sf_arm_lead_min cfg))) es)
      else None)"

definition arm_order :: "sched_lib \<Rightarrow> SchedCfg \<Rightarrow> Timestamp \<Rightarrow> ScheduleEntry list \<Rightarrow> ScheduleEntry list option" where
  "arm_order D cfg now entries =
     Option.bind (retain_entries (window_ahead D cfg now) entries) (arm_sort D cfg)"

definition already_archived :: "disk \<Rightarrow> path \<Rightarrow> ScheduleEntry \<Rightarrow> bool" where
  "already_archived d data_dir e =
     (case se_event_ticker e of
        None \<Rightarrow> False
      | Some ev \<Rightarrow> d (data_dir @ [ev, ''.archived'']) \<noteq> None)"

section \<open>The run\<close>

text \<open>
  A run is at the top of its loop, waits for the arm time of an entry, resolves an entry (since an
  instant), is parked behind the loop, has left, or has panicked. \<open>sr_log\<close> and \<open>sr_shutdown\<close> are history:
  what became of each handled entry, and whether a shutdown was seen.
\<close>

datatype sched_outcome = ArmedUnit CaptureUnit Timestamp | PredictedArchived | NotFound | SessionArchived

datatype sched_phase =
    Picking
  | Waiting ScheduleEntry Timestamp
  | Resolving ScheduleEntry Timestamp
  | Parked
  | Left
  | Panicked ScheduleEntry

record scheduler =
  sr_pending :: "ScheduleEntry list"
  sr_phase :: sched_phase
  sr_inflight :: "unit_task list"
  sr_disk :: disk
  sr_log :: "(ScheduleEntry \<times> sched_outcome) list"
  sr_shutdown :: bool

text \<open>
  \<open>SNext\<close>, \<open>SWake\<close>, \<open>SResolve\<close> and \<open>SPark\<close> are the awaited calls of the run, with the shutdown flag and the
  clock they see; units end and are archived at any time.
\<close>

datatype 'f sched_input =
    SNext bool Timestamp
  | SWake bool Timestamp
  | SResolve Timestamp "nat \<Rightarrow> 'f resolve_round"
  | SPark bool
  | SUnitEnds nat unit_io
  | SArchived string

definition scheduler_start :: "ScheduleEntry list \<Rightarrow> disk \<Rightarrow> scheduler" where
  "scheduler_start es d =
     \<lparr>sr_pending = es, sr_phase = Picking, sr_inflight = [], sr_disk = d, sr_log = [], sr_shutdown = False\<rparr>"

definition sched_unit_cfg :: "SchedCfg \<Rightarrow> ScheduleEntry \<Rightarrow> UnitCfg" where
  "sched_unit_cfg cfg e =
     \<lparr>uc_data_dir = sf_data_dir cfg, uc_floor_bytes = sf_floor_bytes cfg, uc_capacity = sf_capacity cfg,
      uc_idle_secs = sf_idle_secs cfg, uc_grace_secs = sf_grace_secs cfg, uc_poll_secs = sf_poll_secs cfg,
      uc_max_secs = unat (max_hours_of cfg e * 3600), uc_archive_cmd = sf_archive_cmd cfg,
      uc_checkpoint_cmd = [], uc_verify_interval_secs = sf_verify_interval_secs cfg\<rparr>"

definition handled :: "ScheduleEntry \<Rightarrow> sched_outcome \<Rightarrow> scheduler \<Rightarrow> scheduler" where
  "handled e out s = s\<lparr>sr_phase := Picking, sr_log := sr_log s @ [(e, out)]\<rparr>"

definition begin_resolve :: "ScheduleEntry \<Rightarrow> Timestamp \<Rightarrow> scheduler \<Rightarrow> scheduler" where
  "begin_resolve e now s =
     s\<lparr>sr_inflight := reap_inflight ut_finished (sr_inflight s), sr_phase := Resolving e now\<rparr>"

definition pick_entry :: "sched_lib \<Rightarrow> SchedCfg \<Rightarrow> Timestamp \<Rightarrow> ScheduleEntry \<Rightarrow> scheduler \<Rightarrow> scheduler" where
  "pick_entry D cfg now e s =
     (if already_archived (sr_disk s) (sf_data_dir cfg) e then handled e PredictedArchived s
      else
        case arm_at D e (sf_arm_lead_min cfg) of
          None \<Rightarrow> s\<lparr>sr_phase := Panicked e\<rparr>
        | Some t \<Rightarrow> if t \<le> now then begin_resolve e now s else s\<lparr>sr_phase := Waiting e t\<rparr>)"

definition arm_entry :: "SchedCfg \<Rightarrow> ScheduleEntry \<Rightarrow> Timestamp \<Rightarrow> CaptureUnit \<Rightarrow> scheduler \<Rightarrow> scheduler" where
  "arm_entry cfg e now u s =
     (if sr_disk s (sf_data_dir cfg @ [cu_session u, ''.archived'']) \<noteq> None then handled e SessionArchived s
      else
        handled e (ArmedUnit u now)
          (s\<lparr>sr_inflight := sr_inflight s @ [\<lparr>ut_unit = u, ut_cfg = sched_unit_cfg cfg e, ut_finished = False\<rparr>]\<rparr>))"

definition saw_shutdown :: "bool \<Rightarrow> scheduler \<Rightarrow> scheduler" where
  "saw_shutdown b s = s\<lparr>sr_shutdown := sr_shutdown s \<or> b\<rparr>"

text \<open>One round of \<^verbatim>\<open>park_until_shutdown\<close>.\<close>

definition park_round :: "bool \<Rightarrow> scheduler \<Rightarrow> scheduler" where
  "park_round shutdown s =
     (if shutdown then saw_shutdown True (s\<lparr>sr_phase := Left\<rparr>)
      else s\<lparr>sr_inflight := reap_inflight ut_finished (sr_inflight s)\<rparr>)"

fun sched_step ::
    "(string list \<Rightarrow> path \<Rightarrow> disk \<Rightarrow> disk) \<Rightarrow> sched_lib \<Rightarrow> SchedCfg \<Rightarrow> 'f sched_input \<Rightarrow> scheduler \<Rightarrow> scheduler option" where
  "sched_step capture D cfg (SNext shutdown now) s =
     (case (sr_phase s, sr_pending s) of
        (Picking, []) \<Rightarrow> Some (s\<lparr>sr_phase := Parked\<rparr>)
      | (Picking, e # es) \<Rightarrow>
          if shutdown then Some (saw_shutdown True (s\<lparr>sr_phase := Parked\<rparr>))
          else Some (pick_entry D cfg now e (s\<lparr>sr_pending := es\<rparr>))
      | _ \<Rightarrow> None)"
| "sched_step capture D cfg (SWake interrupted now) s =
     (case sr_phase s of
        Waiting e t \<Rightarrow>
          if interrupted then Some (saw_shutdown True (s\<lparr>sr_phase := Parked, sr_pending := e # sr_pending s\<rparr>))
          else if t \<le> now then Some (begin_resolve e now s)
          else None
      | _ \<Rightarrow> None)"
| "sched_step capture D cfg (SResolve now rounds) s =
     (case sr_phase s of
        Resolving e t \<Rightarrow>
          (case resolve_unit D cfg e now rounds of
             None \<Rightarrow> None
           | Some (ResolvePanic, _) \<Rightarrow> Some (s\<lparr>sr_phase := Panicked e\<rparr>)
           | Some (Unresolved, _) \<Rightarrow> Some (handled e NotFound s)
           | Some (Resolved u, _) \<Rightarrow> Some (arm_entry cfg e t u s))
      | _ \<Rightarrow> None)"
| "sched_step capture D cfg (SPark shutdown) s =
     (if sr_phase s = Parked then Some (park_round shutdown s) else None)"
| "sched_step capture D cfg (SUnitEnds i io) s =
     (if i < length (sr_inflight s) \<and> \<not> ut_finished (sr_inflight s ! i) then
        (let t = sr_inflight s ! i in
         Some (s\<lparr>sr_inflight := (sr_inflight s)[i := t\<lparr>ut_finished := True\<rparr>],
                 sr_disk := fst (run_capture_unit capture (ut_unit t) (ut_cfg t) io (sr_disk s))\<rparr>))
      else None)"
| "sched_step capture D cfg (SArchived session) s =
     Some (s\<lparr>sr_disk := (sr_disk s)(sf_data_dir cfg @ [session, ''.archived''] \<mapsto> [])\<rparr>)"

section \<open>What the schedule keeps\<close>

lemma schedule_loop_filter:
  "schedule_loop D ls out =
     out @ filter is_resolvable
       (concat (map (\<lambda>line. case sc_entry D line of Some e \<Rightarrow> [e] | None \<Rightarrow> []) (filter (\<lambda>l. l \<noteq> []) (map trim ls))))"
  by (induction ls arbitrary: out) (auto split: option.splits)

lemma parse_schedule_keeps:
  "e \<in> set (parse_schedule D text) \<longleftrightarrow>
     is_resolvable e \<and> (\<exists>line \<in> set (buf_lines (strip_bom text)). trim line \<noteq> [] \<and> sc_entry D (trim line) = Some e)"
  by (auto simp: parse_schedule_def schedule_loop_filter split: option.splits)

section \<open>Matching\<close>

lemma strict_sorted_remdups_adj: "sorted xs \<Longrightarrow> sorted_wrt (<) (remdups_adj (xs :: 'a :: linorder list))"
  by (induction xs rule: remdups_adj.induct) (auto simp: le_less)

lemma predicted_hits_set:
  "set (predicted_hits e ms) = {mk_ticker m | m. m \<in> set ms \<and> mk_event_ticker m \<noteq> None \<and>
     mk_event_ticker m = se_event_ticker e}"
  by (auto simp: predicted_hits_def split: option.splits)

lemma team_match_iff:
  "team_match D codes m \<longleftrightarrow>
     (\<forall>c \<in> set codes. \<exists>before after.
        sc_upper D ((case mk_event_ticker m of Some ev \<Rightarrow> ev | None \<Rightarrow> []) @ '' '' @ mk_ticker m) = before @ c @ after)"
  by (simp add: team_match_def Let_def list_all_iff sublist_def)

section \<open>The resolution ends\<close>

definition resolve_body ::
    "sched_lib \<Rightarrow> ScheduleEntry \<Rightarrow> i64 \<times> i64 \<Rightarrow> Timestamp \<Rightarrow> (nat \<Rightarrow> 'f resolve_round) \<Rightarrow> nat \<Rightarrow> unit \<Rightarrow>
     (resolve_end \<times> nat) + unit" where
  "resolve_body D entry w deadline rounds i u =
     (if rv_shutdown (rounds i) then Inl (Unresolved, i)
      else if resolve_answer entry w (rounds i) = GotPanic then Inl (ResolvePanic, i)
      else if resolve_tickers D entry w (rounds i) \<noteq> []
      then Inl (Resolved (resolve_unit_of entry (resolve_tickers D entry w (rounds i))), i)
      else if deadline \<le> rv_now (rounds i) \<or> rv_interrupted (rounds i) then Inl (Unresolved, i)
      else Inr ())"

lemma resolve_loop_induct:
  assumes "resolve_loop D entry w deadline rounds i = Some r"
    and "\<And>i u r. resolve_body D entry w deadline rounds i u = Inl r \<Longrightarrow> P i u r"
    and "\<And>i u v r. resolve_body D entry w deadline rounds i u = Inr v \<Longrightarrow> P (i + 1) v r \<Longrightarrow> P i u r"
  shows "P i () r"
proof (rule resolve_loop.raw_induct [where P = "\<lambda>d e x t rs i r. d = D \<and> e = entry \<and> x = w \<and> t = deadline \<and> rs = rounds \<longrightarrow> P i () r",
      OF _ assms(1), THEN mp], intro impI, elim conjE, hypsubst)
  fix loop i r
  assume ih: "\<And>d e x t rs i r. loop d e x t rs i = Some r \<Longrightarrow>
      d = D \<and> e = entry \<and> x = w \<and> t = deadline \<and> rs = rounds \<longrightarrow> P i () r"
    and r: "(if rv_shutdown (rounds i) then Some (Unresolved, i)
       else if resolve_answer entry w (rounds i) = GotPanic then Some (ResolvePanic, i)
       else let tickers = resolve_tickers D entry w (rounds i) in
         if tickers \<noteq> [] then Some (Resolved (resolve_unit_of entry tickers), i)
         else if deadline \<le> rv_now (rounds i) then Some (Unresolved, i)
         else if rv_interrupted (rounds i) then Some (Unresolved, i)
         else loop D entry w deadline rounds (i + 1)) = Some r"
  show "P i () r"
    using assms(2) [of i "()" r] assms(3) [of i "()" "()" r] ih [of D entry w deadline rounds "i + 1" r] r
    by (auto simp: resolve_body_def Let_def split: if_splits)
qed simp

interpretation resolving: polling "resolve_body D entry w deadline rounds"
    "\<lambda>i u. resolve_loop D entry w deadline rounds i" for D entry w deadline rounds
proof
  show "resolve_loop D entry w deadline rounds i =
      (case resolve_body D entry w deadline rounds i u of Inl r \<Rightarrow> Some r
       | Inr t \<Rightarrow> resolve_loop D entry w deadline rounds (i + 1))" for i u
    by (subst resolve_loop.simps) (simp add: resolve_body_def Let_def)
next
  fix i u r P
  assume a: "resolve_loop D entry w deadline rounds i = Some r"
    and b: "\<And>i s r. resolve_body D entry w deadline rounds i s = Inl r \<Longrightarrow> P i s r"
    and c: "\<And>i s t r. resolve_body D entry w deadline rounds i s = Inr t \<Longrightarrow> P (i + 1) t r \<Longrightarrow> P i s r"
  have "P i () r" by (rule resolve_loop_induct [OF a b c])
  then show "P i u r" by simp
qed

lemma resolve_loop_ends:
  assumes "deadline \<le> rv_now (rounds n)"
  shows "\<exists>i r. i \<le> n \<and> resolve_loop D entry w deadline rounds 0 = Some (r, i) \<and>
     (\<forall>j < i. resolve_tickers D entry w (rounds j) = [] \<and> rv_now (rounds j) < deadline) \<and>
     (\<forall>u. r = Resolved u \<longrightarrow> resolve_tickers D entry w (rounds i) \<noteq> [] \<and>
        u = resolve_unit_of entry (resolve_tickers D entry w (rounds i)))"
proof -
  have "\<exists>r. resolve_body D entry w deadline rounds n t = Inl r" for t
    using assms by (simp add: resolve_body_def)
  from resolving.loop_ends [of D entry w deadline rounds n "()", OF this]
  obtain i r where i: "i \<le> n" "polled (resolve_body D entry w deadline rounds) () i = Inr ()"
      "resolve_body D entry w deadline rounds i () = Inl r"
      "resolve_loop D entry w deadline rounds 0 = Some r"
    by auto
  have "resolve_tickers D entry w (rounds j) = [] \<and> rv_now (rounds j) < deadline" if "j < i" for j
    using polled_earlier [OF i(2) that] by (auto simp: resolve_body_def split: if_splits)
  with i show ?thesis by (intro exI [of _ i] exI [of _ "fst r"]) (auto simp: resolve_body_def split: if_splits)
qed

lemma resolved_unit:
  assumes "resolve_loop D entry w deadline rounds i = Some (Resolved u, j)"
  shows "resolve_tickers D entry w (rounds j) \<noteq> [] \<and> u = resolve_unit_of entry (resolve_tickers D entry w (rounds j))"
  using resolving.loop_returns [OF assms, where keeps = "\<lambda>_. True"]
  by (auto simp: resolve_body_def split: if_splits)

section \<open>The order of arming\<close>

lemma retain_entries_None: "retain_entries keep es = None \<longleftrightarrow> (\<exists>e \<in> set es. keep e = None)"
  by (induction es) (auto split: option.splits)

lemma retain_entries_Some:
  "retain_entries keep es = Some kept \<Longrightarrow> kept = filter (\<lambda>e. keep e = Some True) es"
  by (induction es arbitrary: kept) (auto split: option.splits)

lemma retain_entries_total:
  "(\<forall>e \<in> set es. keep e \<noteq> None) \<Longrightarrow> retain_entries keep es = Some (filter (\<lambda>e. keep e = Some True) es)"
  using retain_entries_None [of keep es] retain_entries_Some [of keep es] by (cases "retain_entries keep es") auto

lemma window_ahead_Some:
  "window_ahead D cfg now e \<noteq> None \<longleftrightarrow>
     (let h = u64_as_i64 (max_hours_of cfg e) in
      \<bar>h\<bar> \<le> 2562047788015 \<and> sc_in_range D (se_start_utc e + h * 3600 * ns_per_sec))"
  by (auto simp: window_ahead_def time_span_def date_add_def Let_def bind_eq_None_conv ns_per_sec_def
      split: if_splits)

lemma window_ahead_True:
  "window_ahead D cfg now e = Some True \<Longrightarrow>
     now < se_start_utc e + u64_as_i64 (max_hours_of cfg e) * 3600 * ns_per_sec"
  by (auto simp: window_ahead_def time_span_def date_add_def bind_eq_Some_conv ns_per_sec_def split: if_splits)

lemma arm_at_Some:
  "arm_at D e lead = Some t \<longleftrightarrow>
     (let l = max 0 (case se_arm_lead_min e of Some l \<Rightarrow> l | None \<Rightarrow> lead) in
      l \<le> 153722867280912 \<and> t = se_start_utc e - l * 60 * ns_per_sec \<and> sc_in_range D t)"
  by (auto simp: arm_at_def time_span_def date_add_def Let_def bind_eq_Some_conv ns_per_sec_def split: if_splits)

lemma arm_at_too_far: "153722867280912 < l \<Longrightarrow> se_arm_lead_min e = Some l \<Longrightarrow> arm_at D e lead = None"
  using arm_at_Some [of D e lead] by (cases "arm_at D e lead") (auto simp: Let_def)

lemma arm_order_kept:
  "(\<forall>e \<in> set es. window_ahead D cfg now e \<noteq> None) \<Longrightarrow>
     arm_order D cfg now es = arm_sort D cfg (filter (\<lambda>e. window_ahead D cfg now e = Some True) es)"
  by (simp add: arm_order_def retain_entries_total)

lemma arm_sort_Some:
  assumes "arm_sort D cfg es = Some r"
  shows "mset r = mset es \<and>
     sorted_wrt (\<lambda>a b. the (arm_at D a (sf_arm_lead_min cfg)) \<le> the (arm_at D b (sf_arm_lead_min cfg))) r \<and>
     (2 \<le> length es \<longrightarrow> (\<forall>e \<in> set r. arm_at D e (sf_arm_lead_min cfg) \<noteq> None))"
proof (cases "length es \<le> 1")
  case True
  then have "r = es" using assms by (simp add: arm_sort_def)
  with True show ?thesis by (cases es) auto
next
  case False
  let ?k = "\<lambda>e. the (arm_at D e (sf_arm_lead_min cfg))"
  have r: "r = sort_key ?k es" "\<forall>e \<in> set es. arm_at D e (sf_arm_lead_min cfg) \<noteq> None"
    using assms False by (auto simp: arm_sort_def list_all_iff split: if_splits)
  have "sorted (map ?k r)" unfolding r(1) by (rule sorted_sort_key)
  then have "sorted_wrt (\<lambda>a b. ?k a \<le> ?k b) r" by (simp add: sorted_wrt_map)
  with r show ?thesis by simp
qed

section \<open>What a run keeps\<close>

definition phase_entry :: "sched_phase \<Rightarrow> ScheduleEntry list" where
  "phase_entry p =
     (case p of Waiting e _ \<Rightarrow> [e] | Resolving e _ \<Rightarrow> [e] | Panicked e \<Rightarrow> [e] | _ \<Rightarrow> [])"

definition outcome_ok :: "sched_lib \<Rightarrow> SchedCfg \<Rightarrow> ScheduleEntry \<Rightarrow> sched_outcome \<Rightarrow> bool" where
  "outcome_ok D cfg e out \<longleftrightarrow>
     (\<forall>u t. out = ArmedUnit u t \<longrightarrow>
        (\<exists>a. arm_at D e (sf_arm_lead_min cfg) = Some a \<and> a \<le> t) \<and>
        cu_tickers u \<noteq> [] \<and> cu_session u = session_name e (cu_tickers u) \<and> cu_event u = cu_session u)"

definition phase_ok :: "sched_lib \<Rightarrow> SchedCfg \<Rightarrow> sched_phase \<Rightarrow> bool" where
  "phase_ok D cfg p \<longleftrightarrow>
     (\<forall>e t. p = Waiting e t \<longrightarrow> arm_at D e (sf_arm_lead_min cfg) = Some t) \<and>
     (\<forall>e t. p = Resolving e t \<longrightarrow> (\<exists>a. arm_at D e (sf_arm_lead_min cfg) = Some a \<and> a \<le> t))"

definition armed_units :: "(ScheduleEntry \<times> sched_outcome) list \<Rightarrow> CaptureUnit list" where
  "armed_units lg = concat (map (\<lambda>(e, out). case out of ArmedUnit u _ \<Rightarrow> [u] | _ \<Rightarrow> []) lg)"

definition sched_inv :: "sched_lib \<Rightarrow> SchedCfg \<Rightarrow> ScheduleEntry list \<Rightarrow> scheduler \<Rightarrow> bool" where
  "sched_inv D cfg es s \<longleftrightarrow>
     map fst (sr_log s) @ phase_entry (sr_phase s) @ sr_pending s = es \<and>
     phase_ok D cfg (sr_phase s) \<and>
     (\<forall>(e, out) \<in> set (sr_log s). outcome_ok D cfg e out) \<and>
     (sr_phase s = Parked \<longrightarrow> sr_pending s = [] \<or> sr_shutdown s) \<and>
     (sr_phase s = Left \<longrightarrow> sr_shutdown s) \<and>
     subseq (map ut_unit (filter (\<lambda>t. \<not> ut_finished t) (sr_inflight s))) (armed_units (sr_log s))"

lemma phase_entry_simps [simp]:
  "phase_entry Picking = []" "phase_entry (Waiting e t) = [e]" "phase_entry (Resolving e t) = [e]"
  "phase_entry Parked = []" "phase_entry Left = []" "phase_entry (Panicked e) = [e]"
  by (simp_all add: phase_entry_def)

lemma phase_ok_simps [simp]:
  "phase_ok D cfg Picking" "phase_ok D cfg Parked" "phase_ok D cfg Left" "phase_ok D cfg (Panicked e)"
  "phase_ok D cfg (Waiting e t) \<longleftrightarrow> arm_at D e (sf_arm_lead_min cfg) = Some t"
  "phase_ok D cfg (Resolving e t) \<longleftrightarrow> (\<exists>a. arm_at D e (sf_arm_lead_min cfg) = Some a \<and> a \<le> t)"
  by (simp_all add: phase_ok_def)

lemma outcome_ok_simps [simp]:
  "outcome_ok D cfg e PredictedArchived" "outcome_ok D cfg e NotFound" "outcome_ok D cfg e SessionArchived"
  by (simp_all add: outcome_ok_def)

lemma armed_units_simps [simp]:
  "armed_units (lg @ [(e, out)]) = armed_units lg @ (case out of ArmedUnit u _ \<Rightarrow> [u] | _ \<Rightarrow> [])"
  by (simp add: armed_units_def)

lemma armed_units_Nil [simp]: "armed_units [] = []"
  by (simp add: armed_units_def)

lemma reaped_running [simp]:
  "filter (\<lambda>t. \<not> ut_finished t) (reap_inflight ut_finished ts) = filter (\<lambda>t. \<not> ut_finished t) ts"
  by (simp add: reap_inflight_def)

lemma filter_finish_subseq:
  "i < length ts \<Longrightarrow> subseq (map ut_unit (filter (\<lambda>t. \<not> ut_finished t) (ts[i := (ts ! i)\<lparr>ut_finished := True\<rparr>])))
     (map ut_unit (filter (\<lambda>t. \<not> ut_finished t) ts))"
proof (induction ts arbitrary: i)
  case (Cons t ts)
  then show ?case by (cases i) (auto intro: subseq_Cons' subseq_order.order_refl)
qed simp

lemma resolve_unit_Resolved:
  assumes "resolve_unit D cfg e now rounds = Some (Resolved u, i)"
  shows "cu_tickers u \<noteq> [] \<and> cu_session u = session_name e (cu_tickers u) \<and> cu_event u = cu_session u \<and>
     cu_remote_prefix u = se_remote_prefix e \<and>
     (\<exists>w c markets. resolve_answer e w (rounds i) = GotOk (markets, c) \<and> cu_tickers u = match_event_markets D e markets)"
proof -
  obtain w deadline where "resolve_loop D e w deadline rounds 0 = Some (Resolved u, i)"
    using assms by (auto simp: resolve_unit_def split: option.splits)
  from resolved_unit [OF this] have r: "resolve_tickers D e w (rounds i) \<noteq> []"
      "u = resolve_unit_of e (resolve_tickers D e w (rounds i))"
    by auto
  then obtain markets c where "resolve_answer e w (rounds i) = GotOk (markets, c)"
      "resolve_tickers D e w (rounds i) = match_event_markets D e markets"
    by (auto simp: resolve_tickers_def split: get_result.splits)
  with r show ?thesis unfolding resolve_unit_of_def Let_def by (metis CaptureUnit.select_convs)
qed

lemma sched_inv_start: "sched_inv D cfg es (scheduler_start es d)"
  by (simp add: sched_inv_def scheduler_start_def)

lemma sched_inv_pick:
  assumes "sched_inv D cfg es s" "sr_phase s = Picking" "sr_pending s = e # rest"
  shows "sched_inv D cfg es (pick_entry D cfg now e (s\<lparr>sr_pending := rest\<rparr>))"
  using assms
  by (auto simp: sched_inv_def pick_entry_def handled_def begin_resolve_def split: option.splits)

lemma sched_inv_arm:
  assumes "sched_inv D cfg es s" "sr_phase s = Resolving e t" "resolve_unit D cfg e now rounds = Some (Resolved u, i)"
  shows "sched_inv D cfg es (arm_entry cfg e t u s)"
proof -
  have "outcome_ok D cfg e (ArmedUnit u t)"
    using assms(1,2) resolve_unit_Resolved [OF assms(3)] by (auto simp: sched_inv_def outcome_ok_def)
  with assms(1,2) show ?thesis
    by (auto simp: sched_inv_def arm_entry_def handled_def intro: list_emb_append_mono)
qed

lemma sched_inv_step:
  assumes "sched_inv D cfg es s" and "sched_step capture D cfg inp s = Some s'"
  shows "sched_inv D cfg es s'"
proof (cases inp)
  case (SNext shutdown now)
  show ?thesis
  proof (cases "sr_phase s = Picking \<and> \<not> shutdown \<and> sr_pending s \<noteq> []")
    case True
    then obtain e rest where "sr_phase s = Picking" "sr_pending s = e # rest" "\<not> shutdown"
      by (cases "sr_pending s") auto
    then show ?thesis
      using sched_inv_pick [OF assms(1)] assms(2) SNext by auto
  next
    case False
    with assms SNext show ?thesis
      by (auto simp: sched_inv_def saw_shutdown_def split: sched_phase.splits list.splits if_splits)
  qed
next
  case (SWake interrupted now)
  with assms show ?thesis
    by (auto simp: sched_inv_def saw_shutdown_def begin_resolve_def split: sched_phase.splits if_splits)
next
  case (SResolve now rounds)
  then obtain e t where p: "sr_phase s = Resolving e t"
    using assms(2) by (auto split: sched_phase.splits)
  show ?thesis
  proof (cases "\<exists>u i. resolve_unit D cfg e now rounds = Some (Resolved u, i)")
    case True
    then show ?thesis using sched_inv_arm [OF assms(1) p] assms(2) SResolve p by auto
  next
    case False
    with assms SResolve p show ?thesis
      by (fastforce simp: sched_inv_def handled_def split: option.splits resolve_end.splits)
  qed
next
  case (SPark shutdown)
  with assms show ?thesis
    by (auto simp: sched_inv_def park_round_def saw_shutdown_def split: if_splits)
next
  case (SUnitEnds i io)
  with assms show ?thesis
    using filter_finish_subseq [of i "sr_inflight s"]
    by (auto simp: sched_inv_def Let_def split: if_splits intro: subseq_order.order_trans)
next
  case (SArchived session)
  with assms show ?thesis by (auto simp: sched_inv_def)
qed

interpretation scheduled: stepwise_invariant "sched_step capture D cfg" "scheduler_start es d" "sched_inv D cfg es"
  for capture D cfg es d
  by unfold_locales (auto intro: sched_inv_start sched_inv_step)

section \<open>Properties\<close>

text \<open>
  C20. An entry is matched with the right markets: the result has no repetitions and is sorted, and it holds
  the tickers of the predicted event when the page has any; otherwise, when the entry names teams, the
  tickers of the markets whose event and ticker contain every team code, in any order and any case.
\<close>

theorem match_event_markets_exact:
  fixes ms :: "'f Market list" and e :: ScheduleEntry
  defines "predicted \<equiv> {mk_ticker m | m. m \<in> set ms \<and> mk_event_ticker m \<noteq> None \<and> mk_event_ticker m = se_event_ticker e}"
  shows "sorted_wrt (<) (match_event_markets D e ms) \<and>
     set (match_event_markets D e ms) =
       (if predicted \<noteq> {} then predicted
        else if se_teams e = [] then {}
        else {mk_ticker m | m. m \<in> set ms \<and>
                (\<forall>team \<in> set (se_teams e). \<exists>before after.
                   sc_upper D ((case mk_event_ticker m of Some ev \<Rightarrow> ev | None \<Rightarrow> []) @ '' '' @ mk_ticker m) =
                     before @ sc_upper D team @ after)})"
proof -
  have p: "predicted = set (predicted_hits e ms)"
    by (simp add: predicted_def predicted_hits_set)
  have "{mk_ticker m | m. m \<in> set ms \<and> team_match D (map (sc_upper D) (se_teams e)) m} =
      mk_ticker ` set (filter (team_match D (map (sc_upper D) (se_teams e))) ms)"
    by auto
  then show ?thesis
    unfolding p by (simp add: match_event_markets_def Let_def strict_sorted_remdups_adj team_match_iff)
qed

text \<open>
  C25. The order of arming, and when computing it panics. When every backstop and every arm time can be
  represented, the entries whose window is still ahead are armed, each as often as the schedule has it, by
  arm time. But one entry with a lead above 153722867280912 minutes panics the whole ordering as soon as
  another entry is ahead too, however good the other entries are.
\<close>

theorem arm_order_exact:
  "((\<forall>e \<in> set es. window_ahead D cfg now e \<noteq> None \<and> arm_at D e (sf_arm_lead_min cfg) \<noteq> None) \<longrightarrow>
      (\<exists>r. arm_order D cfg now es = Some r \<and>
         mset r = {#e \<in># mset es. window_ahead D cfg now e = Some True#} \<and>
         sorted_wrt (\<lambda>a b. the (arm_at D a (sf_arm_lead_min cfg)) \<le> the (arm_at D b (sf_arm_lead_min cfg))) r)) \<and>
   ((\<exists>e \<in> set es. window_ahead D cfg now e = Some True \<and> (\<exists>l > 153722867280912. se_arm_lead_min e = Some l)) \<and>
      2 \<le> length (filter (\<lambda>e. window_ahead D cfg now e = Some True) es) \<longrightarrow>
      arm_order D cfg now es = None)"
proof (intro conjI impI)
  let ?kept = "filter (\<lambda>e. window_ahead D cfg now e = Some True) es"
  assume all: "\<forall>e \<in> set es. window_ahead D cfg now e \<noteq> None \<and> arm_at D e (sf_arm_lead_min cfg) \<noteq> None"
  then obtain r where r: "arm_sort D cfg ?kept = Some r"
    by (cases "arm_sort D cfg ?kept") (auto simp: arm_sort_def list_all_iff split: if_splits)
  with all show "\<exists>r. arm_order D cfg now es = Some r \<and>
      mset r = {#e \<in># mset es. window_ahead D cfg now e = Some True#} \<and>
      sorted_wrt (\<lambda>a b. the (arm_at D a (sf_arm_lead_min cfg)) \<le> the (arm_at D b (sf_arm_lead_min cfg))) r"
    using arm_sort_Some [OF r] arm_order_kept [of es D cfg now] by (auto simp: mset_filter)
next
  let ?kept = "filter (\<lambda>e. window_ahead D cfg now e = Some True) es"
  assume bad: "(\<exists>e \<in> set es. window_ahead D cfg now e = Some True \<and> (\<exists>l > 153722867280912. se_arm_lead_min e = Some l)) \<and>
      2 \<le> length ?kept"
  then obtain e where "e \<in> set ?kept" "arm_at D e (sf_arm_lead_min cfg) = None"
    using arm_at_too_far by fastforce
  then have "arm_sort D cfg ?kept = None"
    using bad by (auto simp: arm_sort_def list_all_iff)
  then show "arm_order D cfg now es = None"
    using retain_entries_Some [of "window_ahead D cfg now" es]
    by (cases "retain_entries (window_ahead D cfg now) es") (auto simp: arm_order_def)
qed

text \<open>Two entries an hour apart, one of them with a lead of a few hundred million years.\<close>

definition ex_entry :: "string \<Rightarrow> i64 option \<Rightarrow> ScheduleEntry" where
  "ex_entry i lead =
     \<lparr>se_id = i, se_label = [], se_series = ''S'', se_event_ticker = None, se_teams = [''a'', ''b''],
      se_start_utc = 7200 * ns_per_sec, se_arm_lead_min = lead, se_max_hours = None, se_remote_prefix = None\<rparr>"

definition ex_sched_lib :: sched_lib where
  "ex_sched_lib = \<lparr>sc_in_range = (\<lambda>t. \<bar>t\<bar> \<le> 8000000000000 * ns_per_sec), sc_upper = id, sc_entry = (\<lambda>_. None)\<rparr>"

definition ex_sched_cfg :: SchedCfg where
  "ex_sched_cfg =
     \<lparr>sf_data_dir = [''data''], sf_floor_bytes = 0, sf_capacity = 8192, sf_idle_secs = 45, sf_grace_secs = 180,
      sf_poll_secs = 30, sf_arm_lead_min = 60, sf_default_max_hours = 8, sf_resolve_grace = 1800,
      sf_archive_cmd = [], sf_verify_interval_secs = 0\<rparr>"

lemma ex_window_ahead: "window_ahead ex_sched_lib ex_sched_cfg 0 (ex_entry i l) = Some True"
  by (simp add: window_ahead_def time_span_def date_add_def max_hours_of_def ex_sched_lib_def ex_sched_cfg_def
      ex_entry_def u64_as_i64_small ns_per_sec_def)

lemma ex_arm_at: "arm_at ex_sched_lib (ex_entry i None) 60 = Some (3600 * ns_per_sec)"
  by (simp add: arm_at_def time_span_def date_add_def ex_sched_lib_def ex_entry_def ns_per_sec_def)

theorem arm_order_exact_witness:
  "arm_order ex_sched_lib ex_sched_cfg 0 [ex_entry ''x'' None, ex_entry ''y'' (Some 160000000000000)] = None \<and>
   (\<exists>r. arm_order ex_sched_lib ex_sched_cfg 0 [ex_entry ''x'' None, ex_entry ''y'' None] = Some r \<and> size (mset r) = 2)"
proof
  have "se_arm_lead_min (ex_entry ''y'' (Some 160000000000000)) = Some 160000000000000"
    by (simp add: ex_entry_def)
  then show "arm_order ex_sched_lib ex_sched_cfg 0 [ex_entry ''x'' None, ex_entry ''y'' (Some 160000000000000)] = None"
    using arm_order_exact [of "[ex_entry ''x'' None, ex_entry ''y'' (Some 160000000000000)]" ex_sched_lib ex_sched_cfg 0]
    by (simp add: ex_window_ahead)
  have "sf_arm_lead_min ex_sched_cfg = 60" by (simp add: ex_sched_cfg_def)
  then obtain r where r: "arm_order ex_sched_lib ex_sched_cfg 0 [ex_entry ''x'' None, ex_entry ''y'' None] = Some r"
      "mset r = {#e \<in># mset [ex_entry ''x'' None, ex_entry ''y'' None].
         window_ahead ex_sched_lib ex_sched_cfg 0 e = Some True#}"
    using arm_order_exact [of "[ex_entry ''x'' None, ex_entry ''y'' None]" ex_sched_lib ex_sched_cfg 0]
    by (auto simp: ex_window_ahead ex_arm_at)
  have "size (mset r) = 2" unfolding r(2) by (simp add: ex_window_ahead)
  with r(1) show "\<exists>r. arm_order ex_sched_lib ex_sched_cfg 0 [ex_entry ''x'' None, ex_entry ''y'' None] = Some r \<and>
      size (mset r) = 2"
    by blast
qed

text \<open>
  C10. A scheduled run handles its entries one after the other in the order of arming and forgets none: at any
  time the entries it is done with, the one it is at and those to come are the schedule. An entry is
  armed at its arm time or later, never earlier, with markets to capture, under its session name. Behind the
  loop it parks, and it leaves only once a shutdown was seen; the units that run are units it armed.
\<close>

theorem scheduled_run_exact:
  assumes "reachable (sched_step capture D cfg) (scheduler_start es d) s"
  shows "map fst (sr_log s) @ phase_entry (sr_phase s) @ sr_pending s = es \<and>
    (\<forall>e u t. (e, ArmedUnit u t) \<in> set (sr_log s) \<longrightarrow>
       (\<exists>a. arm_at D e (sf_arm_lead_min cfg) = Some a \<and> a \<le> t) \<and>
       cu_tickers u \<noteq> [] \<and> cu_session u = session_name e (cu_tickers u) \<and> cu_event u = cu_session u) \<and>
    (sr_phase s = Parked \<longrightarrow> sr_pending s = [] \<or> sr_shutdown s) \<and>
    (sr_phase s = Left \<longrightarrow> sr_shutdown s) \<and>
    subseq (map ut_unit (filter (\<lambda>t. \<not> ut_finished t) (sr_inflight s))) (armed_units (sr_log s))"
  using scheduled.inv_reachable [OF assms] unfolding sched_inv_def outcome_ok_def by blast

definition ex_team_market :: "string \<Rightarrow> unit Market" where
  "ex_team_market t =
     \<lparr>mk_ticker = t, mk_title = [], mk_status = None, mk_volume_fp = None, mk_close_time = None,
      mk_event_ticker = None, mk_open_time = None, mk_settlement_ts = None, mk_occurrence_datetime = None,
      mk_result = None, mk_floor_strike = None, mk_yes_bid_dollars = None, mk_yes_ask_dollars = None,
      mk_last_price_dollars = None, mk_volume_24h_fp = None\<rparr>"

theorem match_event_markets_exact_witness:
  "sorted_wrt (<) (match_event_markets ex_sched_lib (ex_entry ''x'' None)
       [ex_team_market ''bxa-a'', ex_team_market ''c-a'', ex_team_market ''axb'']) \<and>
   match_event_markets ex_sched_lib (ex_entry ''x'' None)
       [ex_team_market ''bxa-a'', ex_team_market ''c-a'', ex_team_market ''axb''] = [''axb'', ''bxa-a'']"
proof
  show "sorted_wrt (<) (match_event_markets ex_sched_lib (ex_entry ''x'' None)
       [ex_team_market ''bxa-a'', ex_team_market ''c-a'', ex_team_market ''axb''])"
    using match_event_markets_exact [of ex_sched_lib "ex_entry ''x'' None"
        "[ex_team_market ''bxa-a'', ex_team_market ''c-a'', ex_team_market ''axb'']"] by simp
  show "match_event_markets ex_sched_lib (ex_entry ''x'' None)
       [ex_team_market ''bxa-a'', ex_team_market ''c-a'', ex_team_market ''axb''] = [''axb'', ''bxa-a'']"
    by code_simp
qed

definition ex_resolve_round :: "unit resolve_round" where
  "ex_resolve_round =
     \<lparr>rv_shutdown = False,
      rv_http = (\<lambda>_ _ _. Answered 200 (Inr ([ex_team_market ''bxa-a'', ex_team_market ''c-a''], None))),
      rv_now = 3600 * ns_per_sec, rv_interrupted = False\<rparr>"

definition ex_sched_run :: "unit sched_input list" where
  "ex_sched_run =
     [SNext False 0, SWake False (3600 * ns_per_sec), SResolve (3600 * ns_per_sec) (\<lambda>_. ex_resolve_round),
      SNext False (3601 * ns_per_sec), SPark True]"

definition ex_sched_unit :: CaptureUnit where
  "ex_sched_unit = \<lparr>cu_session = ''bxa'', cu_tickers = [''bxa-a''], cu_event = ''bxa'', cu_remote_prefix = None\<rparr>"

lemma ex_resolved:
  "resolve_unit ex_sched_lib ex_sched_cfg (ex_entry ''x'' None) (3600 * ns_per_sec) (\<lambda>_. ex_resolve_round) =
     Some (Resolved ex_sched_unit, 0)"
proof -
  have a: "resolve_answer (ex_entry ''x'' None) w ex_resolve_round =
      GotOk ([ex_team_market ''bxa-a'', ex_team_market ''c-a''], None)" for w
    by (simp add: resolve_answer_def list_markets_page_def get_with_retry_def get_loop.simps [of _ 0]
        ex_resolve_round_def status_is_success_def next_cursor_def)
  then have "resolve_tickers ex_sched_lib (ex_entry ''x'' None) w ex_resolve_round = [''bxa-a'']" for w
    by (simp add: resolve_tickers_def) code_simp
  moreover have "resolve_unit_of (ex_entry ''x'' None) [''bxa-a''] = ex_sched_unit"
    by code_simp
  moreover have "\<not> rv_shutdown ex_resolve_round" by (simp add: ex_resolve_round_def)
  ultimately show ?thesis
    using a
    by (simp add: resolve_unit_def resolve_loop.simps [of _ _ _ _ _ 0] discovery_window_def resolve_deadline_def
        time_span_def date_add_def max_hours_of_def ex_sched_lib_def ex_sched_cfg_def
        ex_entry_def u64_as_i64_small ns_per_sec_def)
qed

theorem scheduled_run_exact_witness:
  "\<exists>s. run_inputs (sched_step (\<lambda>_ _ d. d) ex_sched_lib ex_sched_cfg) ex_sched_run
       (scheduler_start [ex_entry ''x'' None] Map.empty) = Some s \<and>
     sr_log s = [(ex_entry ''x'' None, ArmedUnit ex_sched_unit (3600 * ns_per_sec))] \<and>
     sr_phase s = Left \<and> sr_shutdown s"
proof -
  have lead: "sf_arm_lead_min ex_sched_cfg = 60" by (simp add: ex_sched_cfg_def)
  have ns: "\<not> ns_per_sec \<le> 0" by (simp add: ns_per_sec_def)
  have na: "\<not> already_archived Map.empty p (ex_entry ''x'' None)" for p
    by (simp add: already_archived_def ex_entry_def)
  obtain s where s: "run_inputs (sched_step (\<lambda>_ _ d. d) ex_sched_lib ex_sched_cfg) ex_sched_run
       (scheduler_start [ex_entry ''x'' None] Map.empty) = Some s"
      "sr_log s = [(ex_entry ''x'' None, ArmedUnit ex_sched_unit (3600 * ns_per_sec))]" "sr_phase s = Left"
    by (simp add: ex_sched_run_def scheduler_start_def pick_entry_def na lead ex_arm_at begin_resolve_def
        ex_resolved arm_entry_def handled_def park_round_def saw_shutdown_def reap_inflight_def ns)
  then show ?thesis
    using scheduled_run_exact [OF run_inputs_reachable [OF s(1)]] by blast
qed

end
