(* ===== verification/Hourly.thy ===== *)
theory Hourly
  imports Universe Sorted_By
begin

text \<open>
  The hourly supervisor \<^verbatim>\<open>crates/kdp-cli/src/hourly.rs\<close>: which markets are hourly, the next boundary, the
  selection of the strike band, the discovery of the hour that opens, the wait for its full ladder,
  and one round of the forever loop.

  Parameters: the HTTP client and the clock of each round, the parser of instants, floating-point
  numbers, and the range of \<^verbatim>\<open>DateTime\<close> (\<open>ok\<close>), outside of which its arithmetic panics. Strikes are compared with \<open>fl_ge\<close>; the lemmas on the band assume
  that it is a total preorder on the strikes that occur, which holds of numbers read from JSON.

  The lemmas show what the band is, that the waits end, and when an hour is armed.
\<close>

section \<open>Hours\<close>

definition DEFAULT_BAND :: nat where "DEFAULT_BAND = 0"

definition is_hourly :: "rest_lib \<Rightarrow> 'f Market \<Rightarrow> bool" where
  "is_hourly L m =
     (case (parse_rfc3339 L (mk_open_time m), parse_rfc3339 L (mk_close_time m)) of
        (Some op, Some cl) \<Rightarrow> let mins = num_minutes (cl - op) in 50 \<le> mins \<and> mins \<le> 70
      | _ \<Rightarrow> False)"

definition next_boundary :: "Timestamp \<Rightarrow> Timestamp" where
  "next_boundary now =
     (let f = now - now mod hour_ns in if f > now then f else f + hour_ns)"

section \<open>The band\<close>

definition fl_lt :: "'f float_lib \<Rightarrow> 'f \<Rightarrow> 'f \<Rightarrow> bool" where
  "fl_lt F a b \<longleftrightarrow> fl_ge F b a \<and> \<not> fl_ge F a b"

fun dedup_by_snd :: "('a \<times> string) list \<Rightarrow> ('a \<times> string) list" where
  "dedup_by_snd (a # b # xs) = (if snd a = snd b then dedup_by_snd (a # xs) else a # dedup_by_snd (b # xs))"
| "dedup_by_snd xs = xs"

definition strikes_of :: "'f float_lib \<Rightarrow> 'f Market list \<Rightarrow> ('f \<times> string) list" where
  "strikes_of F markets =
     dedup_by_snd (sort_by (\<lambda>a b. fl_lt F (fst a) (fst b))
       (concat (map (\<lambda>m. case mk_floor_strike m of Some s \<Rightarrow> [(s, mk_ticker m)] | None \<Rightarrow> []) markets)))"

definition priced_strike :: "'f float_lib \<Rightarrow> 'f Market list \<Rightarrow> 'f option" where
  "priced_strike F markets =
     map_option fst (min_by (\<lambda>a b. fl_lt F (snd a) (snd b))
       (concat (map (\<lambda>m. case (mk_floor_strike m, atm_distance F m) of
                           (Some s, Some d) \<Rightarrow> [(s, d)] | _ \<Rightarrow> []) markets)))"

definition band_center :: "'f float_lib \<Rightarrow> 'f \<Rightarrow> ('f \<times> string) list \<Rightarrow> nat" where
  "band_center F atm strikes =
     (case min_by (\<lambda>a b. fl_lt F (snd a) (snd b))
             (enumerate 0 (map (\<lambda>(s, _). fl_abs F (fl_sub F s atm)) strikes)) of
        Some (i, _) \<Rightarrow> i
      | None \<Rightarrow> length strikes div 2)"

definition select_band :: "'f float_lib \<Rightarrow> 'f Market list \<Rightarrow> nat \<Rightarrow> 'f option \<Rightarrow> string list" where
  "select_band F markets band anchor =
     (let strikes = strikes_of F markets in
      if strikes = [] then []
      else if band = 0 then map snd strikes
      else
        let atm_strike = (case opt_or (priced_strike F markets) anchor of
                            Some s \<Rightarrow> s | None \<Rightarrow> fst (strikes ! (length strikes div 2)));
            center = band_center F atm_strike strikes;
            lo = center - band;
            hi = min (center + band + 1) (length strikes)
        in map snd (take (hi - lo) (drop lo strikes)))"

text \<open>\<open>None\<close> where the client panics.\<close>

definition spot_anchor_strike :: "'f float_lib \<Rightarrow> rest_lib \<Rightarrow> 'f market_http \<Rightarrow> string \<Rightarrow> 'f option option" where
  "spot_anchor_strike F L http series =
     (case list_markets_page http 1000 (Some ''open'') (Some series) None None None of
        GotPanic \<Rightarrow> None
      | GotErr _ \<Rightarrow> Some None
      | GotOk (markets, _) \<Rightarrow> Some (priced_strike F (filter (is_hourly L) markets)))"

section \<open>The opening hour\<close>

definition opening_market :: "rest_lib \<Rightarrow> Timestamp \<Rightarrow> 'f Market \<Rightarrow> bool" where
  "opening_market L boundary m \<longleftrightarrow>
     is_hourly L m \<and> parse_rfc3339 L (mk_open_time m) = Some boundary \<and> mk_event_ticker m \<noteq> None"

definition group_opening :: "rest_lib \<Rightarrow> Timestamp \<Rightarrow> 'f Market list \<Rightarrow> (string, 'f Market list) omap" where
  "group_opening L boundary markets =
     fold (\<lambda>m by_event.
         if opening_market L boundary m then
           (case mk_event_ticker m of
              Some ev \<Rightarrow>
                om_insert ev ((case om_get by_event ev of Some ms \<Rightarrow> ms | None \<Rightarrow> []) @ [m]) by_event
            | None \<Rightarrow> by_event)
         else by_event) markets []"

definition market_opening_at :: "rest_lib \<Rightarrow> 'f Market list \<Rightarrow> Timestamp \<Rightarrow> (string \<times> 'f Market list) option" where
  "market_opening_at L markets boundary =
     min_by (\<lambda>a b. length (snd a) > length (snd b) \<or> length (snd a) = length (snd b) \<and> fst a > fst b)
       (group_opening L boundary markets)"

record 'f hour_round =
  hr_shutdown :: bool
  hr_http :: "'f market_http"
  hr_now :: Timestamp
  hr_interrupted :: bool

definition hour_answer :: "string \<Rightarrow> Timestamp \<Rightarrow> 'f hour_round \<Rightarrow> 'f page get_result" where
  "hour_answer series boundary r =
     (let close_lo = boundary div ns_per_sec; close_hi = close_lo + 2 * 3600
      in list_markets_page (hr_http r) 1000 None (Some series) (Some close_lo) (Some close_hi) None)"

definition opening_found :: "rest_lib \<Rightarrow> Timestamp \<Rightarrow> 'f page get_result \<Rightarrow> (string \<times> 'f Market list) option" where
  "opening_found L boundary answer =
     (case answer of GotOk (markets, _) \<Rightarrow> market_opening_at L markets boundary | _ \<Rightarrow> None)"

datatype 'f Arm = Hour string "'f Market list" | Maintenance | Shutdown | DiscoverPanic

partial_function (option) discover_loop ::
    "rest_lib \<Rightarrow> string \<Rightarrow> Timestamp \<Rightarrow> Timestamp \<Rightarrow> (nat \<Rightarrow> 'f hour_round) \<Rightarrow> nat \<Rightarrow> ('f Arm \<times> nat) option" where
  "discover_loop L series boundary deadline rounds i =
     (if hr_shutdown (rounds i) then Some (Shutdown, i)
      else if hour_answer series boundary (rounds i) = GotPanic then Some (DiscoverPanic, i)
      else
        case opening_found L boundary (hour_answer series boundary (rounds i)) of
          Some (ev, hm) \<Rightarrow> Some (Hour ev hm, i)
        | None \<Rightarrow>
            if deadline \<le> hr_now (rounds i) then Some (Maintenance, i)
            else if hr_interrupted (rounds i) then Some (Shutdown, i)
            else discover_loop L series boundary deadline rounds (i + 1))"

text \<open>\<^verbatim>\<open>from_std(d).unwrap_or_default()\<close> of a whole number of seconds: zero when it does not fit.\<close>

definition span_or_zero :: "nat \<Rightarrow> int" where
  "span_or_zero secs = (if int secs \<le> (2 ^ 63 - 1) div 1000 then int secs * ns_per_sec else 0)"

definition discover_opening_hour ::
    "(int \<Rightarrow> bool) \<Rightarrow> rest_lib \<Rightarrow> string \<Rightarrow> Timestamp \<Rightarrow> nat \<Rightarrow> (nat \<Rightarrow> 'f hour_round) \<Rightarrow> ('f Arm \<times> nat) option" where
  "discover_opening_hour ok L series boundary grace rounds =
     (let deadline = boundary + span_or_zero grace in
      if ok deadline then discover_loop L series boundary deadline rounds 0 else Some (DiscoverPanic, 0))"

section \<open>The full ladder\<close>

text \<open>\<open>None\<close> as the ladder where the client panics.\<close>

partial_function (option) ladder_loop ::
    "rest_lib \<Rightarrow> string \<Rightarrow> Timestamp \<Rightarrow> Timestamp \<Rightarrow> Timestamp \<Rightarrow> (nat \<Rightarrow> 'f hour_round) \<Rightarrow> nat \<Rightarrow>
     'f Market list \<times> nat \<Rightarrow> ('f Market list option \<times> nat) option" where
  "ladder_loop L series boundary floor_at cap_at rounds i s =
     (if hr_shutdown (rounds i) then Some (Some (fst s), i)
      else if hour_answer series boundary (rounds i) = GotPanic then Some (None, i)
      else
        let latest = (case opening_found L boundary (hour_answer series boundary (rounds i)) of
                        Some (_, hm) \<Rightarrow> hm | None \<Rightarrow> fst s);
            count = length latest;
            now = hr_now (rounds i)
        in if floor_at \<le> now \<and> 0 < count \<and> count = snd s \<or> cap_at \<le> now then Some (Some latest, i)
           else if hr_interrupted (rounds i) then Some (Some latest, i)
           else ladder_loop L series boundary floor_at cap_at rounds (i + 1) (latest, count))"

definition await_full_ladder ::
    "(int \<Rightarrow> bool) \<Rightarrow> rest_lib \<Rightarrow> string \<Rightarrow> Timestamp \<Rightarrow> nat \<Rightarrow> nat \<Rightarrow> (nat \<Rightarrow> 'f hour_round) \<Rightarrow> ('f Market list option \<times> nat) option" where
  "await_full_ladder ok L series boundary settle cap rounds =
     (let floor_at = boundary + span_or_zero settle; cap_at = boundary + span_or_zero cap in
      if ok floor_at \<and> ok cap_at then ladder_loop L series boundary floor_at cap_at rounds 0 ([], 0)
      else Some (None, 0))"

section \<open>The loop\<close>

record HourCfg =
  hc_data_dir :: path
  hc_band :: nat
  hc_floor_bytes :: u64
  hc_capacity :: nat
  hc_idle_secs :: nat
  hc_grace_secs :: nat
  hc_poll_secs :: nat
  hc_max_hours :: nat
  hc_listing_grace :: nat
  hc_open_settle :: nat
  hc_archive_cmd :: string
  hc_verify_interval_secs :: nat

definition hour_unit_cfg :: "HourCfg \<Rightarrow> UnitCfg" where
  "hour_unit_cfg h =
     \<lparr>uc_data_dir = hc_data_dir h, uc_floor_bytes = hc_floor_bytes h, uc_capacity = hc_capacity h,
      uc_idle_secs = hc_idle_secs h, uc_grace_secs = hc_grace_secs h, uc_poll_secs = hc_poll_secs h,
      uc_max_secs = min (hc_max_hours h * 3600) u64_max, uc_archive_cmd = hc_archive_cmd h,
      uc_checkpoint_cmd = [], uc_verify_interval_secs = hc_verify_interval_secs h\<rparr>"

definition hour_unit :: "string \<Rightarrow> string list \<Rightarrow> CaptureUnit" where
  "hour_unit event_ticker tickers =
     \<lparr>cu_session = event_ticker, cu_tickers = tickers, cu_event = event_ticker, cu_remote_prefix = None\<rparr>"

definition wait_past :: "Timestamp \<Rightarrow> Timestamp \<Rightarrow> int" where
  "wait_past boundary now =
     max (15 * ns_per_sec)
       (if boundary + 15 * ns_per_sec - now < 0 then 15 * ns_per_sec else boundary + 15 * ns_per_sec - now)"

text \<open>
  What one turn of the loop sees: the shutdown flag and the clock at its top, the clock after the
  sleep before the boundary and whether that was cut short, the rounds of the discovery, the flag
  before the ladder, the rounds of the ladder, the client asked for the anchor, and the clock before
  the last wait, the clock after it and whether it was cut short.
\<close>

record 'f hour_turn =
  ht_shutdown :: bool
  ht_now :: Timestamp
  ht_slept_until :: Timestamp
  ht_sleep_cut :: bool
  ht_discover :: "nat \<Rightarrow> 'f hour_round"
  ht_stop_before_ladder :: bool
  ht_ladder :: "nat \<Rightarrow> 'f hour_round"
  ht_anchor :: "'f market_http"
  ht_wait_from :: Timestamp
  ht_wait_until :: Timestamp
  ht_wait_cut :: bool

datatype hourly_phase = Turning | Draining | HourlyPanic

text \<open>\<open>hs_armed\<close> is history: the boundary, the ladder round at which it was armed and the unit of each hour.\<close>

record hourly =
  hs_inflight :: "unit_task list"
  hs_phase :: hourly_phase
  hs_armed :: "(Timestamp \<times> Timestamp \<times> CaptureUnit) list"

definition hourly_start :: hourly where
  "hourly_start = \<lparr>hs_inflight = [], hs_phase = Turning, hs_armed = []\<rparr>"

definition end_turn :: "Timestamp \<Rightarrow> 'f hour_turn \<Rightarrow> hourly \<Rightarrow> hourly option" where
  "end_turn boundary t s =
     (if ht_wait_cut t then Some (s\<lparr>hs_phase := Draining\<rparr>)
      else if ht_wait_from t + wait_past boundary (ht_wait_from t) \<le> ht_wait_until t then Some s
      else None)"

definition arm_hour :: "HourCfg \<Rightarrow> Timestamp \<Rightarrow> Timestamp \<Rightarrow> string \<Rightarrow> string list \<Rightarrow> hourly \<Rightarrow> hourly" where
  "arm_hour h boundary since ev tickers s =
     s\<lparr>hs_inflight := reap_inflight ut_finished (hs_inflight s) @
         [\<lparr>ut_unit = hour_unit ev tickers, ut_cfg = hour_unit_cfg h, ut_finished = False\<rparr>],
       hs_armed := hs_armed s @ [(boundary, since, hour_unit ev tickers)]\<rparr>"

definition select_and_arm ::
    "'f float_lib \<Rightarrow> rest_lib \<Rightarrow> string \<Rightarrow> HourCfg \<Rightarrow> Timestamp \<Rightarrow> string \<Rightarrow> 'f Market list \<Rightarrow> Timestamp \<Rightarrow> 'f hour_turn \<Rightarrow>
     hourly \<Rightarrow> hourly option" where
  "select_and_arm F L series h boundary ev full since t s =
     (case (if hc_band h = 0 then Some None else spot_anchor_strike F L (ht_anchor t) series) of
        None \<Rightarrow> Some (s\<lparr>hs_phase := HourlyPanic\<rparr>)
      | Some anchor \<Rightarrow>
          let tickers = select_band F full (hc_band h) anchor in
          if tickers = [] then end_turn boundary t s
          else end_turn boundary t (arm_hour h boundary since ev tickers s))"

definition hour_turn_step ::
    "(int \<Rightarrow> bool) \<Rightarrow> 'f float_lib \<Rightarrow> rest_lib \<Rightarrow> string \<Rightarrow> HourCfg \<Rightarrow> nat \<Rightarrow> 'f hour_turn \<Rightarrow> hourly \<Rightarrow> hourly option" where
  "hour_turn_step ok F L series h pre_arm t s =
     (let boundary = next_boundary (ht_now t); wake = max (ht_now t) (boundary - span_or_zero pre_arm) in
      if ht_shutdown t then Some (s\<lparr>hs_phase := Draining\<rparr>)
      else if \<not> ok (boundary - span_or_zero pre_arm) then Some (s\<lparr>hs_phase := HourlyPanic\<rparr>)
      else if ht_now t < wake \<and> ht_sleep_cut t then Some (s\<lparr>hs_phase := Draining\<rparr>)
      else if ht_slept_until t < wake then None
      else
        case discover_opening_hour ok L series boundary (hc_listing_grace h) (ht_discover t) of
          None \<Rightarrow> None
        | Some (DiscoverPanic, _) \<Rightarrow> Some (s\<lparr>hs_phase := HourlyPanic\<rparr>)
        | Some (Shutdown, _) \<Rightarrow> Some (s\<lparr>hs_phase := Draining\<rparr>)
        | Some (Maintenance, _) \<Rightarrow> end_turn boundary t s
        | Some (Hour ev _, _) \<Rightarrow>
            if ht_stop_before_ladder t then Some (s\<lparr>hs_phase := Draining\<rparr>)
            else
              case await_full_ladder ok L series boundary (hc_open_settle h) ((hc_open_settle h + 60) mod 2 ^ 64) (ht_ladder t) of
                None \<Rightarrow> None
              | Some (None, _) \<Rightarrow> Some (s\<lparr>hs_phase := HourlyPanic\<rparr>)
              | Some (Some full, i) \<Rightarrow>
                  select_and_arm F L series h boundary ev full (hr_now (ht_ladder t i)) t s)"

datatype 'f hourly_input = HTurn "'f hour_turn" | HUnitEnds nat

fun hourly_step ::
    "(int \<Rightarrow> bool) \<Rightarrow> 'f float_lib \<Rightarrow> rest_lib \<Rightarrow> string \<Rightarrow> HourCfg \<Rightarrow> nat \<Rightarrow> 'f hourly_input \<Rightarrow> hourly \<Rightarrow> hourly option" where
  "hourly_step ok F L series h pre_arm (HTurn t) s =
     (if hs_phase s = Turning then hour_turn_step ok F L series h pre_arm t s else None)"
| "hourly_step ok F L series h pre_arm (HUnitEnds i) s =
     (if i < length (hs_inflight s) \<and> \<not> ut_finished (hs_inflight s ! i)
      then Some (s\<lparr>hs_inflight := (hs_inflight s)[i := (hs_inflight s ! i)\<lparr>ut_finished := True\<rparr>]\<rparr>)
      else None)"

section \<open>Boundaries\<close>

lemma next_boundary_bounds:
  "now < next_boundary now \<and> next_boundary now \<le> now + hour_ns \<and> next_boundary now mod hour_ns = 0"
proof -
  have "0 \<le> now mod hour_ns" "now mod hour_ns < hour_ns"
    by (simp_all add: hour_ns_def)
  moreover have "(now - now mod hour_ns) mod hour_ns = 0"
    by (simp add: minus_mod_eq_mult_div)
  ultimately show ?thesis
    by (auto simp: next_boundary_def Let_def)
qed

lemma wait_past_bounds: "15 * ns_per_sec \<le> wait_past b now \<and> b + 15 * ns_per_sec \<le> now + wait_past b now"
  by (auto simp: wait_past_def ns_per_sec_def)

section \<open>Strikes and distances\<close>

text \<open>The strikes and distances that occur are totally preordered, as finite numbers are.\<close>

definition fl_total :: "'f float_lib \<Rightarrow> 'f set \<Rightarrow> bool" where
  "fl_total F A \<longleftrightarrow> total_preorder (fl_ge F) A"

lemma fl_total_image: "fl_total F (f ` A) \<Longrightarrow> total_preorder (\<lambda>a b. fl_ge F (f a) (f b)) A"
  unfolding fl_total_def total_preorder_def by blast

lemma fl_lt_comparator:
  "(\<lambda>a b. fl_lt F (f a) (f b)) = (\<lambda>a b. fl_ge F (f b) (f a) \<and> \<not> fl_ge F (f a) (f b))"
  by (simp add: fl_lt_def)

lemma fl_sort_by:
  "fl_total F (f ` set xs) \<Longrightarrow> sorted_wrt (\<lambda>a b. fl_ge F (f b) (f a)) (sort_by (\<lambda>a b. fl_lt F (f a) (f b)) xs)"
  unfolding fl_lt_comparator by (rule sort_by_sorted) (rule fl_total_image)

lemma fl_min_by:
  "fl_total F (f ` set xs) \<Longrightarrow> xs \<noteq> [] \<Longrightarrow>
     \<exists>m. min_by (\<lambda>a b. fl_lt F (f a) (f b)) xs = Some m \<and> m \<in> set xs \<and> (\<forall>x \<in> set xs. fl_ge F (f x) (f m))"
  unfolding fl_lt_comparator by (rule min_by_least) (rule fl_total_image)

lemma dedup_by_snd_set: "snd ` set (dedup_by_snd xs) = snd ` set xs \<and> set (dedup_by_snd xs) \<subseteq> set xs"
  by (induction xs rule: dedup_by_snd.induct) (auto split: if_splits)

lemma dedup_by_snd_sorted: "sorted_wrt P xs \<Longrightarrow> sorted_wrt P (dedup_by_snd xs)"
proof (induction xs rule: dedup_by_snd.induct)
  case (1 a b xs)
  then show ?case using dedup_by_snd_set [of "b # xs"] by auto
qed simp_all

section \<open>The band\<close>

definition raw_strikes :: "'f Market list \<Rightarrow> ('f \<times> string) list" where
  "raw_strikes markets =
     concat (map (\<lambda>m. case mk_floor_strike m of Some s \<Rightarrow> [(s, mk_ticker m)] | None \<Rightarrow> []) markets)"

lemma raw_strikes_set: "set (raw_strikes ms) = {(s, mk_ticker m) | s m. m \<in> set ms \<and> mk_floor_strike m = Some s}"
  by (force simp: raw_strikes_def split: option.splits)

lemma strikes_of_raw: "strikes_of F ms = dedup_by_snd (sort_by (\<lambda>a b. fl_lt F (fst a) (fst b)) (raw_strikes ms))"
  by (simp add: strikes_of_def raw_strikes_def)

lemma strikes_of_facts:
  assumes "fl_total F {s. \<exists>m \<in> set ms. mk_floor_strike m = Some s}"
  shows "sorted_wrt (\<lambda>a b. fl_ge F (fst b) (fst a)) (strikes_of F ms) \<and>
     set (strikes_of F ms) \<subseteq> set (raw_strikes ms) \<and>
     snd ` set (strikes_of F ms) = {mk_ticker m | m. m \<in> set ms \<and> mk_floor_strike m \<noteq> None}"
proof -
  have "fst ` set (raw_strikes ms) = {s. \<exists>m \<in> set ms. mk_floor_strike m = Some s}"
    by (force simp: raw_strikes_set image_iff)
  then have "sorted_wrt (\<lambda>a b. fl_ge F (fst b) (fst a)) (sort_by (\<lambda>a b. fl_lt F (fst a) (fst b)) (raw_strikes ms))"
    using fl_sort_by [of F fst "raw_strikes ms"] assms by simp
  moreover have "snd ` set (raw_strikes ms) = {mk_ticker m | m. m \<in> set ms \<and> mk_floor_strike m \<noteq> None}"
    by (force simp: raw_strikes_set image_iff)
  ultimately show ?thesis
    unfolding strikes_of_raw
    using dedup_by_snd_sorted dedup_by_snd_set [of "sort_by (\<lambda>a b. fl_lt F (fst a) (fst b)) (raw_strikes ms)"]
    by auto
qed

lemma band_center_nearest:
  assumes "fl_total F ((\<lambda>(s, _). fl_abs F (fl_sub F s atm)) ` set strikes)" and "strikes \<noteq> []"
  shows "band_center F atm strikes < length strikes \<and>
     (\<forall>(s, t) \<in> set strikes. fl_ge F (fl_abs F (fl_sub F s atm))
        (fl_abs F (fl_sub F (fst (strikes ! band_center F atm strikes)) atm)))"
proof -
  let ?d = "\<lambda>(s, _ :: string). fl_abs F (fl_sub F s atm)"
  let ?xs = "enumerate 0 (map ?d strikes)"
  have snds: "snd ` set ?xs = ?d ` set strikes"
    by (metis list.set_map map_snd_enumerate)
  have "?xs \<noteq> []" using assms(2) by (cases strikes) simp_all
  then obtain m where m: "min_by (\<lambda>a b. fl_lt F (snd a) (snd b)) ?xs = Some m" "m \<in> set ?xs"
      "\<forall>x \<in> set ?xs. fl_ge F (snd x) (snd m)"
    using fl_min_by [of F snd ?xs] assms(1) snds by auto
  obtain i v where iv: "m = (i, v)" by (cases m)
  with m(2) have i: "i < length strikes" "v = ?d (strikes ! i)"
    by (auto simp: in_set_enumerate_eq)
  have "band_center F atm strikes = i"
    using m(1) iv by (simp add: band_center_def)
  moreover have "fl_ge F (?d x) v" if "x \<in> set strikes" for x
  proof -
    have "?d x \<in> snd ` set ?xs" using that snds by blast
    then show ?thesis using m(3) iv by force
  qed
  ultimately show ?thesis
    using i by (force simp: case_prod_beta)
qed

lemma slice_around:
  assumes "c < length xs"
  shows "\<exists>before mid after. xs = before @ mid @ after \<and>
     take (min (c + k + 1) (length xs) - (c - k)) (drop (c - k) xs) = mid \<and> xs ! c \<in> set mid \<and> length mid \<le> 2 * k + 1"
proof -
  define lo hi where "lo = c - k" and "hi = min (c + k + 1) (length xs)"
  define mid where "mid = take (hi - lo) (drop lo xs)"
  have b: "lo \<le> c" "c < hi" "hi \<le> length xs" "hi - lo \<le> 2 * k + 1"
    using assms by (auto simp: lo_def hi_def)
  have "xs = take lo xs @ mid @ drop (hi - lo) (drop lo xs)"
    by (simp add: mid_def del: drop_drop)
  moreover have "mid ! (c - lo) = xs ! c" "c - lo < length mid"
    using b by (simp_all add: mid_def)
  then have "xs ! c \<in> set mid" by (metis nth_mem)
  moreover have "length mid \<le> 2 * k + 1" using b by (simp add: mid_def)
  ultimately show ?thesis unfolding lo_def [symmetric] hi_def [symmetric] mid_def by blast
qed

section \<open>The hour that opens\<close>

lemma om_get_group_opening:
  "om_get (group_opening L b ms) ev =
     (let hm = filter (\<lambda>m. opening_market L b m \<and> mk_event_ticker m = Some ev) ms in if hm = [] then None else Some hm) \<and>
   om_wf (group_opening L b ms)"
proof (induction ms rule: rev_induct)
  case Nil
  then show ?case by (simp add: group_opening_def)
next
  case (snoc m ms)
  have step: "group_opening L b (ms @ [m]) =
     (if opening_market L b m then
        (case mk_event_ticker m of
           Some e \<Rightarrow> om_insert e ((case om_get (group_opening L b ms) e of Some xs \<Rightarrow> xs | None \<Rightarrow> []) @ [m])
                      (group_opening L b ms)
         | None \<Rightarrow> group_opening L b ms)
      else group_opening L b ms)"
    by (auto simp: group_opening_def split: option.split)
  show ?case
  proof (cases "opening_market L b m")
    case True
    then obtain e where e: "mk_event_ticker m = Some e"
      by (auto simp: opening_market_def)
    show ?thesis
      unfolding step using True e snoc.IH
      by (auto simp: om_get_insert Let_def split: if_splits)
  next
    case False
    then show ?thesis unfolding step using snoc.IH by (simp add: Let_def)
  qed
qed

definition ladder_of :: "rest_lib \<Rightarrow> Timestamp \<Rightarrow> 'f Market list \<Rightarrow> string \<Rightarrow> 'f Market list" where
  "ladder_of L b ms ev = filter (\<lambda>m. opening_market L b m \<and> mk_event_ticker m = Some ev) ms"

lemma min_by_None [simp]: "min_by lt xs = None \<longleftrightarrow> xs = []"
  by (cases xs) auto

lemma market_opening_largest:
  assumes "market_opening_at L ms b = Some (ev, hm)"
  shows "hm = ladder_of L b ms ev \<and> hm \<noteq> [] \<and> (\<forall>ev'. length (ladder_of L b ms ev') \<le> length hm)"
proof -
  let ?R = "\<lambda>x y :: string \<times> 'a Market list. length (snd x) < length (snd y) \<or> length (snd x) = length (snd y) \<and> fst x \<le> fst y"
  let ?g = "group_opening L b ms"
  have lt: "(\<lambda>x y :: string \<times> 'a Market list. length (snd x) > length (snd y) \<or> length (snd x) = length (snd y) \<and> fst x > fst y) =
      (\<lambda>x y. ?R y x \<and> \<not> ?R x y)"
    by (intro ext) auto
  have "total_preorder ?R (set ?g)"
    by (auto simp: total_preorder_def)
  moreover have "?g \<noteq> []" using assms by (auto simp: market_opening_at_def)
  ultimately obtain m where m: "min_by (\<lambda>x y. ?R y x \<and> \<not> ?R x y) ?g = Some m" "m \<in> set ?g" "\<forall>x \<in> set ?g. ?R x m"
    using min_by_least [of ?R ?g] by blast
  have eq: "m = (ev, hm)" using assms m(1) by (simp add: market_opening_at_def lt)
  have wf: "om_wf ?g" using om_get_group_opening [of L b ms ev] by (simp add: Let_def)
  have get: "om_get ?g e = (if ladder_of L b ms e = [] then None else Some (ladder_of L b ms e))" for e
    using om_get_group_opening [of L b ms e] by (simp add: Let_def ladder_of_def)
  have "om_get ?g ev = Some hm" using m(2) eq om_get_Some_iff [OF wf] by auto
  then have hm: "hm = ladder_of L b ms ev" "hm \<noteq> []" using get [of ev] by (auto split: if_splits)
  have "length (ladder_of L b ms e) \<le> length hm" for e
  proof (cases "ladder_of L b ms e = []")
    case False
    then have "(e, ladder_of L b ms e) \<in> set ?g" using get [of e] om_get_Some_iff [OF wf] by auto
    then show ?thesis using m(3) eq by auto
  qed simp
  with hm show ?thesis by blast
qed

section \<open>The waits\<close>

definition discover_body ::
    "rest_lib \<Rightarrow> string \<Rightarrow> Timestamp \<Rightarrow> Timestamp \<Rightarrow> (nat \<Rightarrow> 'f hour_round) \<Rightarrow> nat \<Rightarrow> unit \<Rightarrow> ('f Arm \<times> nat) + unit" where
  "discover_body L series boundary deadline rounds i u =
     (if hr_shutdown (rounds i) then Inl (Shutdown, i)
      else if hour_answer series boundary (rounds i) = GotPanic then Inl (DiscoverPanic, i)
      else
        case opening_found L boundary (hour_answer series boundary (rounds i)) of
          Some (ev, hm) \<Rightarrow> Inl (Hour ev hm, i)
        | None \<Rightarrow>
            if deadline \<le> hr_now (rounds i) then Inl (Maintenance, i)
            else if hr_interrupted (rounds i) then Inl (Shutdown, i)
            else Inr ())"

definition ladder_body ::
    "rest_lib \<Rightarrow> string \<Rightarrow> Timestamp \<Rightarrow> Timestamp \<Rightarrow> Timestamp \<Rightarrow> (nat \<Rightarrow> 'f hour_round) \<Rightarrow> nat \<Rightarrow>
     'f Market list \<times> nat \<Rightarrow> ('f Market list option \<times> nat) + ('f Market list \<times> nat)" where
  "ladder_body L series boundary floor_at cap_at rounds i s =
     (if hr_shutdown (rounds i) then Inl (Some (fst s), i)
      else if hour_answer series boundary (rounds i) = GotPanic then Inl (None, i)
      else
        let latest = (case opening_found L boundary (hour_answer series boundary (rounds i)) of
                        Some (_, hm) \<Rightarrow> hm | None \<Rightarrow> fst s);
            now = hr_now (rounds i)
        in if floor_at \<le> now \<and> 0 < length latest \<and> length latest = snd s \<or> cap_at \<le> now then Inl (Some latest, i)
           else if hr_interrupted (rounds i) then Inl (Some latest, i)
           else Inr (latest, length latest))"

lemma ladder_loop_induct:
  fixes rounds :: "nat \<Rightarrow> 'f hour_round"
  assumes "ladder_loop L series boundary floor_at cap_at rounds i s = Some r"
    and "\<And>i s r. ladder_body L series boundary floor_at cap_at rounds i s = Inl r \<Longrightarrow> P i s r"
    and "\<And>i s t r. ladder_body L series boundary floor_at cap_at rounds i s = Inr t \<Longrightarrow> P (i + 1) t r \<Longrightarrow> P i s r"
  shows "P i s r"
proof (rule ladder_loop.raw_induct [where P = "\<lambda>l e b f c rs i s r.
      l = L \<and> e = series \<and> b = boundary \<and> f = floor_at \<and> c = cap_at \<and> rs = rounds \<longrightarrow> P i s r",
      OF _ assms(1), THEN mp], intro impI, elim conjE, hypsubst)
  fix loop i and s :: "'f Market list \<times> nat" and r
  let ?latest = "case opening_found L boundary (hour_answer series boundary (rounds i)) of Some (_, hm) \<Rightarrow> hm | None \<Rightarrow> fst s"
  assume ih: "\<And>l e b f c rs i s r. loop l e b f c rs i s = Some r \<Longrightarrow>
      l = L \<and> e = series \<and> b = boundary \<and> f = floor_at \<and> c = cap_at \<and> rs = rounds \<longrightarrow> P i s r"
    and r: "(if hr_shutdown (rounds i) then Some (Some (fst s), i)
      else if hour_answer series boundary (rounds i) = GotPanic then Some (None, i)
      else let latest = ?latest; count = length latest; now = hr_now (rounds i)
        in if floor_at \<le> now \<and> 0 < count \<and> count = snd s \<or> cap_at \<le> now then Some (Some latest, i)
           else if hr_interrupted (rounds i) then Some (Some latest, i)
           else loop L series boundary floor_at cap_at rounds (i + 1) (latest, count)) = Some r"
  show "P i s r"
  proof (cases "ladder_body L series boundary floor_at cap_at rounds i s")
    case (Inl q)
    then have "q = r" using r by (auto simp: ladder_body_def Let_def split: if_splits)
    with Inl show ?thesis using assms(2) by simp
  next
    case (Inr t)
    then have "t = (?latest, length ?latest)" "loop L series boundary floor_at cap_at rounds (i + 1) t = Some r"
      using r by (auto simp: ladder_body_def Let_def split: if_splits)
    then show ?thesis using assms(3) [OF Inr] ih [of L series boundary floor_at cap_at rounds "i + 1" t r] by simp
  qed
qed simp

interpretation laddering: polling "ladder_body L series boundary floor_at cap_at rounds"
    "ladder_loop L series boundary floor_at cap_at rounds" for L series boundary floor_at cap_at rounds
proof
  show "ladder_loop L series boundary floor_at cap_at rounds i s =
      (case ladder_body L series boundary floor_at cap_at rounds i s of Inl r \<Rightarrow> Some r
       | Inr t \<Rightarrow> ladder_loop L series boundary floor_at cap_at rounds (i + 1) t)" for i s
    by (subst ladder_loop.simps) (simp add: ladder_body_def Let_def)
qed (rule ladder_loop_induct)

lemma discover_loop_induct:
  assumes "discover_loop L series boundary deadline rounds i = Some r"
    and "\<And>i u r. discover_body L series boundary deadline rounds i u = Inl r \<Longrightarrow> P i u r"
    and "\<And>i u v r. discover_body L series boundary deadline rounds i u = Inr v \<Longrightarrow> P (i + 1) v r \<Longrightarrow> P i u r"
  shows "P i () r"
proof (rule discover_loop.raw_induct [where P = "\<lambda>l e b d rs i r.
      l = L \<and> e = series \<and> b = boundary \<and> d = deadline \<and> rs = rounds \<longrightarrow> P i () r",
      OF _ assms(1), THEN mp], intro impI, elim conjE, hypsubst)
  fix loop i r
  assume ih: "\<And>l e b d rs i r. loop l e b d rs i = Some r \<Longrightarrow>
      l = L \<and> e = series \<and> b = boundary \<and> d = deadline \<and> rs = rounds \<longrightarrow> P i () r"
    and r: "(if hr_shutdown (rounds i) then Some (Shutdown, i)
      else if hour_answer series boundary (rounds i) = GotPanic then Some (DiscoverPanic, i)
      else
        case opening_found L boundary (hour_answer series boundary (rounds i)) of
          Some (ev, hm) \<Rightarrow> Some (Hour ev hm, i)
        | None \<Rightarrow>
            if deadline \<le> hr_now (rounds i) then Some (Maintenance, i)
            else if hr_interrupted (rounds i) then Some (Shutdown, i)
            else loop L series boundary deadline rounds (i + 1)) = Some r"
  show "P i () r"
    using assms(2) [of i "()" r] assms(3) [of i "()" "()" r] ih [of L series boundary deadline rounds "i + 1" r] r
    by (auto simp: discover_body_def split: if_splits option.splits prod.splits)
qed simp

interpretation discovering: polling "discover_body L series boundary deadline rounds"
    "\<lambda>i u. discover_loop L series boundary deadline rounds i" for L series boundary deadline rounds
proof
  show "discover_loop L series boundary deadline rounds i =
      (case discover_body L series boundary deadline rounds i u of Inl r \<Rightarrow> Some r
       | Inr t \<Rightarrow> discover_loop L series boundary deadline rounds (i + 1))" for i u
    by (subst discover_loop.simps) (simp add: discover_body_def split: option.split)
next
  fix i u r P
  assume a: "discover_loop L series boundary deadline rounds i = Some r"
    and b: "\<And>i s r. discover_body L series boundary deadline rounds i s = Inl r \<Longrightarrow> P i s r"
    and c: "\<And>i s t r. discover_body L series boundary deadline rounds i s = Inr t \<Longrightarrow> P (i + 1) t r \<Longrightarrow> P i s r"
  have "P i () r" by (rule discover_loop_induct [OF a b c])
  then show "P i u r" by simp
qed

text \<open>Both waits end once the clock of some round has reached their bound.\<close>

lemma discover_ends:
  assumes "ok (boundary + span_or_zero grace) \<longrightarrow> boundary + span_or_zero grace \<le> hr_now (rounds n)"
  shows "\<exists>arm i. i \<le> n \<and> discover_opening_hour ok L series boundary grace rounds = Some (arm, i)"
proof (cases "ok (boundary + span_or_zero grace)")
  case True
  let ?d = "boundary + span_or_zero grace"
  have "\<exists>r. discover_body L series boundary ?d rounds n t = Inl r" for t
    using assms True by (auto simp: discover_body_def split: option.split)
  from discovering.loop_ends [of L series boundary ?d rounds n "()", OF this]
  obtain i r where "i \<le> n" "discover_body L series boundary ?d rounds i () = Inl r"
      "discover_loop L series boundary ?d rounds 0 = Some r"
    by auto
  with True show ?thesis
    by (intro exI [of _ "fst r"] exI [of _ i])
      (auto simp: discover_opening_hour_def Let_def discover_body_def split: if_splits option.splits prod.splits)
qed (simp add: discover_opening_hour_def)

lemma ladder_ends:
  assumes "boundary + span_or_zero cap \<le> hr_now (rounds n)"
  shows "\<exists>full i. i \<le> n \<and> await_full_ladder ok L series boundary settle cap rounds = Some (full, i)"
proof (cases "ok (boundary + span_or_zero settle) \<and> ok (boundary + span_or_zero cap)")
  case True
  let ?f = "boundary + span_or_zero settle" and ?c = "boundary + span_or_zero cap"
  have "\<exists>r. ladder_body L series boundary ?f ?c rounds n t = Inl r" for t
    using assms by (auto simp: ladder_body_def Let_def)
  from laddering.loop_ends [of L series boundary ?f ?c rounds n "([], 0)", OF this]
  obtain i t r where "i \<le> n" "ladder_body L series boundary ?f ?c rounds i t = Inl r"
      "ladder_loop L series boundary ?f ?c rounds 0 ([], 0) = Some r"
    by auto
  with True show ?thesis
    by (intro exI [of _ "fst r"] exI [of _ i])
      (auto simp: await_full_ladder_def Let_def ladder_body_def split: if_splits)
qed (auto simp: await_full_ladder_def Let_def)

lemma opening_found_ladder:
  "opening_found L b answer = Some (ev, hm) \<Longrightarrow>
     \<exists>ms. hm = ladder_of L b ms ev \<and> hm \<noteq> [] \<and> (\<forall>ev'. length (ladder_of L b ms ev') \<le> length hm)"
  using market_opening_largest by (fastforce simp: opening_found_def split: get_result.splits)

text \<open>A ladder is empty or the largest one of some poll.\<close>

definition ladder_ok :: "rest_lib \<Rightarrow> Timestamp \<Rightarrow> 'f Market list \<Rightarrow> bool" where
  "ladder_ok L b full \<longleftrightarrow>
     full = [] \<or> (\<exists>ms ev. full = ladder_of L b ms ev \<and> (\<forall>ev'. length (ladder_of L b ms ev') \<le> length full))"

lemma ladder_ok_latest:
  assumes "ladder_ok L b full"
  shows "ladder_ok L b (case opening_found L b a of Some (_, hm) \<Rightarrow> hm | None \<Rightarrow> full)"
proof (cases "opening_found L b a")
  case None
  then show ?thesis using assms by simp
next
  case (Some p)
  then obtain ev hm where p: "opening_found L b a = Some (ev, hm)" by (cases p) simp
  then show ?thesis using opening_found_ladder [OF p] by (auto simp: ladder_ok_def)
qed

lemma full_ladder:
  assumes "await_full_ladder ok L series b settle cap rounds = Some (Some full, i)"
  shows "ladder_ok L b full \<and>
     ((\<forall>j. \<not> hr_shutdown (rounds j) \<and> \<not> hr_interrupted (rounds j)) \<longrightarrow>
        b + min (span_or_zero settle) (span_or_zero cap) \<le> hr_now (rounds i))"
proof -
  let ?f = "b + span_or_zero settle" and ?c = "b + span_or_zero cap"
  let ?keeps = "\<lambda>s. ladder_ok L b (fst s)"
  have loop: "ladder_loop L series b ?f ?c rounds 0 ([], 0) = Some (Some full, i)"
    using assms by (auto simp: await_full_ladder_def Let_def split: if_splits)
  have kept: "?keeps t" if "?keeps s" "ladder_body L series b ?f ?c rounds i s = Inr t" for i s t
    using that(2) ladder_ok_latest [OF that(1), of "hour_answer series b (rounds i)"]
    by (auto simp: ladder_body_def Let_def split: if_splits)
  have "?keeps ([], 0 :: nat)" by (simp add: ladder_ok_def)
  then have "\<exists>k t. 0 \<le> k \<and> ?keeps t \<and> ladder_body L series b ?f ?c rounds k t = Inl (Some full, i)"
    by (rule laddering.loop_returns [OF loop]) (rule kept)
  then obtain k t where t: "?keeps t" "ladder_body L series b ?f ?c rounds k t = Inl (Some full, i)"
    by blast
  then have "k = i" "full = fst t \<or> full = (case opening_found L b (hour_answer series b (rounds i)) of Some (_, hm) \<Rightarrow> hm | None \<Rightarrow> fst t)"
    by (auto simp: ladder_body_def Let_def split: if_splits)
  moreover have "(\<forall>j. \<not> hr_shutdown (rounds j) \<and> \<not> hr_interrupted (rounds j)) \<longrightarrow>
      b + min (span_or_zero settle) (span_or_zero cap) \<le> hr_now (rounds k)"
    using t(2) by (auto simp: ladder_body_def Let_def split: if_splits)
  ultimately show ?thesis
    using t(1) ladder_ok_latest [OF t(1), of "hour_answer series b (rounds i)"] by auto
qed

section \<open>What the loop keeps\<close>

text \<open>The clock does not go back between the turns of a run, which begins no earlier than \<open>c\<close>.\<close>

fun clock_forward :: "Timestamp \<Rightarrow> 'f hourly_input list \<Rightarrow> bool" where
  "clock_forward c [] = True"
| "clock_forward c (HTurn t # ins) = (c \<le> ht_now t \<and> clock_forward (ht_wait_until t) ins)"
| "clock_forward c (HUnitEnds i # ins) = clock_forward c ins"

text \<open>No round of a ladder sees a shutdown.\<close>

fun undisturbed :: "'f hourly_input \<Rightarrow> bool" where
  "undisturbed (HTurn t) = (\<forall>j. \<not> hr_shutdown (ht_ladder t j) \<and> \<not> hr_interrupted (ht_ladder t j))"
| "undisturbed (HUnitEnds i) = True"

text \<open>An hour was armed for the boundary \<open>b\<close> at \<open>since\<close>, from the largest ladder of one poll.\<close>

definition armed_ok ::
    "'f float_lib \<Rightarrow> rest_lib \<Rightarrow> HourCfg \<Rightarrow> bool \<Rightarrow> Timestamp \<times> Timestamp \<times> CaptureUnit \<Rightarrow> bool" where
  "armed_ok F L h quiet = (\<lambda>(b, since, u).
     b mod hour_ns = 0 \<and> cu_tickers u \<noteq> [] \<and> cu_event u = cu_session u \<and>
     (\<exists>ms ev anchor. cu_tickers u = select_band F (ladder_of L b ms ev) (hc_band h) anchor \<and>
        (\<forall>ev'. length (ladder_of L b ms ev') \<le> length (ladder_of L b ms ev))) \<and>
     (quiet \<longrightarrow> b + min (span_or_zero (hc_open_settle h)) (span_or_zero ((hc_open_settle h + 60) mod 2 ^ 64)) \<le> since))"

definition hourly_inv ::
    "'f float_lib \<Rightarrow> rest_lib \<Rightarrow> HourCfg \<Rightarrow> bool \<Rightarrow> Timestamp \<Rightarrow> hourly \<Rightarrow> bool" where
  "hourly_inv F L h quiet c s \<longleftrightarrow>
     sorted_wrt (\<lambda>x y. fst x < fst y) (hs_armed s) \<and> list_all (armed_ok F L h quiet) (hs_armed s) \<and>
     (hs_phase s = Turning \<longrightarrow> (\<forall>x \<in> set (hs_armed s). fst x \<le> c))"

lemma select_band_empty [simp]: "select_band F [] band anchor = []"
  by (simp add: select_band_def strikes_of_def sort_by_def)

lemma hourly_inv_later: "hourly_inv F L h quiet c s \<Longrightarrow> c \<le> c' \<Longrightarrow> hourly_inv F L h quiet c' s"
  unfolding hourly_inv_def by (meson order_trans)

lemma hourly_inv_stop: "hourly_inv F L h quiet c s \<Longrightarrow> p \<noteq> Turning \<Longrightarrow> hourly_inv F L h quiet c' (s\<lparr>hs_phase := p\<rparr>)"
  by (simp add: hourly_inv_def)

lemma hourly_inv_end_turn:
  assumes "end_turn b t s = Some s'" and "hourly_inv F L h quiet b s"
  shows "hourly_inv F L h quiet (ht_wait_until t) s'"
proof (cases "ht_wait_cut t")
  case True
  with assms show ?thesis by (auto simp: end_turn_def intro: hourly_inv_stop)
next
  case False
  then have "s' = s" "ht_wait_from t + wait_past b (ht_wait_from t) \<le> ht_wait_until t"
    using assms(1) by (auto simp: end_turn_def split: if_splits)
  moreover have "b \<le> ht_wait_from t + wait_past b (ht_wait_from t)"
    using wait_past_bounds [of b "ht_wait_from t"] by (simp add: ns_per_sec_def)
  ultimately show ?thesis using assms(2) hourly_inv_later by fastforce
qed

lemma hourly_inv_arm:
  assumes "hourly_inv F L h quiet c s" "c < b" "hs_phase s = Turning"
    and "armed_ok F L h quiet (b, since, hour_unit ev tickers)"
  shows "hourly_inv F L h quiet b (arm_hour h b since ev tickers s)"
  using assms by (fastforce simp: hourly_inv_def arm_hour_def sorted_wrt_append)

lemma armed_hour_ok:
  assumes "await_full_ladder ok L series b (hc_open_settle h) ((hc_open_settle h + 60) mod 2 ^ 64) (ht_ladder t) =
      Some (Some full, i)"
    and "quiet \<longrightarrow> undisturbed (HTurn t)" and "b mod hour_ns = 0"
    and "select_band F full (hc_band h) anchor \<noteq> []"
  shows "armed_ok F L h quiet (b, hr_now (ht_ladder t i), hour_unit ev (select_band F full (hc_band h) anchor))"
proof -
  have "full \<noteq> []" using assms(4) by auto
  then obtain ms e where "full = ladder_of L b ms e" "\<forall>ev'. length (ladder_of L b ms ev') \<le> length full"
    using full_ladder [OF assms(1)] by (auto simp: ladder_ok_def)
  moreover have "quiet \<longrightarrow> b + min (span_or_zero (hc_open_settle h)) (span_or_zero ((hc_open_settle h + 60) mod 2 ^ 64))
      \<le> hr_now (ht_ladder t i)"
    using full_ladder [OF assms(1)] assms(2) by simp
  ultimately show ?thesis
    using assms(3,4) unfolding armed_ok_def hour_unit_def by auto
qed

lemma hourly_inv_turn:
  assumes "hour_turn_step ok F L series h pre_arm t s = Some s'" and "hourly_inv F L h quiet c s"
    and "c \<le> ht_now t" and "hs_phase s = Turning" and "quiet \<longrightarrow> undisturbed (HTurn t)"
  shows "hourly_inv F L h quiet (ht_wait_until t) s'"
proof (cases "hs_phase s' = Turning \<or> hs_armed s' \<noteq> hs_armed s")
  case False
  then show ?thesis using assms(2) by (simp add: hourly_inv_def)
next
  case True
  define b where "b = next_boundary (ht_now t)"
  have b: "c < b" "b mod hour_ns = 0"
    using next_boundary_bounds [of "ht_now t"] assms(3) by (auto simp: b_def)
  have inv_b: "hourly_inv F L h quiet b s"
    using hourly_inv_later [OF assms(2)] b(1) by simp
  have "end_turn b t s = Some s' \<or>
     (\<exists>ev full i anchor. await_full_ladder ok L series b (hc_open_settle h) ((hc_open_settle h + 60) mod 2 ^ 64) (ht_ladder t) =
          Some (Some full, i) \<and> select_band F full (hc_band h) anchor \<noteq> [] \<and>
        end_turn b t (arm_hour h b (hr_now (ht_ladder t i)) ev (select_band F full (hc_band h) anchor) s) = Some s')"
    using assms(1) True assms(4)
    by (auto simp: hour_turn_step_def Let_def b_def [symmetric] select_and_arm_def
        split: if_splits option.splits prod.splits Arm.splits)
  then show ?thesis
  proof (elim disjE exE conjE)
    assume "end_turn b t s = Some s'"
    then show ?thesis by (rule hourly_inv_end_turn [OF _ inv_b])
  next
    fix ev full i anchor
    assume full: "await_full_ladder ok L series b (hc_open_settle h) ((hc_open_settle h + 60) mod 2 ^ 64) (ht_ladder t) =
          Some (Some full, i)" and band: "select_band F full (hc_band h) anchor \<noteq> []"
      and step: "end_turn b t (arm_hour h b (hr_now (ht_ladder t i)) ev (select_band F full (hc_band h) anchor) s) = Some s'"
    show ?thesis
      by (rule hourly_inv_end_turn [OF step hourly_inv_arm [OF assms(2) b(1) assms(4)
            armed_hour_ok [OF full assms(5) b(2) band]]])
  qed
qed

lemma hourly_run_inv:
  "run_inputs (hourly_step ok F L series h pre_arm) ins s = Some s' \<Longrightarrow> clock_forward c ins \<Longrightarrow>
     quiet \<longrightarrow> list_all undisturbed ins \<Longrightarrow> hourly_inv F L h quiet c s \<Longrightarrow> \<exists>c'. hourly_inv F L h quiet c' s'"
proof (induction ins arbitrary: s c)
  case (Cons i ins)
  show ?case
  proof (cases i)
    case (HTurn t)
    then obtain s1 where s1: "hs_phase s = Turning" "hour_turn_step ok F L series h pre_arm t s = Some s1"
        "run_inputs (hourly_step ok F L series h pre_arm) ins s1 = Some s'"
      using Cons.prems(1) by (auto split: option.splits if_splits)
    have q: "quiet \<longrightarrow> undisturbed (HTurn t)" "quiet \<longrightarrow> list_all undisturbed ins"
      using Cons.prems(3) HTurn by auto
    have c: "c \<le> ht_now t" "clock_forward (ht_wait_until t) ins"
      using Cons.prems(2) HTurn by auto
    show ?thesis
      by (rule Cons.IH [OF s1(3) c(2) q(2) hourly_inv_turn [OF s1(2) Cons.prems(4) c(1) s1(1) q(1)]])
  next
    case (HUnitEnds k)
    then obtain s1 where s1: "hourly_step ok F L series h pre_arm i s = Some s1"
        "run_inputs (hourly_step ok F L series h pre_arm) ins s1 = Some s'"
      using Cons.prems(1) by (auto split: option.splits)
    then have "hourly_inv F L h quiet c s1"
      using Cons.prems(4) HUnitEnds by (auto simp: hourly_inv_def split: if_splits)
    then show ?thesis using Cons.IH [OF s1(2)] Cons.prems(2,3) HUnitEnds by simp
  qed
qed auto

section \<open>Properties\<close>



text \<open>Three strikes a hundred apart, quoted by their own distance, with natural numbers as floats.\<close>

definition ex_nat_floats :: "nat float_lib" where
  "ex_nat_floats =
     \<lparr>fl_parse = (\<lambda>_. None), fl_zero = 0, fl_half = 0, fl_two = 2, fl_add = (+), fl_sub = (\<lambda>a b. (a - b) + (b - a)),
      fl_div = (div), fl_abs = id, fl_ge = (\<ge>)\<rparr>"

definition ex_strike :: "string \<Rightarrow> nat \<Rightarrow> nat Market" where
  "ex_strike t s =
     \<lparr>mk_ticker = t, mk_title = [], mk_status = None, mk_volume_fp = None, mk_close_time = Some ''c'',
      mk_event_ticker = Some ''EV'', mk_open_time = Some ''o'', mk_settlement_ts = None, mk_occurrence_datetime = None,
      mk_result = None, mk_floor_strike = Some s, mk_yes_bid_dollars = None, mk_yes_ask_dollars = None,
      mk_last_price_dollars = None, mk_volume_24h_fp = None\<rparr>"

definition ex_ladder :: "nat Market list" where
  "ex_ladder = [ex_strike ''c'' 300, ex_strike ''a'' 100, ex_strike ''b'' 200, ex_strike ''d'' 400]"


text \<open>A turn that finds the hour of 01:00 at once and takes its ladder a minute and a half after the opening.\<close>

definition ex_hour_rest :: rest_lib where
  "ex_hour_rest = \<lparr>rl_debug = id, rl_parse_utc = (\<lambda>s. Inr (if s = ''o'' then hour_ns else 2 * hour_ns))\<rparr>"

definition ex_hour_round :: "nat \<Rightarrow> nat hour_round" where
  "ex_hour_round i =
     \<lparr>hr_shutdown = False, hr_http = (\<lambda>_ _ _. Answered 200 (Inr (ex_ladder, None))),
      hr_now = hour_ns + (80 + 10 * int i) * ns_per_sec, hr_interrupted = False\<rparr>"

definition ex_turn :: "nat hour_turn" where
  "ex_turn =
     \<lparr>ht_shutdown = False, ht_now = 5, ht_slept_until = hour_ns, ht_sleep_cut = False, ht_discover = ex_hour_round,
      ht_stop_before_ladder = False, ht_ladder = ex_hour_round, ht_anchor = (\<lambda>_ _ _. Unreachable []),
      ht_wait_from = hour_ns + 90 * ns_per_sec, ht_wait_until = hour_ns + 105 * ns_per_sec, ht_wait_cut = False\<rparr>"

definition ex_hour_cfg :: HourCfg where
  "ex_hour_cfg =
     \<lparr>hc_data_dir = [], hc_band = 0, hc_floor_bytes = 0, hc_capacity = 8192, hc_idle_secs = 45, hc_grace_secs = 180,
      hc_poll_secs = 30, hc_max_hours = 2, hc_listing_grace = 300, hc_open_settle = 60, hc_archive_cmd = [],
      hc_verify_interval_secs = 0\<rparr>"

lemma ex_answer: "hour_answer ''S'' hour_ns (ex_hour_round i) = GotOk (ex_ladder, None)"
  by (simp add: hour_answer_def list_markets_page_def get_with_retry_def get_loop.simps [of _ 0]
      ex_hour_round_def status_is_success_def next_cursor_def)

lemma ex_opening: "opening_found ex_hour_rest hour_ns (GotOk (ex_ladder, None)) = Some (''EV'', ex_ladder)"
  by code_simp

lemma ex_no_stop: "\<not> hr_shutdown (ex_hour_round i)" "\<not> hr_interrupted (ex_hour_round i)"
  by (simp_all add: ex_hour_round_def)

lemma ex_discovered:
  "discover_opening_hour (\<lambda>_. True) ex_hour_rest ''S'' hour_ns 300 ex_hour_round = Some (Hour ''EV'' ex_ladder, 0)"
  by (simp add: discover_opening_hour_def discover_loop.simps [of _ _ _ _ _ 0] ex_answer ex_opening ex_no_stop Let_def)

lemma ex_laddered:
  "await_full_ladder (\<lambda>_. True) ex_hour_rest ''S'' hour_ns 60 120 ex_hour_round = Some (Some ex_ladder, 1)"
  by (simp add: await_full_ladder_def ladder_loop.simps [of _ _ _ _ _ _ 0] ladder_loop.simps [of _ _ _ _ _ _ "Suc 0"]
      ex_answer ex_opening ex_no_stop Let_def)
    (simp add: ex_hour_round_def ex_ladder_def span_or_zero_def ns_per_sec_def)


end
