(* ===== verification/Backfill.thy ===== *)
theory Backfill
  imports Capture Supervisor Command_Line
begin

text \<open>
  The trade backfill \<^verbatim>\<open>crates/kdp-cli/src/backfill.rs\<close>: the conversion of a REST trade into an
  envelope, the loop over the trade pages of a ticker with its deduplication and page cap, the
  resumable checkpoint, and the enumeration of markets by close-time windows or from the archive.

  Parameters: the answers to the page requests, the instant and the outcomes of the operating system
  at each append, the serializers, the parsers of instants. The rate limiter only delays the requests
  and has a theory of its own, Rate_Limit. The paging of the enumeration goes on as long as the server gives a cursor, so it
  is a partial function; the trade loop is bounded by its page cap.

  The lemmas show that a run writes exactly one line for each distinct trade of each ticker, in the
  order fetched, that its report adds up, and that the windows of the enumeration partition the range.
\<close>

section \<open>Trades\<close>

record backfill_cfg =
  bc_json :: "Envelope \<Rightarrow> string"
  bc_store :: store_lib
  bc_rest :: rest_lib
  bc_value :: "RestTrade \<Rightarrow> string + json"
  bc_max_trade_pages :: nat

definition trade_to_envelope :: "backfill_cfg \<Rightarrow> RestTrade \<Rightarrow> Timestamp \<Rightarrow> string \<times> Envelope \<times> bool" where
  "trade_to_envelope B rt recv_ts =
     (case to_core (bc_rest B) rt of
        Inr trade \<Rightarrow> (CHANNEL_TRADE, Envelope_new recv_ts None None (TradeRec trade), False)
      | Inl e \<Rightarrow>
          let payload = (case bc_value B rt of Inr v \<Rightarrow> v | Inl _ \<Rightarrow> JNull);
              fallback = \<lparr>rf_raw_type = Some ''trade'', rf_ticker = Some (rt_ticker rt), rf_error = e,
                          rf_payload = payload\<rparr>
          in (CHANNEL_TRADE, Envelope_new recv_ts None None (Raw fallback), True))"

record BackfillReport =
  br_per_ticker :: "(string, u64) omap"
  br_fetched :: u64
  br_written :: u64
  br_raw :: u64
  br_duplicates :: u64
  br_pages :: u64

definition BackfillReport_default :: BackfillReport where
  "BackfillReport_default = \<lparr>br_per_ticker = [], br_fetched = 0, br_written = 0, br_raw = 0,
     br_duplicates = 0, br_pages = 0\<rparr>"

section \<open>The backfill loop\<close>

text \<open>A trade with the instant it is stored at and the outcomes of its append.\<close>

type_synonym trade_in = "RestTrade \<times> Timestamp \<times> append_io"

type_synonym trade_fetch = "nat \<Rightarrow> string option \<Rightarrow> (trade_in list \<times> string option) get_result"

datatype backfill_error = FetchFailed http_error | AppendFailed store_fail | CheckpointFailed string | ClientPanic

record backfill =
  bf_streams :: StreamSet
  bf_disk :: disk
  bf_report :: BackfillReport
  bf_checkpoint :: "(string \<times> u64) list"

definition count_trade :: "string \<Rightarrow> bool \<Rightarrow> BackfillReport \<Rightarrow> BackfillReport" where
  "count_trade ticker is_raw rep =
     rep\<lparr>br_written := br_written rep + 1,
         br_raw := (if is_raw then br_raw rep + 1 else br_raw rep),
         br_per_ticker := om_insert ticker
           ((case om_get (br_per_ticker rep) ticker of Some n \<Rightarrow> n | None \<Rightarrow> 0) + 1) (br_per_ticker rep)\<rparr>"

fun backfill_trade ::
    "backfill_cfg \<Rightarrow> string \<Rightarrow> trade_in \<Rightarrow> string set \<times> backfill \<Rightarrow> (backfill_error + unit) \<times> string set \<times> backfill" where
  "backfill_trade B ticker (rt, recv_ts, io) (seen, b) =
     (let b = b\<lparr>bf_report := (bf_report b)\<lparr>br_fetched := br_fetched (bf_report b) + 1\<rparr>\<rparr> in
      if rt_trade_id rt \<in> seen then
        (Inr (), seen, b\<lparr>bf_report := (bf_report b)\<lparr>br_duplicates := br_duplicates (bf_report b) + 1\<rparr>\<rparr>)
      else
        let (channel, env, is_raw) = trade_to_envelope B rt recv_ts;
            (r, s, d) = stream_append (bc_store B) io ticker channel (bc_json B env) (bf_streams b, bf_disk b);
            b = b\<lparr>bf_streams := s, bf_disk := d\<rparr>
        in case r of
             Inl e \<Rightarrow> (Inl (AppendFailed e), insert (rt_trade_id rt) seen, b)
           | Inr _ \<Rightarrow>
               (Inr (), insert (rt_trade_id rt) seen, b\<lparr>bf_report := count_trade ticker is_raw (bf_report b)\<rparr>))"

fun backfill_page ::
    "backfill_cfg \<Rightarrow> string \<Rightarrow> trade_in list \<Rightarrow> string set \<times> backfill \<Rightarrow> (backfill_error + unit) \<times> string set \<times> backfill" where
  "backfill_page B ticker [] sb = (Inr (), sb)"
| "backfill_page B ticker (x # trades) sb =
     (case backfill_trade B ticker x sb of
        (Inl e, sb') \<Rightarrow> (Inl e, sb')
      | (Inr _, sb') \<Rightarrow> backfill_page B ticker trades sb')"

function backfill_pages ::
    "backfill_cfg \<Rightarrow> string \<Rightarrow> trade_fetch \<Rightarrow> nat \<Rightarrow> string option \<Rightarrow> string set \<times> backfill \<Rightarrow>
     (backfill_error + unit) \<times> backfill" where
  "backfill_pages B ticker fetch n cursor sb =
     (if n \<ge> bc_max_trade_pages B then (Inr (), snd sb)
      else
        case fetch n cursor of
          GotErr e \<Rightarrow> (Inl (FetchFailed e), snd sb)
        | GotPanic \<Rightarrow> (Inl ClientPanic, snd sb)
        | GotOk (trades, next) \<Rightarrow>
            let (seen, b) = sb;
                b = b\<lparr>bf_report := (bf_report b)\<lparr>br_pages := br_pages (bf_report b) + 1\<rparr>\<rparr>
            in case backfill_page B ticker trades (seen, b) of
                 (Inl e, sb') \<Rightarrow> (Inl e, snd sb')
               | (Inr _, sb') \<Rightarrow>
                   (case next_cursor next of
                      Some c \<Rightarrow> backfill_pages B ticker fetch (n + 1) (Some c) sb'
                    | None \<Rightarrow> (Inr (), snd sb')))"
  by pat_completeness auto
termination by (relation "measure (\<lambda>(B, ticker, fetch, n, cursor, sb). bc_max_trade_pages B - n)") auto

declare backfill_pages.simps [simp del]

text \<open>The record of a finished ticker, and the release of its file.\<close>

definition finish_ticker ::
    "string \<Rightarrow> string option \<Rightarrow> (backfill_error + unit) \<times> backfill \<Rightarrow> (backfill_error + unit) \<times> backfill" where
  "finish_ticker ticker ckpt rb =
     (case rb of
        (Inl e, b) \<Rightarrow> (Inl e, b)
      | (Inr _, b) \<Rightarrow>
          let count = (case om_get (br_per_ticker (bf_report b)) ticker of Some n \<Rightarrow> n | None \<Rightarrow> 0) in
          case ckpt of
            Some e \<Rightarrow> (Inl (CheckpointFailed e), b)
          | None \<Rightarrow>
              (Inr (), b\<lparr>bf_checkpoint := bf_checkpoint b @ [(ticker, count)],
                         bf_streams := snd (stream_close ticker CHANNEL_TRADE (bf_streams b))\<rparr>))"

fun backfill_tickers ::
    "backfill_cfg \<Rightarrow> string set \<Rightarrow> (string \<Rightarrow> trade_fetch) \<Rightarrow> (string \<Rightarrow> string option) \<Rightarrow> string list \<Rightarrow> backfill \<Rightarrow>
     (backfill_error + unit) \<times> backfill" where
  "backfill_tickers B done_set fetch ckpt [] b = (Inr (), b)"
| "backfill_tickers B done_set fetch ckpt (ticker # tickers) b =
     (if ticker \<in> done_set then backfill_tickers B done_set fetch ckpt tickers b
      else
        case finish_ticker ticker (ckpt ticker) (backfill_pages B ticker (fetch ticker) 0 None ({}, b)) of
          (Inl e, b') \<Rightarrow> (Inl e, b')
        | (Inr _, b') \<Rightarrow> backfill_tickers B done_set fetch ckpt tickers b')"

definition backfill_start :: "path \<Rightarrow> disk \<Rightarrow> backfill" where
  "backfill_start base d =
     \<lparr>bf_streams = StreamSet_new base, bf_disk = d, bf_report = BackfillReport_default, bf_checkpoint = []\<rparr>"

section \<open>The checkpoint\<close>

definition checkpoint_line :: "json_lib \<Rightarrow> string \<times> u64 \<Rightarrow> string" where
  "checkpoint_line J = (\<lambda>(ticker, count).
     line_of (js_to_string J (JObject [(''ticker'', JString ticker), (''trades'', JInt (uint count))])))"

definition load_checkpoint :: "json_lib \<Rightarrow> string option \<Rightarrow> string set" where
  "load_checkpoint J content =
     (case content of
        None \<Rightarrow> {}
      | Some c \<Rightarrow>
          fold (\<lambda>line finished.
              case js_from_str J line of
                Inl _ \<Rightarrow> finished
              | Inr v \<Rightarrow>
                  (case Option.bind (json_get ''ticker'' v) as_str of
                     Some t \<Rightarrow> insert t finished
                   | None \<Rightarrow> finished))
            (buf_lines c) {})"

section \<open>Windows of close times\<close>

partial_function (option) chunk_loop :: "i64 \<Rightarrow> i64 \<Rightarrow> i64 \<Rightarrow> (i64 \<times> i64) list \<Rightarrow> (i64 \<times> i64) list option" where
  "chunk_loop max_ts step lo cs =
     (if lo < max_ts then
        let hi = min (i64_add lo step) max_ts in chunk_loop max_ts step hi (cs @ [(lo, hi)])
      else Some cs)"

definition time_chunks :: "i64 \<Rightarrow> i64 \<Rightarrow> i64 \<Rightarrow> (i64 \<times> i64) list option" where
  "time_chunks min_ts max_ts step =
     (if step \<le> 0 \<or> min_ts \<ge> max_ts then Some [] else chunk_loop max_ts step min_ts [])"

text \<open>\<open>rfc\<close> is \<^verbatim>\<open>DateTime::parse_from_rfc3339\<close> to seconds.\<close>

definition parse_when :: "(string \<Rightarrow> string) \<Rightarrow> (string \<Rightarrow> i64 option) \<Rightarrow> string \<Rightarrow> string + i64" where
  "parse_when dbg rfc s0 =
     (let s = trim s0 in
      case parse_i64 s of
        Some secs \<Rightarrow> Inr secs
      | None \<Rightarrow>
          (case rfc s of
             Some t \<Rightarrow> Inr t
           | None \<Rightarrow>
               (case rfc (s @ ''T00:00:00Z'') of
                  Some t \<Rightarrow> Inr t
                | None \<Rightarrow> Inl (''--min-close/--max-close '' @ dbg s @ '': use unix secs, YYYY-MM-DD, or rfc3339''))))"

definition market_close_in_window ::
    "(string \<Rightarrow> i64 option) \<Rightarrow> string option \<Rightarrow> i64 option \<Rightarrow> i64 option \<Rightarrow> bool" where
  "market_close_in_window rfc close_time mn mx =
     (if mn = None \<and> mx = None then True
      else
        case Option.bind close_time rfc of
          None \<Rightarrow> False
        | Some ts \<Rightarrow>
            if (case mn of Some lo \<Rightarrow> ts < lo | None \<Rightarrow> False) then False
            else if (case mx of Some hi \<Rightarrow> ts \<ge> hi | None \<Rightarrow> False) then False
            else True)"

fun markets_of_lines ::
    "(string \<Rightarrow> string + 'f Market) \<Rightarrow> (string \<Rightarrow> i64 option) \<Rightarrow> i64 option \<Rightarrow> i64 option \<Rightarrow> string list \<Rightarrow>
     'f Market list \<Rightarrow> string + 'f Market list" where
  "markets_of_lines parse rfc mn mx [] out = Inr out"
| "markets_of_lines parse rfc mn mx (line # ls) out =
     (if trim line = [] then markets_of_lines parse rfc mn mx ls out
      else
        case parse (trim line) of
          Inl e \<Rightarrow> Inl e
        | Inr m \<Rightarrow>
            markets_of_lines parse rfc mn mx ls
              (if market_close_in_window rfc (mk_close_time m) mn mx then out @ [m] else out))"

definition load_markets_file ::
    "(string \<Rightarrow> string + 'f Market) \<Rightarrow> (string \<Rightarrow> i64 option) \<Rightarrow> i64 option \<Rightarrow> i64 option \<Rightarrow> string + string \<Rightarrow>
     string + 'f Market list" where
  "load_markets_file parse rfc mn mx content =
     and_then content (\<lambda>c. markets_of_lines parse rfc mn mx (buf_lines c) [])"

section \<open>Enumeration\<close>

text \<open>Pages are absorbed one market at a time until the server gives no further cursor.\<close>

partial_function (option) page_loop ::
    "(nat \<Rightarrow> string option \<Rightarrow> 'f page get_result) \<Rightarrow> ('f Market \<Rightarrow> 's \<Rightarrow> 's) \<Rightarrow> nat \<Rightarrow> string option \<Rightarrow> 's \<Rightarrow>
     's get_result option" where
  "page_loop get absorb n cursor s =
     (case get n cursor of
        GotErr e \<Rightarrow> Some (GotErr e)
      | GotPanic \<Rightarrow> Some GotPanic
      | GotOk (markets, next) \<Rightarrow>
          let s' = fold absorb markets s in
          (case next of
             Some c \<Rightarrow> page_loop get absorb (n + 1) (Some c) s'
           | None \<Rightarrow> Some (GotOk s')))"

definition absorb_new :: "'f Market \<Rightarrow> 'f Market list \<times> string set \<Rightarrow> 'f Market list \<times> string set" where
  "absorb_new m = (\<lambda>(found, seen).
     if mk_ticker m \<in> seen then (found, seen) else (found @ [m], insert (mk_ticker m) seen))"

fun windowed_chunks ::
    "(nat \<Rightarrow> nat \<Rightarrow> 'f market_http) \<Rightarrow> string \<Rightarrow> string option \<Rightarrow> (i64 \<times> i64) list \<Rightarrow> nat \<Rightarrow>
     'f Market list \<times> string set \<Rightarrow> ('f Market list \<times> string set) get_result option" where
  "windowed_chunks http series status [] k s = Some (GotOk s)"
| "windowed_chunks http series status ((lo, hi) # cs) k s =
     (case page_loop (\<lambda>n cursor. list_markets_page (http k n) 1000 status (Some series) (Some lo) (Some hi) cursor)
             absorb_new 0 None s of
        None \<Rightarrow> None
      | Some (GotOk s') \<Rightarrow> windowed_chunks http series status cs (k + 1) s'
      | Some e \<Rightarrow> Some e)"

definition discover_markets_windowed ::
    "(nat \<Rightarrow> nat \<Rightarrow> 'f market_http) \<Rightarrow> string \<Rightarrow> string option \<Rightarrow> i64 \<Rightarrow> i64 \<Rightarrow> i64 \<Rightarrow>
     ('f Market list \<times> string set) get_result option" where
  "discover_markets_windowed http series status min_close max_close chunk_secs =
     Option.bind (time_chunks min_close max_close chunk_secs) (\<lambda>cs. windowed_chunks http series status cs 0 ([], {}))"

record 'f archive_scan =
  as_found :: "'f Market list"
  as_seen :: "string set"
  as_scanned :: u64
  as_earliest :: "i64 option"

definition absorb_archived ::
    "(string \<Rightarrow> i64 option) \<Rightarrow> i64 \<Rightarrow> i64 \<Rightarrow> 'f Market \<Rightarrow> 'f archive_scan \<Rightarrow> 'f archive_scan" where
  "absorb_archived rfc min_close max_close m s =
     (let s = s\<lparr>as_scanned := as_scanned s + 1\<rparr>;
          s = (case Option.bind (mk_close_time m) rfc of
                 Some t \<Rightarrow> s\<lparr>as_earliest := Some (case as_earliest s of Some e \<Rightarrow> min e t | None \<Rightarrow> t)\<rparr>
               | None \<Rightarrow> s)
      in if market_close_in_window rfc (mk_close_time m) (Some min_close) (Some max_close) \<and>
            mk_ticker m \<notin> as_seen s
         then s\<lparr>as_seen := insert (mk_ticker m) (as_seen s), as_found := as_found s @ [m]\<rparr>
         else s)"

definition discover_historical_markets ::
    "(nat \<Rightarrow> 'f market_http) \<Rightarrow> (string \<Rightarrow> i64 option) \<Rightarrow> string \<Rightarrow> i64 \<Rightarrow> i64 \<Rightarrow> 'f archive_scan get_result option" where
  "discover_historical_markets http rfc series min_close max_close =
     page_loop (\<lambda>n cursor. list_historical_markets_page (http n) series 1000 cursor)
       (absorb_archived rfc min_close max_close) 0 None
       \<lparr>as_found = [], as_seen = {}, as_scanned = 0, as_earliest = None\<rparr>"

section \<open>What the listings hold\<close>

text \<open>The paging loop is a polling loop that keeps the cursor and what was absorbed.\<close>

definition page_body ::
    "(nat \<Rightarrow> string option \<Rightarrow> 'f page get_result) \<Rightarrow> ('f Market \<Rightarrow> 's \<Rightarrow> 's) \<Rightarrow> nat \<Rightarrow> string option \<times> 's \<Rightarrow>
     's get_result + string option \<times> 's" where
  "page_body get absorb n cs =
     (case get n (fst cs) of
        GotErr e \<Rightarrow> Inl (GotErr e)
      | GotPanic \<Rightarrow> Inl GotPanic
      | GotOk (markets, next) \<Rightarrow>
          (case next of
             Some c \<Rightarrow> Inr (Some c, fold absorb markets (snd cs))
           | None \<Rightarrow> Inl (GotOk (fold absorb markets (snd cs)))))"

lemma page_loop_induct:
  assumes "page_loop get absorb n cursor s = Some r"
    and "\<And>n cs r. page_body get absorb n cs = Inl r \<Longrightarrow> P n cs r"
    and "\<And>n cs ct r. page_body get absorb n cs = Inr ct \<Longrightarrow> P (n + 1) ct r \<Longrightarrow> P n cs r"
  shows "P n (cursor, s) r"
proof (rule page_loop.raw_induct [where P = "\<lambda>g a n c s r. g = get \<and> a = absorb \<longrightarrow> P n (c, s) r",
      OF _ assms(1), THEN mp], intro impI, elim conjE, hypsubst)
  fix loop n c s r
  assume ih: "\<And>g a n c s r. loop g a n c s = Some r \<Longrightarrow> g = get \<and> a = absorb \<longrightarrow> P n (c, s) r"
    and r: "(case get n c of
        GotErr e \<Rightarrow> Some (GotErr e)
      | GotPanic \<Rightarrow> Some GotPanic
      | GotOk (markets, next) \<Rightarrow>
          let s' = fold absorb markets s in
          (case next of Some c \<Rightarrow> loop get absorb (n + 1) (Some c) s' | None \<Rightarrow> Some (GotOk s'))) = Some r"
  show "P n (c, s) r"
    using assms(2) [of n "(c, s)" r] assms(3) [of n "(c, s)" _ r] ih [of get absorb "n + 1" _ _ r] r
    by (auto simp: page_body_def Let_def split: get_result.splits option.splits)
qed simp

interpretation paging: polling "page_body get absorb" "\<lambda>n cs. page_loop get absorb n (fst cs) (snd cs)"
  for get absorb
proof
  show "page_loop get absorb n (fst cs) (snd cs) =
      (case page_body get absorb n cs of
         Inl r \<Rightarrow> Some r | Inr ct \<Rightarrow> page_loop get absorb (n + 1) (fst ct) (snd ct))" for n cs
    by (subst page_loop.simps) (simp add: page_body_def Let_def split: get_result.split option.split)
next
  fix n cs r P
  assume a: "page_loop get absorb n (fst cs) (snd cs) = Some r"
    and b: "\<And>n cs r. page_body get absorb n cs = Inl r \<Longrightarrow> P n cs r"
    and c: "\<And>n cs ct r. page_body get absorb n cs = Inr ct \<Longrightarrow> P (n + 1) ct r \<Longrightarrow> P n cs r"
  have "P n (fst cs, snd cs) r" by (rule page_loop_induct [OF a b c])
  then show "P n cs r" by simp
qed

lemma fold_keeps: "(\<And>m s. P s \<Longrightarrow> P (absorb m s)) \<Longrightarrow> P s \<Longrightarrow> P (fold absorb ms s)"
  by (induction ms arbitrary: s) simp_all

lemma page_loop_keeps:
  assumes "page_loop get absorb n cursor s = Some (GotOk s')" and "P s" and "\<And>m s. P s \<Longrightarrow> P (absorb m s)"
  shows "P s'"
proof -
  have F: "P u \<Longrightarrow> P (fold absorb ms u)" for ms u
    using fold_keeps [of P absorb u ms] assms(3) by blast
  have "\<exists>k ct. n \<le> k \<and> P (snd ct) \<and> page_body get absorb k ct = Inl (GotOk s')"
  proof (rule paging.loop_returns [where keeps = "\<lambda>ct. P (snd ct)" and s = "(cursor, s)"])
    show "P (snd ct')" if "P (snd ct)" "page_body get absorb i ct = Inr ct'" for i ct ct'
      using that F by (auto simp: page_body_def split: get_result.splits option.splits)
  qed (use assms(1,2) in simp_all)
  then obtain k ct where ct: "P (snd ct)" "page_body get absorb k ct = Inl (GotOk s')" by blast
  from ct(2) obtain ms where "s' = fold absorb ms (snd ct)"
    by (cases "get k (fst ct)") (auto simp: page_body_def split: option.splits)
  then show ?thesis using F ct(1) by simp
qed

text \<open>A listing ends when the server gives no cursor from some page on.\<close>

lemma page_loop_ends:
  assumes "\<And>cursor. case get n cursor of GotOk (_, Some _) \<Rightarrow> False | _ \<Rightarrow> True"
  shows "\<exists>r. page_loop get absorb 0 cursor s = Some r"
proof -
  have "\<exists>r. page_body get absorb n ct = Inl r" for ct
    using assms [of "fst ct"] by (auto simp: page_body_def split: get_result.splits option.splits prod.splits)
  from paging.loop_ends [OF this, of "(cursor, s)"] show ?thesis by auto
qed

definition once_each :: "'f Market list \<Rightarrow> string set \<Rightarrow> bool" where
  "once_each found seen \<longleftrightarrow> distinct (map mk_ticker found) \<and> mk_ticker ` set found = seen"

lemma once_each_new: "once_each found seen \<Longrightarrow> mk_ticker m \<notin> seen \<Longrightarrow> once_each (found @ [m]) (insert (mk_ticker m) seen)"
  by (auto simp: once_each_def)

lemma windowed_once:
  "windowed_chunks http series status cs k s = Some (GotOk s') \<Longrightarrow> once_each (fst s) (snd s) \<Longrightarrow> once_each (fst s') (snd s')"
proof (induction cs arbitrary: k s)
  case (Cons c cs)
  obtain lo hi where c: "c = (lo, hi)" by (cases c)
  from Cons.prems(1) obtain s1 where
    first: "page_loop (\<lambda>n cursor. list_markets_page (http k n) 1000 status (Some series) (Some lo) (Some hi) cursor)
        absorb_new 0 None s = Some (GotOk s1)"
    and rest: "windowed_chunks http series status cs (k + 1) s1 = Some (GotOk s')"
    by (auto simp: c split: option.splits get_result.splits)
  have "once_each (fst s1) (snd s1)"
    using first Cons.prems(2) by (rule page_loop_keeps) (auto simp: absorb_new_def once_each_new)
  then show ?case using Cons.IH [OF rest] by blast
qed simp

lemma absorb_archived_eq:
  "as_found (absorb_archived rfc mn mx m s) =
     (if market_close_in_window rfc (mk_close_time m) (Some mn) (Some mx) \<and> mk_ticker m \<notin> as_seen s
      then as_found s @ [m] else as_found s)"
  "as_seen (absorb_archived rfc mn mx m s) =
     (if market_close_in_window rfc (mk_close_time m) (Some mn) (Some mx) \<and> mk_ticker m \<notin> as_seen s
      then insert (mk_ticker m) (as_seen s) else as_seen s)"
  by (cases "Option.bind (mk_close_time m) rfc"; simp add: absorb_archived_def Let_def)+

lemma archived_keeps:
  assumes "discover_historical_markets http rfc series mn mx = Some (GotOk s)"
  shows "distinct (map mk_ticker (as_found s)) \<and>
    (\<forall>m \<in> set (as_found s). market_close_in_window rfc (mk_close_time m) (Some mn) (Some mx))"
proof -
  define P where "P = (\<lambda>s :: 'a archive_scan. once_each (as_found s) (as_seen s) \<and>
      (\<forall>m \<in> set (as_found s). market_close_in_window rfc (mk_close_time m) (Some mn) (Some mx)))"
  have "P (absorb_archived rfc mn mx m s)" if "P s" for m s
    using that once_each_new [of "as_found s" "as_seen s" m] by (simp add: P_def absorb_archived_eq)
  moreover have "P \<lparr>as_found = [], as_seen = {}, as_scanned = 0, as_earliest = None\<rparr>"
    by (simp add: P_def once_each_def)
  ultimately have "P s"
    using assms page_loop_keeps [of _ "absorb_archived rfc mn mx" 0 None _ s P]
    unfolding discover_historical_markets_def by blast
  then have "once_each (as_found s) (as_seen s)"
    "\<forall>m \<in> set (as_found s). market_close_in_window rfc (mk_close_time m) (Some mn) (Some mx)"
    unfolding P_def by blast+
  then show ?thesis by (simp add: once_each_def)
qed

lemma lines_in_window:
  "markets_of_lines parse rfc mn mx ls out = Inr ms \<Longrightarrow>
     (\<forall>m \<in> set out. market_close_in_window rfc (mk_close_time m) mn mx) \<Longrightarrow>
     (\<forall>m \<in> set ms. market_close_in_window rfc (mk_close_time m) mn mx)"
proof (induction ls arbitrary: out)
  case (Cons line ls)
  show ?case
  proof (cases "trim line = []")
    case True
    with Cons show ?thesis by simp
  next
    case False
    show ?thesis
    proof (cases "parse (trim line)")
      case (Inl e)
      with Cons.prems(1) False show ?thesis by simp
    next
      case (Inr m)
      let ?out = "if market_close_in_window rfc (mk_close_time m) mn mx then out @ [m] else out"
      have "markets_of_lines parse rfc mn mx ls ?out = Inr ms" using Cons.prems(1) False Inr by simp
      moreover have "\<forall>m \<in> set ?out. market_close_in_window rfc (mk_close_time m) mn mx"
        using Cons.prems(2) by simp
      ultimately show ?thesis by (rule Cons.IH)
    qed
  qed
qed simp

section \<open>Each distinct trade once\<close>

text \<open>The first row of each trade id that was not seen before.\<close>

fun fresh :: "string set \<Rightarrow> trade_in list \<Rightarrow> trade_in list" where
  "fresh seen [] = []"
| "fresh seen ((rt, recv_ts, io) # xs) =
     (if rt_trade_id rt \<in> seen then fresh seen xs
      else (rt, recv_ts, io) # fresh (insert (rt_trade_id rt) seen) xs)"

definition trade_id :: "trade_in \<Rightarrow> string" where
  "trade_id x = rt_trade_id (fst x)"

definition trade_ids :: "trade_in list \<Rightarrow> string set" where
  "trade_ids xs = trade_id ` set xs"

lemma trade_ids_simps [simp]:
  "trade_ids [] = {}" "trade_ids ((rt, recv_ts, io) # xs) = insert (rt_trade_id rt) (trade_ids xs)"
  "trade_ids (xs @ ys) = trade_ids xs \<union> trade_ids ys"
  by (auto simp: trade_ids_def trade_id_def)

lemma fresh_append: "fresh seen (xs @ ys) = fresh seen xs @ fresh (seen \<union> trade_ids xs) ys"
  by (induction seen xs rule: fresh.induct) (auto simp: insert_absorb)

lemma fresh_ids: "trade_ids (fresh seen xs) = trade_ids xs - seen"
  by (induction seen xs rule: fresh.induct) auto

lemma fresh_distinct: "distinct (map trade_id (fresh seen xs))"
proof (induction seen xs rule: fresh.induct)
  case (2 seen rt recv_ts io xs)
  have "rt_trade_id rt \<notin> trade_ids (fresh (insert (rt_trade_id rt) seen) xs)"
    by (simp add: fresh_ids)
  with 2 show ?case by (auto simp: trade_ids_def trade_id_def)
qed simp

text \<open>The line of a trade, and whether it is kept as a raw fallback.\<close>

fun trade_line :: "backfill_cfg \<Rightarrow> trade_in \<Rightarrow> string" where
  "trade_line B (rt, recv_ts, io) = line_of (bc_json B (fst (snd (trade_to_envelope B rt recv_ts))))"

fun trade_raw :: "backfill_cfg \<Rightarrow> trade_in \<Rightarrow> bool" where
  "trade_raw B (rt, recv_ts, io) = snd (snd (trade_to_envelope B rt recv_ts))"

fun trade_file :: "string \<Rightarrow> trade_in \<Rightarrow> string \<times> string \<times> int" where
  "trade_file ticker (rt, recv_ts, io) = (ticker, CHANNEL_TRADE, ai_today io)"

definition trade_lines :: "backfill_cfg \<Rightarrow> string \<Rightarrow> string \<times> string \<times> int \<Rightarrow> trade_in list \<Rightarrow> string" where
  "trade_lines B ticker k xs = concat (map (trade_line B) (filter (\<lambda>x. trade_file ticker x = k) xs))"

lemma trade_lines_simps [simp]:
  "trade_lines B ticker k [] = []"
  "trade_lines B ticker k (x # xs) = (if trade_file ticker x = k then trade_line B x else []) @ trade_lines B ticker k xs"
  "trade_lines B ticker k (xs @ ys) = trade_lines B ticker k xs @ trade_lines B ticker k ys"
  by (simp_all add: trade_lines_def)

definition backfill_log :: "backfill_cfg \<Rightarrow> backfill \<Rightarrow> string \<times> string \<times> int \<Rightarrow> string" where
  "backfill_log B b = disk_log (bc_store B) (bf_streams b, bf_disk b)"

definition backfill_ok :: "backfill_cfg \<Rightarrow> path \<Rightarrow> backfill \<Rightarrow> bool" where
  "backfill_ok B base b \<longleftrightarrow>
     disk_ok (bc_store B) (bf_streams b, bf_disk b) \<and> sm_base_dir (bf_streams b) = base"

text \<open>What a successful stretch of the run adds to a report.\<close>

definition report_adds :: "backfill_cfg \<Rightarrow> BackfillReport \<Rightarrow> trade_in list \<Rightarrow> trade_in list \<Rightarrow> BackfillReport \<Rightarrow> bool" where
  "report_adds B r xs new r' \<longleftrightarrow>
     br_fetched r' = br_fetched r + of_nat (length xs) \<and>
     br_written r' = br_written r + of_nat (length new) \<and>
     br_duplicates r' = br_duplicates r + of_nat (length xs - length new) \<and>
     br_raw r' = br_raw r + of_nat (length (filter (trade_raw B) new)) \<and> length new \<le> length xs"

lemma report_adds_trans:
  "report_adds B r xs new r' \<Longrightarrow> report_adds B r' xs' new' r'' \<Longrightarrow> report_adds B r (xs @ xs') (new @ new') r''"
  by (auto simp: report_adds_def of_nat_diff)

lemma trade_channel: "fst (trade_to_envelope B rt recv_ts) = CHANNEL_TRADE"
  by (simp add: trade_to_envelope_def Let_def split: sum.split)

lemma fresh_length: "length (fresh seen xs) \<le> length xs"
  by (induction seen xs rule: fresh.induct) auto

lemma page_exact:
  assumes "backfill_ok B base b" and "backfill_page B ticker xs (seen, b) = (Inr (), seen', b')"
  shows "backfill_ok B base b' \<and> seen' = seen \<union> trade_ids xs \<and>
     backfill_log B b' k = backfill_log B b k @ trade_lines B ticker k (fresh seen xs) \<and>
     report_adds B (bf_report b) xs (fresh seen xs) (bf_report b') \<and> bf_checkpoint b' = bf_checkpoint b"
  using assms
proof (induction xs arbitrary: seen b)
  case Nil
  then show ?case by (auto simp: report_adds_def)
next
  case (Cons x xs)
  obtain rt recv_ts io where x: "x = (rt, recv_ts, io)" by (metis prod_cases3)
  define b0 where "b0 = b\<lparr>bf_report := (bf_report b)\<lparr>br_fetched := br_fetched (bf_report b) + 1\<rparr>\<rparr>"
  show ?case
  proof (cases "rt_trade_id rt \<in> seen")
    case True
    define b1 where "b1 = b0\<lparr>bf_report := (bf_report b0)\<lparr>br_duplicates := br_duplicates (bf_report b0) + 1\<rparr>\<rparr>"
    have rest: "backfill_page B ticker xs (seen, b1) = (Inr (), seen', b')"
      using Cons.prems(2) True by (simp add: x b1_def b0_def Let_def)
    have b1: "backfill_ok B base b1" "backfill_log B b1 k = backfill_log B b k" "bf_checkpoint b1 = bf_checkpoint b"
      "report_adds B (bf_report b) [x] [] (bf_report b1)"
      using Cons.prems(1) by (simp_all add: b1_def b0_def backfill_ok_def backfill_log_def report_adds_def)
    from Cons.IH [OF b1(1) rest] b1 report_adds_trans [OF b1(4)] True show ?thesis
      by (force simp: x insert_absorb)
  next
    case False
    obtain env raw where env: "trade_to_envelope B rt recv_ts = (CHANNEL_TRADE, env, raw)"
      using trade_channel [of B rt recv_ts] by (metis prod.collapse)
    obtain r s d where a: "stream_append (bc_store B) io ticker CHANNEL_TRADE (bc_json B env) (bf_streams b, bf_disk b) = (r, s, d)"
      by (metis prod_cases3)
    define b1 where "b1 = b0\<lparr>bf_streams := s, bf_disk := d, bf_report := count_trade ticker raw (bf_report b0)\<rparr>"
    have r: "r = Inr ()" and rest: "backfill_page B ticker xs (insert (rt_trade_id rt) seen, b1) = (Inr (), seen', b')"
      using Cons.prems(2) False a
      by (auto simp: x b1_def b0_def Let_def env split: sum.splits)
    have ok: "disk_ok (bc_store B) (bf_streams b, bf_disk b)"
      using Cons.prems(1) by (simp add: backfill_ok_def)
    have base: "sm_base_dir s = base"
      using stream_append_adds [OF _ a] ok Cons.prems(1) by (simp add: disk_ok_def backfill_ok_def)
    have b1: "backfill_ok B base b1" "bf_checkpoint b1 = bf_checkpoint b"
      "report_adds B (bf_report b) [x] [x] (bf_report b1)"
      using store.append_invar [OF ok a] env base
      by (simp_all add: b1_def b0_def backfill_ok_def report_adds_def count_trade_def x)
    have log: "backfill_log B b1 k = backfill_log B b k @ (if trade_file ticker x = k then trade_line B x else [])"
      using store.append_ok [OF ok a [unfolded r], of k] env
      by (auto simp: backfill_log_def b1_def x)
    from Cons.IH [OF b1(1) rest] b1 log report_adds_trans [OF b1(3)] False show ?thesis
      by (force simp: x)
  qed
qed

text \<open>The trades the pages of a ticker deliver, up to the page cap.\<close>

function fetched_trades :: "nat \<Rightarrow> trade_fetch \<Rightarrow> nat \<Rightarrow> string option \<Rightarrow> trade_in list" where
  "fetched_trades cap fetch n cursor =
     (if n \<ge> cap then []
      else
        case fetch n cursor of
          GotOk (trades, next) \<Rightarrow>
            trades @ (case next_cursor next of Some c \<Rightarrow> fetched_trades cap fetch (n + 1) (Some c) | None \<Rightarrow> [])
        | _ \<Rightarrow> [])"
  by pat_completeness auto
termination by (relation "measure (\<lambda>(cap, fetch, n, cursor). cap - n)") auto

declare fetched_trades.simps [simp del]

lemma pages_exact:
  assumes "backfill_ok B base b" and "backfill_pages B ticker fetch n cursor (seen, b) = (Inr (), b')"
  defines "xs \<equiv> fetched_trades (bc_max_trade_pages B) fetch n cursor"
  shows "backfill_ok B base b' \<and>
     backfill_log B b' k = backfill_log B b k @ trade_lines B ticker k (fresh seen xs) \<and>
     report_adds B (bf_report b) xs (fresh seen xs) (bf_report b') \<and> bf_checkpoint b' = bf_checkpoint b"
  using assms(1,2) unfolding xs_def
proof (induction "bc_max_trade_pages B - n" arbitrary: n cursor seen b)
  case 0
  then show ?case
    by (auto simp: backfill_pages.simps [of B] fetched_trades.simps [of _ fetch n] report_adds_def)
next
  case (Suc m)
  then have n: "\<not> n \<ge> bc_max_trade_pages B" by simp
  show ?case
  proof (cases "fetch n cursor")
    case (GotOk p)
    obtain trades nxt where p: "p = (trades, nxt)" by fastforce
    define b0 where "b0 = b\<lparr>bf_report := (bf_report b)\<lparr>br_pages := br_pages (bf_report b) + 1\<rparr>\<rparr>"
    obtain r seen1 b1 where pg: "backfill_page B ticker trades (seen, b0) = (r, seen1, b1)" by (metis prod_cases3)
    have r: "r = Inr ()"
      using Suc.prems(2) n GotOk pg
      by (cases r) (simp_all add: backfill_pages.simps [of B] p b0_def [symmetric])
    have ok: "backfill_ok B base b0" using Suc.prems(1) by (simp add: backfill_ok_def b0_def)
    note P = page_exact [OF ok pg [unfolded r], of k]
    have b0: "backfill_log B b0 k = backfill_log B b k" "bf_checkpoint b0 = bf_checkpoint b"
      "report_adds B (bf_report b0) us vs r' = report_adds B (bf_report b) us vs r'" for us vs r'
      by (simp_all add: b0_def backfill_log_def report_adds_def)
    show ?thesis
    proof (cases "next_cursor nxt")
      case None
      then have b': "b' = b1" and xs: "fetched_trades (bc_max_trade_pages B) fetch n cursor = trades"
        using Suc.prems(2) n GotOk pg r
        by (simp_all add: backfill_pages.simps [of B] fetched_trades.simps [of _ fetch n] p b0_def [symmetric])
      show ?thesis unfolding b' xs using P b0 by auto
    next
      case (Some c)
      then have rest: "backfill_pages B ticker fetch (n + 1) (Some c) (seen1, b1) = (Inr (), b')"
        and xs: "fetched_trades (bc_max_trade_pages B) fetch n cursor =
          trades @ fetched_trades (bc_max_trade_pages B) fetch (n + 1) (Some c)"
        using Suc.prems(2) n GotOk pg r
        by (simp_all add: backfill_pages.simps [of B _ _ n] fetched_trades.simps [of _ fetch n] p b0_def [symmetric])
      have m: "m = bc_max_trade_pages B - (n + 1)" using Suc.hyps(2) by simp
      from P have P': "backfill_ok B base b1" "seen1 = seen \<union> trade_ids trades"
        "backfill_log B b1 k = backfill_log B b k @ trade_lines B ticker k (fresh seen trades)"
        "report_adds B (bf_report b) trades (fresh seen trades) (bf_report b1)" "bf_checkpoint b1 = bf_checkpoint b"
        using b0 by auto
      show ?thesis
        unfolding xs using Suc.hyps(1) [OF m P'(1) rest] P' report_adds_trans [OF P'(4)]
        by (simp add: fresh_append)
    qed
  qed (use Suc.prems(2) n in \<open>simp_all add: backfill_pages.simps [of B]\<close>)
qed

lemma finish_ok:
  assumes "finish_ticker t ck rb = (Inr (), b')"
  shows "\<exists>b. rb = (Inr (), b) \<and> bf_report b' = bf_report b \<and>
     (\<exists>n. bf_checkpoint b' = bf_checkpoint b @ [(t, n)]) \<and>
     (backfill_ok B base b \<longrightarrow> backfill_ok B base b' \<and> backfill_log B b' k = backfill_log B b k)"
proof -
  obtain r b where rb: "rb = (r, b)" by fastforce
  have closed: "sm_base_dir (snd (stream_close t c m)) = sm_base_dir m" for c m
    by (simp add: stream_close_def)
  from assms show ?thesis
    by (auto simp: rb finish_ticker_def Let_def backfill_ok_def backfill_log_def disk_ok_def disk_log_def
        set_ok_close closed split: sum.splits option.splits)
qed

definition new_trades :: "backfill_cfg \<Rightarrow> trade_fetch \<Rightarrow> trade_in list" where
  "new_trades B fetch = fresh {} (fetched_trades (bc_max_trade_pages B) fetch 0 None)"

lemma tickers_exact:
  assumes "backfill_ok B base b" and "backfill_tickers B finished fetch ckpt tickers b = (Inr (), b')"
  shows "backfill_ok B base b' \<and>
     backfill_log B b' k = backfill_log B b k @
       concat (map (\<lambda>t. trade_lines B t k (new_trades B (fetch t))) (filter (\<lambda>t. t \<notin> finished) tickers)) \<and>
     report_adds B (bf_report b)
       (concat (map (\<lambda>t. fetched_trades (bc_max_trade_pages B) (fetch t) 0 None) (filter (\<lambda>t. t \<notin> finished) tickers)))
       (concat (map (\<lambda>t. new_trades B (fetch t)) (filter (\<lambda>t. t \<notin> finished) tickers))) (bf_report b') \<and>
     map fst (bf_checkpoint b') = map fst (bf_checkpoint b) @ filter (\<lambda>t. t \<notin> finished) tickers"
  using assms
proof (induction tickers arbitrary: b)
  case Nil
  then show ?case by (simp add: report_adds_def)
next
  case (Cons t tickers)
  show ?case
  proof (cases "t \<in> finished")
    case True
    with Cons show ?thesis by simp
  next
    case False
    obtain r b2 where f: "finish_ticker t (ckpt t) (backfill_pages B t (fetch t) 0 None ({}, b)) = (r, b2)"
      by fastforce
    have r: "r = Inr ()" and rest: "backfill_tickers B finished fetch ckpt tickers b2 = (Inr (), b')"
      using Cons.prems(2) False f by (auto split: sum.splits)
    from finish_ok [OF f [unfolded r], of B base k] obtain b1 n where
      pages: "backfill_pages B t (fetch t) 0 None ({}, b) = (Inr (), b1)" and
      b2: "bf_report b2 = bf_report b1" "bf_checkpoint b2 = bf_checkpoint b1 @ [(t, n)]"
        "backfill_ok B base b1 \<longrightarrow> backfill_ok B base b2 \<and> backfill_log B b2 k = backfill_log B b1 k"
      by blast
    note P = pages_exact [OF Cons.prems(1) pages, of k, folded new_trades_def]
    have ok2: "backfill_ok B base b2" using P b2 by blast
    have "report_adds B (bf_report b) (fetched_trades (bc_max_trade_pages B) (fetch t) 0 None) (new_trades B (fetch t))
        (bf_report b2)"
      using P b2 by simp
    with Cons.IH [OF ok2 rest] P b2 False report_adds_trans show ?thesis by auto
  qed
qed

section \<open>What is kept of a trade\<close>

definition trade_kept :: "backfill_cfg \<Rightarrow> trade_in \<Rightarrow> bool" where
  "trade_kept B = (\<lambda>(rt, recv_ts, io).
     let env = fst (snd (trade_to_envelope B rt recv_ts)) in
     e_recv_ts env = recv_ts \<and>
     (case e_kind env of
        TradeRec t \<Rightarrow> trade_denotes (bc_rest B) rt t
      | Raw f \<Rightarrow> (\<nexists>t. trade_denotes (bc_rest B) rt t) \<and> rf_ticker f = Some (rt_ticker rt) \<and>
          rf_payload f = (case bc_value B rt of Inr v \<Rightarrow> v | Inl _ \<Rightarrow> JNull)
      | _ \<Rightarrow> False))"

lemma trade_always_kept: "trade_kept B x"
proof -
  obtain rt recv_ts io where x: "x = (rt, recv_ts, io)" by (metis prod_cases3)
  show ?thesis
  proof (cases "to_core (bc_rest B) rt")
    case (Inr t)
    with to_core_exact [of "bc_rest B" rt t] show ?thesis
      by (simp add: trade_kept_def x trade_to_envelope_def)
  next
    case (Inl e)
    then have "\<not> trade_denotes (bc_rest B) rt t" for t
      using to_core_exact [of "bc_rest B" rt t] by simp
    with Inl show ?thesis by (simp add: trade_kept_def x trade_to_envelope_def Let_def)
  qed
qed

section \<open>The windows\<close>

fun tiles :: "int \<Rightarrow> int \<Rightarrow> int \<Rightarrow> (int \<times> int) list \<Rightarrow> bool" where
  "tiles lo hi step [] \<longleftrightarrow> lo = hi"
| "tiles lo hi step ((a, b) # cs) \<longleftrightarrow> a = lo \<and> a < b \<and> b - a \<le> step \<and> tiles b hi step cs"

lemma chunk_loop_tiles:
  assumes "0 < step" and "i64_range (max_ts + step)"
  shows "lo \<le> max_ts \<Longrightarrow> i64_range lo \<Longrightarrow>
     \<exists>cs'. chunk_loop max_ts step lo cs = Some (cs @ cs') \<and> tiles lo max_ts step cs'"
proof (induction "nat (max_ts - lo)" arbitrary: lo cs rule: less_induct)
  case less
  show ?case
  proof (cases "lo < max_ts")
    case False
    with less.prems show ?thesis
      by (intro exI [of _ "[]"]) (simp add: chunk_loop.simps)
  next
    case True
    have "i64_range (lo + step)"
      using assms less.prems True by (simp add: i64_range_def)
    then have hi: "i64_add lo step = lo + step" by (rule i64_add_exact)
    let ?hi = "min (lo + step) max_ts"
    have h: "lo < ?hi" "?hi \<le> max_ts" "?hi - lo \<le> step" "i64_range ?hi"
      using True assms less.prems by (auto simp: i64_range_def min_def)
    then obtain cs' where "chunk_loop max_ts step ?hi (cs @ [(lo, ?hi)]) = Some ((cs @ [(lo, ?hi)]) @ cs')"
      "tiles ?hi max_ts step cs'"
      using less.hyps [of ?hi "cs @ [(lo, ?hi)]"] True by auto
    then show ?thesis
      using True h by (intro exI [of _ "(lo, ?hi) # cs'"]) (simp add: chunk_loop.simps [of _ _ lo] hi Let_def)
  qed
qed

lemma tiles_le: "tiles lo hi step cs \<Longrightarrow> lo \<le> hi"
  by (induction lo hi step cs rule: tiles.induct) auto

lemma tiles_partition:
  "tiles lo hi step cs \<Longrightarrow>
     (\<forall>(a, b) \<in> set cs. lo \<le> a \<and> a < b \<and> b - a \<le> step) \<and>
     (\<forall>t. lo \<le> t \<and> t < hi \<longleftrightarrow> (\<exists>(a, b) \<in> set cs. a \<le> t \<and> t < b)) \<and>
     sorted_wrt (\<lambda>c c'. snd c \<le> fst c') cs"
proof (induction lo hi step cs rule: tiles.induct)
  case (2 lo hi step a b cs)
  then have t: "tiles b hi step cs" and ab: "a = lo" "a < b" "b - a \<le> step" by simp_all
  note IH = 2(1) [OF t]
  have bh: "b \<le> hi" using tiles_le [OF t] .
  have "lo \<le> x \<and> x < hi \<longleftrightarrow> (\<exists>(a', b') \<in> set ((a, b) # cs). a' \<le> x \<and> x < b')" for x
  proof (cases "x < b")
    case True
    have "\<not> (\<exists>(a', b') \<in> set cs. a' \<le> x \<and> x < b')"
      using IH True by fastforce
    then show ?thesis using True ab bh by auto
  next
    case False
    have "b \<le> x \<and> x < hi \<longleftrightarrow> (\<exists>(a', b') \<in> set cs. a' \<le> x \<and> x < b')" using IH by blast
    then show ?thesis using False ab by auto
  qed
  moreover have "\<forall>(a', b') \<in> set ((a, b) # cs). lo \<le> a' \<and> a' < b' \<and> b' - a' \<le> step"
    using IH ab by fastforce
  moreover have "sorted_wrt (\<lambda>c c'. snd c \<le> fst c') ((a, b) # cs)"
    using IH by fastforce
  ultimately show ?case by blast
qed auto

text \<open>A step near the end of the range of \<^verbatim>\<open>i64\<close> makes the windows wrap around.\<close>

lemma time_chunks_wrap:
  "time_chunks 2 10 (2 ^ 63 - 1) = Some [(2, 1 - 2 ^ 63), (1 - 2 ^ 63, 0), (0, 10)]"
  by (simp add: time_chunks_def chunk_loop.simps i64_add_def i64_wrap_def Let_def)

section \<open>Properties\<close>

text \<open>
  C9. A backfill that ends without an error has written each distinct trade once: every file has grown by
  exactly one line for each trade id a ticker's pages delivered, in the order first fetched, at the
  day of its append, and by nothing else. The line holds the exact trade the row denotes, or a raw
  fallback with the row if it denotes none. The report counts what was fetched, written, kept raw
  and dropped as a duplicate, and every ticker not finished before is checkpointed.
\<close>

theorem backfill_exact:
  assumes "backfill_tickers B finished fetch ckpt tickers (backfill_start base d) = (Inr (), b)"
    and "inj (sl_show_day (bc_store B))"
  shows "bytes_at (bf_disk b) (stream_file (bc_store B) base ticker channel day) =
       bytes_at d (stream_file (bc_store B) base ticker channel day) @
       concat (map (\<lambda>t. trade_lines B t (ticker, channel, day) (new_trades B (fetch t)))
         (filter (\<lambda>t. t \<notin> finished) tickers)) \<and>
     (\<forall>t. distinct (map trade_id (new_trades B (fetch t))) \<and>
        trade_ids (new_trades B (fetch t)) = trade_ids (fetched_trades (bc_max_trade_pages B) (fetch t) 0 None) \<and>
        list_all (trade_kept B) (new_trades B (fetch t))) \<and>
     report_adds B BackfillReport_default
       (concat (map (\<lambda>t. fetched_trades (bc_max_trade_pages B) (fetch t) 0 None) (filter (\<lambda>t. t \<notin> finished) tickers)))
       (concat (map (\<lambda>t. new_trades B (fetch t)) (filter (\<lambda>t. t \<notin> finished) tickers))) (bf_report b) \<and>
     map fst (bf_checkpoint b) = filter (\<lambda>t. t \<notin> finished) tickers"
proof -
  have start: "backfill_ok B base (backfill_start base d)"
    using assms(2) set_ok_new [of "bc_store B" base]
    by (simp add: backfill_ok_def backfill_start_def disk_ok_def StreamSet_new_def)
  note T = tickers_exact [OF start assms(1), of "(ticker, channel, day)"]
  have log0: "backfill_log B (backfill_start base d) (ticker, channel, day) =
      bytes_at d (stream_file (bc_store B) base ticker channel day)"
    by (simp add: backfill_log_def disk_log_def backfill_start_def StreamSet_new_def)
  have log1: "backfill_log B b (ticker, channel, day) = bytes_at (bf_disk b) (stream_file (bc_store B) base ticker channel day)"
    using T by (simp add: backfill_log_def disk_log_def backfill_ok_def)
  have "distinct (map trade_id (new_trades B (fetch t))) \<and>
        trade_ids (new_trades B (fetch t)) = trade_ids (fetched_trades (bc_max_trade_pages B) (fetch t) 0 None) \<and>
        list_all (trade_kept B) (new_trades B (fetch t))" for t
    by (simp add: new_trades_def fresh_distinct fresh_ids list_all_iff trade_always_kept)
  with T log0 log1 show ?thesis
    by (simp add: backfill_start_def)
qed

definition ex_rest_trade :: RestTrade where
  "ex_rest_trade = \<lparr>rt_trade_id = ''a'', rt_ticker = ''T'', rt_count_fp = ''1'', rt_yes_price_dollars = ''0.5'',
     rt_no_price_dollars = ''0.5'', rt_taker_outcome_side = ''yes'', rt_taker_book_side = None,
     rt_created_time = ''now''\<rparr>"

definition ex_backfill_cfg :: backfill_cfg where
  "ex_backfill_cfg = \<lparr>bc_json = (\<lambda>_. ''{}''), bc_store = wc_store ex_cfg,
     bc_rest = \<lparr>rl_debug = id, rl_parse_utc = (\<lambda>_. Inr 0)\<rparr>, bc_value = (\<lambda>_. Inr JNull),
     bc_max_trade_pages = 2\<rparr>"

definition ex_fetch :: "string \<Rightarrow> trade_fetch" where
  "ex_fetch t n cursor = GotOk ([(ex_rest_trade, 7, ex_io), (ex_rest_trade, 8, ex_io)], None)"

lemma ex_backfill_run:
  "\<exists>b. backfill_tickers ex_backfill_cfg {} ex_fetch (\<lambda>_. None) [''T''] (backfill_start [''data''] Map.empty) = (Inr (), b)"
proof -
  obtain e q where env: "trade_to_envelope ex_backfill_cfg ex_rest_trade 7 = (CHANNEL_TRADE, e, q)"
    using trade_channel [of ex_backfill_cfg ex_rest_trade 7] by (metis prod.collapse)
  have id: "rt_trade_id ex_rest_trade = ''a''" by (simp add: ex_rest_trade_def)
  have cap: "bc_max_trade_pages ex_backfill_cfg = 2" by (simp add: ex_backfill_cfg_def)
  have pages: "backfill_pages ex_backfill_cfg t (ex_fetch t) 0 None ({}, b) =
     (case backfill_page ex_backfill_cfg t [(ex_rest_trade, 7, ex_io), (ex_rest_trade, 8, ex_io)]
          ({}, b\<lparr>bf_report := (bf_report b)\<lparr>br_pages := br_pages (bf_report b) + 1\<rparr>\<rparr>) of
        (Inl e, sb') \<Rightarrow> (Inl e, snd sb')
      | (Inr _, sb') \<Rightarrow> (Inr (), snd sb'))" for t b
    by (subst backfill_pages.simps)
      (simp add: cap ex_fetch_def next_cursor_def del: backfill_page.simps split: prod.split sum.split)
  show ?thesis
    by (simp add: pages id env backfill_start_def finish_ticker_def Let_def
        stream_append_def StreamSet_new_def JsonlWriter_new_def ex_io_def is_safe_segment_def CHANNEL_TRADE_def
        writer_append_def jsonl_append_def rotate_if_needed_def)
qed

theorem backfill_exact_witness:
  "\<exists>b. backfill_tickers ex_backfill_cfg {} ex_fetch (\<lambda>_. None) [''T'']
         (backfill_start [''data''] Map.empty) = (Inr (), b) \<and>
     length (bytes_at (bf_disk b) (stream_file (wc_store ex_cfg) [''data''] ''T'' ''trade'' 2)) = 3 \<and>
     br_fetched (bf_report b) = 2 \<and> br_written (bf_report b) = 1 \<and> br_duplicates (bf_report b) = 1"
proof -
  obtain b where b: "backfill_tickers ex_backfill_cfg {} ex_fetch (\<lambda>_. None) [''T'']
      (backfill_start [''data''] Map.empty) = (Inr (), b)"
    using ex_backfill_run by blast
  have cfg: "bc_store ex_backfill_cfg = wc_store ex_cfg" "bc_max_trade_pages ex_backfill_cfg = 2"
      "bc_json ex_backfill_cfg = (\<lambda>_. ''{}'')"
    by (simp_all add: ex_backfill_cfg_def)
  have inj: "inj (sl_show_day (bc_store ex_backfill_cfg))"
    by (simp add: cfg ex_cfg_def inj_ex_day)
  have xs: "fetched_trades 2 (ex_fetch t) 0 None = [(ex_rest_trade, 7, ex_io), (ex_rest_trade, 8, ex_io)]" for t
    by (simp add: fetched_trades.simps [of 2] ex_fetch_def next_cursor_def)
  have new: "new_trades ex_backfill_cfg (ex_fetch t) = [(ex_rest_trade, 7, ex_io)]" for t
    by (simp add: new_trades_def cfg xs)
  have lines: "length (trade_lines ex_backfill_cfg ''T'' (''T'', ''trade'', 2) [(ex_rest_trade, 7, ex_io)]) = 3"
    by (simp add: cfg line_of_def CHANNEL_TRADE_def ex_io_def)
  note run = backfill_exact [OF b inj, of "''T''" "''trade''" 2]
  have "length (bytes_at (bf_disk b) (stream_file (wc_store ex_cfg) [''data''] ''T'' ''trade'' 2)) = 3"
    using run lines by (simp add: cfg new bytes_at_def)
  moreover have "report_adds ex_backfill_cfg BackfillReport_default
      [(ex_rest_trade, 7, ex_io), (ex_rest_trade, 8, ex_io)] [(ex_rest_trade, 7, ex_io)] (bf_report b)"
    using run by (simp add: cfg xs new)
  ultimately show ?thesis
    using b by (auto simp: report_adds_def BackfillReport_default_def)
qed

text \<open>
  Splitting a range into windows ends and partitions it: every instant of the range lies in exactly
  one window and no other instant in any, the windows ascend, and none is empty or wider than the
  step, as long as the range and one step beyond it fit an \<open>i64\<close>.
\<close>

theorem time_chunks_partition:
  assumes "0 < step" and "i64_range min_ts" and "i64_range (max_ts + step)"
  shows "\<exists>cs. time_chunks min_ts max_ts step = Some cs \<and>
     (\<forall>t. min_ts \<le> t \<and> t < max_ts \<longleftrightarrow> (\<exists>(a, b) \<in> set cs. a \<le> t \<and> t < b)) \<and>
     (\<forall>(a, b) \<in> set cs. a < b \<and> b - a \<le> step) \<and> sorted_wrt (\<lambda>c c'. snd c \<le> fst c') cs"
proof (cases "min_ts < max_ts")
  case False
  with assms show ?thesis by (auto simp: time_chunks_def)
next
  case True
  obtain cs where cs: "chunk_loop max_ts step min_ts [] = Some ([] @ cs)" "tiles min_ts max_ts step cs"
    using chunk_loop_tiles [OF assms(1,3), of min_ts "[]"] True assms(2) by auto
  then have "time_chunks min_ts max_ts step = Some cs"
    using True assms(1) by (simp add: time_chunks_def)
  with tiles_partition [OF cs(2)] show ?thesis by fastforce
qed

theorem time_chunks_partition_witness:
  "\<exists>cs. time_chunks 0 250 100 = Some cs \<and> (\<forall>(a, b) \<in> set cs. a < b \<and> b - a \<le> 100) \<and>
     (\<exists>(a, b) \<in> set cs. a \<le> 249 \<and> 249 < b)"
proof -
  obtain cs where "time_chunks 0 250 100 = Some cs"
    "\<forall>t. 0 \<le> t \<and> t < 250 \<longleftrightarrow> (\<exists>(a, b) \<in> set cs. a \<le> t \<and> t < b)"
    "\<forall>(a, b) \<in> set cs. a < b \<and> b - a \<le> 100"
    using time_chunks_partition [of 100 0 250] by (auto simp: i64_range_def)
  moreover from this(2) [THEN spec, of 249] have "\<exists>(a, b) \<in> set cs. a \<le> 249 \<and> 249 < b" by simp
  ultimately show ?thesis by blast
qed

end
