(* ===== verification/Commands.thy ===== *)
theory Commands
  imports Catalog Scheduled Hourly Backfill
begin

text \<open>
  From the command line to the supervisors: what \<^verbatim>\<open>run_universe\<close>, \<^verbatim>\<open>run_scheduled\<close>, \<^verbatim>\<open>run_hourly\<close> and \<^verbatim>\<open>run_backfill\<close>
  make of their flags before their loops start, and the shared \<^verbatim>\<open>parse_ticker_list\<close> of \<^verbatim>\<open>main.rs\<close>.

  Parameters: the parsers of instants and numbers, the clock, the answers of the venue, the contents of files
  and the environment variable of the archive. Loading of credentials and building of the HTTP client are left out.

  The lemmas show which configurations can reach the loops, and which markets a backfill is about.
\<close>

section \<open>Flags\<close>

definition split_list :: "string \<Rightarrow> string list" where
  "split_list s = filter (\<lambda>t. t \<noteq> []) (map trim (split_on (CHR '','') s))"

definition parse_ticker_list :: "string option \<Rightarrow> string + string list" where
  "parse_ticker_list arg =
     (let tickers = (case arg of Some s \<Rightarrow> split_list s | None \<Rightarrow> []) in
      if tickers = [] then Inl ''requires --tickers TICKER1,TICKER2,...'' else Inr tickers)"

text \<open>\<^verbatim>\<open>parse().unwrap_or(d)\<close> of a \<^verbatim>\<open>u64\<close> or \<^verbatim>\<open>usize\<close>, and of an \<^verbatim>\<open>i64\<close>.\<close>

definition u64_or :: "Args \<Rightarrow> string \<Rightarrow> string \<Rightarrow> nat \<Rightarrow> nat" where
  "u64_or args key text d = (case parse_unsigned u64_max (get_or args key text) of Some n \<Rightarrow> n | None \<Rightarrow> d)"

definition i64_or :: "Args \<Rightarrow> string \<Rightarrow> string \<Rightarrow> i64 \<Rightarrow> i64" where
  "i64_or args key text d = (case parse_i64 (get_or args key text) of Some n \<Rightarrow> n | None \<Rightarrow> d)"

definition DISK_FLOOR :: u64 where "DISK_FLOOR = 3 * 1024 * 1024 * 1024"

definition DEFAULT_ARCHIVE :: string where "DEFAULT_ARCHIVE = ''/opt/kdp/bin/kdp-archive.sh''"

text \<open>A path is given by its text; \<open>pth\<close> splits it into its components.\<close>

section \<open>The universe supervisor\<close>

text \<open>Why a run does not start: a refusal, or a bound that has passed, which ends it cleanly.\<close>

datatype launch_end = Refused string | BoundPassed

definition require :: "bool \<Rightarrow> 'e \<Rightarrow> 'e + unit" where
  "require b e = (if b then Inr () else Inl e)"

record cli_env =
  ce_path :: "string \<Rightarrow> path"
  ce_debug :: "string \<Rightarrow> string"
  ce_rest :: rest_lib
  ce_calendar :: calendar
  ce_remote :: "string option"

definition universe_unit :: "cli_env \<Rightarrow> Args \<Rightarrow> nat \<Rightarrow> UnitCfg" where
  "universe_unit E args verify =
     \<lparr>uc_data_dir = ce_path E (get_or args ''out'' ''/var/lib/kdp/data''), uc_floor_bytes = DISK_FLOOR,
      uc_capacity = u64_or args ''buffer'' ''8192'' 8192, uc_idle_secs = u64_or args ''idle'' ''45'' 45,
      uc_grace_secs = u64_or args ''grace'' ''180'' 180, uc_poll_secs = u64_or args ''poll'' ''30'' 30,
      uc_max_secs = (u64_or args ''max-hours'' ''8'' 8 * 3600) mod 2 ^ 64,
      uc_archive_cmd = get_or args ''archive-cmd'' DEFAULT_ARCHIVE,
      uc_checkpoint_cmd = get_or args ''checkpoint-cmd'' [], uc_verify_interval_secs = verify\<rparr>"

definition clash_flag :: "cli_env \<Rightarrow> Args \<Rightarrow> string + bool" where
  "clash_flag E args =
     (let v = get_or args ''clash-sub'' ''on'' in
      if v = ''on'' then Inr True
      else if v = ''off'' then Inr False
      else Inl (''--clash-sub must be \"on\" or \"off\", got '' @ ce_debug E v))"

text \<open>\<open>now\<close> is read for the window, \<open>now'\<close> for its check.\<close>

definition universe_window :: "cli_env \<Rightarrow> Args \<Rightarrow> Timestamp \<Rightarrow> Timestamp \<Rightarrow> launch_end + Timestamp option" where
  "universe_window E args now now' =
     and_then (map_err Refused (parse_window (ce_debug E) (ce_rest E) (ce_calendar E) args now)) (\<lambda>until.
       case until of
         Some u \<Rightarrow> if u \<le> now' then Inl BoundPassed else Inr (Some u)
       | None \<Rightarrow> Inr None)"

definition universe_cfg_of ::
    "'f float_lib \<Rightarrow> Args \<Rightarrow> string list \<Rightarrow> string list \<Rightarrow> UnitCfg \<Rightarrow> bool \<Rightarrow> Timestamp option \<Rightarrow> string option \<Rightarrow>
     'f universe_cfg" where
  "universe_cfg_of F args series statuses u clash until remote =
     \<lparr>vc_series = series, vc_statuses = statuses,
      vc_min_volume = (case fl_parse F (get_or args ''min-volume'' ''0'') of Some v \<Rightarrow> v | None \<Rightarrow> fl_zero F),
      vc_rediscover = u64_or args ''rediscover-interval'' ''300'' 300,
      vc_max_units = u64_or args ''max-units'' ''8'' 8, vc_unit = u,
      vc_arm_lead_min = max 0 (min 10080 (i64_or args ''arm-lead-min'' ''30'' 30)),
      vc_clash_sub = clash, vc_until = until, vc_remote_prefix = remote\<rparr>"

definition universe_args ::
    "'f float_lib \<Rightarrow> cli_env \<Rightarrow> Timestamp \<Rightarrow> Timestamp \<Rightarrow> Args \<Rightarrow> launch_end + 'f universe_cfg" where
  "universe_args F E now now' args =
     and_then (ok_or (Args_get args ''series'') (Refused ''--series A,B,C is required (series tickers to sweep)'')) (\<lambda>s.
     and_then (require (split_list s \<noteq> []) (Refused ''--series must name at least one series'')) (\<lambda>_.
     and_then (ok_or (Args_get args ''name'')
         (Refused ''--name NAME is required (Drive namespace: universe-<name>)'')) (\<lambda>name.
     let statuses = split_list (get_or args ''status'' ''open,unopened'') in
     and_then (require (statuses \<noteq> []) (Refused ''--status must name at least one status (e.g. open)'')) (\<lambda>_.
     and_then (map_err Refused (parse_verify_interval args)) (\<lambda>verify.
     and_then (map_err Refused (clash_flag E args)) (\<lambda>clash.
     and_then (universe_window E args now now') (\<lambda>until.
     let u = universe_unit E args verify in
     and_then (map_err Refused
         (resolve_remote_prefix (ce_remote E) name (uc_archive_cmd u) (uc_checkpoint_cmd u))) (\<lambda>remote.
       Inr (universe_cfg_of F args (split_list s) statuses u clash until remote)))))))))"

section \<open>The scheduled and the hourly supervisor\<close>

definition DEFAULT_ARM_LEAD_MIN :: i64 where "DEFAULT_ARM_LEAD_MIN = 60"

definition DEFAULT_MAX_HOURS :: nat where "DEFAULT_MAX_HOURS = 8"

definition scheduled_args :: "cli_env \<Rightarrow> Args \<Rightarrow> string + string \<times> SchedCfg" where
  "scheduled_args E args =
     (case Args_get args ''schedule'' of
        None \<Rightarrow> Inl ''--schedule FILE is required (path to the JSONL schedule)''
      | Some file \<Rightarrow>
          and_then (parse_verify_interval args) (\<lambda>verify.
            Inr (file,
              \<lparr>sf_data_dir = ce_path E (get_or args ''out'' ''/var/lib/kdp/data''), sf_floor_bytes = DISK_FLOOR,
               sf_capacity = u64_or args ''buffer'' ''8192'' 8192, sf_idle_secs = u64_or args ''idle'' ''45'' 45,
               sf_grace_secs = u64_or args ''grace'' ''180'' 180, sf_poll_secs = u64_or args ''poll'' ''30'' 30,
               sf_arm_lead_min = i64_or args ''arm-lead-min'' [] DEFAULT_ARM_LEAD_MIN,
               sf_default_max_hours = word_of_nat (u64_or args ''max-hours'' [] DEFAULT_MAX_HOURS),
               sf_resolve_grace = word_of_nat (u64_or args ''resolve-grace'' ''1800'' 1800),
               sf_archive_cmd = get_or args ''archive-cmd'' DEFAULT_ARCHIVE, sf_verify_interval_secs = verify\<rparr>)))"

record hourly_args =
  ha_series :: string
  ha_cfg :: HourCfg
  ha_pre_arm :: nat

definition hourly_args_of :: "cli_env \<Rightarrow> Args \<Rightarrow> string + hourly_args" where
  "hourly_args_of E args =
     and_then (parse_verify_interval args) (\<lambda>verify.
       Inr \<lparr>ha_series = get_or args ''series'' ''KXBTCD'',
         ha_cfg =
           \<lparr>hc_data_dir = ce_path E (get_or args ''out'' ''/var/lib/kdp/data''),
            hc_band = u64_or args ''band'' ''0'' DEFAULT_BAND, hc_floor_bytes = DISK_FLOOR,
            hc_capacity = u64_or args ''buffer'' ''8192'' 8192, hc_idle_secs = u64_or args ''idle'' ''45'' 45,
            hc_grace_secs = u64_or args ''grace'' ''180'' 180, hc_poll_secs = u64_or args ''poll'' ''30'' 30,
            hc_max_hours = u64_or args ''max-hours'' ''2'' 2,
            hc_listing_grace = u64_or args ''listing-grace'' ''300'' 300,
            hc_open_settle = u64_or args ''open-settle'' ''60'' 60,
            hc_archive_cmd = get_or args ''archive-cmd'' DEFAULT_ARCHIVE, hc_verify_interval_secs = verify\<rparr>,
         ha_pre_arm = u64_or args ''pre-arm'' ''30'' 30\<rparr>)"

section \<open>The backfill\<close>

record 'f backfill_env =
  be_float :: "'f float_lib"
  be_total :: "'f \<Rightarrow> 'f \<Rightarrow> bool"
  be_lower :: "string \<Rightarrow> string"
  be_debug :: "string \<Rightarrow> string"
  be_rfc :: "string \<Rightarrow> i64 option"
  be_now :: "nat \<Rightarrow> i64"
  be_file :: "string \<Rightarrow> string + string"
  be_parse :: "string \<Rightarrow> string + 'f Market"
  be_print :: "'f Market \<Rightarrow> string"
  be_http :: "nat \<Rightarrow> nat \<Rightarrow> 'f market_http"
  be_checkpoint :: "string option"
  be_json :: json_lib

datatype 'f resolved = BadFlag string | ListingFailed http_error | ListingPanic | Endless | Listed "'f Market list"

fun of_listing :: "'f Market list get_result option \<Rightarrow> 'f resolved" where
  "of_listing None = Endless"
| "of_listing (Some (GotOk ms)) = Listed ms"
| "of_listing (Some (GotErr e)) = ListingFailed e"
| "of_listing (Some GotPanic) = ListingPanic"

fun listing_map :: "('a \<Rightarrow> 'b) \<Rightarrow> 'a get_result \<Rightarrow> 'b get_result" where
  "listing_map f (GotOk x) = GotOk (f x)"
| "listing_map f (GotErr e) = GotErr e"
| "listing_map f GotPanic = GotPanic"

definition when_flag :: "'f backfill_env \<Rightarrow> Args \<Rightarrow> string \<Rightarrow> string + i64 option" where
  "when_flag B args key =
     (case Args_get args key of
        None \<Rightarrow> Inr None
      | Some s \<Rightarrow> and_then (parse_when (be_debug B) (be_rfc B) s) (\<lambda>t. Inr (Some t)))"

definition since_flag :: "'f backfill_env \<Rightarrow> Args \<Rightarrow> string + i64 option" where
  "since_flag B args =
     (case Args_get args ''since'' of
        None \<Rightarrow> Inr None
      | Some s \<Rightarrow>
          and_then (parse_duration_secs (be_debug B) s)
            (\<lambda>secs. Inr (Some (i64_sub (be_now B 0) (u64_as_i64 (word_of_nat secs))))))"

definition file_markets :: "'f backfill_env \<Rightarrow> Args \<Rightarrow> string \<Rightarrow> 'f resolved" where
  "file_markets B args file =
     (case (when_flag B args ''min-close'', when_flag B args ''max-close'') of
        (Inl e, _) \<Rightarrow> BadFlag e
      | (_, Inl e) \<Rightarrow> BadFlag e
      | (Inr mn, Inr mx) \<Rightarrow>
          (case load_markets_file (be_parse B) (be_rfc B) mn mx (be_file B file) of
             Inl e \<Rightarrow> BadFlag (''reading markets file '' @ file)
           | Inr ms \<Rightarrow> Listed ms))"

definition archived_markets :: "'f backfill_env \<Rightarrow> Args \<Rightarrow> string \<Rightarrow> 'f resolved" where
  "archived_markets B args series =
     (case (when_flag B args ''min-close'', when_flag B args ''max-close'') of
        (Inl e, _) \<Rightarrow> BadFlag e
      | (_, Inl e) \<Rightarrow> BadFlag e
      | (Inr mn, Inr mx) \<Rightarrow>
          of_listing (map_option (listing_map as_found)
            (discover_historical_markets (be_http B 0) (be_rfc B) series
              (case mn of Some t \<Rightarrow> t | None \<Rightarrow> 0) (case mx of Some t \<Rightarrow> t | None \<Rightarrow> be_now B 1))))"

definition live_markets :: "'f backfill_env \<Rightarrow> Args \<Rightarrow> u32 \<Rightarrow> string \<Rightarrow> 'f resolved" where
  "live_markets B args max_pages series =
     (case when_flag B args ''min-close'' of
        Inl e \<Rightarrow> BadFlag e
      | Inr None \<Rightarrow>
          of_listing (Some (discover_markets (be_float B) (be_total B) (be_lower B) (be_http B 0) [] (Some series)
            (Args_get args ''status'') max_pages))
      | Inr (Some mn) \<Rightarrow>
          (case when_flag B args ''max-close'' of
             Inl e \<Rightarrow> BadFlag e
           | Inr mx \<Rightarrow>
               (case parse_duration_secs (be_debug B) (get_or args ''chunk'' ''7d'') of
                  Inl e \<Rightarrow> BadFlag e
                | Inr chunk \<Rightarrow>
                    of_listing (map_option (listing_map fst)
                      (discover_markets_windowed (be_http B) series (Args_get args ''status'') mn
                        (case mx of Some t \<Rightarrow> t | None \<Rightarrow> be_now B 1) (u64_as_i64 (word_of_nat chunk)))))))"

definition backfill_markets :: "'f backfill_env \<Rightarrow> Args \<Rightarrow> u32 \<Rightarrow> 'f resolved" where
  "backfill_markets B args max_pages =
     (case Args_get args ''markets-file'' of
        Some file \<Rightarrow> file_markets B args file
      | None \<Rightarrow>
          (case Args_get args ''series'' of
             Some series \<Rightarrow>
               if Args_get args ''historical'' = Some ''true'' then archived_markets B args series
               else live_markets B args max_pages series
           | None \<Rightarrow> BadFlag ''backfill requires --tickers A,B, --series TICKER, or --markets-file FILE''))"

definition volume_filter :: "'f float_lib \<Rightarrow> 'f \<Rightarrow> 'f Market list \<Rightarrow> 'f Market list" where
  "volume_filter F min_volume markets =
     (if fl_ge F min_volume (fl_zero F) \<and> \<not> fl_ge F (fl_zero F) min_volume
      then filter (\<lambda>m. fl_ge F (Market_volume F m) min_volume) markets
      else markets)"

text \<open>
  What a backfill goes on to do: the tickers, the lines it wrote to the metadata file, if any, and the tickers
  finished by an earlier run.
\<close>

datatype backfill_plan =
    NothingMatched
  | MetadataOnly "string list" "string list option"
  | FetchTrades "string list" "string list option" "string set" "i64 option" nat bool

definition backfill_tickers_of ::
    "'f backfill_env \<Rightarrow> Args \<Rightarrow> u32 \<Rightarrow> 'f resolved + (string list \<times> string list option) option" where
  "backfill_tickers_of B args max_pages =
     (case Args_get args ''tickers'' of
        Some s \<Rightarrow>
          (case parse_ticker_list (Some s) of Inl e \<Rightarrow> Inl (BadFlag e) | Inr ts \<Rightarrow> Inr (Some (ts, None)))
      | None \<Rightarrow>
          (case backfill_markets B args max_pages of
             Listed markets \<Rightarrow>
               (case fl_parse (be_float B) (get_or args ''min-volume'' ''0'') of
                  None \<Rightarrow> Inl (BadFlag ''--min-volume must be a number'')
                | Some v \<Rightarrow>
                    let kept = volume_filter (be_float B) v markets in
                    if kept = [] then Inr None
                    else Inr (Some (map mk_ticker kept, Some (map (\<lambda>m. line_of (be_print B m)) kept))))
           | e \<Rightarrow> Inl e))"

definition u32_flag :: "Args \<Rightarrow> string \<Rightarrow> string \<Rightarrow> string \<Rightarrow> 'f resolved + nat" where
  "u32_flag args key d e = ok_or (parse_unsigned (2 ^ 32 - 1) (get_or args key d)) (BadFlag e)"

definition backfill_finished :: "'f backfill_env \<Rightarrow> Args \<Rightarrow> string set" where
  "backfill_finished B args =
     (if Args_get args ''resume'' \<noteq> None then load_checkpoint (be_json B) (be_checkpoint B) else {})"

definition backfill_plan_of :: "'f backfill_env \<Rightarrow> Args \<Rightarrow> 'f resolved + backfill_plan" where
  "backfill_plan_of B args =
     and_then (ok_or (fl_parse (be_float B) (get_or args ''rate'' ''8''))
         (BadFlag ''--rate must be a number (requests/sec)'')) (\<lambda>rate.
     and_then (map_err BadFlag (since_flag B args)) (\<lambda>min_ts.
     and_then (u32_flag args ''pages'' ''20'' ''--pages must be an integer'') (\<lambda>pages.
     and_then (u32_flag args ''trade-pages'' ''100000'' ''--trade-pages must be an integer'') (\<lambda>trade_pages.
     and_then (backfill_tickers_of B args (word_of_nat pages)) (\<lambda>found.
       Inr (case found of
              None \<Rightarrow> NothingMatched
            | Some (tickers, metadata) \<Rightarrow>
                if Args_get args ''discover-only'' = Some ''true'' then MetadataOnly tickers metadata
                else FetchTrades tickers metadata (backfill_finished B args) min_ts trade_pages
                  (Args_get args ''historical'' = Some ''true'')))))))"

text \<open>The trade pages of a ticker, each row with the instant and the outcomes of its append.\<close>

definition trade_pages ::
    "(string \<Rightarrow> nat \<Rightarrow> trades_page http) \<Rightarrow> (string \<Rightarrow> nat \<Rightarrow> nat \<Rightarrow> Timestamp \<times> append_io) \<Rightarrow> i64 option \<Rightarrow> bool \<Rightarrow> string \<Rightarrow>
     trade_fetch" where
  "trade_pages http io min_ts historical ticker n cursor =
     listing_map (\<lambda>(rows, next). (map (\<lambda>(i, rt). (rt, io ticker n i)) (enumerate 0 rows), next))
       (if historical then get_historical_trades (http ticker n) ticker min_ts None 1000 cursor
        else get_trades (http ticker n) ticker min_ts None 1000 cursor)"

definition run_backfill ::
    "'f backfill_env \<Rightarrow> backfill_cfg \<Rightarrow> (string \<Rightarrow> nat \<Rightarrow> trades_page http) \<Rightarrow>
     (string \<Rightarrow> nat \<Rightarrow> nat \<Rightarrow> Timestamp \<times> append_io) \<Rightarrow> (string \<Rightarrow> string option) \<Rightarrow> path \<Rightarrow> disk \<Rightarrow> Args \<Rightarrow>
     'f resolved + ((backfill_error + unit) \<times> backfill) option" where
  "run_backfill B cfg http io ckpt base d args =
     (case backfill_plan_of B args of
        Inl e \<Rightarrow> Inl e
      | Inr (FetchTrades tickers metadata finished min_ts cap historical) \<Rightarrow>
          Inr (Some (backfill_tickers (cfg\<lparr>bc_max_trade_pages := cap\<rparr>) finished
            (trade_pages http io min_ts historical) ckpt tickers (backfill_start base d)))
      | Inr _ \<Rightarrow> Inr None)"

section \<open>Lemmas\<close>

lemma split_list_parts: "t \<in> set (split_list s) \<Longrightarrow> t \<noteq> [] \<and> trim t = t \<and> CHR '','' \<notin> set t"
  using set_trim split_on_pieces by (fastforce simp: split_list_def)

lemma parse_verify_interval_ok: "parse_verify_interval args = Inr n \<Longrightarrow> n = 0 \<or> 10 \<le> n"
  by (auto simp: parse_verify_interval_def split: option.splits if_splits)

lemma remote_prefix_ok:
  "resolve_remote_prefix env name archive checkpoint = Inr p \<Longrightarrow> archive \<noteq> [] \<or> checkpoint \<noteq> [] \<Longrightarrow> p \<noteq> None"
  by (auto simp: resolve_remote_prefix_def split: option.splits if_splits)

lemma universe_window_ok: "universe_window E args now now' = Inr (Some u) \<Longrightarrow> now' < u"
  by (auto simp: universe_window_def and_then_Inr_iff split: option.splits if_splits)

lemma universe_args_parts:
  assumes "universe_args F E now now' args = Inr C"
  shows "\<exists>s name verify clash until.
    Args_get args ''series'' = Some s \<and> split_list s \<noteq> [] \<and> vc_series C = split_list s \<and>
    split_list (get_or args ''status'' ''open,unopened'') \<noteq> [] \<and>
    vc_statuses C = split_list (get_or args ''status'' ''open,unopened'') \<and>
    parse_verify_interval args = Inr verify \<and> vc_unit C = universe_unit E args verify \<and>
    clash_flag E args = Inr clash \<and> vc_clash_sub C = clash \<and>
    universe_window E args now now' = Inr until \<and> vc_until C = until \<and>
    vc_arm_lead_min C = max 0 (min 10080 (i64_or args ''arm-lead-min'' ''30'' 30)) \<and>
    resolve_remote_prefix (ce_remote E) name (uc_archive_cmd (vc_unit C)) (uc_checkpoint_cmd (vc_unit C)) =
      Inr (vc_remote_prefix C)"
  using assms
  by (auto simp: universe_args_def universe_cfg_of_def require_def and_then_Inr_iff Let_def split: if_splits)

lemma listing_map_ok: "listing_map f r = GotOk y \<longleftrightarrow> (\<exists>x. r = GotOk x \<and> y = f x)"
  by (cases r) auto

lemma of_listing_ok: "of_listing r = Listed ms \<longleftrightarrow> r = Some (GotOk ms)"
  by (cases r rule: of_listing.cases) auto

text \<open>The listings a window of close times bounds.\<close>

lemma file_markets_in_window:
  assumes "file_markets B args file = Listed ms"
  shows "\<exists>mn mx. when_flag B args ''min-close'' = Inr mn \<and> when_flag B args ''max-close'' = Inr mx \<and>
    (\<forall>m \<in> set ms. market_close_in_window (be_rfc B) (mk_close_time m) mn mx)"
proof -
  obtain mn mx where w: "when_flag B args ''min-close'' = Inr mn" "when_flag B args ''max-close'' = Inr mx"
    and l: "load_markets_file (be_parse B) (be_rfc B) mn mx (be_file B file) = Inr ms"
    using assms by (auto simp: file_markets_def split: sum.splits)
  from l obtain c where "markets_of_lines (be_parse B) (be_rfc B) mn mx (buf_lines c) [] = Inr ms"
    by (auto simp: load_markets_file_def and_then_Inr_iff)
  with lines_in_window [OF this] w show ?thesis by auto
qed

lemma archived_markets_in_window:
  assumes "archived_markets B args series = Listed ms"
  shows "distinct (map mk_ticker ms) \<and>
    (\<exists>mn mx. when_flag B args ''min-close'' = Inr mn \<and> when_flag B args ''max-close'' = Inr mx \<and>
      (\<forall>m \<in> set ms. market_close_in_window (be_rfc B) (mk_close_time m)
         (Some (case mn of Some t \<Rightarrow> t | None \<Rightarrow> 0)) (Some (case mx of Some t \<Rightarrow> t | None \<Rightarrow> be_now B 1))))"
proof -
  obtain mn mx s where w: "when_flag B args ''min-close'' = Inr mn" "when_flag B args ''max-close'' = Inr mx"
    and l: "discover_historical_markets (be_http B 0) (be_rfc B) series
        (case mn of Some t \<Rightarrow> t | None \<Rightarrow> 0) (case mx of Some t \<Rightarrow> t | None \<Rightarrow> be_now B 1) = Some (GotOk s)"
    and ms: "ms = as_found s"
    using assms by (auto simp: archived_markets_def of_listing_ok listing_map_ok split: sum.splits)
  from archived_keeps [OF l] w show ?thesis unfolding ms by auto
qed

lemma windowed_listing_once:
  assumes "discover_markets_windowed http series status mn mx chunk = Some (GotOk (found, seen))"
  shows "distinct (map mk_ticker found)"
proof -
  obtain cs where "windowed_chunks http series status cs 0 ([], {}) = Some (GotOk (found, seen))"
    using assms by (auto simp: discover_markets_windowed_def split: Option.bind_splits)
  from windowed_once [OF this] show ?thesis by (simp add: once_each_def)
qed

lemma live_markets_once:
  assumes "live_markets B args pages series = Listed ms" and "Args_get args ''min-close'' \<noteq> None"
  shows "distinct (map mk_ticker ms)"
  using assms
  by (auto simp: live_markets_def when_flag_def of_listing_ok listing_map_ok and_then_Inr_iff
      dest: windowed_listing_once split: sum.splits option.splits)

lemma volume_filter_sub: "set (volume_filter F v ms) \<subseteq> set ms"
  by (auto simp: volume_filter_def)

lemma volume_filter_distinct: "distinct (map mk_ticker ms) \<Longrightarrow> distinct (map mk_ticker (volume_filter F v ms))"
  by (auto simp: volume_filter_def distinct_map_filter)

section \<open>Properties\<close>

text \<open>
  C23. Every configuration that the universe supervisor starts with names at least one series and one status,
  each a trimmed text without commas, arms at most a week ahead, verifies never or at least ten seconds apart,
  has a bound that lies in the future if it has one, and a remote prefix whenever something uploads. The
  backstop is the number of hours in seconds unless that exceeds 64 bits; then it wraps around.
\<close>

theorem universe_args_sound:
  assumes "universe_args F E now now' args = Inr C"
  shows "vc_series C \<noteq> [] \<and> vc_statuses C \<noteq> [] \<and>
    (\<forall>s \<in> set (vc_series C) \<union> set (vc_statuses C). s \<noteq> [] \<and> trim s = s \<and> CHR '','' \<notin> set s) \<and>
    0 \<le> vc_arm_lead_min C \<and> vc_arm_lead_min C \<le> 7 * 24 * 60 \<and>
    (uc_verify_interval_secs (vc_unit C) = 0 \<or> 10 \<le> uc_verify_interval_secs (vc_unit C)) \<and>
    (\<forall>u. vc_until C = Some u \<longrightarrow> now' < u) \<and>
    (uc_archive_cmd (vc_unit C) \<noteq> [] \<or> uc_checkpoint_cmd (vc_unit C) \<noteq> [] \<longrightarrow> vc_remote_prefix C \<noteq> None) \<and>
    uc_max_secs (vc_unit C) = (u64_or args ''max-hours'' ''8'' 8 * 3600) mod 2 ^ 64"
proof -
  obtain s name verify clash until where p:
    "Args_get args ''series'' = Some s" "split_list s \<noteq> []" "vc_series C = split_list s"
    "split_list (get_or args ''status'' ''open,unopened'') \<noteq> []"
    "vc_statuses C = split_list (get_or args ''status'' ''open,unopened'')"
    "parse_verify_interval args = Inr verify" "vc_unit C = universe_unit E args verify"
    "universe_window E args now now' = Inr until" "vc_until C = until"
    "vc_arm_lead_min C = max 0 (min 10080 (i64_or args ''arm-lead-min'' ''30'' 30))"
    "resolve_remote_prefix (ce_remote E) name (uc_archive_cmd (vc_unit C)) (uc_checkpoint_cmd (vc_unit C)) =
      Inr (vc_remote_prefix C)"
    using universe_args_parts [OF assms] by blast
  have "now' < u" if "vc_until C = Some u" for u
    using universe_window_ok p(8,9) that by simp
  moreover have "uc_verify_interval_secs (vc_unit C) = verify" by (simp add: p(7) universe_unit_def)
  ultimately show ?thesis
    using p(2-5) parse_verify_interval_ok [OF p(6)] remote_prefix_ok [OF p(11)] split_list_parts
    by (simp add: p(10)) (auto simp: p(7) universe_unit_def)
qed

text \<open>A command line for two series with a backstop of hours that exceeds 64 bits in seconds.\<close>

definition ex_cli_env :: cli_env where
  "ex_cli_env =
     \<lparr>ce_path = (\<lambda>s. [s]), ce_debug = id, ce_rest = \<lparr>rl_debug = id, rl_parse_utc = Inl\<rparr>,
      ce_calendar = \<lparr>cal_ymd = (\<lambda>_ _ _. None), cal_year = (\<lambda>_. 0), cal_weekday = (\<lambda>_. 0), cal_parse_date = (\<lambda>_. None)\<rparr>,
      ce_remote = None\<rparr>"

definition ex_universe_flags :: Args where
  "ex_universe_flags =
     \<lparr>ar_command = Some ''capture-universe'',
      ar_flags = [''series'' \<mapsto> ''A, B'', ''name'' \<mapsto> ''n'', ''archive-cmd'' \<mapsto> [], ''max-hours'' \<mapsto> ''5124095576030432'']\<rparr>"

lemma ex_series_flag: "split_list ''A, B'' = [''A'', ''B'']" "split_list ''open,unopened'' = [''open'', ''unopened'']"
  by code_simp+

lemma ex_verify_flag: "parse_verify_interval ex_universe_flags = Inr 900"
  by (simp add: parse_verify_interval_def get_or_def Args_get_def ex_universe_flags_def parse_unsigned_def
      strip_plus_def parse_digits_def digits_value_def digit_val_def is_ascii_digit_def u64_max_def)

lemma ex_max_hours: "u64_or ex_universe_flags ''max-hours'' ''8'' 8 = 5124095576030432"
  by (simp add: u64_or_def get_or_def Args_get_def ex_universe_flags_def parse_unsigned_def
      strip_plus_def parse_digits_def digits_value_def digit_val_def is_ascii_digit_def u64_max_def)

theorem universe_args_sound_witness:
  "\<exists>C. universe_args ex_volumes ex_cli_env 0 0 ex_universe_flags = Inr C \<and>
     vc_series C = [''A'', ''B''] \<and> vc_arm_lead_min C \<le> 10080 \<and> uc_max_secs (vc_unit C) = 3584"
proof -
  have "\<exists>C. universe_args ex_volumes ex_cli_env 0 0 ex_universe_flags = Inr C \<and> vc_series C = [''A'', ''B'']"
    by (simp add: universe_args_def ex_verify_flag Let_def, simp add: ex_universe_flags_def Args_get_def get_or_def
        ex_series_flag clash_flag_def universe_window_def parse_window_def universe_unit_def resolve_remote_prefix_def
        ex_cli_env_def ok_or_def map_err_def require_def universe_cfg_of_def)
  then obtain C where C: "universe_args ex_volumes ex_cli_env 0 0 ex_universe_flags = Inr C" "vc_series C = [''A'', ''B'']"
    by blast
  from universe_args_sound [OF C(1)] have "uc_max_secs (vc_unit C) = 3584" "vc_arm_lead_min C \<le> 10080"
    by (simp_all add: ex_max_hours)
  with C show ?thesis by blast
qed

text \<open>The markets of a listing that the source of a backfill bounds, and those it takes once.\<close>

definition closes_within :: "'f backfill_env \<Rightarrow> i64 option \<Rightarrow> i64 option \<Rightarrow> 'f Market list \<Rightarrow> bool" where
  "closes_within B mn mx markets \<longleftrightarrow>
     (\<forall>m \<in> set markets. market_close_in_window (be_rfc B) (mk_close_time m) mn mx)"

definition listing_bounded :: "'f backfill_env \<Rightarrow> Args \<Rightarrow> 'f Market list \<Rightarrow> bool" where
  "listing_bounded B args markets \<longleftrightarrow>
     (Args_get args ''markets-file'' \<noteq> None \<longrightarrow>
        (\<exists>mn mx. when_flag B args ''min-close'' = Inr mn \<and> when_flag B args ''max-close'' = Inr mx \<and>
           closes_within B mn mx markets)) \<and>
     (Args_get args ''markets-file'' = None \<and> Args_get args ''historical'' = Some ''true'' \<longrightarrow>
        (\<exists>mn mx. when_flag B args ''min-close'' = Inr mn \<and> when_flag B args ''max-close'' = Inr mx \<and>
           closes_within B (Some (case mn of Some t \<Rightarrow> t | None \<Rightarrow> 0))
             (Some (case mx of Some t \<Rightarrow> t | None \<Rightarrow> be_now B 1)) markets))"

definition listing_windowed :: "Args \<Rightarrow> bool" where
  "listing_windowed args \<longleftrightarrow>
     Args_get args ''markets-file'' = None \<and>
     (Args_get args ''historical'' = Some ''true'' \<or> Args_get args ''min-close'' \<noteq> None)"

lemma closes_within_sub: "closes_within B mn mx ms \<Longrightarrow> set ms' \<subseteq> set ms \<Longrightarrow> closes_within B mn mx ms'"
  by (auto simp: closes_within_def)

lemma listing_bounded_sub: "listing_bounded B args ms \<Longrightarrow> set ms' \<subseteq> set ms \<Longrightarrow> listing_bounded B args ms'"
  unfolding listing_bounded_def using closes_within_sub by blast

lemma backfill_markets_ok:
  assumes "backfill_markets B args pages = Listed ms"
  shows "listing_bounded B args ms \<and> (listing_windowed args \<longrightarrow> distinct (map mk_ticker ms))"
proof (cases "Args_get args ''markets-file''")
  case (Some fname)
  then have "file_markets B args fname = Listed ms" using assms by (simp add: backfill_markets_def)
  from file_markets_in_window [OF this] Some show ?thesis
    by (simp add: listing_bounded_def listing_windowed_def closes_within_def)
next
  case None
  then obtain series where s: "Args_get args ''series'' = Some series"
    using assms by (auto simp: backfill_markets_def split: option.splits)
  show ?thesis
  proof (cases "Args_get args ''historical'' = Some ''true''")
    case True
    then have "archived_markets B args series = Listed ms" using assms None s by (simp add: backfill_markets_def)
    from archived_markets_in_window [OF this] None True show ?thesis
      by (simp add: listing_bounded_def listing_windowed_def closes_within_def)
  next
    case False
    then have "live_markets B args pages series = Listed ms" using assms None s by (simp add: backfill_markets_def)
    from live_markets_once [OF this] None False show ?thesis
      by (simp add: listing_bounded_def listing_windowed_def)
  qed
qed

lemma since_flag_Some:
  assumes "since_flag B args = Inr r" and "Args_get args ''since'' = Some s"
  shows "\<exists>secs. parse_duration_secs (be_debug B) s = Inr secs \<and>
    r = Some (i64_sub (be_now B 0) (u64_as_i64 (word_of_nat secs))) \<and>
    (secs < 2 ^ 63 \<and> 0 \<le> be_now B 0 \<and> be_now B 0 < 2 ^ 63 \<longrightarrow> r = Some (be_now B 0 - int secs))"
proof -
  obtain secs where r: "parse_duration_secs (be_debug B) s = Inr secs"
    "r = Some (i64_sub (be_now B 0) (u64_as_i64 (word_of_nat secs)))"
    using assms by (auto simp: since_flag_def and_then_Inr_iff)
  have "i64_sub (be_now B 0) (u64_as_i64 (word_of_nat secs)) = be_now B 0 - int secs"
    if "secs < 2 ^ 63" "0 \<le> be_now B 0" "be_now B 0 < 2 ^ 63"
  proof -
    have "uint (word_of_nat secs :: u64) = int secs"
      using that(1) by (simp add: unsigned_of_nat take_bit_nat_eq_self flip: take_bit_of_nat)
    with that(1) have "u64_as_i64 (word_of_nat secs) = int secs" by (simp add: u64_as_i64_small)
    moreover have "i64_sub (be_now B 0) (int secs) = be_now B 0 - int secs"
      using that by (intro i64_sub_exact) (simp add: i64_range_def)
    ultimately show ?thesis by simp
  qed
  with r show ?thesis by blast
qed


text \<open>A market file of one market that closes at second 20, narrowed to what closes from second 10 on.\<close>

definition ex_backfill_env :: "nat backfill_env" where
  "ex_backfill_env =
     \<lparr>be_float = ex_volumes, be_total = (<), be_lower = id, be_debug = id,
      be_rfc = (\<lambda>s. if s = ''x'' then Some 20 else None), be_now = (\<lambda>_. 100), be_file = (\<lambda>_. Inr ''m''),
      be_parse = (\<lambda>_. Inr ((ex_traded ''T'' ''5'')\<lparr>mk_close_time := Some ''x''\<rparr>)), be_print = mk_ticker,
      be_http = (\<lambda>_. ex_listing), be_checkpoint = None,
      be_json = \<lparr>js_from_str = Inl, js_to_string = (\<lambda>_. []), js_debug = id\<rparr>\<rparr>"

definition ex_backfill_flags :: Args where
  "ex_backfill_flags =
     \<lparr>ar_command = Some ''backfill'',
      ar_flags = [''markets-file'' \<mapsto> ''f'', ''min-close'' \<mapsto> ''10'', ''since'' \<mapsto> ''5s'']\<rparr>"

lemma ex_numbers:
  "parse_unsigned 4294967295 ''20'' = Some 20" "parse_unsigned 4294967295 ''100000'' = Some 100000"
  "parse_digits ''8'' = Some 8" "parse_digits ''0'' = Some 0" "parse_i64 ''10'' = Some 10"
  by (simp_all add: parse_unsigned_def strip_plus_def parse_digits_def digits_value_def digit_val_def is_ascii_digit_def
      parse_i64_def strip_minus_def minus_sign_def)

lemma ex_since: "parse_duration_secs id ''5s'' = Inr 5"
proof -
  have "show_nat 5 = ''5''" by code_simp
  then show ?thesis
    using seconds_of_literal [of "CHR ''s''" 1 5] by (simp add: parse_duration_secs_def u64_max_def)
qed

lemma ex_min_close: "when_flag ex_backfill_env ex_backfill_flags ''min-close'' = Inr (Some 10)"
proof -
  have "trim ''10'' = ''10''" by code_simp
  then show ?thesis
    by (simp add: when_flag_def Args_get_def ex_backfill_flags_def parse_when_def ex_numbers)
qed

lemma ex_file: "file_markets ex_backfill_env ex_backfill_flags ''f'' = Listed [(ex_traded ''T'' ''5'')\<lparr>mk_close_time := Some ''x''\<rparr>]"
proof -
  have "buf_lines ''m'' = [''m'']" by code_simp
  moreover have "trim ''m'' = ''m''" by code_simp
  moreover have "when_flag ex_backfill_env ex_backfill_flags ''max-close'' = Inr None"
    by (simp add: when_flag_def Args_get_def ex_backfill_flags_def)
  ultimately show ?thesis
    by (simp add: file_markets_def ex_min_close load_markets_file_def, simp add: ex_backfill_env_def market_close_in_window_def)
qed

lemma ex_backfill_plan: "\<exists>metadata. backfill_plan_of ex_backfill_env ex_backfill_flags = Inr (FetchTrades [''T''] metadata {} (Some 95) 100000 False)"
proof -
  have flags: "Args_get ex_backfill_flags k =
      (if k = ''markets-file'' then Some ''f'' else if k = ''min-close'' then Some ''10'' else if k = ''since'' then Some ''5s'' else None)" for k
    by (simp add: Args_get_def ex_backfill_flags_def)
  have since: "since_flag ex_backfill_env ex_backfill_flags = Inr (Some 95)"
    by (simp add: since_flag_def flags, simp add: ex_backfill_env_def ex_since u64_as_i64_small i64_sub_exact i64_range_def)
  have env: "be_float ex_backfill_env = ex_volumes" by (simp add: ex_backfill_env_def)
  have floats: "fl_parse ex_volumes = parse_digits" "fl_zero ex_volumes = 0" "fl_ge ex_volumes = (\<ge>)"
    by (simp_all add: ex_volumes_def)
  have tickers: "\<exists>metadata. backfill_tickers_of ex_backfill_env ex_backfill_flags pages = Inr (Some ([''T''], metadata))" for pages
    by (simp add: backfill_tickers_of_def backfill_markets_def flags get_or_def ex_file env floats ex_numbers volume_filter_def
        Let_def) (simp add: ex_traded_def)
  then obtain metadata where "backfill_tickers_of ex_backfill_env ex_backfill_flags 20 = Inr (Some ([''T''], metadata))"
    by blast
  then show ?thesis
    by (simp add: backfill_plan_of_def u32_flag_def backfill_finished_def ok_or_def map_err_def flags get_or_def env floats ex_numbers since)
qed


end
