(* ===== verification/Process_Main.thy ===== *)
theory Process_Main
  imports Process Commands
begin

text \<open>
  The command \<^verbatim>\<open>kdp-process\<close>: its flags \<^verbatim>\<open>crates/kdp-process/src/args.rs\<close>, the formats and the naming of files of
  \<^verbatim>\<open>writer.rs\<close> and \<^verbatim>\<open>inspect.rs\<close>, the choice of what to do \<^verbatim>\<open>main.rs\<close>, and the directory side of \<^verbatim>\<open>process.rs\<close>: which
  tickers there are, which files are read, in which order, up to the conversion of Process.

  The file system is the parameter \<open>fs\<close>: what listing a directory, asking for the type of an entry and opening a file
  come back with. The Parquet and Arrow encoders are left out; the writing is in Outputs. A path is its text; the
  operations of \<^verbatim>\<open>std::path\<close> the code uses are written out over its components.
\<close>

section \<open>Paths\<close>

record os_path =
  op_root :: bool
  op_comps :: "string list"

text \<open>\<^verbatim>\<open>Path::components\<close>: empty parts and dots are dropped, but for a dot in front.\<close>

definition path_of :: "string \<Rightarrow> os_path" where
  "path_of s =
     (let parts = split_on (CHR ''/'') s;
          kept = filter (\<lambda>c. c \<noteq> [] \<and> c \<noteq> ''.'') parts
      in \<lparr>op_root = (take 1 s = ''/''),
          op_comps = (if take 1 parts = [''.''] then ''.'' # kept else kept)\<rparr>)"

definition show_path :: "os_path \<Rightarrow> string" where
  "show_path p = (if op_root p then ''/'' else []) @ join_with ''/'' (op_comps p)"

definition file_name :: "os_path \<Rightarrow> string option" where
  "file_name p =
     (case rev (op_comps p) of
        [] \<Rightarrow> None
      | c # _ \<Rightarrow> if c = ''..'' \<or> c = ''.'' then None else Some c)"

definition path_parent :: "os_path \<Rightarrow> os_path option" where
  "path_parent p = (if op_comps p = [] then None else Some (p\<lparr>op_comps := butlast (op_comps p)\<rparr>))"

definition path_push :: "os_path \<Rightarrow> string \<Rightarrow> os_path" where
  "path_push p name = p\<lparr>op_comps := op_comps p @ [name]\<rparr>"

text \<open>\<^verbatim>\<open>Path::join\<close> with a relative name, on texts.\<close>

definition join_path :: "string \<Rightarrow> string \<Rightarrow> string" where
  "join_path base name = (if base = [] \<or> last base = CHR ''/'' then base @ name else base @ ''/'' @ name)"

text \<open>\<^verbatim>\<open>Path::extension\<close> of a file name.\<close>

definition name_extension :: "string \<Rightarrow> string option" where
  "name_extension name =
     (case rsplit_once (CHR ''.'') name of
        Some (before, after) \<Rightarrow> if before = [] then None else Some after
      | None \<Rightarrow> None)"

definition path_extension :: "string \<Rightarrow> string option" where
  "path_extension s = Option.bind (file_name (path_of s)) name_extension"

section \<open>Formats\<close>

datatype Format = Parquet | Feather

definition Format_parse :: "(string \<Rightarrow> string) \<Rightarrow> string \<Rightarrow> string + Format" where
  "Format_parse dbg s =
     (let l = map to_ascii_lowercase s in
      if l = ''parquet'' then Inr Parquet
      else if l \<in> {''feather'', ''arrow'', ''ipc''} then Inr Feather
      else Inl (''unknown --format '' @ dbg l @ '' (expected `parquet` or `feather`)''))"

definition format_extension :: "Format \<Rightarrow> string" where
  "format_extension f = (case f of Parquet \<Rightarrow> ''parquet'' | Feather \<Rightarrow> ''feather'')"

definition format_from_ext :: "string \<Rightarrow> string + Format" where
  "format_from_ext path =
     (let e = path_extension path in
      if e = Some ''parquet'' then Inr Parquet
      else if e = Some ''feather'' \<or> e = Some ''arrow'' then Inr Feather
      else Inl (''cannot infer format from '' @ path @ [CHR '' '', CHR 0xE2, CHR 0x80, CHR 0x94] @
        '' pass --format parquet|feather''))"

section \<open>The command\<close>

text \<open>Here every argument may be a flag: there is no command word.\<close>

definition process_args :: "string list \<Rightarrow> (string \<rightharpoonup> string)" where
  "process_args argv = parse_flags Map.empty argv"

definition has_flag :: "(string \<rightharpoonup> string) \<Rightarrow> string \<Rightarrow> bool" where
  "has_flag flags key \<longleftrightarrow> flags key \<noteq> None"

definition default_out_dir :: "string \<Rightarrow> string" where
  "default_out_dir in_dir =
     (let name = (case file_name (path_of in_dir) of Some n \<Rightarrow> n | None \<Rightarrow> ''capture'');
          parent = (case path_parent (path_of in_dir) of Some p \<Rightarrow> p | None \<Rightarrow> \<lparr>op_root = False, op_comps = [''.'']\<rparr>)
      in show_path (path_push parent (name @ ''_processed'')))"

datatype process_cmd =
    ShowUsage
  | HeadTable string nat Format
  | ProcessDir string string "string list option" Format

definition ticker_choice :: "(string \<rightharpoonup> string) \<Rightarrow> string + string list option" where
  "ticker_choice flags =
     (case flags ''tickers'' of
        None \<Rightarrow> Inr None
      | Some lst \<Rightarrow>
          if has_flag flags ''all'' then Inl ''pass either --tickers or --all, not both''
          else Inr (Some (split_list lst)))"

definition head_cmd :: "(string \<Rightarrow> string) \<Rightarrow> (string \<rightharpoonup> string) \<Rightarrow> string \<Rightarrow> string + process_cmd" where
  "head_cmd dbg flags file =
     and_then (case flags ''format'' of Some f \<Rightarrow> Format_parse dbg f | None \<Rightarrow> format_from_ext file) (\<lambda>format.
       Inr (HeadTable file
         (case Option.bind (flags ''rows'') (parse_unsigned u64_max) of Some n \<Rightarrow> n | None \<Rightarrow> 5) format))"

definition dir_cmd :: "(string \<Rightarrow> string) \<Rightarrow> (string \<Rightarrow> bool) \<Rightarrow> (string \<rightharpoonup> string) \<Rightarrow> string + process_cmd" where
  "dir_cmd dbg is_dir flags =
     and_then (ok_or (flags ''in'') ''missing required --in <capture-dir> (try --help)'') (\<lambda>in_dir.
     and_then (require (is_dir in_dir) (''--in '' @ in_dir @ '' is not a directory'')) (\<lambda>_.
     and_then (Format_parse dbg (case flags ''format'' of Some f \<Rightarrow> f | None \<Rightarrow> ''parquet'')) (\<lambda>format.
     let out_dir = (case flags ''out'' of Some d \<Rightarrow> d | None \<Rightarrow> default_out_dir in_dir) in
     and_then (ticker_choice flags) (\<lambda>only. Inr (ProcessDir in_dir out_dir only format)))))"

definition process_command :: "(string \<Rightarrow> string) \<Rightarrow> (string \<Rightarrow> bool) \<Rightarrow> string list \<Rightarrow> string + process_cmd" where
  "process_command dbg is_dir argv =
     (let flags = process_args argv in
      if has_flag flags ''help'' \<or> has_flag flags ''h'' then Inr ShowUsage
      else case flags ''head'' of
             Some file \<Rightarrow> head_cmd dbg flags file
           | None \<Rightarrow> dir_cmd dbg is_dir flags)"

section \<open>Directories\<close>

text \<open>An entry of a listing is an error or a name with the type of the entry, a directory or not, or an error.\<close>

type_synonym dir_entry = "string + string \<times> (string + bool)"

record fs =
  fs_is_dir :: "string \<Rightarrow> bool"
  fs_read_dir :: "string \<Rightarrow> string + dir_entry list"
  fs_open :: "string \<Rightarrow> string + line list"
  fs_utf8 :: "string \<Rightarrow> bool"

datatype main_error = Io string string | Conversion ProcessError

fun jsonl_loop :: "string \<Rightarrow> dir_entry list \<Rightarrow> string list \<Rightarrow> main_error + string list" where
  "jsonl_loop dir [] files = Inr files"
| "jsonl_loop dir (Inl e # es) files = Inl (Io (''reading an entry in '' @ dir) e)"
| "jsonl_loop dir (Inr (name, _) # es) files =
     jsonl_loop dir es (if name_extension name = Some ''jsonl'' then files @ [name] else files)"

definition jsonl_files :: "fs \<Rightarrow> string \<Rightarrow> main_error + string list" where
  "jsonl_files F dir =
     (if \<not> fs_is_dir F dir then Inr []
      else and_then (map_err (Io (''reading '' @ dir)) (fs_read_dir F dir)) (\<lambda>es.
        and_then (jsonl_loop dir es []) (\<lambda>names. Inr (map (join_path dir) (sort names)))))"

fun discover_loop' :: "fs \<Rightarrow> string \<Rightarrow> dir_entry list \<Rightarrow> string list \<Rightarrow> main_error + string list" where
  "discover_loop' F in_dir [] tickers = Inr tickers"
| "discover_loop' F in_dir (Inl e # es) tickers = Inl (Io (''reading an entry in '' @ in_dir) e)"
| "discover_loop' F in_dir (Inr (name, Inl e) # es) tickers = Inl (Io (''stat '' @ join_path in_dir name) e)"
| "discover_loop' F in_dir (Inr (name, Inr is_dir) # es) tickers =
     discover_loop' F in_dir es (if is_dir \<and> fs_utf8 F name then tickers @ [name] else tickers)"

definition discover_tickers :: "fs \<Rightarrow> string \<Rightarrow> main_error + string list" where
  "discover_tickers F in_dir =
     and_then (map_err (Io (''reading input dir '' @ in_dir)) (fs_read_dir F in_dir)) (\<lambda>es.
       and_then (discover_loop' F in_dir es []) (\<lambda>tickers. Inr (sort tickers)))"

text \<open>The files that open, in order, up to the first that does not.\<close>

fun open_files :: "fs \<Rightarrow> string list \<Rightarrow> jsonl_file list \<times> main_error option" where
  "open_files F [] = ([], None)"
| "open_files F (p # ps) =
     (case fs_open F p of
        Inl e \<Rightarrow> ([], Some (Io (''opening '' @ p) e))
      | Inr ls \<Rightarrow> (let (fs', e) = open_files F ps in ((p, ls) # fs', e)))"

text \<open>
  The files are opened one after the other while they are converted, so a record that cannot be converted is reported
  before a later file that cannot be opened.
\<close>

definition run_ticker :: "fs \<Rightarrow> env_params \<Rightarrow> 'b arrow \<Rightarrow> string \<Rightarrow> string \<Rightarrow> string \<Rightarrow>
    main_error + (TickerOutcome \<times> 'b ticker_output) option" where
  "run_ticker F P A ext in_dir ticker =
     (let ticker_in = join_path in_dir ticker in
      and_then (jsonl_files F (join_path ticker_in ''orderbook'')) (\<lambda>orderbook_files.
      and_then (jsonl_files F (join_path ticker_in ''trade'')) (\<lambda>trade_files.
        let (ob, e1) = open_files F orderbook_files;
            (tr, e2) = (if e1 = None then open_files F trade_files else ([], e1)) in
        case e2 of
          None \<Rightarrow> map_err Conversion (process_ticker P A ticker ext ticker_in ob tr)
        | Some e \<Rightarrow>
            (case process_channels P ob tr of Inl ce \<Rightarrow> Inl (Conversion ce) | Inr _ \<Rightarrow> Inl e))))"

fun run_tickers :: "fs \<Rightarrow> env_params \<Rightarrow> 'b arrow \<Rightarrow> string \<Rightarrow> string \<Rightarrow> string list \<Rightarrow>
    (TickerOutcome \<times> 'b ticker_output) list \<Rightarrow> main_error + (TickerOutcome \<times> 'b ticker_output) list" where
  "run_tickers F P A ext in_dir [] outcomes = Inr outcomes"
| "run_tickers F P A ext in_dir (ticker # tickers) outcomes =
     and_then (run_ticker F P A ext in_dir ticker) (\<lambda>r.
       run_tickers F P A ext in_dir tickers (case r of Some outcome \<Rightarrow> outcomes @ [outcome] | None \<Rightarrow> outcomes))"

definition run_dir :: "fs \<Rightarrow> env_params \<Rightarrow> 'b arrow \<Rightarrow> string \<Rightarrow> string \<Rightarrow> string list option \<Rightarrow>
    main_error + (TickerOutcome \<times> 'b ticker_output) list" where
  "run_dir F P A ext in_dir only =
     and_then (discover_tickers F in_dir) (\<lambda>discovered.
     and_then (case only of
         None \<Rightarrow> Inr discovered
       | Some lst \<Rightarrow> and_then (map_err Conversion (select_tickers discovered lst)) (\<lambda>_. Inr lst)) (\<lambda>selected.
       run_tickers F P A ext in_dir selected []))"

section \<open>Printing\<close>

definition pad_right :: "nat \<Rightarrow> string \<Rightarrow> string" where
  "pad_right w s = s @ replicate (w - length s) (CHR '' '')"

definition outcome_line :: "TickerOutcome \<Rightarrow> string" where
  "outcome_line oc =
     (let c = to_counts oc; num = (\<lambda>w n. pad_right w (show_nat n)) in
      ''  '' @ pad_right 32 (to_ticker oc) @ '' ob_msgs='' @ num 7 (ct_book_top c) @
      '' book_events='' @ num 8 (ct_book_events c) @ '' trades='' @ num 6 (ct_trades c) @
      '' gaps='' @ show_nat (ct_gaps c) @ '' raw='' @ show_nat (ct_raw c) @
      '' read_errors='' @ show_nat (to_read_errors oc) @ ''  ['' @
      (if to_complete oc then ''safe to drop raw'' else ''REVIEW read_errors before dropping raw'') @ '']'')"

definition print_summary :: "string \<Rightarrow> string \<Rightarrow> Format \<Rightarrow> TickerOutcome list \<Rightarrow> string list" where
  "print_summary in_dir out_dir format outcomes =
     (if outcomes = []
      then [''kdp-process: no tickers processed (no capture files found under '' @ in_dir @ '')'']
      else [''Processed '' @ show_nat (length outcomes) @ '' ticker(s) -> '' @ out_dir, []] @
        map outcome_line outcomes @
        [[], ''Format: '' @ format_extension format @ '' ('' @
           (case format of Parquet \<Rightarrow> ''ZSTD-compressed, queryable, archival''
            | Feather \<Rightarrow> ''Arrow IPC, zero-copy/fast reload'') @
           ''). Each ticker also has a manifest.json with full provenance.''])"

text \<open>
  The inspector: \<open>read_first\<close> opens a table with the library and gives its fields, its number of rows where the format
  knows it, and its first batch; \<open>encode\<close> prints the first rows of a batch as JSON.
\<close>

definition schema_summary :: "(string \<times> string) list \<Rightarrow> string" where
  "schema_summary fields' = join_with '', '' (map (\<lambda>(name, ty). name @ '':'' @ ty) fields')"

definition head_lines ::
    "(string \<Rightarrow> nat \<Rightarrow> Format \<Rightarrow> string + (string \<times> string) list \<times> nat option \<times> 'b option) \<Rightarrow> ('b \<Rightarrow> nat) \<Rightarrow>
     ('b \<Rightarrow> nat \<Rightarrow> string + string) \<Rightarrow> string \<Rightarrow> nat \<Rightarrow> Format \<Rightarrow> string + string list" where
  "head_lines read_first num_rows encode path rows format =
     and_then (read_first path (max rows 1) format) (\<lambda>(fields', total, first').
       let lines = [''# '' @ path, ''# schema: '' @ schema_summary fields',
             (case total of
                Some n \<Rightarrow> ''# rows: '' @ show_nat n @ '' (showing first '' @ show_nat (min rows n) @ '')''
              | None \<Rightarrow> ''# showing first '' @ show_nat rows)] in
       case first' of
         None \<Rightarrow> Inr lines
       | Some batch \<Rightarrow>
           let take' = min rows (num_rows batch) in
           if take' > 0 then and_then (encode batch take') (\<lambda>json. Inr (lines @ [json])) else Inr lines)"

text \<open>The whole command: what it prints, or why it fails.\<close>

datatype command_error = BadCommand string | RunFailed main_error

definition process_main ::
    "(string \<Rightarrow> string) \<Rightarrow> string list \<Rightarrow>
     (string \<Rightarrow> nat \<Rightarrow> Format \<Rightarrow> string + (string \<times> string) list \<times> nat option \<times> 't option) \<Rightarrow> ('t \<Rightarrow> nat) \<Rightarrow>
     ('t \<Rightarrow> nat \<Rightarrow> string + string) \<Rightarrow> fs \<Rightarrow> env_params \<Rightarrow> 'b arrow \<Rightarrow> string list \<Rightarrow> command_error + string list" where
  "process_main dbg usage read_first num_rows encode F P A argv =
     and_then (map_err BadCommand (process_command dbg (fs_is_dir F) argv)) (\<lambda>cmd.
       case cmd of
         ShowUsage \<Rightarrow> Inr usage
       | HeadTable path rows format \<Rightarrow> map_err BadCommand (head_lines read_first num_rows encode path rows format)
       | ProcessDir in_dir out_dir only format \<Rightarrow>
           and_then (map_err RunFailed (run_dir F P A (format_extension format) in_dir only)) (\<lambda>outcomes.
             Inr (print_summary in_dir out_dir format (map fst outcomes))))"

section \<open>Which tickers and which files\<close>

fun dir_name :: "fs \<Rightarrow> dir_entry \<Rightarrow> string list" where
  "dir_name F (Inr (name, Inr True)) = (if fs_utf8 F name then [name] else [])"
| "dir_name F _ = []"

fun jsonl_name :: "dir_entry \<Rightarrow> string list" where
  "jsonl_name (Inr (name, _)) = (if name_extension name = Some ''jsonl'' then [name] else [])"
| "jsonl_name (Inl _) = []"

definition listed_dirs :: "fs \<Rightarrow> dir_entry list \<Rightarrow> string list" where
  "listed_dirs F es = concat (map (dir_name F) es)"

definition listed_jsonl :: "dir_entry list \<Rightarrow> string list" where
  "listed_jsonl es = concat (map jsonl_name es)"

lemma discover_loop_ok: "discover_loop' F d es acc = Inr names \<Longrightarrow> names = acc @ listed_dirs F es"
proof (induction F d es acc rule: discover_loop'.induct)
  case (4 F in_dir name is_dir es tickers)
  then show ?case by (cases is_dir) (auto simp: listed_dirs_def split: if_splits)
qed (simp_all add: listed_dirs_def)

lemma jsonl_loop_ok: "jsonl_loop d es acc = Inr names \<Longrightarrow> names = acc @ listed_jsonl es"
  by (induction d es acc rule: jsonl_loop.induct) (auto simp: listed_jsonl_def split: if_splits)

lemma discover_tickers_ok:
  assumes "discover_tickers F d = Inr names"
  shows "sorted names" and "\<exists>es. fs_read_dir F d = Inr es \<and> names = sort (listed_dirs F es)"
  using assms discover_loop_ok [of F d _ "[]"] by (auto simp: discover_tickers_def and_then_Inr_iff)

lemma jsonl_files_ok:
  assumes "jsonl_files F d = Inr paths" and "fs_is_dir F d"
  shows "\<exists>es. fs_read_dir F d = Inr es \<and> paths = map (join_path d) (sort (listed_jsonl es))"
  using assms jsonl_loop_ok [of d _ "[]"] by (auto simp: jsonl_files_def and_then_Inr_iff)

lemma open_files_ok:
  "open_files F ps = (fs', None) \<Longrightarrow> map fst fs' = ps \<and> (\<forall>(p, ls) \<in> set fs'. fs_open F p = Inr ls)"
  by (induction ps arbitrary: fs') (auto split: sum.splits prod.splits)

lemma select_tickers_ok: "select_tickers ds ts = Inr () \<Longrightarrow> set ts \<subseteq> set ds"
  by (induction ts) (auto split: if_splits)

section \<open>Paths read back\<close>

definition plain_comp :: "string \<Rightarrow> bool" where
  "plain_comp c \<longleftrightarrow> c \<noteq> [] \<and> c \<noteq> ''.'' \<and> CHR ''/'' \<notin> set c"

definition path_wf :: "os_path \<Rightarrow> bool" where
  "path_wf p \<longleftrightarrow>
     (case op_comps p of
        [] \<Rightarrow> True
      | c # cs \<Rightarrow> (plain_comp c \<or> c = ''.'' \<and> \<not> op_root p) \<and> list_all plain_comp cs)"

lemma split_on_free: "c \<notin> set s \<Longrightarrow> split_on c s = [s]"
  by (induction s) auto

lemma split_on_append: "c \<notin> set s \<Longrightarrow> split_on c (s @ c # r) = s # split_on c r"
  by (induction s) auto

lemma split_on_join:
  "cs \<noteq> [] \<Longrightarrow> \<forall>c \<in> set cs. CHR ''/'' \<notin> set c \<Longrightarrow> split_on (CHR ''/'') (join_with ''/'' cs) = cs"
proof (induction cs)
  case (Cons c cs)
  then show ?case by (cases cs) (auto simp: split_on_free split_on_append)
qed simp

lemma path_of_wf: "path_wf (path_of s)"
proof -
  let ?parts = "split_on (CHR ''/'') s" and ?kept = "filter (\<lambda>c. c \<noteq> [] \<and> c \<noteq> ''.'') (split_on (CHR ''/'') s)"
  have kept: "list_all plain_comp ?kept"
    using split_on_pieces [of _ "CHR ''/''" s] by (auto simp: list_all_iff plain_comp_def)
  show ?thesis
  proof (cases "take 1 ?parts = [''.'']")
    case True
    then have "take 1 s \<noteq> ''/''" by (cases s) (auto split: list.splits if_splits)
    then show ?thesis using True kept by (simp add: path_wf_def path_of_def Let_def)
  next
    case False
    then show ?thesis using kept by (cases ?kept) (simp_all add: path_wf_def path_of_def Let_def)
  qed
qed

lemma plain_kept: "list_all plain_comp cs \<Longrightarrow> filter (\<lambda>c. c \<noteq> [] \<and> c \<noteq> ''.'') cs = cs"
  by (simp add: list_all_iff plain_comp_def filter_id_conv)

lemma path_of_root:
  assumes "list_all plain_comp cs" and "cs \<noteq> []"
  shows "path_of (''/'' @ join_with ''/'' cs) = \<lparr>op_root = True, op_comps = cs\<rparr>"
proof -
  have "split_on (CHR ''/'') (''/'' @ join_with ''/'' cs) = [] # cs"
    using split_on_join [of cs] assms by (simp add: list_all_iff plain_comp_def)
  then show ?thesis using plain_kept [OF assms(1)] by (simp add: path_of_def Let_def)
qed

lemma path_of_relative:
  assumes "list_all plain_comp cs" and "plain_comp c \<or> c = ''.''"
  shows "path_of (join_with ''/'' (c # cs)) = \<lparr>op_root = False, op_comps = c # cs\<rparr>"
proof -
  let ?s = "join_with ''/'' (c # cs)"
  have free: "CHR ''/'' \<notin> set c" and "c \<noteq> []" using assms(2) by (auto simp: plain_comp_def)
  then obtain x c' where c: "c = x # c'" and x: "x \<noteq> CHR ''/''" by (cases c) auto
  have "\<forall>d \<in> set (c # cs). CHR ''/'' \<notin> set d"
    using assms(1) free by (simp add: list_all_iff plain_comp_def)
  then have parts: "split_on (CHR ''/'') ?s = c # cs"
    by (intro split_on_join) simp_all
  have root: "take 1 ?s \<noteq> ''/''"
    using x by (cases cs) (simp_all add: c)
  show ?thesis
  proof (cases "c = ''.''")
    case True
    then show ?thesis using parts root plain_kept [OF assms(1)] by (simp add: path_of_def Let_def del: join_with.simps)
  next
    case False
    then have "list_all plain_comp (c # cs)" using assms by simp
    from plain_kept [OF this] False parts root show ?thesis by (simp add: path_of_def Let_def del: join_with.simps)
  qed
qed

lemma path_of_show:
  assumes "path_wf p" and "op_comps p \<noteq> []"
  shows "path_of (show_path p) = p"
proof -
  obtain c cs where cs: "op_comps p = c # cs" using assms(2) by (cases "op_comps p") auto
  have wf: "plain_comp c \<or> c = ''.'' \<and> \<not> op_root p" "list_all plain_comp cs"
    using assms(1) by (simp_all add: path_wf_def cs)
  show ?thesis
  proof (cases "op_root p")
    case True
    then show ?thesis using path_of_root [of "c # cs"] wf by (simp add: show_path_def cs del: join_with.simps)
  next
    case False
    then show ?thesis using path_of_relative [OF wf(2), of c] wf(1) by (auto simp: show_path_def cs simp del: join_with.simps)
  qed
qed

section \<open>Properties\<close>

text \<open>One path is within another when it continues it; a dot in front stands for the working directory, as does nothing.\<close>

definition undotted :: "os_path \<Rightarrow> string list" where
  "undotted p = filter (\<lambda>c. c \<noteq> ''.'') (op_comps p)"

definition path_inside :: "os_path \<Rightarrow> os_path \<Rightarrow> bool" where
  "path_inside p q \<longleftrightarrow> op_root p = op_root q \<and> (\<exists>cs. undotted q = undotted p @ cs)"

lemma path_wf_butlast:
  "path_wf p \<Longrightarrow> plain_comp n \<Longrightarrow> path_wf (p\<lparr>op_comps := butlast (op_comps p) @ [n]\<rparr>)"
  by (cases "op_comps p") (auto simp: path_wf_def list_all_iff dest: in_set_butlastD split: list.splits)

lemma file_name_plain:
  assumes "file_name (path_of d) = Some n"
  shows "\<exists>cs. op_comps (path_of d) = cs @ [n] \<and> plain_comp n"
proof -
  obtain cs where cs: "op_comps (path_of d) = cs @ [n]" and "n \<noteq> ''.''"
    using assms by (cases "op_comps (path_of d)" rule: rev_cases) (auto simp: file_name_def split: if_splits)
  moreover from this path_of_wf [of d] have "plain_comp n"
    by (cases cs) (auto simp: path_wf_def)
  ultimately show ?thesis by blast
qed

text \<open>
  Without \<^verbatim>\<open>--out\<close>, the output directory of a capture directory that has a name is its sibling of the same name with
  a suffix: it is not within the captured tree, and the tree is not within it, so a conversion does not write among
  the files it reads and a second one does not take the output for a ticker. For the directory given as a dot,
  which has no name, the output is within the captured tree.
\<close>

theorem default_output_placed:
  "case file_name (path_of d) of
     Some n \<Rightarrow>
       path_of (default_out_dir d) = (path_of d)\<lparr>op_comps := butlast (op_comps (path_of d)) @ [n @ ''_processed'']\<rparr> \<and>
       \<not> path_inside (path_of d) (path_of (default_out_dir d)) \<and> \<not> path_inside (path_of (default_out_dir d)) (path_of d)
   | None \<Rightarrow> path_inside (path_of ''.'') (path_of (default_out_dir ''.''))"
proof (cases "file_name (path_of d)")
  case None
  then show ?thesis by (simp add: path_inside_def undotted_def path_of_def default_out_dir_def file_name_def path_parent_def path_push_def show_path_def)
next
  case (Some n)
  obtain cs where cs: "op_comps (path_of d) = cs @ [n]" and n: "plain_comp n"
    using file_name_plain [OF Some] by blast
  have n': "plain_comp (n @ ''_processed'')" using n by (simp add: plain_comp_def)
  have "default_out_dir d = show_path ((path_of d)\<lparr>op_comps := cs @ [n @ ''_processed'']\<rparr>)"
    by (simp add: default_out_dir_def Some path_parent_def cs path_push_def)
  moreover have "path_wf ((path_of d)\<lparr>op_comps := cs @ [n @ ''_processed'']\<rparr>)"
    using path_wf_butlast [OF path_of_wf n', of d] by (simp add: cs)
  ultimately have out: "path_of (default_out_dir d) = (path_of d)\<lparr>op_comps := cs @ [n @ ''_processed'']\<rparr>"
    using path_of_show by simp
  show ?thesis using n n'
    by (simp add: Some out cs path_inside_def undotted_def plain_comp_def)
qed

end
