(* ===== verification/Shutdown.thy ===== *)
theory Shutdown
  imports Supervisor
begin

text \<open>
  How a supervisor stops: the shutdown channel, the sleep a shutdown interrupts, the parking after the last unit is armed
  and the bounded drain, of \<^verbatim>\<open>crates/kdp-cli/src/supervisor.rs\<close>.

  A receiver of the channel sees the value it holds and then what arrives: a new value, or the end of the sender. The
  runtime, its timer and the signal are inputs: what the channel delivers during a sleep, which tasks have ended by a turn,
  and when a task ends that is being waited for.

  The lemmas show when the parking returns, and with which tasks, and what the drain waits for and for how long.
\<close>

section \<open>The shutdown channel\<close>

datatype watch_event = Changed bool | SenderGone

text \<open>The task that owns the sender: it sends when the signal comes, and is gone after it, or when there is no signal handler.\<close>

definition install_shutdown :: "string + unit \<Rightarrow> watch_event list" where
  "install_shutdown ctrl_c = (case ctrl_c of Inr _ \<Rightarrow> [Changed True, SenderGone] | Inl _ \<Rightarrow> [SenderGone])"

text \<open>Whether the wait is over after what arrived.\<close>

fun shutdown_loop :: "watch_event list \<Rightarrow> bool" where
  "shutdown_loop [] = False"
| "shutdown_loop (SenderGone # events) = True"
| "shutdown_loop (Changed b # events) = (if b then True else shutdown_loop events)"

definition wait_shutdown :: "bool \<Rightarrow> watch_event list \<Rightarrow> bool" where
  "wait_shutdown flag events = (if flag then True else shutdown_loop events)"

text \<open>The sleep, when \<open>events\<close> arrive before it is over.\<close>

definition interruptible_sleep :: "bool \<Rightarrow> watch_event list \<Rightarrow> bool" where
  "interruptible_sleep flag events = wait_shutdown flag events"

text \<open>The value the channel holds afterwards.\<close>

fun flag_after :: "bool \<Rightarrow> watch_event list \<Rightarrow> bool" where
  "flag_after flag [] = flag"
| "flag_after flag (Changed b # events) = flag_after b events"
| "flag_after flag (SenderGone # events) = flag_after flag events"

section \<open>Drain\<close>

datatype drain_outcome = Ended | EndedAbnormally | NotDrained

text \<open>A task ends at an instant, in order or abnormally, or not at all.\<close>

type_synonym task_end = "(nat \<times> bool) option"

definition DRAIN_SECS :: nat where
  "DRAIN_SECS = 30"

definition drain_one :: "('t \<Rightarrow> task_end) \<Rightarrow> nat \<Rightarrow> 't \<Rightarrow> drain_outcome \<times> nat" where
  "drain_one task_end now h =
     (case task_end h of
        Some (t, normal) \<Rightarrow>
          if t \<le> now + DRAIN_SECS then (if normal then Ended else EndedAbnormally, max now t)
          else (NotDrained, now + DRAIN_SECS)
      | None \<Rightarrow> (NotDrained, now + DRAIN_SECS))"

text \<open>The tasks one after the other, each for at most the bound from when its turn comes; the instant at the end.\<close>

fun drain_inflight :: "('t \<Rightarrow> task_end) \<Rightarrow> nat \<Rightarrow> 't list \<Rightarrow> drain_outcome list \<times> nat" where
  "drain_inflight task_end now [] = ([], now)"
| "drain_inflight task_end now (h # inflight) =
     (let (outcome, later) = drain_one task_end now h;
          (outcomes, en) = drain_inflight task_end later inflight
      in (outcome # outcomes, en))"

section \<open>Parking\<close>

text \<open>
  A turn of the loop: the tasks that have ended when it begins, and what arrives during its sleep of five seconds. The
  result is what is left to drain, or \<open>None\<close> while the loop goes on.
\<close>

type_synonym 't park_turn = "('t \<Rightarrow> bool) \<times> watch_event list"

fun park_until_shutdown :: "bool \<Rightarrow> 't list \<Rightarrow> 't park_turn list \<Rightarrow> 't list option" where
  "park_until_shutdown True inflight turns = Some inflight"
| "park_until_shutdown False inflight [] = None"
| "park_until_shutdown False inflight ((is_finished, events) # turns) =
     (let inflight = reap_inflight is_finished inflight in
      if interruptible_sleep False events then Some inflight
      else park_until_shutdown (flag_after False events) inflight turns)"

text \<open>The universe supervisor reaps its tasks with the names of their sessions, which its next sweep must not arm again.\<close>

fun reap_named :: "('t \<Rightarrow> bool) \<Rightarrow> (string \<times> 't) list \<Rightarrow> (string \<times> 't) list" where
  "reap_named is_finished [] = []"
| "reap_named is_finished ((name, handle) # inflight) =
     (if is_finished handle then reap_named is_finished inflight
      else (name, handle) # reap_named is_finished inflight)"

section \<open>Lemmas\<close>

lemma reap_named_tasks: "map snd (reap_named is_finished inflight) = reap_inflight is_finished (map snd inflight)"
  by (induction is_finished inflight rule: reap_named.induct) (auto simp: reap_inflight_def)

lemma reap_named_kept:
  "(name, h) \<in> set (reap_named is_finished inflight) \<longleftrightarrow> (name, h) \<in> set inflight \<and> \<not> is_finished h"
  by (induction is_finished inflight rule: reap_named.induct) auto

lemma shutdown_loop_iff: "shutdown_loop events \<longleftrightarrow> SenderGone \<in> set events \<or> Changed True \<in> set events"
  by (induction events rule: shutdown_loop.induct) auto

lemma flag_stays_down: "\<not> shutdown_loop events \<Longrightarrow> \<not> flag_after False events"
  by (induction events rule: shutdown_loop.induct) (auto split: if_splits)

definition reap_turns :: "'t park_turn list \<Rightarrow> 't list \<Rightarrow> 't list" where
  "reap_turns turns inflight = filter (\<lambda>h. \<forall>(is_finished, events) \<in> set turns. \<not> is_finished h) inflight"

lemma reap_turns_Cons: "reap_turns ((is_finished, events) # turns) inflight = reap_turns turns (reap_inflight is_finished inflight)"
  by (auto simp: reap_turns_def reap_inflight_def intro: filter_cong)

lemma park_quiet:
  "(\<forall>(is_finished, events) \<in> set turns. \<not> shutdown_loop events) \<Longrightarrow> park_until_shutdown False inflight turns = None"
proof (induction turns arbitrary: inflight)
  case (Cons x turns)
  then show ?case
    by (cases x) (auto simp: interruptible_sleep_def wait_shutdown_def dest: flag_stays_down)
qed simp

lemma park_returns:
  assumes "\<forall>(is_finished, events) \<in> set turns. \<not> shutdown_loop events" and "shutdown_loop events"
  shows "park_until_shutdown False inflight (turns @ (is_finished, events) # later) =
    Some (reap_turns (turns @ [(is_finished, events)]) inflight)"
  using assms
proof (induction turns arbitrary: inflight)
  case Nil
  then show ?case by (simp add: reap_turns_def reap_inflight_def interruptible_sleep_def wait_shutdown_def)
next
  case (Cons x turns)
  then show ?case
    by (cases x) (auto simp: reap_turns_Cons interruptible_sleep_def wait_shutdown_def dest: flag_stays_down)
qed

lemma drain_one_bounds: "drain_one task_end now h = (outcome, later) \<Longrightarrow> now \<le> later \<and> later \<le> now + DRAIN_SECS"
  by (auto simp: drain_one_def split: option.splits if_splits)

lemma drain_one_ended:
  "task_end h = Some (t, normal) \<Longrightarrow> t \<le> now + DRAIN_SECS \<Longrightarrow>
     fst (drain_one task_end now h) = (if normal then Ended else EndedAbnormally)"
  by (simp add: drain_one_def)

lemma drain_bounds:
  "drain_inflight task_end now inflight = (outcomes, en) \<Longrightarrow>
     length outcomes = length inflight \<and> now \<le> en \<and> en \<le> now + DRAIN_SECS * length inflight"
proof (induction inflight arbitrary: now outcomes en)
  case (Cons h inflight)
  obtain outcome later where one: "drain_one task_end now h = (outcome, later)" by fastforce
  obtain os en' where rest: "drain_inflight task_end later inflight = (os, en')" by fastforce
  show ?case using Cons.prems one rest drain_one_bounds [OF one] Cons.IH [OF rest] by auto
qed simp

lemma drain_prompt:
  "drain_inflight task_end now inflight = (outcomes, en) \<Longrightarrow> i < length inflight \<Longrightarrow>
     task_end (inflight ! i) = Some (t, normal) \<Longrightarrow> t \<le> now + DRAIN_SECS \<Longrightarrow>
     outcomes ! i = (if normal then Ended else EndedAbnormally)"
proof (induction inflight arbitrary: now outcomes en i)
  case (Cons h inflight)
  obtain outcome later where one: "drain_one task_end now h = (outcome, later)" by fastforce
  obtain os en' where rest: "drain_inflight task_end later inflight = (os, en')" by fastforce
  have "now \<le> later" using drain_one_bounds [OF one] by simp
  then show ?case
    using Cons.prems one rest drain_one_ended [of task_end h t normal now] Cons.IH [OF rest, of "i - 1"]
    by (cases i) auto
qed simp

section \<open>Property\<close>

text \<open>
  C22. After the last unit is armed a supervisor stays until it is told to stop: however many turns pass and whichever
  tasks end, the parking does not return while nothing arrives but a value that is down. It returns at the first turn in
  which the shutdown arrives, or the end of its sender, and hands exactly the tasks that had not ended to the drain. The
  drain then takes at most thirty seconds for each of them, and every task that ends within thirty seconds is seen to end.
\<close>

theorem parks_until_shutdown:
  assumes "\<forall>(is_finished, events) \<in> set turns. \<forall>e \<in> set events. e = Changed False"
    and "Changed True \<in> set stop \<or> SenderGone \<in> set stop"
    and "drain_inflight task_end now (reap_turns (turns @ [(is_finished, stop)]) inflight) = (outcomes, en)"
  shows "park_until_shutdown False inflight turns = None \<and>
    park_until_shutdown False inflight (turns @ (is_finished, stop) # later) =
      Some (reap_turns (turns @ [(is_finished, stop)]) inflight) \<and>
    en \<le> now + 30 * length inflight \<and>
    (\<forall>i t. i < length outcomes \<and> t \<le> now + 30 \<and>
       task_end (reap_turns (turns @ [(is_finished, stop)]) inflight ! i) = Some (t, True) \<longrightarrow> outcomes ! i = Ended)"
proof -
  have quiet: "\<forall>(is_finished, events) \<in> set turns. \<not> shutdown_loop events"
    using assms(1) by (fastforce simp: shutdown_loop_iff)
  have stop: "shutdown_loop stop" using assms(2) by (auto simp: shutdown_loop_iff)
  have "length (reap_turns (turns @ [(is_finished, stop)]) inflight) \<le> length inflight"
    by (simp add: reap_turns_def)
  then have "en \<le> now + 30 * length inflight"
    using drain_bounds [OF assms(3)] by (simp add: DRAIN_SECS_def)
  then show ?thesis
    using park_quiet [OF quiet] park_returns [OF quiet stop] drain_bounds [OF assms(3)] drain_prompt [OF assms(3)]
    by (auto simp: DRAIN_SECS_def)
qed

text \<open>Two tasks: the first ends while the supervisor is parked, the second ten seconds into the drain.\<close>

theorem parks_until_shutdown_witness:
  "park_until_shutdown False [1 :: nat, 2] [(\<lambda>h. h = 1, [Changed False]), (\<lambda>_. False, [Changed True])] = Some [2] \<and>
   drain_inflight (\<lambda>_. Some (110, True)) 100 [2 :: nat] = ([Ended], 110)"
proof -
  have left': "reap_turns ([(\<lambda>h. h = 1, [Changed False])] @ [(\<lambda>_. False, [Changed True])]) [1, 2 :: nat] = [2]"
    by (simp add: reap_turns_def)
  have drain: "drain_inflight (\<lambda>_. Some (110, True)) 100 [2 :: nat] = ([Ended], 110)"
    by (simp add: drain_one_def DRAIN_SECS_def)
  show ?thesis
    using parks_until_shutdown [of "[(\<lambda>h. h = 1, [Changed False])]" "[Changed True]" "\<lambda>_. Some (110, True)" 100 "\<lambda>_. False" "[1, 2 :: nat]"
        "[Ended]" 110 "[]"] left' drain
    by simp
qed

end
