(* ===== verification/Connection.thy ===== *)
theory Connection
  imports Session
begin

text \<open>
  The connection to the feed: the request signer \<^verbatim>\<open>crates/kdp-kalshi/src/auth.rs\<close>, the upgrade request
  \<^verbatim>\<open>crates/kdp-kalshi/src/ws/handshake.rs\<close>, the error type of \<^verbatim>\<open>crates/kdp-kalshi/src/lib.rs\<close>, and the subscription
  and the diagnostic probe of \<^verbatim>\<open>crates/kdp-kalshi/src/ws.rs\<close>.

  The RSA and base64 packages are the parameters \<open>auth_lib\<close>, the HTTP request type and the socket library the
  parameters \<open>ws_lib\<close>; a draw of the random generator is an argument, as is the clock. What the socket delivers
  to the probe is a list of \<open>probe_input\<close>s.

  The specification is what the server does with a request: \<open>server_accepts\<close> reads the three headers back
  and verifies the signature over the timestamp, the method and the path. The lemmas show that every upgrade
  request is accepted, that the signed text determines the three parts it is made of, and that the probe counts exactly
  the frames it took.
\<close>

section \<open>Errors\<close>

datatype KalshiError =
    Http string
  | Decode string
  | MissingCredential string
  | KeyFile string string
  | KeyParse string
  | Signing string
  | WebSocket string

text \<open>The texts of the errors.\<close>

fun show_kalshi_error :: "KalshiError \<Rightarrow> string" where
  "show_kalshi_error (Http e) = ''kalshi http request failed: '' @ e"
| "show_kalshi_error (Decode e) = ''failed to decode kalshi response: '' @ e"
| "show_kalshi_error (MissingCredential v) = ''missing credential environment variable '' @ v"
| "show_kalshi_error (KeyFile path source) = ''reading private key file '' @ path @ '': '' @ source"
| "show_kalshi_error (KeyParse e) = ''invalid RSA private key PEM (tried PKCS#8 then PKCS#1): '' @ e"
| "show_kalshi_error (Signing e) = ''RSA-PSS signing failed: '' @ e"
| "show_kalshi_error (WebSocket e) = ''websocket error: '' @ e"

section \<open>Request signing\<close>

definition ENV_API_KEY_ID :: string where
  "ENV_API_KEY_ID = ''KALSHI_API_KEY_ID''"

definition ENV_PRIVATE_KEY_PATH :: string where
  "ENV_PRIVATE_KEY_PATH = ''KDP_KALSHI_PRIVATE_KEY_PATH''"

definition DEFAULT_PRIVATE_KEY_PATH :: string where
  "DEFAULT_PRIVATE_KEY_PATH = ''kalshi_private_key.pem''"

definition HEADER_KEY :: string where
  "HEADER_KEY = ''KALSHI-ACCESS-KEY''"

definition HEADER_SIGNATURE :: string where
  "HEADER_SIGNATURE = ''KALSHI-ACCESS-SIGNATURE''"

definition HEADER_TIMESTAMP :: string where
  "HEADER_TIMESTAMP = ''KALSHI-ACCESS-TIMESTAMP''"

definition SALT_LEN :: nat where
  "SALT_LEN = 32"

text \<open>The two PEM readers, the signer with its salt length and a draw of the generator, and base64.\<close>

record ('k, 'r) auth_lib =
  al_pkcs8 :: "string \<Rightarrow> string + 'k"
  al_pkcs1 :: "string \<Rightarrow> string + 'k"
  al_sign :: "'k \<Rightarrow> nat \<Rightarrow> 'r \<Rightarrow> string \<Rightarrow> string + string"
  al_encode :: "string \<Rightarrow> string"

record 'k KalshiCredentials =
  kc_key_id :: string
  kc_signing_key :: "'k \<times> nat"

definition from_pem :: "('k, 'r) auth_lib \<Rightarrow> string \<Rightarrow> string \<Rightarrow> KalshiError + 'k KalshiCredentials" where
  "from_pem A key_id pem =
     and_then (map_err KeyParse (case al_pkcs8 A pem of Inr k \<Rightarrow> Inr k | Inl _ \<Rightarrow> al_pkcs1 A pem)) (\<lambda>private_key.
       Inr \<lparr>kc_key_id = key_id, kc_signing_key = (private_key, SALT_LEN)\<rparr>)"

definition from_env ::
    "('k, 'r) auth_lib \<Rightarrow> (string \<Rightarrow> string option) \<Rightarrow> (string \<Rightarrow> string + string) \<Rightarrow>
     KalshiError + 'k KalshiCredentials" where
  "from_env A var read_to_string =
     and_then (ok_or (var ENV_API_KEY_ID) (MissingCredential ENV_API_KEY_ID)) (\<lambda>key_id.
       let path = (case var ENV_PRIVATE_KEY_PATH of Some p \<Rightarrow> p | None \<Rightarrow> DEFAULT_PRIVATE_KEY_PATH) in
       and_then (map_err (KeyFile path) (read_to_string path)) (\<lambda>pem. from_pem A key_id pem))"

definition sign_message :: "i64 \<Rightarrow> string \<Rightarrow> string \<Rightarrow> string" where
  "sign_message ts_ms method path = show_i64 ts_ms @ method @ path"

definition sign ::
    "('k, 'r) auth_lib \<Rightarrow> 'r \<Rightarrow> 'k KalshiCredentials \<Rightarrow> i64 \<Rightarrow> string \<Rightarrow> string \<Rightarrow> KalshiError + string" where
  "sign A rng creds ts_ms method path =
     (let (key, salt_len) = kc_signing_key creds in
      and_then (map_err Signing (al_sign A key salt_len rng (sign_message ts_ms method path))) (\<lambda>signature.
        Inr (al_encode A signature)))"

definition signed_headers_at ::
    "('k, 'r) auth_lib \<Rightarrow> 'r \<Rightarrow> 'k KalshiCredentials \<Rightarrow> i64 \<Rightarrow> string \<Rightarrow> string \<Rightarrow>
     KalshiError + (string \<times> string) list" where
  "signed_headers_at A rng creds ts_ms method path =
     and_then (sign A rng creds ts_ms method path) (\<lambda>signature.
       Inr [(HEADER_KEY, kc_key_id creds), (HEADER_SIGNATURE, signature), (HEADER_TIMESTAMP, show_i64 ts_ms)])"

section \<open>The upgrade request\<close>

text \<open>
  The HTTP request \<open>'q\<close> with its header names \<open>'n\<close> and values \<open>'v\<close>: building it from a URL, its path, its header map;
  the connection, which answers with the stream and the status of the upgrade; sending a text.
\<close>

record ('q, 'n, 'v, 's) ws_lib =
  wl_request :: "string \<Rightarrow> string + 'q"
  wl_path :: "'q \<Rightarrow> string"
  wl_name :: "string \<Rightarrow> string + 'n"
  wl_value :: "string \<Rightarrow> string + 'v"
  wl_insert :: "'n \<Rightarrow> 'v \<Rightarrow> 'q \<Rightarrow> 'q"
  wl_connect :: "'q \<Rightarrow> string + 's \<times> u16"
  wl_send :: "'s \<Rightarrow> string \<Rightarrow> string + 's"

fun insert_headers ::
    "('q, 'n, 'v, 's) ws_lib \<Rightarrow> (string \<times> string) list \<Rightarrow> 'q \<Rightarrow> KalshiError + 'q" where
  "insert_headers W [] request = Inr request"
| "insert_headers W ((name, val) # headers) request =
     and_then (map_err (\<lambda>e. WebSocket (''invalid header name '' @ name @ '': '' @ e)) (wl_name W name)) (\<lambda>header_name.
     and_then (map_err (\<lambda>e. WebSocket (''invalid header value: '' @ e)) (wl_value W val)) (\<lambda>header_value.
       insert_headers W headers (wl_insert W header_name header_value request)))"

definition authenticated_request ::
    "('k, 'r) auth_lib \<Rightarrow> ('q, 'n, 'v, 's) ws_lib \<Rightarrow> 'r \<Rightarrow> i64 \<Rightarrow> 'k KalshiCredentials \<Rightarrow> string \<Rightarrow> KalshiError + 'q" where
  "authenticated_request A W rng ts_ms creds url =
     and_then (map_err (\<lambda>e. WebSocket (''building upgrade request: '' @ e)) (wl_request W url)) (\<lambda>request.
     and_then (signed_headers_at A rng creds ts_ms ''GET'' (wl_path W request)) (\<lambda>headers.
       insert_headers W headers request))"

section \<open>Subscription\<close>

definition KALSHI_WS_URL :: string where
  "KALSHI_WS_URL = ''wss://api.elections.kalshi.com/trade-api/ws/v2''"

definition WS_PATH :: string where
  "WS_PATH = ''/trade-api/ws/v2''"

definition ORDERBOOK_CHANNEL :: string where
  "ORDERBOOK_CHANNEL = ''orderbook_delta''"

definition TRADE_CHANNEL :: string where
  "TRADE_CHANNEL = ''trade''"

text \<open>The keys of an object are printed in their order, as \<^verbatim>\<open>serde_json\<close> does without \<^verbatim>\<open>preserve_order\<close>.\<close>

definition subscribe_json :: "u64 \<Rightarrow> string list \<Rightarrow> string list \<Rightarrow> json" where
  "subscribe_json id' channels tickers =
     JObject
       [(''cmd'', JString ''subscribe''),
        (''id'', JInt (uint id')),
        (''params'', JObject
          [(''channels'', JArray (map JString channels)), (''market_tickers'', JArray (map JString tickers))])]"

definition subscribe_message :: "json_lib \<Rightarrow> u64 \<Rightarrow> string list \<Rightarrow> string list \<Rightarrow> string" where
  "subscribe_message L id' channels tickers = js_to_string L (subscribe_json id' channels tickers)"

definition connect_and_subscribe ::
    "('k, 'r) auth_lib \<Rightarrow> ('q, 'n, 'v, 's) ws_lib \<Rightarrow> json_lib \<Rightarrow> 'r \<Rightarrow> i64 \<Rightarrow> 'k KalshiCredentials \<Rightarrow> string \<Rightarrow>
     string list \<Rightarrow> string list \<Rightarrow> KalshiError + 's \<times> u16" where
  "connect_and_subscribe A W L rng ts_ms creds url tickers channels =
     and_then (authenticated_request A W rng ts_ms creds url) (\<lambda>request.
     and_then (map_err WebSocket (wl_connect W request)) (\<lambda>(ws, status).
     and_then (map_err WebSocket (wl_send W ws (subscribe_message L 1 channels tickers))) (\<lambda>ws.
       Inr (ws, status))))"

section \<open>The probe\<close>

record FrameMeta =
  fm_kind :: string
  fm_sid :: "i64 option"
  fm_seq :: "u64 option"
  fm_ticker :: "string option"

definition frame_meta :: "json_lib \<Rightarrow> string \<Rightarrow> FrameMeta" where
  "frame_meta L text' =
     (case js_from_str L text' of
        Inl _ \<Rightarrow> \<lparr>fm_kind = ''<unparsed>'', fm_sid = None, fm_seq = None, fm_ticker = None\<rparr>
      | Inr v \<Rightarrow>
          \<lparr>fm_kind = (case Option.bind (json_get ''type'' v) as_str of Some t \<Rightarrow> t | None \<Rightarrow> ''<unknown>''),
           fm_sid = Option.bind (json_get ''sid'' v) as_i64,
           fm_seq = Option.bind (json_get ''seq'' v) as_u64,
           fm_ticker = Option.bind (Option.bind (json_get ''msg'' v) (json_get ''market_ticker'')) as_str\<rparr>)"

record ProbeReport =
  pr_status :: "u16 option"
  pr_frames :: nat
  pr_by_type :: "(string, nat) omap"

text \<open>What an awaited read comes back with; a ping carries the outcome of answering it.\<close>

datatype probe_input =
    PIdle
  | PEnd
  | PError string
  | PText string
  | PPing "string option"
  | PClose
  | POther

definition count_frame :: "json_lib \<Rightarrow> string \<Rightarrow> ProbeReport \<Rightarrow> ProbeReport" where
  "count_frame L text' report' =
     (let kind = fm_kind (frame_meta L text') in
      report'\<lparr>pr_frames := pr_frames report' + 1,
             pr_by_type := om_insert kind
               ((case om_get (pr_by_type report') kind of Some n \<Rightarrow> n | None \<Rightarrow> 0) + 1) (pr_by_type report')\<rparr>)"

text \<open>The loop; \<open>None\<close> while it still waits for the socket.\<close>

fun probe_loop ::
    "json_lib \<Rightarrow> nat \<Rightarrow> probe_input list \<Rightarrow> ProbeReport \<Rightarrow> (KalshiError + ProbeReport) option" where
  "probe_loop L max_frames inputs report' =
     (if \<not> pr_frames report' < max_frames then Some (Inr report')
      else case inputs of
        [] \<Rightarrow> None
      | i # inputs' \<Rightarrow>
          (case i of
             PIdle \<Rightarrow> Some (Inr report')
           | PEnd \<Rightarrow> Some (Inr report')
           | PError e \<Rightarrow> Some (Inl (WebSocket e))
           | PText t \<Rightarrow> probe_loop L max_frames inputs' (count_frame L t report')
           | PPing (Some e) \<Rightarrow> Some (Inl (WebSocket e))
           | PPing None \<Rightarrow> probe_loop L max_frames inputs' report'
           | PClose \<Rightarrow> Some (Inr report')
           | POther \<Rightarrow> probe_loop L max_frames inputs' report'))"

declare probe_loop.simps [simp del]

definition probe ::
    "('k, 'r) auth_lib \<Rightarrow> ('q, 'n, 'v, 's) ws_lib \<Rightarrow> json_lib \<Rightarrow> 'r \<Rightarrow> i64 \<Rightarrow> 'k KalshiCredentials \<Rightarrow>
     string list \<Rightarrow> nat \<Rightarrow> ('s \<Rightarrow> probe_input list) \<Rightarrow> (KalshiError + ProbeReport) option" where
  "probe A W L rng ts_ms creds tickers max_frames reads =
     (case connect_and_subscribe A W L rng ts_ms creds KALSHI_WS_URL tickers [ORDERBOOK_CHANNEL, TRADE_CHANNEL] of
        Inl e \<Rightarrow> Some (Inl e)
      | Inr (ws, status) \<Rightarrow>
          probe_loop L max_frames (reads ws) \<lparr>pr_status = Some status, pr_frames = 0, pr_by_type = []\<rparr>)"

section \<open>The signed text\<close>

text \<open>A request method is a word of capital letters, a request path begins with a slash.\<close>

definition is_upper :: "char \<Rightarrow> bool" where
  "is_upper c \<longleftrightarrow> (65 :: nat) \<le> of_char c \<and> of_char c \<le> (90 :: nat)"

definition http_method :: "string \<Rightarrow> bool" where
  "http_method m \<longleftrightarrow> m \<noteq> [] \<and> list_all is_upper m"

definition http_path :: "string \<Rightarrow> bool" where
  "http_path p \<longleftrightarrow> take 1 p = ''/''"

definition number_char :: "char \<Rightarrow> bool" where
  "number_char c \<longleftrightarrow> is_ascii_digit c \<or> c = minus_sign"

lemma upper_not_number: "is_upper c \<Longrightarrow> \<not> number_char c"
  by (auto simp: is_upper_def number_char_def is_ascii_digit_def minus_sign_def)

lemma not_upper_slash: "\<not> is_upper (CHR ''/'')"
  by (simp add: is_upper_def)

lemma show_i64_chars: "list_all number_char (show_i64 i)"
  using digits_show_nat by (auto simp: show_i64_def all_digits_def list_all_iff number_char_def minus_sign_def)

text \<open>The number is read back from its text.\<close>

definition read_i64 :: "string \<Rightarrow> i64" where
  "read_i64 s =
     (case s of c # ds \<Rightarrow> if c = minus_sign then - int (digits_value ds) else int (digits_value s) | [] \<Rightarrow> 0)"

lemma read_show_i64: "read_i64 (show_i64 i) = i"
proof -
  have "read_i64 (show_nat n) = int n" for n
  proof (cases "show_nat n")
    case (Cons c ds)
    then have "c \<noteq> minus_sign" using digits_show_nat [of n] by (auto simp: all_digits_def)
    then show ?thesis using digits_show_nat [of n] Cons by (simp add: read_i64_def)
  qed (use digits_show_nat [of n] in \<open>simp add: all_digits_def\<close>)
  then show ?thesis
    using digits_show_nat by (simp add: show_i64_def read_i64_def minus_sign_def)
qed

lemma takeWhile_split: "list_all P xs \<Longrightarrow> (case ys of y # _ \<Rightarrow> \<not> P y | [] \<Rightarrow> True) \<Longrightarrow> takeWhile P (xs @ ys) = xs"
  by (cases ys) (simp_all add: list_all_iff takeWhile_tail)

lemma signed_number:
  "http_method m \<Longrightarrow> takeWhile number_char (sign_message ts m p) = show_i64 ts"
  unfolding sign_message_def
  by (rule takeWhile_split [OF show_i64_chars])
    (auto simp: http_method_def neq_Nil_conv dest: upper_not_number split: list.splits)

lemma signed_method:
  assumes "http_method m" and "http_path p"
  shows "takeWhile is_upper (m @ p) = m"
  using assms not_upper_slash
  by (intro takeWhile_split) (auto simp: http_method_def http_path_def split: list.splits)

section \<open>What the server checks\<close>

text \<open>
  The server reads the three headers, decodes the signature and verifies it over the timestamp, the method and the
  path of the request.
\<close>

record ('q, 'k) server =
  sv_header :: "'q \<Rightarrow> string \<Rightarrow> string option"
  sv_decode :: "string \<Rightarrow> string option"
  sv_verify :: "'k \<Rightarrow> nat \<Rightarrow> string \<Rightarrow> string \<Rightarrow> bool"

definition server_accepts ::
    "('q, 'n, 'v, 's) ws_lib \<Rightarrow> ('q, 'k) server \<Rightarrow> string \<Rightarrow> 'k \<Rightarrow> i64 \<Rightarrow> 'q \<Rightarrow> bool" where
  "server_accepts W S key_id key ts q \<longleftrightarrow>
     sv_header S q HEADER_KEY = Some key_id \<and>
     (\<exists>stamp sig raw. sv_header S q HEADER_TIMESTAMP = Some stamp \<and> read_i64 stamp = ts \<and>
        sv_header S q HEADER_SIGNATURE = Some sig \<and> sv_decode S sig = Some raw \<and>
        sv_verify S key 32 raw (stamp @ ''GET'' @ wl_path W q))"

definition AUTH_HEADERS :: "string list" where
  "AUTH_HEADERS = [HEADER_KEY, HEADER_SIGNATURE, HEADER_TIMESTAMP]"

text \<open>
  What the packages document: setting a header sets that header and leaves the other two and the path alone; a
  signature verifies under its key, salt length and text; base64 is undone by its decoder.
\<close>

definition upgrade_laws :: "('k, 'r) auth_lib \<Rightarrow> ('q, 'n, 'v, 's) ws_lib \<Rightarrow> ('q, 'k) server \<Rightarrow> bool" where
  "upgrade_laws A W S \<longleftrightarrow>
     (\<forall>name val n v q. name \<in> set AUTH_HEADERS \<longrightarrow> wl_name W name = Inr n \<longrightarrow> wl_value W val = Inr v \<longrightarrow>
        wl_path W (wl_insert W n v q) = wl_path W q \<and>
        (\<forall>name' \<in> set AUTH_HEADERS. sv_header S (wl_insert W n v q) name' =
           (if name' = name then Some val else sv_header S q name'))) \<and>
     (\<forall>key salt rng msg raw. al_sign A key salt rng msg = Inr raw \<longrightarrow> sv_verify S key salt raw msg) \<and>
     (\<forall>raw. sv_decode S (al_encode A raw) = Some raw)"

lemma from_pem_Inr:
  "from_pem A key_id pem = Inr creds \<longleftrightarrow>
     (\<exists>key. (case al_pkcs8 A pem of Inr k \<Rightarrow> Inr k | Inl _ \<Rightarrow> al_pkcs1 A pem) = Inr key \<and>
        creds = \<lparr>kc_key_id = key_id, kc_signing_key = (key, 32)\<rparr>)"
  by (auto simp: from_pem_def and_then_Inr_iff SALT_LEN_def split: sum.splits)

lemma header_names_distinct: "distinct AUTH_HEADERS"
  by (simp add: AUTH_HEADERS_def HEADER_KEY_def HEADER_SIGNATURE_def HEADER_TIMESTAMP_def)

lemma headers_inserted:
  assumes laws: "upgrade_laws A W S" and "set (map fst headers) \<subseteq> set AUTH_HEADERS" and "distinct (map fst headers)"
    and "insert_headers W headers q = Inr q'"
  shows "wl_path W q' = wl_path W q \<and>
    (\<forall>name \<in> set AUTH_HEADERS. sv_header S q' name =
       (case map_of headers name of Some val \<Rightarrow> Some val | None \<Rightarrow> sv_header S q name))"
  using assms(2-4)
proof (induction headers arbitrary: q)
  case (Cons h headers)
  obtain name val where h: "h = (name, val)" by (cases h)
  obtain n v where nv: "wl_name W name = Inr n" "wl_value W val = Inr v"
    and rest: "insert_headers W headers (wl_insert W n v q) = Inr q'"
    using Cons.prems(3) by (auto simp: h and_then_Inr_iff)
  have law: "wl_path W (wl_insert W n v q) = wl_path W q"
    "\<forall>name' \<in> set AUTH_HEADERS. sv_header S (wl_insert W n v q) name' =
       (if name' = name then Some val else sv_header S q name')"
    using laws nv Cons.prems(1) by (auto simp: upgrade_laws_def h)
  have "wl_path W q' = wl_path W (wl_insert W n v q)" and IH: "\<forall>name' \<in> set AUTH_HEADERS. sv_header S q' name' =
      (case map_of headers name' of Some val \<Rightarrow> Some val | None \<Rightarrow> sv_header S (wl_insert W n v q) name')"
    using Cons.IH [OF _ _ rest] Cons.prems(1,2) by simp_all
  moreover have "map_of headers name = None"
    using Cons.prems(2) by (simp add: h map_of_eq_None_iff)
  ultimately show ?case
    using law by (auto simp: h split: option.splits)
qed simp

lemma authenticated_accepted:
  assumes laws: "upgrade_laws A W S" and creds: "from_pem A key_id pem = Inr creds"
    and req: "authenticated_request A W rng ts creds url = Inr q"
  shows "\<exists>q0. wl_request W url = Inr q0 \<and> wl_path W q = wl_path W q0 \<and>
    server_accepts W S key_id (fst (kc_signing_key creds)) ts q"
proof -
  obtain key where creds': "creds = \<lparr>kc_key_id = key_id, kc_signing_key = (key, 32)\<rparr>"
    using creds by (auto simp: from_pem_Inr)
  obtain q0 raw where q0: "wl_request W url = Inr q0"
    and raw: "al_sign A key 32 rng (sign_message ts ''GET'' (wl_path W q0)) = Inr raw"
    and ins: "insert_headers W [(HEADER_KEY, key_id), (HEADER_SIGNATURE, al_encode A raw), (HEADER_TIMESTAMP, show_i64 ts)] q0
      = Inr q"
    using req by (auto simp del: insert_headers.simps simp: authenticated_request_def signed_headers_at_def sign_def creds'
      and_then_Inr_iff)
  note H = headers_inserted [OF laws _ _ ins]
  have "wl_path W q = wl_path W q0" "sv_header S q HEADER_KEY = Some key_id"
    "sv_header S q HEADER_SIGNATURE = Some (al_encode A raw)" "sv_header S q HEADER_TIMESTAMP = Some (show_i64 ts)"
    using H header_names_distinct by (auto simp: AUTH_HEADERS_def)
  moreover have "sv_verify S key 32 raw (show_i64 ts @ ''GET'' @ wl_path W q0)" "sv_decode S (al_encode A raw) = Some raw"
    using laws raw by (auto simp: upgrade_laws_def sign_message_def)
  ultimately show ?thesis
    using q0 by (auto simp: server_accepts_def read_show_i64 creds')
qed

section \<open>What the probe reads\<close>

fun ends_probe :: "probe_input \<Rightarrow> bool" where
  "ends_probe (PText _) = False"
| "ends_probe (PPing None) = False"
| "ends_probe POther = False"
| "ends_probe _ = True"

fun failure :: "probe_input \<Rightarrow> string option" where
  "failure (PError e) = Some e"
| "failure (PPing (Some e)) = Some e"
| "failure _ = None"

fun probe_texts :: "probe_input list \<Rightarrow> string list" where
  "probe_texts [] = []"
| "probe_texts (PText t # is) = t # probe_texts is"
| "probe_texts (_ # is) = probe_texts is"

text \<open>A report counts the frames of a list of texts: all of them, and those of each kind.\<close>

definition counts_exactly :: "json_lib \<Rightarrow> string list \<Rightarrow> ProbeReport \<Rightarrow> bool" where
  "counts_exactly L ts r \<longleftrightarrow>
     pr_frames r = length ts \<and> om_wf (pr_by_type r) \<and>
     (\<forall>kind. om_get (pr_by_type r) kind =
        (let n = length (filter (\<lambda>t. fm_kind (frame_meta L t) = kind) ts) in if n = 0 then None else Some n))"

lemma counts_Nil: "pr_frames r = 0 \<Longrightarrow> pr_by_type r = [] \<Longrightarrow> counts_exactly L [] r"
  by (simp add: counts_exactly_def om_wf_def)

lemma counts_snoc: "counts_exactly L ts r \<Longrightarrow> counts_exactly L (ts @ [t]) (count_frame L t r)"
  by (auto simp: counts_exactly_def count_frame_def Let_def om_get_insert)

lemma count_frame_status [simp]: "pr_status (count_frame L t r) = pr_status r"
  by (simp add: count_frame_def Let_def)

text \<open>
  The outcome of reading \<open>inputs\<close> when the frames \<open>ts\<close> have been counted: the next frames up to the limit and
  what the first stop, if there is one, says.
\<close>

definition probe_verdict ::
    "json_lib \<Rightarrow> nat \<Rightarrow> u16 option \<Rightarrow> string list \<Rightarrow> probe_input list \<Rightarrow> (KalshiError + ProbeReport) option \<Rightarrow> bool" where
  "probe_verdict L max_frames status taken stop res \<longleftrightarrow>
     (if length taken = max_frames
      then \<exists>r. res = Some (Inr r) \<and> pr_status r = status \<and> counts_exactly L taken r
      else case stop of
        [] \<Rightarrow> res = None
      | i # _ \<Rightarrow>
          (case failure i of
             Some e \<Rightarrow> res = Some (Inl (WebSocket e))
           | None \<Rightarrow> \<exists>r. res = Some (Inr r) \<and> pr_status r = status \<and> counts_exactly L taken r))"

definition probe_outcome ::
    "json_lib \<Rightarrow> nat \<Rightarrow> u16 option \<Rightarrow> string list \<Rightarrow> probe_input list \<Rightarrow> (KalshiError + ProbeReport) option \<Rightarrow> bool" where
  "probe_outcome L max_frames status ts inputs res \<longleftrightarrow>
     probe_verdict L max_frames status (take max_frames (ts @ probe_texts (takeWhile (\<lambda>i. \<not> ends_probe i) inputs)))
       (dropWhile (\<lambda>i. \<not> ends_probe i) inputs) res"

lemma probe_outcome_text:
  "probe_outcome L max_frames status ts (PText t # inputs) res = probe_outcome L max_frames status (ts @ [t]) inputs res"
  by (simp add: probe_outcome_def del: take_append)

lemma probe_texts_skip: "\<not> ends_probe i \<Longrightarrow> (\<And>t. i \<noteq> PText t) \<Longrightarrow> probe_texts (i # inputs) = probe_texts inputs"
  by (cases i) auto

lemma probe_outcome_skip:
  "\<not> ends_probe i \<Longrightarrow> (\<And>t. i \<noteq> PText t) \<Longrightarrow>
     probe_outcome L max_frames status ts (i # inputs) res = probe_outcome L max_frames status ts inputs res"
  by (simp add: probe_outcome_def probe_texts_skip del: take_append)

lemma probe_loop_exact:
  "counts_exactly L ts r \<Longrightarrow> length ts \<le> max_frames \<Longrightarrow>
   probe_outcome L max_frames (pr_status r) ts inputs (probe_loop L max_frames inputs r)"
proof (induction inputs arbitrary: ts r)
  case Nil
  then show ?case by (auto simp: probe_loop.simps probe_outcome_def probe_verdict_def counts_exactly_def)
next
  case (Cons i inputs)
  have frames: "pr_frames r = length ts" using Cons.prems(1) by (simp add: counts_exactly_def)
  show ?case
  proof (cases "length ts = max_frames")
    case True
    then show ?thesis using Cons.prems frames by (simp add: probe_loop.simps probe_outcome_def probe_verdict_def)
  next
    case False
    then have lt: "length ts < max_frames" using Cons.prems(2) by simp
    consider (frame) t where "i = PText t" | (skip) "\<not> ends_probe i" "\<forall>t. i \<noteq> PText t" | (stop) "ends_probe i"
      by (cases i) auto
    then show ?thesis
    proof cases
      case frame
      then show ?thesis
        using Cons.IH [OF counts_snoc [OF Cons.prems(1)], of t] lt frames
        by (simp add: probe_loop.simps [of L max_frames "_ # _"] probe_outcome_text)
    next
      case skip
      then have "probe_loop L max_frames (i # inputs) r = probe_loop L max_frames inputs r"
        using lt frames by (cases i) (auto simp: probe_loop.simps [of L max_frames "_ # _"] split: option.splits)
      then show ?thesis using Cons.IH [OF Cons.prems] skip by (simp add: probe_outcome_skip)
    next
      case stop
      then show ?thesis using lt frames Cons.prems
        by (cases i) (auto simp: probe_loop.simps [of L max_frames "_ # _"] probe_outcome_def probe_verdict_def split: option.splits)
    qed
  qed
qed

section \<open>Properties\<close>

text \<open>
  The text that is signed determines what it is made of: two requests with the same signed text have the same
  timestamp, the same method and the same path, although the three are written one after the other without a separator.
\<close>

theorem signed_text_unambiguous:
  assumes "http_method m" and "http_path p" and "http_method m'" and "http_path p'"
    and "sign_message ts m p = sign_message ts' m' p'"
  shows "ts = ts' \<and> m = m' \<and> p = p'"
proof -
  have "show_i64 ts = show_i64 ts'" using assms signed_number by metis
  then have ts: "ts = ts'" using read_show_i64 by metis
  then have rest: "m @ p = m' @ p'" using assms(5) by (simp add: sign_message_def)
  then have "m = m'" using assms signed_method by metis
  then show ?thesis using ts rest by simp
qed

theorem signed_text_unambiguous_witness:
  "{ts. sign_message ts ''GET'' WS_PATH = ''12GET/trade-api/ws/v2''} = {12}"
proof -
  have m: "http_method ''GET''" and p: "http_path WS_PATH"
    by (simp_all add: http_method_def is_upper_def http_path_def WS_PATH_def)
  have "sign_message 12 ''GET'' WS_PATH = ''12GET/trade-api/ws/v2''"
    by code_simp
  then show ?thesis using signed_text_unambiguous [OF m p m p] by auto
qed

text \<open>
  C13. A connection that comes up was opened with a request the server accepts, that is, one that carries the key of
  the credentials and a signature of the time, the method and the path it was opened at; and one subscription was
  sent on it, which read back asks for every given ticker on every given channel.
\<close>

theorem connection_is_accepted:
  assumes "upgrade_laws A W S" and "js_from_str L (subscribe_message L 1 channels tickers) = Inr (subscribe_json 1 channels tickers)"
    and "from_pem A key_id pem = Inr creds"
    and "connect_and_subscribe A W L rng ts creds url tickers channels = Inr (ws, status)"
  shows "\<exists>q0 q ws0 sent command params. wl_request W url = Inr q0 \<and> wl_path W q = wl_path W q0 \<and>
     server_accepts W S key_id (fst (kc_signing_key creds)) ts q \<and> wl_connect W q = Inr (ws0, status) \<and>
     wl_send W ws0 sent = Inr ws \<and> js_from_str L sent = Inr command \<and>
     json_get ''cmd'' command = Some (JString ''subscribe'') \<and> json_get ''params'' command = Some params \<and>
     json_get ''channels'' params = Some (JArray (map JString channels)) \<and>
     json_get ''market_tickers'' params = Some (JArray (map JString tickers))"
proof -
  obtain q ws0 where req: "authenticated_request A W rng ts creds url = Inr q" and con: "wl_connect W q = Inr (ws0, status)"
    and sent: "wl_send W ws0 (subscribe_message L 1 channels tickers) = Inr ws"
    using assms(4) by (auto simp: connect_and_subscribe_def and_then_Inr_iff)
  have "json_get ''cmd'' (subscribe_json 1 channels tickers) = Some (JString ''subscribe'')"
    "\<exists>params. json_get ''params'' (subscribe_json 1 channels tickers) = Some params \<and>
       json_get ''channels'' params = Some (JArray (map JString channels)) \<and>
       json_get ''market_tickers'' params = Some (JArray (map JString tickers))"
    by (simp_all add: subscribe_json_def)
  with authenticated_accepted [OF assms(1,3) req] con sent assms(2) show ?thesis by blast
qed

text \<open>Small packages that satisfy the laws: a signature is the key, its salt length and the text, a request its headers and its path.\<close>

definition ex_auth :: "(string, unit) auth_lib" where
  "ex_auth = \<lparr>al_pkcs8 = (\<lambda>_. Inl ''not PKCS#8''), al_pkcs1 = Inr,
     al_sign = (\<lambda>key salt rng msg. Inr (key @ replicate salt (CHR '' '') @ msg)), al_encode = rev\<rparr>"

definition ex_ws :: "((string \<times> string) list \<times> string, string, string, string list) ws_lib" where
  "ex_ws = \<lparr>wl_request = (\<lambda>url. Inr ([], url)), wl_path = snd, wl_name = Inr, wl_value = Inr,
     wl_insert = (\<lambda>n v q. ((n, v) # fst q, snd q)), wl_connect = (\<lambda>q. Inr ([], 101)), wl_send = (\<lambda>s t. Inr (t # s))\<rparr>"

definition ex_server :: "((string \<times> string) list \<times> string, string) server" where
  "ex_server = \<lparr>sv_header = (\<lambda>q n. map_of (fst q) n), sv_decode = (\<lambda>s. Some (rev s)),
     sv_verify = (\<lambda>key salt raw msg. raw = key @ replicate salt (CHR '' '') @ msg)\<rparr>"

definition ex_codec :: json_lib where
  "ex_codec = \<lparr>js_from_str = (\<lambda>_. Inr (subscribe_json 1 [''trade''] [''T''])), js_to_string = (\<lambda>_. ''sub''), js_debug = id\<rparr>"

lemma ex_upgrade_laws: "upgrade_laws ex_auth ex_ws ex_server"
  by (auto simp: upgrade_laws_def ex_auth_def ex_ws_def ex_server_def)

theorem connection_is_accepted_witness:
  "\<exists>creds q. from_pem ex_auth ''id'' ''pem'' = Inr creds \<and>
     connect_and_subscribe ex_auth ex_ws ex_codec () 5 creds WS_PATH [''T''] [''trade''] = Inr ([''sub''], 101) \<and>
     server_accepts ex_ws ex_server ''id'' ''pem'' 5 q \<and> wl_path ex_ws q = WS_PATH"
proof -
  let ?creds = "\<lparr>kc_key_id = ''id'', kc_signing_key = (''pem'', 32)\<rparr>"
  have pem: "from_pem ex_auth ''id'' ''pem'' = Inr ?creds"
    by (simp add: from_pem_Inr ex_auth_def)
  have up: "connect_and_subscribe ex_auth ex_ws ex_codec () 5 ?creds WS_PATH [''T''] [''trade''] = Inr ([''sub''], 101)"
    by (simp add: connect_and_subscribe_def authenticated_request_def signed_headers_at_def sign_def map_err_def
      ex_auth_def ex_ws_def ex_codec_def subscribe_message_def)
  have codec: "js_from_str ex_codec (subscribe_message ex_codec 1 [''trade''] [''T'']) = Inr (subscribe_json 1 [''trade''] [''T''])"
    by (simp add: ex_codec_def)
  from connection_is_accepted [OF ex_upgrade_laws codec pem up] pem up show ?thesis
    by (auto simp: ex_ws_def)
qed

text \<open>
  A probe reads until it has the frames it was asked for or until the connection ends or fails, and its report
  counts exactly the text frames it took, in all and of each kind; it waits only while there is nothing to read.
\<close>

theorem probe_exact:
  "case connect_and_subscribe A W L rng ts creds KALSHI_WS_URL tickers [''orderbook_delta'', ''trade''] of
     Inl e \<Rightarrow> probe A W L rng ts creds tickers max_frames reads = Some (Inl e)
   | Inr (ws, status) \<Rightarrow>
       probe_outcome L max_frames (Some status) [] (reads ws) (probe A W L rng ts creds tickers max_frames reads)"
proof (cases "connect_and_subscribe A W L rng ts creds KALSHI_WS_URL tickers [''orderbook_delta'', ''trade'']")
  case (Inr c)
  then show ?thesis
    using probe_loop_exact [OF counts_Nil, of "\<lparr>pr_status = Some (snd c), pr_frames = 0, pr_by_type = []\<rparr>"]
    by (cases c) (simp add: probe_def ORDERBOOK_CHANNEL_def TRADE_CHANNEL_def)
qed (simp add: probe_def ORDERBOOK_CHANNEL_def TRADE_CHANNEL_def)

end
