(* ===== verification/Cli_Main.thy ===== *)
theory Cli_Main
  imports Commands Capture Connection
begin

text \<open>
  The entry points of \<^verbatim>\<open>kdp-cli\<close>: the dispatch and the probe of \<^verbatim>\<open>crates/kdp-cli/src/main.rs\<close>, and the capture command of
  \<^verbatim>\<open>capture.rs\<close>: its flags, when it stops, what becomes of a session and its writer, the verify sweep over all its rounds,
  and the report that is printed.

  The floating-point reading of the disk floor and the quoting of texts are parameters. The writer, the session and
  the sweep run as tasks: their results are inputs here, the machines behind them are those of Capture and Session.
\<close>

section \<open>Dispatch\<close>

datatype cli_command =
    Hello | Probe | WsProbe | RunCapture | RunHourly | RunScheduled | RunUniverse | RunCatalog | RunDiscover | RunBackfill
  | UnknownCommand string | NoCommand

definition cli_dispatch :: "Args \<Rightarrow> cli_command" where
  "cli_dispatch args =
     (case ar_command args of
        None \<Rightarrow> NoCommand
      | Some c \<Rightarrow>
          (case map_of
             [(''hello'', Hello), (''probe'', Probe), (''ws-probe'', WsProbe), (''capture'', RunCapture),
              (''capture-hourly'', RunHourly), (''capture-scheduled'', RunScheduled), (''capture-universe'', RunUniverse),
              (''catalog'', RunCatalog), (''discover'', RunDiscover), (''backfill'', RunBackfill)] c of
             Some cmd \<Rightarrow> cmd
           | None \<Rightarrow> UnknownCommand c))"

text \<open>Both ways not to name a command print the usage and leave with this code.\<close>

definition exit_code :: "cli_command \<Rightarrow> string + unit \<Rightarrow> nat" where
  "exit_code cmd result =
     (case cmd of
        UnknownCommand _ \<Rightarrow> 2
      | NoCommand \<Rightarrow> 2
      | _ \<Rightarrow> (case result of Inr _ \<Rightarrow> 0 | Inl _ \<Rightarrow> 1))"

section \<open>The probe\<close>

record ws_probe_cfg =
  wp_tickers :: "string list"
  wp_frames :: nat
  wp_idle_secs :: nat
  wp_dump_raw :: bool

definition number_flag :: "Args \<Rightarrow> string \<Rightarrow> string \<Rightarrow> string \<Rightarrow> string + nat" where
  "number_flag args key d msg = ok_or (parse_unsigned u64_max (get_or args key d)) msg"

definition ws_probe_args :: "Args \<Rightarrow> string + ws_probe_cfg" where
  "ws_probe_args args =
     (let tickers = (case Args_get args ''tickers'' of Some s \<Rightarrow> split_list s | None \<Rightarrow> []) in
      and_then (require (tickers \<noteq> []) ''ws-probe requires --tickers TICKER1,TICKER2,...'') (\<lambda>_.
      and_then (number_flag args ''frames'' ''30'' ''--frames must be a non-negative integer'') (\<lambda>frames.
      and_then (number_flag args ''idle'' ''20'' ''--idle must be a non-negative integer (seconds)'') (\<lambda>idle_secs.
        Inr \<lparr>wp_tickers = tickers, wp_frames = frames, wp_idle_secs = idle_secs,
             wp_dump_raw = (Args_get args ''raw'' = Some ''true'')\<rparr>))))"

section \<open>The flags of a capture\<close>

text \<open>
  The number of gibibytes: its parser, whether it is finite and positive, the bytes it comes to as a 64-bit number, and its
  text.
\<close>

record 'f floor_lib =
  ff_parse :: "string \<Rightarrow> 'f option"
  ff_usable :: "'f \<Rightarrow> bool"
  ff_bytes :: "'f \<Rightarrow> u64"
  ff_show :: "'f \<Rightarrow> string"

record capture_cfg =
  cc_tickers :: "string list"
  cc_base_dir :: string
  cc_duration :: "nat option"
  cc_floor_bytes :: u64
  cc_capacity :: nat
  cc_idle_secs :: nat
  cc_verify_secs :: nat

definition floor_flag :: "'f floor_lib \<Rightarrow> Args \<Rightarrow> string + u64" where
  "floor_flag FL args =
     and_then (ok_or (ff_parse FL (get_or args ''disk-floor-gib'' ''3'')) ''--disk-floor-gib must be a number'') (\<lambda>gib.
     and_then (require (ff_usable FL gib)
         (''--disk-floor-gib must be a positive, finite number (got '' @ ff_show FL gib @ '')'')) (\<lambda>_.
     and_then (require (ff_bytes FL gib \<noteq> 0) ''--disk-floor-gib is too small; the computed floor is 0 bytes'') (\<lambda>_.
       Inr (ff_bytes FL gib))))"

definition capacity_flag :: "Args \<Rightarrow> string + nat" where
  "capacity_flag args =
     and_then (number_flag args ''buffer'' ''8192'' ''--buffer must be a positive integer'') (\<lambda>capacity.
     and_then (require (capacity \<noteq> 0) ''--buffer must be >= 1 (a bounded channel needs a non-zero capacity)'') (\<lambda>_.
       Inr capacity))"

definition duration_flag :: "(string \<Rightarrow> string) \<Rightarrow> Args \<Rightarrow> string + nat option" where
  "duration_flag dbg args =
     (case Args_get args ''duration'' of
        Some s \<Rightarrow> and_then (parse_duration dbg s) (\<lambda>d. Inr (Some d))
      | None \<Rightarrow> Inr None)"

definition capture_args :: "(string \<Rightarrow> string) \<Rightarrow> 'f floor_lib \<Rightarrow> Args \<Rightarrow> string + capture_cfg" where
  "capture_args dbg FL args =
     and_then (map_err (\<lambda>_. ''capture'') (parse_ticker_list (Args_get args ''tickers''))) (\<lambda>tickers.
     and_then (duration_flag dbg args) (\<lambda>duration.
     and_then (floor_flag FL args) (\<lambda>floor_bytes.
     and_then (capacity_flag args) (\<lambda>capacity.
     and_then (number_flag args ''idle'' ''45'' ''--idle must be an integer (seconds)'') (\<lambda>idle_secs.
     and_then (parse_verify_interval args) (\<lambda>verify_secs.
       Inr \<lparr>cc_tickers = tickers, cc_base_dir = get_or args ''out'' ''data'', cc_duration = duration,
            cc_floor_bytes = floor_bytes, cc_capacity = capacity, cc_idle_secs = idle_secs,
            cc_verify_secs = verify_secs\<rparr>))))))"

text \<open>The second at which the capture is told to stop, given the one at which the wait for the signal ends, if it does.\<close>

definition stop_second :: "nat option \<Rightarrow> nat option \<Rightarrow> nat option" where
  "stop_second duration ctrl_c =
     (case duration of
        Some d \<Rightarrow> (case ctrl_c of Some c \<Rightarrow> Some (min c d) | None \<Rightarrow> Some d)
      | None \<Rightarrow> ctrl_c)"

section \<open>The report\<close>

text \<open>
  The tree under the output directory: a file with what reading its length comes back with, a directory with its readable
  entries, or \<open>None\<close> when it cannot be listed, a symbolic link, and an entry of unknown type.
\<close>

datatype disk_tree =
    TFile string "string + u64"
  | TDir "disk_tree list option"
  | TLink
  | TUnknown

definition is_jsonl :: "string \<Rightarrow> bool" where
  "is_jsonl name \<longleftrightarrow>
     (case rsplit_once (CHR ''.'') name of Some (before, after) \<Rightarrow> before \<noteq> [] \<and> after = ''jsonl'' | None \<Rightarrow> False)"

fun dir_bytes :: "disk_tree \<Rightarrow> u64" where
  "dir_bytes (TDir (Some entries)) = sum_list (map dir_bytes entries)"
| "dir_bytes (TFile name (Inr len)) = (if is_jsonl name then len else 0)"
| "dir_bytes _ = 0"

definition report_lines :: "CaptureReport \<Rightarrow> string \<Rightarrow> u64 \<Rightarrow> string list" where
  "report_lines r base_dir bytes =
     (let num = (\<lambda>n :: u64. show_nat (unat n)) in
      [[], ''=== capture run report ==='',
       ''output dir:      '' @ base_dir,
       ''records written: '' @ num (total_written r) @ '' (incl. '' @ num (cr_gaps r) @ '' gap markers, '' @
         num (cr_raw r) @ '' raw fallbacks, '' @ num (cr_verify r) @ '' verify sweeps)''] @
      map (\<lambda>((ticker, channel), count). ''  '' @ ticker @ '' / '' @ channel @ '': '' @ num count) (cr_per_stream r) @
      [''control frames:  '' @ num (cr_control r) @ '' (observed, not written)'',
       ''server errors:   '' @ num (cr_server_errors r),
       ''bytes on disk:   '' @ num bytes,
       (case cr_free_bytes r of
          Some free \<Rightarrow> ''free disk:       '' @ num (free div (1024 * 1024)) @ '' MiB''
        | None \<Rightarrow> ''free disk:       (unmeasured)'')] @
      (case cr_halt_error r of Some halted \<Rightarrow> [''HALTED:          '' @ halted] | None \<Rightarrow> []) @
      [''==========================='', []])"

section \<open>A capture\<close>

text \<open>
  The rounds of the sweep, each with the answers to its chunks, until the writer no longer takes a write or the session ends.
\<close>

fun verify_sweep ::
    "(VerifyWrite list \<Rightarrow> bool) \<Rightarrow> string list \<Rightarrow> (string list \<Rightarrow> string + RestOrderbookOutcome list \<times> Timestamp) list \<Rightarrow>
     VerifyWrite list \<Rightarrow> VerifyWrite list" where
  "verify_sweep accepts tickers [] sent = sent"
| "verify_sweep accepts tickers (fetch # rounds) sent =
     (case sweep_round accepts fetch tickers sent of
        (sent', True) \<Rightarrow> verify_sweep accepts tickers rounds sent'
      | (sent', False) \<Rightarrow> sent')"

text \<open>Whether there is a sweep, and what it sends.\<close>

definition sweep_task ::
    "capture_cfg \<Rightarrow> (VerifyWrite list \<Rightarrow> bool) \<Rightarrow> (string list \<Rightarrow> string + RestOrderbookOutcome list \<times> Timestamp) list \<Rightarrow>
     VerifyWrite list" where
  "sweep_task cfg accepts rounds =
     (if cc_verify_secs cfg > 0 then verify_sweep accepts (cc_tickers cfg) rounds [] else [])"

text \<open>
  The result of a capture and the lines it prints: \<open>made\<close> is the creation of the directory, \<open>joined\<close> the end of the
  writer task, \<open>session\<close> the end of the session, \<open>bytes\<close> the size of the tree afterwards.
\<close>

definition capture_session ::
    "string \<Rightarrow> string + unit \<Rightarrow> string + (StoreError + CaptureReport) \<Rightarrow> KalshiError + SessionStats \<Rightarrow> disk_tree \<Rightarrow>
     (string + CaptureReport) \<times> string list" where
  "capture_session base_dir made joined session tree =
     (case made of
        Inl e \<Rightarrow> (Inl (''creating capture dir '' @ base_dir), [])
      | Inr _ \<Rightarrow>
          (case joined of
             Inl e \<Rightarrow> (Inl ''writer task join'', [])
           | Inr (Inl e) \<Rightarrow> (Inl ''capture could not start'', [])
           | Inr (Inr r) \<Rightarrow>
               (case cr_halt_error r of
                  Some halted \<Rightarrow> Inl (''capture halted mid-run: '' @ halted)
                | None \<Rightarrow> (case session of Inl e \<Rightarrow> Inl (show_kalshi_error e) | Inr _ \<Rightarrow> Inr r),
                report_lines r base_dir (dir_bytes tree))))"

section \<open>Lemmas\<close>

lemma number_flag_ok: "number_flag args key d msg = Inr n \<Longrightarrow> n \<le> u64_max"
  by (auto simp: number_flag_def ok_or_def parse_unsigned_def split: option.splits if_splits)

text \<open>A capture that starts has tickers, a floor, a channel with room, and a sweep that waits out a verdict or none.\<close>

lemma capture_args_ok:
  assumes "capture_args dbg FL args = Inr cfg"
  shows "cc_tickers cfg \<noteq> []" and "cc_floor_bytes cfg \<noteq> 0" and "0 < cc_capacity cfg" and "cc_idle_secs cfg \<le> u64_max"
    and "cc_verify_secs cfg = 0 \<or> 10 \<le> cc_verify_secs cfg"
    and "\<forall>t \<in> set (cc_tickers cfg). t \<noteq> [] \<and> trim t = t \<and> CHR '','' \<notin> set t"
proof -
  obtain tickers duration floor_bytes capacity idle verify where
    parts: "parse_ticker_list (Args_get args ''tickers'') = Inr tickers" "floor_flag FL args = Inr floor_bytes"
      "capacity_flag args = Inr capacity" "number_flag args ''idle'' ''45'' ''--idle must be an integer (seconds)'' = Inr idle"
      "parse_verify_interval args = Inr verify"
    and cfg: "cfg = \<lparr>cc_tickers = tickers, cc_base_dir = get_or args ''out'' ''data'', cc_duration = duration,
      cc_floor_bytes = floor_bytes, cc_capacity = capacity, cc_idle_secs = idle, cc_verify_secs = verify\<rparr>"
    using assms by (auto simp: capture_args_def and_then_Inr_iff)
  show "cc_tickers cfg \<noteq> []" and "\<forall>t \<in> set (cc_tickers cfg). t \<noteq> [] \<and> trim t = t \<and> CHR '','' \<notin> set t"
    using parts(1) by (auto simp: cfg parse_ticker_list_def Let_def split: if_splits option.splits dest: split_list_parts)
  show "cc_floor_bytes cfg \<noteq> 0"
    using parts(2) by (auto simp: cfg floor_flag_def and_then_Inr_iff require_def split: if_splits)
  show "0 < cc_capacity cfg"
    using parts(3) by (auto simp: cfg capacity_flag_def and_then_Inr_iff require_def split: if_splits)
  show "cc_idle_secs cfg \<le> u64_max" using number_flag_ok [OF parts(4)] by (simp add: cfg)
  show "cc_verify_secs cfg = 0 \<or> 10 \<le> cc_verify_secs cfg"
    using parts(5) by (auto simp: cfg parse_verify_interval_def split: option.splits if_splits)
qed

text \<open>What the sweep sends: the answered chunks in order, each converted with the instant read after its own answer.\<close>

definition verify_write :: "Timestamp \<Rightarrow> RestOrderbookOutcome \<Rightarrow> VerifyWrite" where
  "verify_write now oc = \<lparr>vw_ticker = fst (verify_envelope oc now), vw_env = snd (verify_envelope oc now)\<rparr>"

definition chunk_writes :: "(string list \<Rightarrow> string + RestOrderbookOutcome list \<times> Timestamp) \<Rightarrow> string list \<Rightarrow> VerifyWrite list" where
  "chunk_writes fetch chunk =
     (case fetch chunk of
        Inl _ \<Rightarrow> []
      | Inr (outcomes, now) \<Rightarrow>
          map (verify_write now) outcomes)"

definition round_writes :: "string list \<Rightarrow> (string list \<Rightarrow> string + RestOrderbookOutcome list \<times> Timestamp) \<Rightarrow> VerifyWrite list" where
  "round_writes tickers fetch = concat (map (chunk_writes fetch) (chunks VERIFY_SWEEP_CHUNK_SIZE tickers))"

text \<open>Each of the three loops adds a first part of what it would send, and stops early only at a write that is not taken.\<close>

definition sends_part :: "(VerifyWrite list \<Rightarrow> bool) \<Rightarrow> VerifyWrite list \<Rightarrow> VerifyWrite list \<Rightarrow> VerifyWrite list \<times> bool \<Rightarrow> bool" where
  "sends_part accepts sent full res \<longleftrightarrow>
     (\<exists>kept lost. fst res = sent @ kept \<and> kept @ lost = full \<and> (if snd res then lost = [] else \<not> accepts (fst res)))"

lemma sends_part_append:
  assumes "sends_part accepts sent full1 (sent1, True)" and "sends_part accepts sent1 full2 res"
  shows "sends_part accepts sent (full1 @ full2) res"
  using assms by (fastforce simp: sends_part_def)

lemma sends_part_stop: "sends_part accepts sent full1 (sent1, False) \<Longrightarrow> sends_part accepts sent (full1 @ full2) (sent1, False)"
  by (fastforce simp: sends_part_def)

lemma sweep_outcomes_part:
  "sends_part accepts sent (map (verify_write now) outcomes) (sweep_outcomes accepts now outcomes sent)"
proof (induction outcomes arbitrary: sent)
  case (Cons oc outcomes)
  show ?case
  proof (cases "accepts sent")
    case True
    have "sends_part accepts sent [verify_write now oc] (sent @ [verify_write now oc], True)"
      by (simp add: sends_part_def)
    from sends_part_append [OF this Cons.IH] True show ?thesis by (simp add: case_prod_beta verify_write_def)
  next
    case False
    then show ?thesis by (simp add: case_prod_beta sends_part_def)
  qed
qed (simp add: sends_part_def)

lemma sweep_chunks_part:
  "sends_part accepts sent (concat (map (chunk_writes fetch) cs)) (sweep_chunks accepts fetch cs sent)"
proof (induction cs arbitrary: sent)
  case (Cons c cs)
  show ?case
  proof (cases "fetch c")
    case (Inl e)
    then show ?thesis using Cons by (simp add: chunk_writes_def)
  next
    case (Inr x)
    obtain outcomes now where x: "x = (outcomes, now)" by (cases x)
    have one: "chunk_writes fetch c = map (verify_write now) outcomes"
      by (simp add: chunk_writes_def Inr x)
    obtain sent1 ok where r: "sweep_outcomes accepts now outcomes sent = (sent1, ok)" by fastforce
    note part = sweep_outcomes_part [of accepts sent now outcomes, unfolded r]
    show ?thesis
      using part sends_part_append [OF _ Cons.IH] sends_part_stop by (cases ok) (simp_all add: Inr x one r)
  qed
qed (simp add: sends_part_def)

lemma verify_sweep_part:
  "\<exists>kept lost. verify_sweep accepts tickers rounds sent = sent @ kept \<and>
     kept @ lost = concat (map (round_writes tickers) rounds) \<and>
     (lost \<noteq> [] \<longrightarrow> \<not> accepts (verify_sweep accepts tickers rounds sent))"
proof (induction rounds arbitrary: sent)
  case (Cons fetch rounds)
  obtain sent1 ok where r: "sweep_round accepts fetch tickers sent = (sent1, ok)" by fastforce
  have "sends_part accepts sent (round_writes tickers fetch) (sent1, ok)"
    using sweep_chunks_part [of accepts sent fetch "chunks VERIFY_SWEEP_CHUNK_SIZE tickers"] r
    by (simp add: sweep_round_def round_writes_def)
  then obtain k l where kl: "sent1 = sent @ k" "k @ l = round_writes tickers fetch" "if ok then l = [] else \<not> accepts sent1"
    unfolding sends_part_def fst_conv snd_conv by blast
  show ?case
  proof (cases ok)
    case True
    obtain k2 l2 where "verify_sweep accepts tickers rounds sent1 = sent1 @ k2"
      "k2 @ l2 = concat (map (round_writes tickers) rounds)"
      "l2 \<noteq> [] \<longrightarrow> \<not> accepts (verify_sweep accepts tickers rounds sent1)"
      using Cons.IH by blast
    with kl True r show ?thesis by (intro exI [of _ "k @ k2"] exI [of _ l2]) auto
  next
    case False
    with kl r show ?thesis by (intro exI [of _ k] exI [of _ "l @ concat (map (round_writes tickers) rounds)"]) auto
  qed
qed simp

text \<open>The report is printed whenever the writer ran, and an error of the session does not hide one of the writer.\<close>

lemma capture_session_cases:
  "capture_session base_dir (Inr ()) (Inr (Inr r)) session tree =
     (if cr_halt_error r \<noteq> None then Inl (''capture halted mid-run: '' @ the (cr_halt_error r))
      else (case session of Inl e \<Rightarrow> Inl (show_kalshi_error e) | Inr _ \<Rightarrow> Inr r),
      report_lines r base_dir (dir_bytes tree))"
  by (simp add: capture_session_def split: option.split)

section \<open>Property\<close>

text \<open>
  C31. The verify sweep sends, round after round and chunk after chunk, the books of every chunk that was answered, each
  stamped with the instant read after the answer to its own chunk; a chunk that fails takes nothing from the others,
  and the sweep stops early only when the writer no longer takes a write. The chunks are the captured tickers in
  order, at most a hundred in each.
\<close>

theorem sweep_writes_exact:
  "(\<exists>lost. verify_sweep accepts tickers rounds [] @ lost =
       concat (map (\<lambda>fetch. concat (map (chunk_writes fetch) (chunks VERIFY_SWEEP_CHUNK_SIZE tickers))) rounds) \<and>
     (lost = [] \<or> \<not> accepts (verify_sweep accepts tickers rounds []))) \<and>
   concat (chunks VERIFY_SWEEP_CHUNK_SIZE tickers) = tickers \<and>
   list_all (\<lambda>c. length c \<le> 100) (chunks VERIFY_SWEEP_CHUNK_SIZE tickers)"
  using verify_sweep_part [of accepts tickers rounds "[]"] concat_chunks [of 100 tickers] chunks_bounds [of _ 100 tickers]
  by (auto simp: round_writes_def [abs_def] VERIFY_SWEEP_CHUNK_SIZE_def list_all_iff)

text \<open>A sweep of two rounds, the first of which fails, by a writer that takes every write.\<close>

definition ex_round :: "string list \<Rightarrow> string + RestOrderbookOutcome list \<times> Timestamp" where
  "ex_round chunk = Inr (map (\<lambda>t. RestBook t [] []) chunk, 7)"

lemma ex_chunks: "chunks VERIFY_SWEEP_CHUNK_SIZE [''T'', ''U''] = [[''T'', ''U'']]"
  by (simp add: VERIFY_SWEEP_CHUNK_SIZE_def chunks.simps [of "100" "[''T'', ''U'']"] chunks.simps [of 100 "[]"])

theorem sweep_writes_exact_witness:
  "verify_sweep (\<lambda>_. True) [''T'', ''U''] [\<lambda>_. Inl ''timeout'', ex_round] [] =
     [verify_write 7 (RestBook ''T'' [] []), verify_write 7 (RestBook ''U'' [] [])]"
  using sweep_writes_exact [of "\<lambda>_. True" "[''T'', ''U'']" "[\<lambda>_. Inl ''timeout'', ex_round]"]
  by (simp add: ex_chunks chunk_writes_def ex_round_def)

end
