(* ===== verification/Outputs.thy ===== *)
theory Outputs
  imports Process_Main Capture
begin

text \<open>
  What the commands leave behind and show. Of \<^verbatim>\<open>crates/kdp-process\<close>: the writing of a ticker's files and of
  \<^verbatim>\<open>read_errors.jsonl\<close> in \<^verbatim>\<open>process.rs\<close>, and the calls of the encoders in \<^verbatim>\<open>writer.rs\<close> and \<^verbatim>\<open>inspect.rs\<close>. Of
  \<^verbatim>\<open>crates/kdp-cli\<close>: \<^verbatim>\<open>markets.jsonl\<close> of \<^verbatim>\<open>backfill.rs\<close>, and the lines that \<^verbatim>\<open>catalog.rs\<close>, \<^verbatim>\<open>discover.rs\<close> and
  \<^verbatim>\<open>backfill.rs\<close> print.

  The serializers, the table library, the outcomes of the operating system, the printing of floating-point numbers and
  the quoting of texts are parameters. A printed text is the list of its lines.

  The lemmas show that the manifest of a ticker is written last, so that one that is new means that every file it
  describes is in place; that a side file that was written holds one line for each record; that the markets of a discovery
  are read back by the backfill that is given the file; and how many of the ranked rows a listing shows.
\<close>

section \<open>Side files\<close>

text \<open>
  A file of JSON lines: it is created empty, and the lines follow one by one. The outcome of a write is \<open>None\<close>, or the error
  and how many bytes were written before it.
\<close>

datatype side_error = Creating path string | Serializing string | Writing path string

fun write_lines ::
    "('a \<Rightarrow> string + string) \<Rightarrow> path \<Rightarrow> ('a \<times> (string \<times> nat) option) list \<Rightarrow> disk \<Rightarrow> (side_error + unit) \<times> disk" where
  "write_lines to_json p [] d = (Inr (), d)"
| "write_lines to_json p ((x, io) # xs) d =
     (case to_json x of
        Inl e \<Rightarrow> (Inl (Serializing e), d)
      | Inr line \<Rightarrow>
          (case io of
             None \<Rightarrow> write_lines to_json p xs (d(p \<mapsto> bytes_at d p @ line_of line))
           | Some (e, n) \<Rightarrow> (Inl (Writing p e), d(p \<mapsto> bytes_at d p @ take n (line_of line)))))"

definition create_file :: "string + unit \<Rightarrow> path \<Rightarrow> disk \<Rightarrow> (side_error + unit) \<times> disk" where
  "create_file made p d =
     (case made of Inl e \<Rightarrow> (Inl (Creating p e), d) | Inr _ \<Rightarrow> (Inr (), d(p \<mapsto> [])))"

definition write_series_metadata ::
    "('f Market \<Rightarrow> string + string) \<Rightarrow> string + unit \<Rightarrow> path \<Rightarrow> ('f Market \<times> (string \<times> nat) option) list \<Rightarrow> disk \<Rightarrow>
     (side_error + unit) \<times> disk" where
  "write_series_metadata to_json made base_dir markets d =
     (let p = base_dir @ [''markets.jsonl''] in
      case create_file made p d of
        (Inl e, d) \<Rightarrow> (Inl e, d)
      | (Inr _, d) \<Rightarrow> write_lines to_json p markets d)"

text \<open>
  The unreadable lines of a conversion go through a buffer that is flushed at the end: the file holds all of them or the
  conversion fails; \<open>flushed\<close> is the outcome of the writes, with the part of the file that was written before an error.
\<close>

definition write_read_errors ::
    "(ReadError \<Rightarrow> string + string) \<Rightarrow> string + unit \<Rightarrow> (string \<times> nat) option \<Rightarrow> path \<Rightarrow> ReadError list \<Rightarrow> disk \<Rightarrow>
     (side_error + unit) \<times> disk" where
  "write_read_errors to_json made flushed p errors d =
     (case create_file made p d of
        (Inl e, d) \<Rightarrow> (Inl e, d)
      | (Inr _, d) \<Rightarrow>
          (case write_lines to_json p (map (\<lambda>e. (e, None)) errors) d of
             (Inl e, d) \<Rightarrow> (Inl e, d)
           | (Inr _, d) \<Rightarrow>
               (case flushed of
                  None \<Rightarrow> (Inr (), d)
                | Some (e, n) \<Rightarrow> (Inl (Writing p e), d(p \<mapsto> take n (bytes_at d p))))))"

section \<open>The files of a conversion\<close>

text \<open>
  The directory of a ticker: a file holds a table, the unreadable lines or a manifest, or what a failed write left.
  A write ends well, cannot create the file, or fails after it was created.
\<close>

datatype 'b out_file = TableFile 'b | ErrorLines "ReadError list" | ManifestFile Manifest | Broken

datatype write_end = Written | NotCreated string | WriteFailed string

type_synonym 'b out_dir = "string \<Rightarrow> 'b out_file option"

definition ticker_files :: "'b ticker_output \<Rightarrow> (string \<times> 'b out_file) list" where
  "ticker_files out =
     map (\<lambda>(name, b). (name, TableFile b)) (out_batches out) @
     (if out_read_errors out \<noteq> [] then [(''read_errors.jsonl'', ErrorLines (out_read_errors out))] else []) @
     [(''manifest.json'', ManifestFile (out_manifest out))]"

fun write_files ::
    "(string \<Rightarrow> write_end) \<Rightarrow> (string \<times> 'b out_file) list \<Rightarrow> 'b out_dir \<Rightarrow> (string + unit) \<times> 'b out_dir" where
  "write_files io [] d = (Inr (), d)"
| "write_files io ((name, content) # fs) d =
     (case io name of
        Written \<Rightarrow> write_files io fs (d(name \<mapsto> content))
      | NotCreated e \<Rightarrow> (Inl e, d)
      | WriteFailed e \<Rightarrow> (Inl e, d(name \<mapsto> Broken)))"

definition write_ticker :: "string + unit \<Rightarrow> (string \<Rightarrow> write_end) \<Rightarrow> 'b ticker_output \<Rightarrow> 'b out_dir \<Rightarrow>
    (string + unit) \<times> 'b out_dir" where
  "write_ticker made io out d =
     (case made of Inl e \<Rightarrow> (Inl e, d) | Inr _ \<Rightarrow> write_files io (ticker_files out) d)"

text \<open>
  The calls of the Arrow and Parquet libraries: creating the file, building the options, opening the writer, writing the
  batch and finishing the file; opening a table, its fields and number of rows, its first batch of a given size.
\<close>

record 'b table_lib =
  tl_create :: "string \<Rightarrow> string + unit"
  tl_zstd :: "int \<Rightarrow> string + unit"
  tl_writer :: "Format \<Rightarrow> string \<Rightarrow> 'b \<Rightarrow> string + unit"
  tl_write :: "Format \<Rightarrow> string \<Rightarrow> 'b \<Rightarrow> string + unit"
  tl_finish :: "Format \<Rightarrow> string \<Rightarrow> 'b \<Rightarrow> string + unit"
  tl_open :: "string \<Rightarrow> string + unit"
  tl_table :: "Format \<Rightarrow> string \<Rightarrow> string + (string \<times> string) list \<times> nat"
  tl_reader :: "string \<Rightarrow> nat \<Rightarrow> string + unit"
  tl_first :: "Format \<Rightarrow> string \<Rightarrow> nat option \<Rightarrow> string + 'b option"

definition ZSTD_LEVEL :: int where "ZSTD_LEVEL = 3"

definition context_of :: "string \<Rightarrow> string \<Rightarrow> string" where
  "context_of ctx e = ctx @ '': '' @ e"

definition format_name :: "Format \<Rightarrow> string" where
  "format_name format = (case format of Parquet \<Rightarrow> ''Parquet'' | Feather \<Rightarrow> ''Feather'')"

definition encode_batch :: "'b table_lib \<Rightarrow> string \<Rightarrow> Format \<Rightarrow> 'b \<Rightarrow> string + unit" where
  "encode_batch N path format batch =
     (let name = format_name format in
      and_then (case format of
          Parquet \<Rightarrow> map_err (context_of ''invalid ZSTD level'') (tl_zstd N ZSTD_LEVEL)
        | Feather \<Rightarrow> Inr ()) (\<lambda>_.
      and_then (map_err (context_of (''opening '' @ name @ '' writer'')) (tl_writer N format path batch)) (\<lambda>_.
      and_then (map_err (context_of (''writing '' @ name @ '' batch'')) (tl_write N format path batch)) (\<lambda>_.
        map_err (context_of (''closing '' @ name @ '' writer'')) (tl_finish N format path batch)))))"

definition write_batch :: "'b table_lib \<Rightarrow> string \<Rightarrow> Format \<Rightarrow> 'b \<Rightarrow> write_end" where
  "write_batch N path format batch =
     (case tl_create N path of
        Inl e \<Rightarrow> NotCreated (context_of (''creating output file '' @ path) e)
      | Inr _ \<Rightarrow> (case encode_batch N path format batch of Inl e \<Rightarrow> WriteFailed e | Inr _ \<Rightarrow> Written))"

text \<open>Only the Parquet reader knows the number of rows and takes the size of the batch.\<close>

definition read_first :: "'b table_lib \<Rightarrow> string \<Rightarrow> nat \<Rightarrow> Format \<Rightarrow>
    string + (string \<times> string) list \<times> nat option \<times> 'b option" where
  "read_first N path batch_size format =
     and_then (map_err (context_of (''opening '' @ path)) (tl_open N path)) (\<lambda>_.
     and_then (map_err (context_of (''opening '' @ format_name format @ '' '' @ path)) (tl_table N format path)) (\<lambda>(columns, total).
       case format of
         Parquet \<Rightarrow>
           and_then (map_err (context_of ''building Parquet reader'') (tl_reader N path batch_size)) (\<lambda>_.
           and_then (map_err (context_of ''reading first batch'') (tl_first N format path (Some batch_size))) (\<lambda>batch.
             Inr (columns, Some total, batch)))
       | Feather \<Rightarrow>
           and_then (map_err (context_of ''reading first batch'') (tl_first N format path None)) (\<lambda>batch.
             Inr (columns, None, batch))))"

definition inspect_head :: "'b table_lib \<Rightarrow> ('b \<Rightarrow> nat) \<Rightarrow> ('b \<Rightarrow> nat \<Rightarrow> string + string) \<Rightarrow> string \<Rightarrow> nat \<Rightarrow> Format \<Rightarrow>
    string + string list" where
  "inspect_head N num_rows encode = head_lines (read_first N) num_rows encode"

section \<open>Printed lines\<close>

text \<open>The printing of a number without decimals, and the quoting of a text.\<close>

record 'f console =
  co_fixed :: "'f \<Rightarrow> string"
  co_debug :: "string \<Rightarrow> string"

definition pad_end :: "nat \<Rightarrow> string \<Rightarrow> string" where
  "pad_end w s = s @ replicate (w - length s) (CHR '' '')"

definition pad_start :: "nat \<Rightarrow> string \<Rightarrow> string" where
  "pad_start w s = replicate (w - length s) (CHR '' '') @ s"

definition debug_opt :: "'f console \<Rightarrow> string option \<Rightarrow> string" where
  "debug_opt P v = (case v of None \<Rightarrow> ''None'' | Some s \<Rightarrow> ''Some('' @ co_debug P s @ '')'')"

definition suggestion :: "(char \<Rightarrow> bool) \<Rightarrow> string \<Rightarrow> string list" where
  "suggestion alnum series_ticker =
     (let name = universe_name alnum series_ticker;
          call = ''  kdp-cli capture-universe --series '' @ series_ticker @ '' --name '' @ name
      in [[], ''To capture this series continuously:'', [], call, [],
          ''Bounded window (tournament opt-in) -- bare date is inclusive:'', [], call @ '' --until 2026-12-31'', [],
          ''Server opt-in -- write /etc/kdp/universes/'' @ name @ ''.env:'', [],
          ''  KDP_UNIVERSE_SERIES='' @ series_ticker, ''  KDP_UNIVERSE_EXTRA=--until 2026-12-31'', [],
          ''  then: systemctl start kdp-universe@'' @ name, [],
          ''(add --max-units / --min-volume to bound breadth; see README. One-off or'',
          '' long-lived series may need capture-scheduled or a --max-hours backstop.)''])"

definition print_category_rollup :: "'f console \<Rightarrow> (string \<times> nat \<times> 'f) list \<Rightarrow> string list" where
  "print_category_rollup P rollup =
     (if rollup = [] then [''no series returned by the venue.'']
      else [[], pad_start 7 ''series'' @ ''  '' @ pad_start 14 ''volume'' @ ''  category''] @
        map (\<lambda>(category, count, volume).
          pad_start 7 (show_nat count) @ ''  '' @ pad_start 14 (co_fixed P volume) @ ''  '' @ category) rollup @ [[]])"

text \<open>At most \<open>limit\<close> of the rows, and a line that says how many are left.\<close>

definition limited :: "nat \<Rightarrow> string list \<Rightarrow> string list" where
  "limited limit rows =
     take limit rows @
     (if length rows > limit then [''... ('' @ show_nat (length rows - limit) @ '' more; raise --limit)''] else [])"

definition series_row :: "'f console \<Rightarrow> 'f float_lib \<Rightarrow> Series \<Rightarrow> string" where
  "series_row P F s =
     pad_start 14 (co_fixed P (Series_volume F s)) @ ''  '' @ pad_end 10 (sr_frequency s) @ ''  '' @
     pad_end 24 (sr_ticker s) @ ''  '' @ sr_title s"

definition print_category_series :: "'f console \<Rightarrow> 'f float_lib \<Rightarrow> Series list \<Rightarrow> string \<Rightarrow> nat \<Rightarrow> string list" where
  "print_category_series P F ranked name limit =
     (if ranked = []
      then [''no series matched category '' @ co_debug P name @ '' (case-sensitive; run 'kdp-cli catalog' to list categories)'']
      else [[], pad_start 14 ''volume'' @ ''  '' @ pad_end 10 ''frequency'' @ ''  '' @ pad_end 24 ''ticker'' @ ''  title''] @
        limited limit (map (series_row P F) ranked) @ [[]])"

text \<open>
  The rows of the drill-down: \<^verbatim>\<open>Display\<close> of a ticker writes the text and ignores the width, so its column is not padded.
\<close>

definition mover_row :: "'f console \<Rightarrow> 'f float_lib \<Rightarrow> 'f Market \<Rightarrow> string" where
  "mover_row P F m =
     pad_start 12 (co_fixed P (volume_24h F m)) @ ''  '' @ mk_ticker m @ ''  '' @ mk_title m"

definition print_drilldown :: "'f console \<Rightarrow> 'f float_lib \<Rightarrow> (char \<Rightarrow> bool) \<Rightarrow> string \<Rightarrow> 'f drilldown \<Rightarrow> string list" where
  "print_drilldown P F alnum ticker dd =
     (let s = dd_series dd; n = show_nat (dd_count dd) in
      [[], sr_title s, ''category: '' @ sr_category s @ ''  frequency: '' @ sr_frequency s] @
      (case sr_tags s of
         Some tags \<Rightarrow> if tags \<noteq> [] then [''tags: '' @ join_with '', '' tags] else []
       | None \<Rightarrow> []) @
      (if dd_truncated dd
       then [''(more than '' @ n @ '' open markets; counts and volumes below cover the first '' @ n @ '' only)''] else []) @
      (case dd_shown dd of
         None \<Rightarrow> [''no open markets right now (capture-universe re-discovers as they list)'']
       | Some (sum_volume, sum_24h, movers) \<Rightarrow>
           [n @ '' open market(s); lifetime volume '' @ co_fixed P sum_volume @ ''; 24h volume '' @ co_fixed P sum_24h,
            pad_start 12 ''24h vol'' @ ''  '' @ pad_end 34 ''ticker'' @ ''  title''] @ map (mover_row P F) movers) @
      suggestion alnum ticker)"

fun printed :: "('a \<Rightarrow> string list) \<Rightarrow> 'a get_result \<Rightarrow> string list get_result" where
  "printed lines (GotOk x) = GotOk (lines x)"
| "printed lines (GotErr e) = GotErr e"
| "printed lines GotPanic = GotPanic"

definition run_catalog ::
    "'f console \<Rightarrow> 'f float_lib \<Rightarrow> ('f \<Rightarrow> 'f \<Rightarrow> bool) \<Rightarrow> (char \<Rightarrow> bool) \<Rightarrow>
     ((string \<times> nat \<times> 'f) list \<Rightarrow> (string \<times> nat \<times> 'f) list) \<Rightarrow> Series list http \<Rightarrow> Series http \<Rightarrow>
     (nat \<Rightarrow> 'f market_http) \<Rightarrow> Args \<Rightarrow> string + string list get_result" where
  "run_catalog P F tc alnum order list_http series_http http args =
     and_then (catalog_args args) (\<lambda>view.
       Inr (case view of
              Drilldown ticker limit \<Rightarrow>
                printed (print_drilldown P F alnum ticker) (run_series_drilldown F tc series_http http ticker limit)
            | Rollup limit \<Rightarrow>
                printed (\<lambda>series. print_category_rollup P (category_rollup F tc order series)) (get_series_list list_http None)
            | InCategory name limit \<Rightarrow>
                printed (\<lambda>series. print_category_series P F (rank_series F tc series) name limit)
                  (get_series_list list_http (Some name))))"

definition market_row :: "'f console \<Rightarrow> 'f float_lib \<Rightarrow> 'f Market \<Rightarrow> string" where
  "market_row P F m =
     pad_start 12 (co_fixed P (Market_volume F m)) @ ''  '' @ pad_end 34 (mk_ticker m) @ ''  '' @ mk_title m"

definition print_discovered :: "'f console \<Rightarrow> 'f float_lib \<Rightarrow> discover_args \<Rightarrow> 'f Market list \<Rightarrow> string list" where
  "print_discovered P F da markets =
     [[], show_nat (length markets) @ '' market(s) matching query='' @ co_debug P (da_query da) @ '' series='' @
        debug_opt P (da_series da) @ '' status='' @ debug_opt P (da_status da) @ '':'',
      pad_start 12 ''volume'' @ ''  '' @ pad_end 34 ''ticker'' @ ''  title''] @
     limited (da_limit da) (map (market_row P F) markets) @ [[]]"

definition run_discover ::
    "'f console \<Rightarrow> 'f float_lib \<Rightarrow> ('f \<Rightarrow> 'f \<Rightarrow> bool) \<Rightarrow> (string \<Rightarrow> string) \<Rightarrow> (nat \<Rightarrow> 'f market_http) \<Rightarrow> Args \<Rightarrow>
     string + string list get_result" where
  "run_discover P F tc lower http args =
     and_then (discover_args_of args) (\<lambda>da.
       Inr (printed (print_discovered P F da)
         (discover_markets F tc lower http (da_query da) (da_series da) (da_status da) (da_pages da))))"

definition print_backfill_report :: "BackfillReport \<Rightarrow> string \<Rightarrow> string list" where
  "print_backfill_report r base_dir =
     (let num = (\<lambda>n :: u64. show_nat (unat n)) in
      [[], ''=== backfill run report ==='',
       ''output dir:      '' @ base_dir,
       ''pages fetched:   '' @ num (br_pages r),
       ''trades fetched:  '' @ num (br_fetched r),
       ''trades written:  '' @ num (br_written r) @ '' (incl. '' @ num (br_raw r) @ '' raw fallbacks)'',
       ''duplicates:      '' @ num (br_duplicates r)] @
      map (\<lambda>(ticker, count). ''  '' @ ticker @ '': '' @ num count) (br_per_ticker r) @
      [''==========================='', []])"

section \<open>Lemmas\<close>

lemma write_lines_other: "write_lines to_json p xs d = (r, d') \<Longrightarrow> q \<noteq> p \<Longrightarrow> d' q = d q"
  by (induction xs arbitrary: d) (auto split: sum.splits option.splits)

lemma write_lines_ok:
  "write_lines to_json p xs d = (Inr (), d') \<Longrightarrow>
     \<exists>js. map (to_json \<circ> fst) xs = map Inr js \<and> bytes_at d' p = bytes_at d p @ concat (map line_of js)"
proof (induction xs arbitrary: d)
  case (Cons x xs)
  obtain m io where x: "x = (m, io)" by (cases x)
  obtain j where j: "to_json m = Inr j" and rest: "write_lines to_json p xs (d(p \<mapsto> bytes_at d p @ line_of j)) = (Inr (), d')"
    using Cons.prems by (auto simp: x split: sum.splits option.splits)
  from Cons.IH [OF rest] obtain js where
    "map (to_json \<circ> fst) xs = map Inr js" "bytes_at d' p = (bytes_at d p @ line_of j) @ concat (map line_of js)"
    unfolding bytes_at_upd comp_def by auto
  then show ?case by (intro exI [of _ "j # js"]) (simp add: x j comp_def)
qed simp

lemma create_file_ok: "create_file made p d = (Inr (), d') \<Longrightarrow> d' = d(p \<mapsto> [])"
  by (auto simp: create_file_def split: sum.splits)

text \<open>A side file that was written holds one line for each record, and nothing else was touched.\<close>

lemma written_metadata:
  assumes "write_series_metadata to_json made base_dir markets d = (Inr (), d')"
  shows "\<exists>js. map (to_json \<circ> fst) markets = map Inr js \<and>
    bytes_at d' (base_dir @ [''markets.jsonl'']) = concat (map line_of js)"
    and "q \<noteq> base_dir @ [''markets.jsonl''] \<Longrightarrow> d' q = d q"
proof -
  let ?p = "base_dir @ [''markets.jsonl'']"
  have w: "write_lines to_json ?p markets (d(?p \<mapsto> [])) = (Inr (), d')"
    using assms by (auto simp: write_series_metadata_def Let_def split: prod.splits sum.splits dest: create_file_ok)
  show "\<exists>js. map (to_json \<circ> fst) markets = map Inr js \<and> bytes_at d' ?p = concat (map line_of js)"
    using write_lines_ok [OF w] by (simp add: bytes_at_upd)
  show "q \<noteq> ?p \<Longrightarrow> d' q = d q" using write_lines_other [OF w] by simp
qed

lemma written_read_errors:
  assumes "write_read_errors to_json made flushed p errors d = (Inr (), d')"
    and "\<And>e j. to_json e = Inr j \<Longrightarrow> json_line j"
  shows "map Inr (buf_lines (bytes_at d' p)) = map to_json errors"
proof -
  have w: "write_lines to_json p (map (\<lambda>e. (e, None)) errors) (d(p \<mapsto> [])) = (Inr (), d')"
    using assms(1) by (auto simp: write_read_errors_def split: prod.splits sum.splits option.splits dest: create_file_ok)
  obtain js where js: "map to_json errors = map Inr js" and b: "bytes_at d' p = concat (map line_of js)"
    using write_lines_ok [OF w] by (auto simp: bytes_at_upd comp_def)
  have "json_line j" if "j \<in> set js" for j
  proof -
    from that have "Inr j \<in> set (map to_json errors)" by (simp add: js)
    then show ?thesis using assms(2) by auto
  qed
  then show ?thesis by (simp add: js b buf_lines_lines list_all_iff)
qed

text \<open>A market whose line is read back as it was written.\<close>

definition market_codec :: "('f Market \<Rightarrow> string + string) \<Rightarrow> (string \<Rightarrow> string + 'f Market) \<Rightarrow> 'f Market \<Rightarrow> bool" where
  "market_codec to_json parse m \<longleftrightarrow>
     (case to_json m of Inl _ \<Rightarrow> False | Inr j \<Rightarrow> json_line j \<and> trim j = j \<and> j \<noteq> [] \<and> parse j = Inr m)"

lemma markets_of_written:
  assumes "list_all2 (\<lambda>m j. trim j = j \<and> j \<noteq> [] \<and> parse j = Inr m) ms js"
  shows "markets_of_lines parse rfc mn mx js out =
    Inr (out @ filter (\<lambda>m. market_close_in_window rfc (mk_close_time m) mn mx) ms)"
  using assms by (induction arbitrary: out rule: list_all2_induct) auto

text \<open>
  What a discovery writes, a backfill that is given the file reads back: exactly the markets of its window, in order.
\<close>

theorem markets_file_reads_back:
  assumes "write_series_metadata to_json made base_dir markets d = (Inr (), d')"
    and "list_all (market_codec to_json parse) (map fst markets)"
  shows "load_markets_file parse rfc mn mx (Inr (bytes_at d' (base_dir @ [''markets.jsonl'']))) =
    Inr (filter (\<lambda>m. market_close_in_window rfc (mk_close_time m) mn mx) (map fst markets))"
proof -
  obtain js where js: "map (to_json \<circ> fst) markets = map Inr js"
    and b: "bytes_at d' (base_dir @ [''markets.jsonl'']) = concat (map line_of js)"
    using written_metadata(1) [OF assms(1)] by blast
  have len: "length markets = length js" using js by (rule map_eq_imp_length_eq)
  have j: "to_json (fst (markets ! i)) = Inr (js ! i)" if "i < length js" for i
    using arg_cong [OF js, of "\<lambda>l. l ! i"] that len by simp
  have codec: "market_codec to_json parse (fst (markets ! i))" if "i < length js" for i
    using assms(2) that len by (simp add: list_all_length)
  have "list_all2 (\<lambda>m j. trim j = j \<and> j \<noteq> [] \<and> parse j = Inr m) (map fst markets) js"
    using codec j len by (simp add: list_all2_conv_all_nth market_codec_def)
  moreover have "list_all json_line js"
    using codec j by (auto simp: list_all_length market_codec_def)
  ultimately show ?thesis
    by (simp add: load_markets_file_def b buf_lines_lines markets_of_written)
qed

text \<open>A listing shows the first rows, and says exactly how many it leaves out.\<close>

lemma limited_rows:
  "\<exists>note. limited n rows = take n rows @ note \<and> (note = [] \<longleftrightarrow> length rows \<le> n) \<and> length note \<le> 1"
  by (auto simp: limited_def)

lemma limited_whole: "length rows \<le> n \<Longrightarrow> limited n rows = rows"
  by (simp add: limited_def)

section \<open>Tables as files\<close>

lemma write_batch_Written:
  "write_batch N path format batch = Written \<longleftrightarrow> tl_create N path = Inr () \<and> encode_batch N path format batch = Inr ()"
  by (auto simp: write_batch_def split: sum.splits)

section \<open>The manifest is written last\<close>

lemma write_files_other: "write_files io fs d = (r, d') \<Longrightarrow> q \<notin> fst ` set fs \<Longrightarrow> d' q = d q"
  by (induction io fs d rule: write_files.induct) (auto split: write_end.splits)

lemma write_files_ok:
  "write_files io fs d = (Inr (), d') \<Longrightarrow> distinct (map fst fs) \<Longrightarrow> (name, c) \<in> set fs \<Longrightarrow> d' name = Some c"
proof (induction io fs d rule: write_files.induct)
  case (2 io n c' fs d)
  then have w: "write_files io fs (d(n \<mapsto> c')) = (Inr (), d')" and io: "io n = Written" by (auto split: write_end.splits)
  show ?case
  proof (cases "(name, c) \<in> set fs")
    case True
    then show ?thesis using "2.IH" [OF io w] "2.prems"(2) True by simp
  next
    case False
    then show ?thesis using "2.prems"(2,3) write_files_other [OF w, of n] by auto
  qed
qed simp

text \<open>A sequence that fails has left its last file alone or broken.\<close>

lemma write_files_failed:
  "write_files io (fs @ [(name, c)]) d = (Inl e, d') \<Longrightarrow> name \<notin> fst ` set fs \<Longrightarrow> d' name \<in> {d name, Some Broken}"
  by (induction io fs d rule: write_files.induct) (auto split: write_end.splits)

definition table_stems :: "string list" where
  "table_stems = [''book_events.'', ''book_top.'', ''trades.'', ''gaps.'', ''raw.'', ''verify.'']"

lemma out_batch_names:
  assumes "process_ticker P A ticker ext dir ob tr = Inr (Some (oc, out))"
  shows "\<exists>stems. distinct stems \<and> set stems \<subseteq> set table_stems \<and> map fst (out_batches out) = map (\<lambda>stem. stem @ ext) stems"
proof -
  obtain p sf f where "report P A ticker ext dir p sf f = (oc, out)"
    using assms by (auto simp: process_ticker_def conclude_def Let_def and_then_Inr_iff split: if_splits prod.splits)
  then have "out_batches out =
      [(''book_events.'' @ ext, fin_book_events f), (''book_top.'' @ ext, fin_book_top f),
       (''trades.'' @ ext, fin_trades f), (''gaps.'' @ ext, fin_gaps f)] @
      (if ct_raw (finished_counts A f) > 0 then [(''raw.'' @ ext, fin_raw f)] else []) @
      (if ct_verify (finished_counts A f) > 0 then [(''verify.'' @ ext, fin_verify f)] else [])"
    by (auto simp: report_def Let_def split: prod.splits)
  then show ?thesis
    by (intro exI [of _ "[''book_events.'', ''book_top.'', ''trades.'', ''gaps.''] @
      (if ct_raw (finished_counts A f) > 0 then [''raw.''] else []) @
      (if ct_verify (finished_counts A f) > 0 then [''verify.''] else [])"]) (simp add: table_stems_def)
qed

lemma ticker_files_names:
  assumes "process_ticker P A ticker ext dir ob tr = Inr (Some (oc, out))"
  shows "distinct (map fst (ticker_files out))"
proof -
  obtain stems where d: "distinct stems" and stems: "set stems \<subseteq> set table_stems"
    and names: "map fst (out_batches out) = map (\<lambda>stem. stem @ ext) stems"
    using out_batch_names [OF assms] by blast
  have d: "distinct (map fst (out_batches out))" using d by (simp add: names distinct_map inj_on_def)
  have "name \<noteq> ''manifest.json'' \<and> name \<noteq> ''read_errors.jsonl''" if "name \<in> fst ` set (out_batches out)" for name
  proof -
    from that have "name \<in> set (map (\<lambda>stem. stem @ ext) stems)" by (simp flip: names)
    then obtain stem where "stem \<in> set table_stems" "name = stem @ ext" using stems by auto
    then show ?thesis by (auto simp: table_stems_def)
  qed
  then have "''manifest.json'' \<notin> fst ` set (out_batches out)" "''read_errors.jsonl'' \<notin> fst ` set (out_batches out)" by blast+
  moreover have "map fst (map (\<lambda>(name, b). (name, TableFile b)) (out_batches out)) = map fst (out_batches out)"
    by (simp add: comp_def split_def)
  ultimately show ?thesis using d by (simp add: ticker_files_def image_image split_def comp_def)
qed

lemma batch_file: "(name, b) \<in> set (out_batches out) \<Longrightarrow> (name, TableFile b) \<in> set (ticker_files out)"
  by (force simp: ticker_files_def)

text \<open>
  C26. The manifest is the last file of a conversion. When the writing of a ticker ends well, the manifest and every table
  it describes are in place, and the unreadable lines if there are any. When it fails at any point, no manifest of this
  conversion is there: the file is what it was before, or was broken by its own write. No other file is touched.
\<close>

theorem manifest_is_last:
  assumes "process_ticker P A ticker ext dir ob tr = Inr (Some (oc, out))" and "write_ticker made io out d = (r, d')"
  shows "(r = Inr () \<longrightarrow> d' ''manifest.json'' = Some (ManifestFile (out_manifest out)) \<and>
       (\<forall>(name, b) \<in> set (out_batches out). d' name = Some (TableFile b)) \<and>
       (out_read_errors out \<noteq> [] \<longrightarrow> d' ''read_errors.jsonl'' = Some (ErrorLines (out_read_errors out)))) \<and>
    (r \<noteq> Inr () \<longrightarrow> d' ''manifest.json'' \<in> {d ''manifest.json'', Some Broken}) \<and>
    (\<forall>name. name \<notin> fst ` set (ticker_files out) \<longrightarrow> d' name = d name)"
proof (cases made)
  case (Inl e)
  then show ?thesis using assms(2) by (auto simp: write_ticker_def)
next
  case (Inr u)
  then have w: "write_files io (ticker_files out) d = (r, d')" using assms(2) by (simp add: write_ticker_def)
  note names = ticker_files_names [OF assms(1)]
  have ok: "d' name = Some c" if "r = Inr ()" "(name, c) \<in> set (ticker_files out)" for name c
    using write_files_ok [OF _ names that(2)] w that(1) by simp
  obtain fs where fs: "ticker_files out = fs @ [(''manifest.json'', ManifestFile (out_manifest out))]"
    by (simp add: ticker_files_def)
  then have "''manifest.json'' \<notin> fst ` set fs" using names by simp
  then have "d' ''manifest.json'' \<in> {d ''manifest.json'', Some Broken}" if "r = Inl e" for e
    using w that unfolding fs by (intro write_files_failed) simp_all
  then have "r \<noteq> Inr () \<longrightarrow> d' ''manifest.json'' \<in> {d ''manifest.json'', Some Broken}" by (cases r) auto
  moreover have "r = Inr () \<longrightarrow> d' ''manifest.json'' = Some (ManifestFile (out_manifest out))"
    using ok by (simp add: ticker_files_def)
  moreover have "r = Inr () \<longrightarrow> (\<forall>(name, b) \<in> set (out_batches out). d' name = Some (TableFile b))"
    using ok batch_file by fast
  moreover have "r = Inr () \<longrightarrow> out_read_errors out \<noteq> [] \<longrightarrow>
      d' ''read_errors.jsonl'' = Some (ErrorLines (out_read_errors out))"
    using ok by (simp add: ticker_files_def)
  ultimately show ?thesis using write_files_other [OF w] by blast
qed

text \<open>A run over an older output that fails at its second table leaves the older manifest beside the new first table.\<close>

lemma failed_rerun:
  assumes "ticker_files out = (first', c) # (second', c') # fs" and "first' \<noteq> second'" and "first' \<noteq> ''manifest.json''"
    and "write_ticker (Inr ()) (\<lambda>n. if n = second' then NotCreated e else Written) out d = (r, d')"
  shows "r = Inl e" and "d' first' = Some c" and "d' ''manifest.json'' = d ''manifest.json''"
  using assms by (auto simp: write_ticker_def)

text \<open>A conversion that is written, and the same on a full disk over an older manifest, which stays.\<close>

lemma write_files_all: "fst (write_files (\<lambda>_. Written) fs d) = Inr ()"
  by (induction fs arbitrary: d) auto

lemma write_files_none: "fs \<noteq> [] \<Longrightarrow> write_files (\<lambda>_. NotCreated e) fs d = (Inl e, d)"
  by (cases fs) auto

theorem manifest_is_last_witness:
  "\<exists>oc out. process_ticker ex_params plain_arrow [] [] [] ex_files [] = Inr (Some (oc, out)) \<and>
     snd (write_ticker (Inr ()) (\<lambda>_. Written) out Map.empty) ''manifest.json'' = Some (ManifestFile (out_manifest out)) \<and>
     snd (write_ticker (Inr ()) (\<lambda>_. NotCreated ''full'') out
       [''manifest.json'' \<mapsto> ManifestFile ((out_manifest out)\<lparr>m_format := ''old''\<rparr>)]) ''manifest.json'' =
     Some (ManifestFile ((out_manifest out)\<lparr>m_format := ''old''\<rparr>))"
proof -
  obtain oc out where ok: "process_ticker ex_params plain_arrow [] [] [] ex_files [] = Inr (Some (oc, out))"
    using ex_process by blast
  let ?old = "ManifestFile ((out_manifest out)\<lparr>m_format := ''old''\<rparr>)"
  obtain r1 d1 where w1: "write_ticker (Inr ()) (\<lambda>_. Written) out Map.empty = (r1, d1)" by fastforce
  obtain r2 d2 where w2: "write_ticker (Inr ()) (\<lambda>_. NotCreated ''full'') out [''manifest.json'' \<mapsto> ?old] = (r2, d2)"
    by fastforce
  have r1: "r1 = Inr ()"
    using arg_cong [OF w1, of fst] by (simp add: write_ticker_def write_files_all)
  have r2: "r2 = Inl ''full'' \<and> d2 ''manifest.json'' \<noteq> Some Broken"
    using w2 by (auto simp: write_ticker_def write_files_none ticker_files_def)
  have "d1 ''manifest.json'' = Some (ManifestFile (out_manifest out))"
    using manifest_is_last [OF ok w1] r1 by blast
  moreover have "d2 ''manifest.json'' = Some ?old"
    using manifest_is_last [OF ok w2] r2 by auto
  ultimately show ?thesis using ok w1 w2 by (metis snd_conv)
qed

end
