(* ===== verification/Spec2Isabelle.thy ===== *)
theory Spec2Isabelle
  imports Pipeline Python_Loader Rate_Limit Table_Types Process_Main Shutdown Cli_Main Outputs
begin

text \<open>
  A verification development for the capture pipeline of \<^verbatim>\<open>src/crates\<close>: prediction-market order books and
  trades are captured from a venue to JSON lines, converted to columnar tables, and replayed.

  The program and its parts. \<^verbatim>\<open>kdp-core\<close> holds the units, records and the order book. \<^verbatim>\<open>kdp-kalshi\<close> talks
  to the venue: the WebSocket session with its frame decoder, sequence tracker and backoff, and the REST
  client. \<^verbatim>\<open>kdp-store\<close> appends JSON lines to daily files. \<^verbatim>\<open>kdp-cli\<close> captures: one writer drains the events
  of a session into the store, a sweep fetches books to verify them by, and supervisors decide what to capture
  and when (the scheduled, the hourly and the universe supervisor over a shared spine, and the trade backfill). \<^verbatim>\<open>kdp-process\<close> converts the files of a
  ticker to tables with a manifest and a verdict on every verify observation. \<^verbatim>\<open>kdp-load\<close> merges the tables
  into one time-ordered stream and replays it; \<^verbatim>\<open>kdp-load-py\<close> offers that to Python.

  Theories and sources, in the order in which data flows:

  \<^item> \<open>Prelude\<close>, \<open>Ordered_Map\<close>, \<open>Sorted_By\<close>, \<open>Transition\<close>: machine integers, results, \<^verbatim>\<open>BTreeMap\<close>, sorting under a
    comparator, and the interfaces \<open>stepwise_invariant\<close> (invariants of every run) and \<open>polling\<close> (loops that ask
    the outside world once per round).
  \<^item> \<open>Units\<close>, \<open>Records\<close>, \<open>Book\<close>: \<^verbatim>\<open>kdp-core/src/units.rs\<close>, \<^verbatim>\<open>ids.rs\<close>, \<^verbatim>\<open>records.rs\<close>, \<^verbatim>\<open>envelope.rs\<close>, \<^verbatim>\<open>book.rs\<close>.
  \<^item> \<open>Seq_Gap\<close>, \<open>Backoff\<close>, \<open>Protocol\<close>, \<open>Session\<close>: \<^verbatim>\<open>kdp-kalshi/src/ws/gap.rs\<close>, \<^verbatim>\<open>backoff.rs\<close>, \<^verbatim>\<open>protocol.rs\<close>, \<^verbatim>\<open>session.rs\<close>.
  \<^item> \<open>Connection\<close>: \<^verbatim>\<open>kdp-kalshi/src/auth.rs\<close>, \<^verbatim>\<open>ws/handshake.rs\<close>, \<^verbatim>\<open>ws.rs\<close> and the error type of \<^verbatim>\<open>lib.rs\<close>.
  \<^item> \<open>Rate_Limit\<close>: \<^verbatim>\<open>kdp-kalshi/src/ratelimit.rs\<close>.
  \<^item> \<open>Rest\<close>, \<open>Catalog\<close>: \<^verbatim>\<open>kdp-kalshi/src/rest.rs\<close>, \<^verbatim>\<open>kdp-cli/src/catalog.rs\<close>, \<^verbatim>\<open>discover.rs\<close>.
  \<^item> \<open>Store\<close>, \<open>Capture\<close>: \<^verbatim>\<open>kdp-store/src\<close>, \<^verbatim>\<open>kdp-cli/src/capture.rs\<close>.
  \<^item> \<open>Command_Line\<close>, \<open>Event_Time\<close>, \<open>Supervisor\<close>, \<open>Universe\<close>, \<open>Scheduled\<close>, \<open>Hourly\<close>, \<open>Backfill\<close>, \<open>Commands\<close>:
    \<^verbatim>\<open>kdp-cli/src/args.rs\<close>, \<^verbatim>\<open>event_time.rs\<close>, \<^verbatim>\<open>supervisor.rs\<close>, \<^verbatim>\<open>universe.rs\<close>, \<^verbatim>\<open>schedule.rs\<close> and \<^verbatim>\<open>scheduled.rs\<close>,
    \<^verbatim>\<open>hourly.rs\<close>, \<^verbatim>\<open>backfill.rs\<close>, and the flags of all of them.
  \<^item> \<open>Shutdown\<close>, \<open>Cli_Main\<close>: the shutdown, parking and draining of \<^verbatim>\<open>kdp-cli/src/supervisor.rs\<close>; \<^verbatim>\<open>kdp-cli/src/main.rs\<close>
    and the capture command of \<^verbatim>\<open>capture.rs\<close> around the writer.
  \<^item> \<open>Outputs\<close>: the writing of a ticker's files and the table library calls of \<^verbatim>\<open>writer.rs\<close> and \<^verbatim>\<open>inspect.rs\<close>, the side
    files \<^verbatim>\<open>markets.jsonl\<close> and \<^verbatim>\<open>read_errors.jsonl\<close>, and what \<^verbatim>\<open>catalog.rs\<close>, \<^verbatim>\<open>discover.rs\<close> and \<^verbatim>\<open>backfill.rs\<close> print.
  \<^item> \<open>Verify_Engine\<close>, \<open>Tables\<close>, \<open>Process\<close>: \<^verbatim>\<open>kdp-process/src/verify.rs\<close>, \<^verbatim>\<open>tables.rs\<close>, \<^verbatim>\<open>process.rs\<close> with \<^verbatim>\<open>reader.rs\<close>
    and \<^verbatim>\<open>manifest.rs\<close>.
  \<^item> \<open>Table_Types\<close>, \<open>Process_Main\<close>: the schemas of the six tables, and \<^verbatim>\<open>kdp-process/src/main.rs\<close>, \<^verbatim>\<open>args.rs\<close>,
    \<^verbatim>\<open>inspect.rs\<close> and the naming of files of \<^verbatim>\<open>writer.rs\<close>.
  \<^item> \<open>Load_Reader\<close>, \<open>Merge\<close>, \<open>Replay\<close>, \<open>Python_Loader\<close>: \<^verbatim>\<open>kdp-load/src\<close> and \<^verbatim>\<open>kdp-load-py/src/lib.rs\<close>.
  \<^item> \<open>Lossless\<close>, \<open>Pipeline\<close> and this theory: what spans the components.

  State and operations. A struct of the sources is a record with the same fields, an enum a datatype, and a
  method a function from the state to the state, or to an error and the state, with the branches of the
  code in their order. Unsigned integers of the data path are words; signed 64-bit integers are integers
  whose arithmetic wraps explicitly, as in a release build; counts and durations of the tools are natural numbers with
  the checks, saturations and wraps of the code written out. A loop over a list is a structural recursion,
  a bounded loop a function with a termination proof, and a loop that may ask for ever a partial function
  whose result is an option; it is an instance of \<open>polling\<close>, and its return is proved where the code
  guarantees one. The endless loops of the session and of the supervisors are step functions over the
  outcomes of the calls they await, and their properties are invariants of every run. No fuel is used.

  What is a parameter: JSON parsing and printing, the Arrow and Parquet libraries (through the law that a
  batch that was written is read back), the RSA and base64 packages (\<open>auth_lib\<close>), the HTTP and WebSocket
  libraries and connections (\<open>ws_lib\<close>, and the answers of the server), the file system's outcomes (\<open>fs\<close>), the
  clock, the calendar and instants of \<^verbatim>\<open>chrono\<close>, floating-point arithmetic (\<open>rate_ops\<close>, \<open>floor_lib\<close>), the Unicode
  case and class mappings, and the traversal order of hash maps. Texts are lists of characters, and white
  space is that of ASCII.

  What the lemmas show:

  \<^item> The number parsers accept exactly the literals they should, with the exact value; the book tracks its
    levels, its totals are the sums of its levels, and it implements an abstract book.
  \<^item> Every upgrade request is one the server accepts and the text that is signed is unambiguous; with exact
    arithmetic the rate limiter keeps its rate in every stretch of a run.
  \<^item> The decoder gives data exactly for the frames that denote it and keeps every other frame; the session
    never lets a hole pass without a gap marker, withholds only repeats, and goes on until it is told to stop.
  \<^item> The files of a capture hold exactly the lines of its events, each in its own stream and day, and
    read back as they were written. The verify sweep sends the books of every answered chunk, stamped
    with the instant of their own answer.
  \<^item> The conversion accounts for every record, fails only on an oversized quantity, and counts each
    microsecond of a hole once; a mismatch verdict means that no state of the book in the window agrees.
    Every file it writes is typed by the schema of its table.
  \<^item> The merged stream is complete and in time order; a range replay gives the events of the range after
    the book at its start; the book at an instant is right below the largest one.
  \<^item> End to end: reading back the tables of a conversion gives the captured book, gaps and trades, and what
    the wire delivered is what the replay ends in.
  \<^item> The supervisors: a unit's watcher ends; a cohort is armed at most once at a time, within the cap;
    scheduled entries are handled in order and not early; each hour is armed at most once with the band of
    its full ladder; a backfill writes each distinct trade once, from the markets its flags denote; a
    configuration that reaches the universe loop is within its bounds; a parked supervisor stays until the
    shutdown and then drains what is left, within thirty seconds for each task.
  \<^item> The manifest of a conversion is written last: a new one means that all its files are in place, and a
    failed run leaves none of its own. A side file holds one line for each record; the markets a discovery
    lists are read back by the backfill that is given its file.

  Not modelled, and why: the inside of the Parquet and Arrow encoders and of the HTTP and WebSocket libraries
  (third-party code), the serde derives (generated code), the usage texts, the signal handlers and the log
  lines, and how the runtime interleaves its tasks: the tasks are modelled one by one, and what they hand
  to each other is the input of the next.
\<close>

section \<open>From capture to replay\<close>

text \<open>
  C2. Capture to replay is lossless. When a ticker has been converted and its Parquet tables are read
  back, the merged stream opens; the only error it can report is an ordering violation; and when
  it reports none, applying its events to a fresh replayer ends in exactly the book, levels,
  totals and underflow count, that applying the captured snapshots and deltas in capture order
  gives, its gap events are the recorded gaps, and its trades are the captured ones, deduplicated.
\<close>

theorem capture_replay_lossless:
  assumes "arrow_ok A" and "process_ticker P A ticker ''parquet'' dir ob tr = Inr (Some (oc, out))"
    and "stored A (out_batches out) tables"
  shows "\<exists>it. EventIter_open A tables = Inr it \<and>
    (\<forall>e. Inl e \<in> set (event_items it) \<longrightarrow> (\<exists>a b. e = OrderViolation a b)) \<and>
    (no_errors (event_items it) \<longrightarrow>
       rp_book (fold replayer_apply (rights (event_items it)) BookReplayer_default) =
         fold apply_msg (of_items item_msgs (input_items P ob tr)) Book_default \<and>
       filter (\<lambda>ev. ev_lane ev = GapLane) (rights (event_items it)) =
         map (\<lambda>r. gap_event (loaded_gap r)) (all_gaps P ticker (input_items P ob tr)) \<and>
       filter (\<lambda>ev. ev_lane ev = TradeLane) (rights (event_items it)) =
         map (\<lambda>(i, row). trade_event row) (sort_key (\<lambda>(i, r). trade_key r i)
           (dedup_trades (zip [0..<length (of_items item_trades (input_items P ob tr))]
              (map loaded_trade (of_items item_trades (input_items P ob tr)))))))"
  by (rule capture_replay [OF assms])

text \<open>A capture of one snapshot and one delta, kept by a store that returns each batch unchanged.\<close>

definition ex_decode :: "string \<Rightarrow> string + Envelope" where
  "ex_decode text =
     (if text = ''s'' then Inr (Envelope_new 1000 (Some 1) (Some 7) (Snapshot
        \<lparr>os_ticker = ''T'', os_ts = 1000, os_yes = [\<lparr>pl_price = 400000, pl_quantity = 500\<rparr>], os_no = []\<rparr>))
      else if text = ''d'' then Inr (Envelope_new 2000 (Some 2) (Some 7) (Delta
        \<lparr>od_ticker = ''T'', od_ts = 2000, od_side = Yes, od_price = 400000, od_delta = - 200\<rparr>))
      else Inl ''bad'')"

definition ex_capture_params :: env_params where
  "ex_capture_params = ex_params\<lparr>ep_from_str := ex_decode\<rparr>"

definition ex_capture :: "jsonl_file list" where
  "ex_capture = [(''2025-01-01.jsonl'', [Inr ''s'', Inr ''d''])]"

definition ex_store :: "(string \<times> columns) list \<Rightarrow> string \<Rightarrow> LoadError + (string + columns) list" where
  "ex_store batches name =
     (case map_of batches (name @ ''.parquet'') of
        Some b \<Rightarrow> Inr [Inr b] | None \<Rightarrow> Inl (MissingTable name (name @ ''.parquet'')))"

lemma ex_stored: "stored plain_arrow batches (ex_store batches)"
  unfolding stored_def
proof (intro allI impI)
  fix name b
  assume "map_of batches (name @ ''.parquet'') = Some b"
  then show "\<exists>bs. ex_store batches name = Inr (map Inr bs) \<and> reads_back plain_arrow b bs"
    using reads_back_whole [of plain_arrow b] by (intro exI [of _ "[b]"]) (simp add: ex_store_def)
qed

theorem capture_replay_lossless_witness:
  "\<exists>oc out it. process_ticker ex_capture_params plain_arrow ''T'' ''parquet'' [] ex_capture [] = Inr (Some (oc, out)) \<and>
     EventIter_open plain_arrow (ex_store (out_batches out)) = Inr it \<and>
     (no_errors (event_items it) \<longrightarrow>
        rp_book (fold replayer_apply (rights (event_items it)) BookReplayer_default) =
          fold apply_msg (of_items item_msgs (input_items ex_capture_params ex_capture [])) Book_default)"
proof -
  have "list_all item_fits (input_items ex_capture_params ex_capture [])"
    by (simp add: input_items_def ex_capture_params_def ex_capture_def read_envelopes_def ex_decode_def
        is_whitespace_def Let_def qty_fits_def)
  then obtain oc out where
    ok: "process_ticker ex_capture_params plain_arrow ''T'' ''parquet'' [] ex_capture [] = Inr (Some (oc, out))"
    using process_ticker_result [OF arrow_ok_plain, of ex_capture "[]" ex_capture_params "''T''" "''parquet''" "[]"]
    by (auto simp: ex_capture_def)
  from capture_replay_lossless [OF arrow_ok_plain ok ex_stored] ok show ?thesis by blast
qed

section \<open>From the wire to the replayed book\<close>

text \<open>
  C1. From the wire to the replayed book nothing is lost: take the events of any reachable session, let
  the writer store them on a fresh disk, in any interleaving with verify writes and without a halt,
  convert the day files of a ticker and read its tables back. The merged stream opens, and when it
  reports no error, replaying it ends in exactly the book that the snapshots and deltas the
  session emitted for the ticker give in the order they were emitted.
\<close>

theorem wire_to_replayed_book:
  assumes "reachable (session_step env) session_start s"
    and "writer_start C av d0 = Inr w0" and "inj (sl_show_day (wc_store C))" and "\<And>k. d0 (day_file C k) = None"
    and "run_inputs (writer_step C) is w0 = Some w" and "cr_halt_error (w_report w) = None"
    and "input_events is = ss_sent s" and "list_all verify_write_ok is"
    and "sorted days" and "distinct days" and "write_day ` set (all_writes is) \<subseteq> set days"
    and "sorted (map write_day (all_writes is))"
    and "\<And>x. x \<in> set (all_writes is) \<Longrightarrow> codec_ok (wc_json C) (ep_from_str P) (write_env x)"
    and "arrow_ok A"
    and "process_ticker P A t ''parquet'' dir (stream_files C (w_disk w) t ''orderbook'' days)
       (stream_files C (w_disk w) t ''trade'' days) = Inr (Some (oc, out))"
    and "stored A (out_batches out) tables"
  shows "\<exists>it. EventIter_open A tables = Inr it \<and>
    (no_errors (event_items it) \<longrightarrow>
       rp_book (fold replayer_apply (rights (event_items it)) BookReplayer_default) =
         fold apply_msg (captured_msgs t (ss_sent s)) Book_default)"
  using capture_replay [OF assms(14,15,16)] wire_to_tables [OF assms(1-13)] by auto

text \<open>The session of \<open>ex_session\<close>, stored, converted and replayed.\<close>

definition ex_wire :: session where
  "ex_wire = ex_session [IConnected 101 0, IText ''S'' 1, IText ''D'' 2]"

definition ex_kind_json :: "Envelope \<Rightarrow> string" where
  "ex_kind_json env = (case e_kind env of Snapshot _ \<Rightarrow> ''s'' | Delta _ \<Rightarrow> ''d'' | _ \<Rightarrow> ''g'')"

definition ex_wire_cfg :: writer_cfg where
  "ex_wire_cfg = ex_cfg\<lparr>wc_json := ex_kind_json\<rparr>"

definition ex_wire_inputs :: "writer_input list" where
  "ex_wire_inputs = map (\<lambda>e. WEvent e ex_io (Inr 9)) (ss_sent ex_wire) @ [WRxClosed, WDrainEmpty, WFinal (Inr 9)]"

definition ex_wire_decode :: "string \<Rightarrow> string + Envelope" where
  "ex_wire_decode j =
     (case find (\<lambda>x. ex_kind_json (write_env x) = j) (all_writes ex_wire_inputs) of
        Some x \<Rightarrow> Inr (write_env x) | None \<Rightarrow> Inl ''bad'')"

definition ex_wire_params :: env_params where
  "ex_wire_params = ex_params\<lparr>ep_from_str := ex_wire_decode\<rparr>"

lemma ex_wire_sent: "ss_sent ex_wire =
   [\<lparr>ce_recv_ts = 1, ce_frame = \<lparr>df_sid = Some 1, df_seq = Some 5, df_outcome = FData ''orderbook'' ''T''
       (Snapshot \<lparr>os_ticker = ''T'', os_ts = 1, os_yes = [], os_no = []\<rparr>)\<rparr>\<rparr>,
    gap_capture_event 2 (Some 1) ''orderbook'' (seq_jump_marker ''orderbook'' 1 (Some 5) 8 ''T''),
    \<lparr>ce_recv_ts = 2, ce_frame = \<lparr>df_sid = Some 1, df_seq = Some 8, df_outcome = FData ''orderbook'' ''T''
       (Delta \<lparr>od_ticker = ''T'', od_ts = 2, od_side = Yes, od_price = 500000, od_delta = - 100\<rparr>)\<rparr>\<rparr>]"
  by (simp add: ex_wire_def Session.ex_defs CHANNEL_ORDERBOOK_def)

lemma ex_wire_writes: "all_writes ex_wire_inputs =
   [(ex_io, ''T'', ''orderbook'', Envelope_new 1 (Some 5) (Some 1)
       (Snapshot \<lparr>os_ticker = ''T'', os_ts = 1, os_yes = [], os_no = []\<rparr>)),
    (ex_io, ''T'', ''orderbook'', Envelope_new 2 None (Some 1) (Gap (seq_jump_marker ''orderbook'' 1 (Some 5) 8 ''T''))),
    (ex_io, ''T'', ''orderbook'', Envelope_new 2 (Some 8) (Some 1)
       (Delta \<lparr>od_ticker = ''T'', od_ts = 2, od_side = Yes, od_price = 500000, od_delta = - 100\<rparr>))]"
  by (simp add: ex_wire_inputs_def ex_wire_sent event_action_def classify_def safe_ticker_def is_safe_segment_def
      gap_capture_event_def seq_jump_marker_def Let_def)

lemma ex_wire_codec: "x \<in> set (all_writes ex_wire_inputs) \<Longrightarrow>
    codec_ok (wc_json ex_wire_cfg) (ep_from_str ex_wire_params) (write_env x)"
  by (auto simp: ex_wire_writes codec_ok_def ex_wire_cfg_def ex_wire_params_def ex_wire_decode_def ex_kind_json_def
      json_line_def is_whitespace_def)

lemma ex_wire_run: "\<exists>w. run_inputs (writer_step ex_wire_cfg) ex_wire_inputs ex_writer = Some w \<and>
    cr_halt_error (w_report w) = None"
  by (simp add: ex_wire_inputs_def ex_wire_sent writer_step.simps ex_writer_def write_record_def stream_append_def
      StreamSet_new_def JsonlWriter_new_def is_safe_segment_def ex_io_def ex_wire_cfg_def ex_cfg_def
      writer_append_def jsonl_append_def rotate_if_needed_def after_write_def Let_def guard_check_def
      writer_guard_def DiskGuard_new_def DISK_CHECK_EVERY_def count_write_def CaptureReport_default_def
      classify_def safe_ticker_def gap_capture_event_def seq_jump_marker_def om_get_def)

theorem wire_to_replayed_book_witness:
  "\<exists>w oc out it. run_inputs (writer_step ex_wire_cfg) ex_wire_inputs ex_writer = Some w \<and>
     process_ticker ex_wire_params plain_arrow ''T'' ''parquet'' []
       (stream_files ex_wire_cfg (w_disk w) ''T'' ''orderbook'' [2])
       (stream_files ex_wire_cfg (w_disk w) ''T'' ''trade'' [2]) = Inr (Some (oc, out)) \<and>
     EventIter_open plain_arrow (ex_store (out_batches out)) = Inr it \<and>
     (no_errors (event_items it) \<longrightarrow>
        rp_book (fold replayer_apply (rights (event_items it)) BookReplayer_default) =
          fold apply_msg (captured_msgs ''T'' (ss_sent ex_wire)) Book_default)"
proof -
  obtain w where w: "run_inputs (writer_step ex_wire_cfg) ex_wire_inputs ex_writer = Some w"
    "cr_halt_error (w_report w) = None" using ex_wire_run by blast
  have sess: "reachable (session_step ex_env) session_start ex_wire"
    unfolding ex_wire_def by (rule run_inputs_reachable [OF ex_run])
  have start: "writer_start ex_wire_cfg (Inr 9) (\<lambda>_. None) = Inr ex_writer"
    by (simp add: writer_start_def ex_wire_cfg_def ex_cfg_def guard_check_def writer_guard_def
        DiskGuard_new_def ex_writer_def)
  have inj: "inj (sl_show_day (wc_store ex_wire_cfg))"
    by (simp add: ex_wire_cfg_def inj_ex_day)
  have ev: "input_events ex_wire_inputs = ss_sent ex_wire" "list_all verify_write_ok ex_wire_inputs"
    by (simp_all add: ex_wire_inputs_def input_events_def ex_wire_sent)
  have days: "sorted [2 :: int]" "distinct [2 :: int]" "write_day ` set (all_writes ex_wire_inputs) \<subseteq> set [2]"
    "sorted (map write_day (all_writes ex_wire_inputs))"
    by (simp_all add: ex_wire_writes ex_io_def)
  let ?ob = "stream_files ex_wire_cfg (w_disk w) ''T'' ''orderbook'' [2]"
    and ?tr = "stream_files ex_wire_cfg (w_disk w) ''T'' ''trade'' [2]"
  have bytes: "bytes_at (w_disk w) (day_file ex_wire_cfg k) = stream_lines ex_wire_cfg k (all_writes ex_wire_inputs)" for k
    using written_files [OF start inj w] by (simp add: bytes_at_def)
  note rd = stream_files_read [OF bytes days conjI [OF ex_wire_codec write_version [OF ev(2)]]]
  have items: "input_items ex_wire_params ?ob ?tr =
      map (\<lambda>x. (''orderbook'', Inr (write_env x))) (all_writes ex_wire_inputs)"
    unfolding input_items_def by (simp only: rd) (simp add: ex_wire_writes)
  have "?ob \<noteq> []"
  proof
    assume "?ob = []"
    then have "input_items ex_wire_params ?ob ?tr = map (Pair ''trade'') (concat (map (\<lambda>f. read_envelopes (ep_from_str ex_wire_params) (snd f)) ?tr))"
      by (simp add: input_items_def)
    then show False unfolding items by (auto simp: ex_wire_writes)
  qed
  moreover have "list_all item_fits (input_items ex_wire_params ?ob ?tr)"
    unfolding items by (simp add: ex_wire_writes)
  ultimately obtain oc out where
    ok: "process_ticker ex_wire_params plain_arrow ''T'' ''parquet'' [] ?ob ?tr = Inr (Some (oc, out))"
    using process_ticker_result [OF arrow_ok_plain, of ?ob ?tr ex_wire_params "''T''" "''parquet''" "[]"] by auto
  from wire_to_replayed_book [OF sess start inj _ w ev days ex_wire_codec arrow_ok_plain ok ex_stored] ok w(1)
  show ?thesis by blast
qed

end
